(* ===== verification/Prelude.thy ===== *)
theory Prelude
  imports Main "HOL-Library.Word" "HOL-Library.Monad_Syntax"
begin

text \<open>
  Shared vocabulary of the development: the machine integers of the 32-bit target, bounded
  array access, and the generic facts about them that the component theories use.

  Undefined behaviour of the C code (a null or dangling pointer, an access outside an object,
  a division by zero, a loop that does not return) is the value \<open>None\<close>, so a model function
  that can run into it has an \<open>option\<close> type and is composed with \<open>Option.bind\<close> in
  \<open>do\<close>-blocks. Error codes that the C code returns are values of the result, not \<open>None\<close>.
\<close>

unbundle bit_operations_syntax

type_synonym u8 = "8 word"
type_synonym u16 = "16 word"
type_synonym u32 = "32 word"
type_synonym u64 = "64 word"

named_theorems access_simps \<open>bounded array access\<close>

section \<open>Bounded array access\<close>

definition read_at :: "'a list \<Rightarrow> nat \<Rightarrow> 'a option" where
  "read_at xs i = (if i < length xs then Some (xs ! i) else None)"

definition write_at :: "'a list \<Rightarrow> nat \<Rightarrow> 'a \<Rightarrow> 'a list option" where
  "write_at xs i v = (if i < length xs then Some (xs[i := v]) else None)"

lemma read_at_in [simp, access_simps]: "i < length xs \<Longrightarrow> read_at xs i = Some (xs ! i)"
  by (simp add: read_at_def)

lemma read_at_out [simp, access_simps]: "length xs \<le> i \<Longrightarrow> read_at xs i = None"
  by (simp add: read_at_def)

lemma write_at_in [simp, access_simps]: "i < length xs \<Longrightarrow> write_at xs i v = Some (xs[i := v])"
  by (simp add: write_at_def)

lemma write_at_out [simp, access_simps]: "length xs \<le> i \<Longrightarrow> write_at xs i v = None"
  by (simp add: write_at_def)

lemma read_at_Some_iff: "read_at xs i = Some v \<longleftrightarrow> i < length xs \<and> v = xs ! i"
  by (auto simp: read_at_def)

lemma write_at_Some_iff: "write_at xs i v = Some ys \<longleftrightarrow> i < length xs \<and> ys = xs[i := v]"
  by (auto simp: write_at_def)

lemma read_at_None_iff: "read_at xs i = None \<longleftrightarrow> length xs \<le> i"
  by (auto simp: read_at_def)

lemma write_at_None_iff: "write_at xs i v = None \<longleftrightarrow> length xs \<le> i"
  by (auto simp: write_at_def)

lemma read_write_at:
  "write_at xs i v = Some ys \<Longrightarrow> read_at ys j = (if j = i then Some v else read_at xs j)"
  by (auto simp: write_at_Some_iff read_at_def)

lemma length_write_at: "write_at xs i v = Some ys \<Longrightarrow> length ys = length xs"
  by (auto simp: write_at_Some_iff)

lemmas access_iffs = read_at_Some_iff write_at_Some_iff read_at_None_iff write_at_None_iff

lemma bind_SomeE: "x \<bind> f = Some r \<Longrightarrow> (\<And>y. x = Some y \<Longrightarrow> f y = Some r \<Longrightarrow> thesis) \<Longrightarrow> thesis"
  by (cases x) auto

lemma case_prod_SomeE:
  "(case p of (a, b) \<Rightarrow> f a b) = Some r \<Longrightarrow> (\<And>a b. p = (a, b) \<Longrightarrow> f a b = Some r \<Longrightarrow> thesis) \<Longrightarrow> thesis"
  by (cases p) auto

section \<open>Numbers in buffers\<close>

text \<open>Lowest byte first.\<close>

definition le16 :: "u8 list \<Rightarrow> nat \<Rightarrow> u16 option" where
  "le16 bs i = do { a \<leftarrow> read_at bs i; b \<leftarrow> read_at bs (i + 1); Some (ucast a OR push_bit 8 (ucast b)) }"

definition le32 :: "u8 list \<Rightarrow> nat \<Rightarrow> u32 option" where
  "le32 bs i = do { a \<leftarrow> le16 bs i; b \<leftarrow> le16 bs (i + 2); Some (ucast a OR push_bit 16 (ucast b)) }"

definition bytes_of_u32 :: "u32 \<Rightarrow> u8 list" where
  "bytes_of_u32 w = [ucast w, ucast (drop_bit 8 w), ucast (drop_bit 16 w), ucast (drop_bit 24 w)]"

section \<open>Fallible iteration and bounded suffixes\<close>

primrec bind_fold :: "('s \<Rightarrow> 'b \<Rightarrow> 's option) \<Rightarrow> 's \<Rightarrow> 'b list \<Rightarrow> 's option" where
  "bind_fold f s [] = Some s"
| "bind_fold f s (x # xs) = do { s' \<leftarrow> f s x; bind_fold f s' xs }"

lemma bind_fold_append: "bind_fold f s (xs @ ys) = do { s' \<leftarrow> bind_fold f s xs; bind_fold f s' ys }"
  by (induction xs arbitrary: s) simp_all

text \<open>A property of the state that every round keeps, and one that also depends on the round.\<close>

lemma bind_fold_inv:
  assumes "\<And>x s. x \<in> set xs \<Longrightarrow> P s \<Longrightarrow> \<exists>s'. f s x = Some s' \<and> P s'" "P s"
  shows "\<exists>s'. bind_fold f s xs = Some s' \<and> P s'"
  using assms
proof (induction xs arbitrary: s)
  case (Cons x xs)
  obtain s1 where s1: "f s x = Some s1" "P s1" using Cons.prems by force
  obtain s' where "bind_fold f s1 xs = Some s'" "P s'" using Cons.IH [OF _ s1(2)] Cons.prems(1) by auto
  then show ?case using s1(1) by simp
qed simp

lemma bind_fold_upt:
  assumes "\<And>k s. k < n \<Longrightarrow> P k s \<Longrightarrow> \<exists>s'. f s k = Some s' \<and> P (Suc k) s'" "P 0 s"
  shows "\<exists>s'. bind_fold f s [0..<n] = Some s' \<and> P n s'"
proof -
  have "m \<le> n \<Longrightarrow> \<exists>s'. bind_fold f s [0..<m] = Some s' \<and> P m s'" for m
  proof (induction m)
    case (Suc m)
    then obtain s1 where s1: "bind_fold f s [0..<m] = Some s1" "P m s1" by auto
    then obtain s2 where "f s1 m = Some s2" "P (Suc m) s2" using assms(1) [of m s1] Suc.prems by auto
    then show ?case using s1(1) by (simp add: bind_fold_append)
  qed (simp add: assms(2))
  then show ?thesis by blast
qed

definition keep_last :: "nat \<Rightarrow> 'a list \<Rightarrow> 'a list" where
  "keep_last n xs = drop (length xs - n) xs"

lemma length_keep_last [simp]: "length (keep_last n xs) = min n (length xs)"
  by (auto simp: keep_last_def)

lemma keep_last_short [simp]: "length xs \<le> n \<Longrightarrow> keep_last n xs = xs"
  by (simp add: keep_last_def)

lemma keep_last_keep_last: "keep_last n (keep_last n xs @ ys) = keep_last n (xs @ ys)"
  by (cases "length xs \<le> n") (auto simp: keep_last_def add.commute)

section \<open>Rows of a screen\<close>

text \<open>\<open>memcpy\<close> of the row \<open>i + 1\<close> of \<open>mx\<close> elements to the row \<open>i\<close>.\<close>

definition copy_row :: "nat \<Rightarrow> 'a list \<Rightarrow> nat \<Rightarrow> 'a list option" where
  "copy_row mx buffer i =
     (if (i + 2) * mx \<le> length buffer
      then Some (take (i * mx) buffer @ take mx (drop ((i + 1) * mx) buffer) @ drop ((i + 1) * mx) buffer)
      else None)"

lemma copy_rows:
  "k \<le> n \<Longrightarrow> (n + 1) * mx \<le> length b \<Longrightarrow>
   bind_fold (copy_row mx) b [0..<k] = Some (take (k * mx) (drop mx b) @ drop (k * mx) b)"
proof (induction k)
  case (Suc k)
  let ?b = "take (k * mx) (drop mx b) @ drop (k * mx) b"
  have le: "(k + 2) * mx \<le> length b"
    using Suc.prems mult_le_mono1 [of "k + 2" "n + 1" mx] by simp
  have kl: "k * mx \<le> length b - mx" "length ?b = length b" using le by (simp_all add: algebra_simps)
  have t: "take (k * mx) ?b = take (k * mx) (drop mx b)" using kl by simp
  have d: "drop ((k + 1) * mx) ?b = drop ((k + 1) * mx) b" using kl by (simp add: algebra_simps)
  have "take mx (drop ((k + 1) * mx) b) = take mx (drop (k * mx) (drop mx b))" by (simp add: algebra_simps)
  then have "copy_row mx ?b k = Some (take (k * mx) (drop mx b) @ take mx (drop (k * mx) (drop mx b)) @ drop ((k + 1) * mx) b)"
    using le kl(2) t d by (simp add: copy_row_def)
  moreover have "take (Suc k * mx) (drop mx b) = take (k * mx) (drop mx b) @ take mx (drop (k * mx) (drop mx b))"
    using take_add [of "k * mx" mx "drop mx b"] by (simp add: add.commute)
  ultimately show ?case using Suc by (simp add: bind_fold_append)
qed simp

section \<open>Cutting a list at separators\<close>

fun splits :: "('a \<Rightarrow> bool) \<Rightarrow> 'a list \<Rightarrow> 'a list list" where
  "splits P [] = [[]]"
| "splits P (x # xs) = (if P x then [] # splits P xs else (x # hd (splits P xs)) # tl (splits P xs))"

lemma splits_not_Nil [simp]: "splits P xs \<noteq> []"
  by (cases xs) simp_all

lemma splits_append: "\<forall>x \<in> set xs. \<not> P x \<Longrightarrow> splits P (xs @ ys) = (xs @ hd (splits P ys)) # tl (splits P ys)"
  by (induction xs) simp_all

lemma splits_end: "\<forall>x \<in> set xs. \<not> P x \<Longrightarrow> splits P xs = [xs]"
  using splits_append [of xs P "[]"] by simp

lemma splits_sep: "\<forall>x \<in> set xs. \<not> P x \<Longrightarrow> P c \<Longrightarrow> splits P (xs @ c # ys) = xs # splits P ys"
  by (simp add: splits_append)

section \<open>C integer conversions\<close>

lemma unat_u32_less [simp, intro]: "unat (w :: u32) < 2 ^ 32"
  using unsigned_less [of w] by simp

lemma unat_u32_less_num [simp, intro]: "unat (w :: u32) < 4294967296"
  using unat_u32_less [of w] by simp

lemma unat_eq_u32_iff: "unat v = unat w \<longleftrightarrow> v = w" for v w :: "'a::len word"
  by (simp add: word_unat_eq_iff)

lemma unat_of_nat_small: "n < 2 ^ 32 \<Longrightarrow> unat (of_nat n :: u32) = n"
  by (simp add: unat_of_nat take_bit_nat_eq_self)

lemma sint_of_nat_u32: "i < 2 ^ 31 \<Longrightarrow> sint (of_nat i :: u32) = int i"
  by (simp add: sint_uint uint_nat unat_of_nat take_bit_nat_eq_self signed_take_bit_int_eq_self)

lemma unat_pred: "0 < unat w \<Longrightarrow> unat (w - 1) = unat w - 1" for w :: "'a::len word"
  by (metis less_irrefl unat_0 unat_minus_one)

lemma unat_succ: "unat w < n \<Longrightarrow> n < 2 ^ LENGTH('a) \<Longrightarrow> unat (w + 1) = Suc (unat w)"
  for w :: "'a::len word"
  by (simp add: unat_word_ariths)

text \<open>The unsigned 32-bit value a C \<open>int\<close> converts to in a mixed comparison, as a \<open>nat\<close>.\<close>

definition u32_of_int :: "int \<Rightarrow> nat" where
  "u32_of_int i = nat (i mod 2 ^ 32)"

lemma u32_of_int_nat [simp]: "n < 2 ^ 32 \<Longrightarrow> u32_of_int (int n) = n"
  by (simp add: u32_of_int_def flip: zmod_int)

lemma u32_of_int_neg:
  assumes "- (2 ^ 31) \<le> i" "i < 0"
  shows "2 ^ 31 \<le> u32_of_int i"
proof -
  have "i mod 2 ^ 32 = i + 2 ^ 32"
    using assms by (intro int_mod_pos_eq [of _ _ "-1"] ) auto
  then show ?thesis using assms by (simp add: u32_of_int_def)
qed

lemma and_0x80: "c AND 0x80 = (if bit c 7 then 0x80 else 0)" for c :: u8
proof -
  have "c AND push_bit 7 1 = (if bit c 7 then push_bit 7 1 else 0)"
  proof (rule bit_word_eqI)
    fix n assume "n < LENGTH(8)"
    then have "7 \<le> n \<Longrightarrow> n = 7" by simp
    then show "bit (c AND push_bit 7 1) n = bit (if bit c 7 then push_bit 7 1 else 0 :: u8) n"
      by (auto simp del: push_bit_of_1 simp: bit_simps)
  qed
  then show ?thesis by simp
qed

end
