(* ===== verification/Interfaces.thy ===== *)
theory Interfaces
  imports Prelude
begin

text \<open>
  The contracts that components of the kernel rely on, as locales: a table of slots with
  lowest-index allocation (file descriptors, inodes), a bounded byte queue (pipes, the
  keyboard), an allocator of blocks, and a device that takes its input item by item (consoles). The component that provides an operation interprets
  the locale on its model; clients use the facts of that interpretation.
\<close>

section \<open>A table of slots\<close>

locale slot_table =
  fixes inv :: "'t \<Rightarrow> bool"
    and room :: "'t \<Rightarrow> bool"
    and empty :: "'t"
    and lookup :: "'t \<Rightarrow> nat \<Rightarrow> 'a option"
    and add :: "'t \<Rightarrow> 'a \<Rightarrow> ('t \<times> nat) option"
    and remove :: "'t \<Rightarrow> nat \<Rightarrow> 't option"
  assumes inv_empty: "inv empty"
    and lookup_empty: "lookup empty i = None"
    and add_ok: "inv t \<Longrightarrow> room t \<Longrightarrow> \<exists>t' i. add t v = Some (t', i) \<and> inv t' \<and> lookup t i = None
        \<and> (\<forall>k < i. lookup t k \<noteq> None) \<and> lookup t' = (lookup t)(i := Some v)"
    and remove_ok: "inv t \<Longrightarrow> lookup t i \<noteq> None \<Longrightarrow>
        \<exists>t'. remove t i = Some t' \<and> inv t' \<and> lookup t' = (lookup t)(i := None)"
begin

lemma add_inv: "inv t \<Longrightarrow> room t \<Longrightarrow> add t v = Some (t', i) \<Longrightarrow> inv t'"
  using add_ok [of t v] by auto

lemma add_fresh: "inv t \<Longrightarrow> room t \<Longrightarrow> add t v = Some (t', i) \<Longrightarrow> lookup t i = None"
  using add_ok [of t v] by auto

lemma add_lookup: "inv t \<Longrightarrow> room t \<Longrightarrow> add t v = Some (t', i) \<Longrightarrow> lookup t' = (lookup t)(i := Some v)"
  using add_ok [of t v] by auto

lemma add_lowest: "inv t \<Longrightarrow> room t \<Longrightarrow> add t v = Some (t', i) \<Longrightarrow> lookup t k = None \<Longrightarrow> i \<le> k"
  using add_ok [of t v] by (auto simp: not_less [symmetric])

lemma add_total: "inv t \<Longrightarrow> room t \<Longrightarrow> \<exists>t' i. add t v = Some (t', i)"
  using add_ok by blast

text \<open>Two additions in a row never return the same index.\<close>

lemma add_add_distinct:
  assumes "inv t" "room t" "add t v = Some (t', i)" "room t'" "add t' w = Some (t'', j)"
  shows "i \<noteq> j \<and> lookup t'' i = Some v \<and> lookup t'' j = Some w"
proof -
  have t': "inv t'" "lookup t' = (lookup t)(i := Some v)"
    using assms(1-3) add_inv add_lookup by blast+
  have "lookup t' j = None" and t'': "lookup t'' = (lookup t')(j := Some w)"
    using t'(1) assms(4,5) add_fresh add_lookup by blast+
  with t'(2) have "i \<noteq> j" by auto
  with t'' t'(2) show ?thesis by simp
qed

text \<open>A slot that is freed is handed out again before any slot above it.\<close>

lemma remove_add_reuse:
  assumes "inv t" "lookup t i = Some v" "remove t i = Some t'" "room t'" "add t' w = Some (t'', j)"
  shows "j \<le> i"
proof -
  have "inv t'" "lookup t' i = None"
    using remove_ok [OF assms(1), of i] assms(2,3) by auto
  then show ?thesis using add_lowest assms(4,5) by blast
qed

end

section \<open>A bounded queue that forgets its oldest elements\<close>

locale bounded_queue =
  fixes inv :: "'q \<Rightarrow> bool"
    and contents :: "'q \<Rightarrow> 'a list"
    and cap :: "'q \<Rightarrow> nat"
    and put :: "'q \<Rightarrow> 'a \<Rightarrow> 'q option"
    and get :: "'q \<Rightarrow> nat \<Rightarrow> ('q \<times> 'a list) option"
  assumes put_ok: "inv q \<Longrightarrow> \<exists>q'. put q b = Some q' \<and> inv q' \<and> cap q' = cap q
        \<and> contents q' = keep_last (cap q) (contents q @ [b])"
    and get_ok: "inv q \<Longrightarrow> \<exists>q'. get q n = Some (q', take n (contents q)) \<and> inv q' \<and> cap q' = cap q
        \<and> contents q' = drop n (contents q)"
    and contents_le: "inv q \<Longrightarrow> length (contents q) \<le> cap q"
begin

lemma put_all_ok:
  "inv q \<Longrightarrow> \<exists>q'. bind_fold put q bs = Some q' \<and> inv q' \<and> cap q' = cap q
     \<and> contents q' = keep_last (cap q) (contents q @ bs)"
proof (induction bs arbitrary: q)
  case Nil
  then show ?case using contents_le by simp
next
  case (Cons b bs)
  from put_ok [OF Cons.prems, of b] obtain q1 where q1: "put q b = Some q1" "inv q1"
    "cap q1 = cap q" "contents q1 = keep_last (cap q) (contents q @ [b])"
    by blast
  from Cons.IH [OF q1(2)] q1 show ?case
    by (auto simp: keep_last_keep_last [of "cap q" "contents q @ [b]" bs, simplified])
qed

text \<open>What fits is read back unchanged and in order.\<close>

lemma put_all_get:
  assumes "inv q" "contents q = []" "length bs \<le> cap q" "bind_fold put q bs = Some q'"
  shows "\<exists>q''. get q' n = Some (q'', take n bs) \<and> contents q'' = drop n bs"
  using put_all_ok [OF assms(1), of bs] get_ok [of q' n] assms(2-4) by auto

text \<open>Two reads deliver what one read of the joint length delivers.\<close>

lemma get_get:
  assumes "inv q" "get q n = Some (q1, xs)" "get q1 k = Some (q2, ys)"
  shows "\<exists>q3. get q (n + k) = Some (q3, xs @ ys) \<and> contents q3 = contents q2"
proof -
  have q1: "inv q1" "xs = take n (contents q)" "contents q1 = drop n (contents q)"
    using get_ok [OF assms(1), of n] assms(2) by auto
  have "ys = take k (contents q1)" "contents q2 = drop k (contents q1)"
    using get_ok [OF q1(1), of k] assms(3) by auto
  then show ?thesis
    using get_ok [OF assms(1), of "n + k"] q1 by (auto simp: take_add [of n k] drop_drop add.commute [of k n])
qed

end

section \<open>A source of pages\<close>

definition page_run :: "u32 \<Rightarrow> nat \<Rightarrow> u32 set" where
  "page_run p n = (\<lambda>k. p + 0x1000 * of_nat k) ` {..< max 1 n}"

locale page_source =
  fixes inv :: "'s \<Rightarrow> bool"
    and held :: "'s \<Rightarrow> u32 set"
    and alloc :: "'s \<Rightarrow> nat \<Rightarrow> ('s \<times> u32) option"
    and release :: "'s \<Rightarrow> u32 \<Rightarrow> 's option"
  assumes alloc_ok: "inv s \<Longrightarrow> alloc s n = Some (s', p) \<Longrightarrow> p \<noteq> 0 \<Longrightarrow>
        inv s' \<and> held s' = held s \<union> page_run p n \<and> held s \<inter> page_run p n = {}"
    and alloc_none: "inv s \<Longrightarrow> alloc s n = Some (s', 0) \<Longrightarrow> inv s' \<and> held s' = held s"
    and release_ok: "inv s \<Longrightarrow> p \<in> held s \<Longrightarrow>
        \<exists>s'. release s p = Some s' \<and> inv s' \<and> held s' = held s - {p}"
    and held_aligned: "inv s \<Longrightarrow> p \<in> held s \<Longrightarrow> p AND 0xfff = 0"
    and held_nonzero: "inv s \<Longrightarrow> 0 \<notin> held s"
begin

text \<open>Two allocations never share a page.\<close>

lemma alloc_alloc_disjoint:
  assumes "inv s" "alloc s n = Some (s1, p)" "p \<noteq> 0" "alloc s1 k = Some (s2, q)" "q \<noteq> 0"
  shows "page_run p n \<inter> page_run q k = {}"
  using alloc_ok [OF assms(1-3)] alloc_ok [OF _ assms(4,5)] by auto

lemma alloc_first: "inv s \<Longrightarrow> alloc s n = Some (s', p) \<Longrightarrow> p \<noteq> 0 \<Longrightarrow> p \<in> held s' \<and> p \<notin> held s"
proof -
  have "p \<in> page_run p n" by (auto simp: page_run_def image_iff intro!: bexI [of _ 0])
  then show "inv s \<Longrightarrow> alloc s n = Some (s', p) \<Longrightarrow> p \<noteq> 0 \<Longrightarrow> p \<in> held s' \<and> p \<notin> held s"
    using alloc_ok [of s n s' p] by auto
qed

text \<open>A single page that is given back leaves what was held before.\<close>

lemma alloc_release:
  assumes "inv s" "alloc s 1 = Some (s1, p)" "p \<noteq> 0"
  shows "\<exists>s2. release s1 p = Some s2 \<and> inv s2 \<and> held s2 = held s"
proof -
  have r: "page_run p 1 = {p}" by (auto simp: page_run_def)
  have s1: "inv s1" "held s1 = held s \<union> {p}" "p \<notin> held s"
    using alloc_ok [OF assms] unfolding r by auto
  then show ?thesis using release_ok [of s1 p] by auto
qed

end

section \<open>A device that takes its input item by item\<close>

text \<open>Every step from a good state with acceptable input succeeds and leads to a good state.\<close>

locale safe_device =
  fixes inv :: "'s \<Rightarrow> bool"
    and valid :: "'b \<Rightarrow> bool"
    and step :: "'s \<Rightarrow> 'b \<Rightarrow> 's option"
  assumes step_ok: "inv s \<Longrightarrow> valid b \<Longrightarrow> \<exists>s'. step s b = Some s' \<and> inv s'"
begin

lemma run_ok: "inv s \<Longrightarrow> list_all valid bs \<Longrightarrow> \<exists>s'. bind_fold step s bs = Some s' \<and> inv s'"
  by (rule bind_fold_inv) (auto simp: list_all_iff intro: step_ok)

lemma step_inv: "inv s \<Longrightarrow> valid b \<Longrightarrow> step s b = Some s' \<Longrightarrow> inv s'"
  using step_ok [of s b] by auto

lemma run_inv: "inv s \<Longrightarrow> list_all valid bs \<Longrightarrow> bind_fold step s bs = Some s' \<Longrightarrow> inv s'"
  using run_ok [of s bs] by auto

text \<open>Input in two parts is input in one.\<close>

lemma run_append:
  assumes "inv s" "list_all valid bs" "list_all valid cs"
  shows "\<exists>s1 s2. bind_fold step s bs = Some s1 \<and> bind_fold step s1 cs = Some s2 \<and> bind_fold step s (bs @ cs) = Some s2"
proof -
  obtain s1 where s1: "bind_fold step s bs = Some s1" "inv s1" using run_ok [OF assms(1,2)] by blast
  then show ?thesis using run_ok [OF s1(2) assms(3)] by (auto simp: bind_fold_append)
qed

end

text \<open>In addition, what is observed of the state follows a function of the input.\<close>

locale observed_device = safe_device inv valid step
  for inv :: "'s \<Rightarrow> bool" and valid :: "'b \<Rightarrow> bool" and step :: "'s \<Rightarrow> 'b \<Rightarrow> 's option" +
  fixes view :: "'s \<Rightarrow> 'v"
    and effect :: "'b \<Rightarrow> 'v \<Rightarrow> 'v"
  assumes step_view: "inv s \<Longrightarrow> valid b \<Longrightarrow> step s b = Some s' \<Longrightarrow> view s' = effect b (view s)"
begin

lemma run_view:
  "inv s \<Longrightarrow> list_all valid bs \<Longrightarrow> \<exists>s'. bind_fold step s bs = Some s' \<and> inv s' \<and> view s' = fold effect bs (view s)"
proof (induction bs arbitrary: s)
  case (Cons b bs)
  obtain s1 where s1: "step s b = Some s1" "inv s1" using step_ok [of s b] Cons.prems by auto
  then show ?case using Cons.IH [OF s1(2)] Cons.prems step_view [of s b s1] by auto
qed simp

end

end
