(* ===== verification/DList.thy ===== *)
theory DList
  imports Interfaces
begin

text \<open>
  \<^verbatim>\<open>kernel/base/datastructs/dlist.c\<close>: the growable pointer table behind file descriptors,
  ramfs inodes and directories, initrd headers and module dependencies. A slot that holds the
  null pointer is free. The block sizes are naturals (an allocation of that many pointers would
  exhaust memory long before the 32-bit product wraps); the entry counter \<open>dl_used\<close> is kept at
  its machine width, because the code can take it below zero.
\<close>

section \<open>State and operations\<close>

record 'a dlist =
  dl_entries :: "'a option list"
  dl_used :: u32
  dl_alloced :: nat
  dl_block_size :: nat
  dl_blocks_alloced :: nat

definition DLIST_DEFAULT_BLOCKSIZE :: nat where
  "DLIST_DEFAULT_BLOCKSIZE = 8"

definition dlist_create :: "nat \<Rightarrow> nat \<Rightarrow> 'a dlist" where
  "dlist_create block_size prealloc =
     (let bs = (if block_size \<noteq> 0 then block_size else DLIST_DEFAULT_BLOCKSIZE);
          blocks = (if prealloc \<noteq> 0 then prealloc else 1)
      in \<lparr>dl_entries = replicate (bs * blocks) None, dl_used = 0, dl_alloced = bs * blocks,
          dl_block_size = bs, dl_blocks_alloced = blocks\<rparr>)"

text \<open>The search loop \<open>for ( i = 0; i < alloced && entries[i]; i++ )\<close>.\<close>

function dlist_find_free :: "'a option list \<Rightarrow> nat \<Rightarrow> nat \<Rightarrow> nat option" where
  "dlist_find_free es alloced i =
     (if i < alloced
      then (case read_at es i of
              None \<Rightarrow> None
            | Some None \<Rightarrow> Some i
            | Some (Some _) \<Rightarrow> dlist_find_free es alloced (Suc i))
      else Some i)"
  by pat_completeness auto
termination
  by (relation "measure (\<lambda>(es, alloced, i). alloced - i)") auto

declare dlist_find_free.simps [simp del]

text \<open>The block that \<open>krealloc\<close> returns: the old entries, then space for more. What the new
  space holds does not matter, the loop that follows clears every slot of it.\<close>

definition dlist_krealloc :: "'a option list \<Rightarrow> nat \<Rightarrow> 'a option list" where
  "dlist_krealloc es n = take n es @ replicate (n - length es) None"

text \<open>\<open>for ( j = i; j < alloced; j++ ) entries[j] = 0\<close>.\<close>

function dlist_clear_from :: "'a option list \<Rightarrow> nat \<Rightarrow> nat \<Rightarrow> 'a option list option" where
  "dlist_clear_from es j alloced =
     (if j < alloced
      then do { es' \<leftarrow> write_at es j None; dlist_clear_from es' (Suc j) alloced }
      else Some es)"
  by pat_completeness auto
termination
  by (relation "measure (\<lambda>(es, j, alloced). alloced - j)") auto

declare dlist_clear_from.simps [simp del]

definition dlist_add :: "'a dlist \<Rightarrow> 'a option \<Rightarrow> ('a dlist \<times> nat) option" where
  "dlist_add l data = do {
     i \<leftarrow> dlist_find_free (dl_entries l) (dl_alloced l) 0;
     l' \<leftarrow> (if dl_alloced l \<noteq> 0 \<and> dl_alloced l - 1 \<le> i
            then do {
              let es = dlist_krealloc (dl_entries l) ((dl_blocks_alloced l + 1) * dl_block_size l);
              let alloced = dl_alloced l + dl_block_size l;
              es' \<leftarrow> dlist_clear_from es i alloced;
              Some (l\<lparr>dl_entries := es', dl_alloced := alloced,
                      dl_blocks_alloced := dl_blocks_alloced l + 1\<rparr>)
            }
            else Some l);
     es \<leftarrow> write_at (dl_entries l') i data;
     Some (l'\<lparr>dl_entries := es, dl_used := dl_used l' + 1\<rparr>, i)
   }"

text \<open>The index arguments are C \<open>int\<close>s compared with an unsigned bound.\<close>

definition dlist_remove :: "'a dlist \<Rightarrow> int \<Rightarrow> 'a dlist option" where
  "dlist_remove l index =
     (let k = u32_of_int index in
      if k < dl_alloced l
      then do {
        e \<leftarrow> read_at (dl_entries l) k;
        (case e of
           None \<Rightarrow> Some l
         | Some _ \<Rightarrow> do {
             es \<leftarrow> write_at (dl_entries l) k None;
             Some (l\<lparr>dl_entries := es, dl_used := dl_used l - 1\<rparr>)
           })
      }
      else Some l)"

definition dlist_get :: "'a dlist \<Rightarrow> int \<Rightarrow> 'a option option" where
  "dlist_get l index =
     (let k = u32_of_int index in
      if k < dl_alloced l then read_at (dl_entries l) k else Some None)"

definition dlist_set :: "'a dlist \<Rightarrow> int \<Rightarrow> 'a option \<Rightarrow> ('a dlist \<times> 'a option) option" where
  "dlist_set l index data =
     (let k = u32_of_int index in
      if k < dl_alloced l
      then do {
        es \<leftarrow> write_at (dl_entries l) k data;
        Some (l\<lparr>dl_entries := es\<rparr>, data)
      }
      else Some (l, None))"

definition dlist_allocated :: "'a dlist \<Rightarrow> nat" where
  "dlist_allocated l = dl_alloced l"

definition dlist_used :: "'a dlist \<Rightarrow> u32" where
  "dlist_used l = dl_used l"

section \<open>Well-formedness\<close>

text \<open>The capacity is a positive whole number of blocks and is the size of the table. The bound
  keeps every index a non-negative C \<open>int\<close>.\<close>

definition dlist_wf :: "'a dlist \<Rightarrow> bool" where
  "dlist_wf l \<longleftrightarrow> dl_alloced l = length (dl_entries l)
     \<and> dl_alloced l = dl_blocks_alloced l * dl_block_size l
     \<and> 0 < dl_block_size l \<and> 0 < dl_blocks_alloced l"

abbreviation dlist_room :: "'a dlist \<Rightarrow> bool" where
  "dlist_room l \<equiv> dl_alloced l + dl_block_size l < 2 ^ 31"

definition dlist_lookup :: "'a dlist \<Rightarrow> nat \<Rightarrow> 'a option" where
  "dlist_lookup l i = (if i < length (dl_entries l) then dl_entries l ! i else None)"

lemma dlist_wf_create [simp]: "dlist_wf (dlist_create bs n)"
  by (simp add: dlist_wf_def dlist_create_def Let_def DLIST_DEFAULT_BLOCKSIZE_def)

lemma dlist_lookup_create [simp]: "dlist_lookup (dlist_create bs n) i = None"
  by (simp add: dlist_lookup_def dlist_create_def Let_def)

lemma dlist_wf_alloced_pos: "dlist_wf l \<Longrightarrow> 0 < dl_alloced l"
  unfolding dlist_wf_def by (metis nat_0_less_mult_iff)

section \<open>The search and clearing loops\<close>

lemma dlist_find_free_ok:
  assumes "length es = n" "i \<le> n"
  shows "\<exists>k. dlist_find_free es n i = Some k \<and> i \<le> k \<and> k \<le> n
      \<and> (k < n \<longrightarrow> es ! k = None) \<and> (\<forall>j. i \<le> j \<and> j < k \<longrightarrow> es ! j \<noteq> None)"
  using assms
proof (induction es n i rule: dlist_find_free.induct)
  case (1 es n i)
  show ?case
  proof (cases "i < n \<and> es ! i \<noteq> None")
    case True
    then obtain v where v: "i < n" "es ! i = Some v" by auto
    with "1.IH" [of "Some v" v] "1.prems" obtain k where
      "dlist_find_free es n (Suc i) = Some k" "Suc i \<le> k" "k \<le> n" "k < n \<longrightarrow> es ! k = None"
      "\<forall>j. Suc i \<le> j \<and> j < k \<longrightarrow> es ! j \<noteq> None"
      by auto
    moreover from this(5) v(2) have "\<forall>j. i \<le> j \<and> j < k \<longrightarrow> es ! j \<noteq> None"
      by (metis Suc_leI le_neq_implies_less option.distinct(1))
    ultimately show ?thesis
      using v "1.prems" by (auto simp: dlist_find_free.simps [of es n i])
  next
    case False
    with "1.prems" show ?thesis
      by (auto simp: dlist_find_free.simps [of es n i])
  qed
qed

lemma dlist_clear_from_ok:
  "n \<le> length es \<Longrightarrow> j \<le> n \<Longrightarrow>
   dlist_clear_from es j n = Some (take j es @ replicate (n - j) None @ drop n es)"
proof (induction es j n rule: dlist_clear_from.induct)
  case (1 es j n)
  show ?case
  proof (cases "j < n")
    case True
    with 1 have "dlist_clear_from (es[j := None]) (Suc j) n =
        Some (take (Suc j) (es[j := None]) @ replicate (n - Suc j) None @ drop n (es[j := None]))"
      by simp
    moreover have "replicate (n - j) (None :: 'a option) = None # replicate (n - Suc j) None"
      using True by (metis Suc_diff_Suc replicate_Suc)
    moreover have "take (Suc j) (es[j := None]) = take j es @ [None]"
      using True "1.prems" by (simp add: take_Suc_conv_app_nth)
    ultimately show ?thesis
      using True "1.prems" by (simp add: dlist_clear_from.simps [of es j n])
  next
    case False
    with "1.prems" show ?thesis
      by (subst dlist_clear_from.simps) simp
  qed
qed

section \<open>Functional behaviour\<close>

text \<open>Growing the table keeps every entry: the slots that the loop clears were free.\<close>

lemma dlist_grow_ok:
  assumes wf: "dlist_wf l" and k: "k \<le> dl_alloced l" "dl_alloced l - 1 \<le> k"
    and free: "k < dl_alloced l \<longrightarrow> dl_entries l ! k = None"
  shows "dlist_clear_from (dlist_krealloc (dl_entries l) ((dl_blocks_alloced l + 1) * dl_block_size l)) k
           (dl_alloced l + dl_block_size l)
         = Some (dl_entries l @ replicate (dl_block_size l) None)"
proof -
  let ?es = "dl_entries l" and ?n = "dl_alloced l" and ?b = "dl_block_size l"
  have n: "?n = length ?es" "(dl_blocks_alloced l + 1) * ?b = ?n + ?b"
    using wf by (auto simp: dlist_wf_def)
  have le: "?n + ?b \<le> length (?es @ replicate ?b (None :: 'a option))" "k \<le> ?n + ?b"
    using n k by auto
  have re: "dlist_krealloc ?es ((dl_blocks_alloced l + 1) * ?b) = ?es @ replicate ?b None"
    using n by (simp add: dlist_krealloc_def)
  have *: "take k (?es @ replicate ?b None) @ replicate (?n + ?b - k) (None :: 'a option)
      = ?es @ replicate ?b None"
  proof (cases "k = ?n")
    case True
    then show ?thesis using n by simp
  next
    case False
    with k have kn: "?n = Suc k" by simp
    with free n have "?es = take k ?es @ [None]"
      by (metis lessI take_Suc_conv_app_nth take_all order_refl)
    moreover have "replicate (?n + ?b - k) (None :: 'a option) = [None] @ replicate ?b None"
      using kn by simp
    ultimately show ?thesis using n kn
      by (metis append.assoc diff_Suc_1 diff_is_0_eq' le_SucI order_refl append_Nil2 take0 take_append)
  qed
  have "drop (?n + ?b) (?es @ replicate ?b (None :: 'a option)) = []"
    using n by simp
  with * show ?thesis
    unfolding re dlist_clear_from_ok [OF le] by simp
qed

lemma dlist_add_ok:
  assumes wf: "dlist_wf l"
  shows "\<exists>l' i. dlist_add l d = Some (l', i) \<and> dlist_wf l' \<and> dlist_lookup l i = None
      \<and> (\<forall>k < i. dlist_lookup l k \<noteq> None) \<and> dlist_lookup l' = (dlist_lookup l)(i := d)
      \<and> dl_used l' = dl_used l + 1 \<and> i < dl_alloced l'
      \<and> dl_alloced l' \<le> dl_alloced l + dl_block_size l \<and> dl_block_size l' = dl_block_size l"
proof -
  let ?es = "dl_entries l" and ?n = "dl_alloced l" and ?b = "dl_block_size l"
  have len: "length ?es = ?n" and pos: "0 < ?n" and b: "0 < ?b"
    using wf dlist_wf_alloced_pos by (auto simp: dlist_wf_def)
  obtain k where k: "dlist_find_free ?es ?n 0 = Some k" "k \<le> ?n" "k < ?n \<longrightarrow> ?es ! k = None"
    "\<forall>j < k. ?es ! j \<noteq> None"
    using dlist_find_free_ok [OF len, of 0] by auto
  have low: "dlist_lookup l k = None" "\<forall>j < k. dlist_lookup l j \<noteq> None"
    using k len by (auto simp: dlist_lookup_def)
  show ?thesis
  proof (cases "?n - 1 \<le> k")
    case True
    let ?l' = "l\<lparr>dl_entries := (?es @ replicate ?b None)[k := d], dl_used := dl_used l + 1,
      dl_alloced := ?n + ?b, dl_blocks_alloced := dl_blocks_alloced l + 1\<rparr>"
    have "dlist_add l d = Some (?l', k)"
      using k(1,2) True pos b len dlist_grow_ok [OF wf k(2) True k(3)]
      by (simp add: dlist_add_def Let_def)
    moreover have "dlist_wf ?l'" using wf by (auto simp: dlist_wf_def)
    moreover have "dlist_lookup ?l' = (dlist_lookup l)(k := d)"
      using k(2) b len
      by (auto simp: fun_eq_iff dlist_lookup_def nth_list_update nth_append)
    ultimately show ?thesis using low k(2) b by auto
  next
    case False
    let ?l' = "l\<lparr>dl_entries := ?es[k := d], dl_used := dl_used l + 1\<rparr>"
    have "dlist_add l d = Some (?l', k)"
      using k(1,2) False len by (simp add: dlist_add_def)
    moreover have "dlist_wf ?l'" using wf by (auto simp: dlist_wf_def)
    moreover have "dlist_lookup ?l' = (dlist_lookup l)(k := d)"
      using False len by (auto simp: fun_eq_iff dlist_lookup_def nth_list_update)
    ultimately show ?thesis using low False by auto
  qed
qed

lemma dlist_get_ok:
  "dlist_wf l \<Longrightarrow> dlist_get l i = Some (dlist_lookup l (u32_of_int i))"
  by (auto simp: dlist_get_def dlist_lookup_def dlist_wf_def Let_def)

lemma dlist_get_nat:
  "dlist_wf l \<Longrightarrow> i < 2 ^ 32 \<Longrightarrow> dlist_get l (int i) = Some (dlist_lookup l i)"
  by (simp add: dlist_get_ok)

text \<open>A negative C index is far above the capacity, so nothing is found there.\<close>

lemma dlist_get_negative:
  assumes "dlist_wf l" "dl_alloced l \<le> 2 ^ 31" "- (2 ^ 31) \<le> i" "i < 0"
  shows "dlist_get l i = Some None"
  using u32_of_int_neg [OF assms(3,4)] assms(1,2) by (simp add: dlist_get_def Let_def)

lemma dlist_remove_ok:
  assumes wf: "dlist_wf l"
  shows "\<exists>l'. dlist_remove l i = Some l' \<and> dlist_wf l'
      \<and> dlist_lookup l' = (dlist_lookup l)(u32_of_int i := None)
      \<and> dl_used l' = (if dlist_lookup l (u32_of_int i) = None then dl_used l else dl_used l - 1)
      \<and> dl_alloced l' = dl_alloced l \<and> dl_block_size l' = dl_block_size l"
proof (cases "dlist_lookup l (u32_of_int i)")
  case None
  then have "dlist_remove l i = Some l"
    using wf by (auto simp: dlist_remove_def dlist_lookup_def dlist_wf_def Let_def split: if_splits)
  then show ?thesis using wf None by auto
next
  case (Some v)
  let ?k = "u32_of_int i"
  from Some have k: "?k < length (dl_entries l)" "dl_entries l ! ?k = Some v"
    by (auto simp: dlist_lookup_def split: if_splits)
  let ?l' = "l\<lparr>dl_entries := (dl_entries l)[?k := None], dl_used := dl_used l - 1\<rparr>"
  have "dlist_remove l i = Some ?l'"
    using wf k by (simp add: dlist_remove_def dlist_wf_def Let_def)
  moreover have "dlist_wf ?l'" using wf by (auto simp: dlist_wf_def)
  moreover have "dlist_lookup ?l' = (dlist_lookup l)(?k := None)"
    using k by (auto simp: fun_eq_iff dlist_lookup_def nth_list_update)
  ultimately show ?thesis using Some by auto
qed

lemma dlist_set_ok:
  assumes wf: "dlist_wf l" and i: "u32_of_int i < dl_alloced l"
  shows "\<exists>l'. dlist_set l i d = Some (l', d) \<and> dlist_wf l'
      \<and> dlist_lookup l' = (dlist_lookup l)(u32_of_int i := d) \<and> dl_used l' = dl_used l
      \<and> dl_alloced l' = dl_alloced l \<and> dl_block_size l' = dl_block_size l"
  using assms by (auto simp: dlist_set_def dlist_wf_def dlist_lookup_def Let_def fun_eq_iff nth_list_update)

section \<open>The table is a slot table\<close>

definition dlist_inv :: "'a dlist \<Rightarrow> bool" where
  "dlist_inv l \<longleftrightarrow> dlist_wf l \<and> dl_alloced l < 2 ^ 31"

lemma dlist_lookup_in_range: "dlist_wf l \<Longrightarrow> dlist_lookup l i \<noteq> None \<Longrightarrow> i < dl_alloced l"
  by (auto simp: dlist_lookup_def dlist_wf_def split: if_splits)

interpretation dl: slot_table dlist_inv dlist_room "dlist_create 0 0" dlist_lookup
  "\<lambda>l v. dlist_add l (Some v)" "\<lambda>l i. dlist_remove l (int i)"
proof (unfold_locales, goal_cases)
  case 1
  show ?case
    unfolding dlist_inv_def
    by (simp add: dlist_create_def Let_def DLIST_DEFAULT_BLOCKSIZE_def)
       (simp add: dlist_wf_def)
next
  case (2 i)
  show ?case by simp
next
  case (3 t v)
  then have "dlist_wf t" "dlist_room t" by (simp_all add: dlist_inv_def)
  with dlist_add_ok [of t "Some v"] show ?case
    by (auto simp: dlist_inv_def)
next
  case (4 t i)
  then have "i < 2 ^ 32" using dlist_lookup_in_range [of t i] by (auto simp: dlist_inv_def)
  then show ?case using 4 dlist_remove_ok [of t "int i"] by (auto simp: dlist_inv_def)
qed

section \<open>Properties\<close>

text \<open>C1. \<open>dlist_add\<close> on a well-formed list below its size bound returns the lowest free index,
  stores the value there and changes no other entry, growing the table when it is nearly full.\<close>

theorem dlist_add_lowest_free:
  assumes "dlist_inv l" "dlist_room l"
  shows "\<exists>l' i. dlist_add l (Some v) = Some (l', i) \<and> dlist_inv l' \<and> dlist_lookup l i = None
      \<and> (\<forall>k < i. dlist_lookup l k \<noteq> None) \<and> dlist_lookup l' = (dlist_lookup l)(i := Some v)"
  using assms by (rule dl.add_ok)

lemma dlist_create_inv [simp]:
  "dlist_inv (dlist_create 0 0)" "dl_alloced (dlist_create 0 0) = 8" "dl_block_size (dlist_create 0 0) = 8"
  using dl.inv_empty by (simp_all add: dlist_create_def Let_def DLIST_DEFAULT_BLOCKSIZE_def)

lemma dlist_add_lowest_free_witness:
  "\<exists>l' i. dlist_add (dlist_create 0 0) (Some (7 :: nat)) = Some (l', i) \<and> dlist_inv l'
      \<and> dlist_lookup (dlist_create 0 0 :: nat dlist) i = None
      \<and> (\<forall>k < i. dlist_lookup (dlist_create 0 0 :: nat dlist) k \<noteq> None)
      \<and> dlist_lookup l' = (dlist_lookup (dlist_create 0 0))(i := Some 7)"
  by (rule dlist_add_lowest_free) simp_all

text \<open>An index released by \<open>dlist_remove\<close> is reused: the next \<open>dlist_add\<close> returns it or a lower
  one, so descriptor numbers stay small.\<close>

theorem dlist_remove_reuses:
  assumes "dlist_inv l" "dlist_lookup l i = Some v" "dlist_remove l (int i) = Some l'"
    "dlist_room l'" "dlist_add l' (Some w) = Some (l'', j)"
  shows "j \<le> i"
  using assms by (rule dl.remove_add_reuse)

lemma dlist_remove_reuses_witness:
  "\<exists>l' l'' j. dlist_remove \<lparr>dl_entries = [Some 1, Some (2 :: nat), Some 3, None], dl_used = 3,
      dl_alloced = 4, dl_block_size = 4, dl_blocks_alloced = 1\<rparr> (int 1) = Some l'
    \<and> dlist_add l' (Some 9) = Some (l'', j) \<and> j \<le> 1"
  (is "\<exists>l' l'' j. dlist_remove ?l _ = _ \<and> _")
proof -
  let ?l' = "?l\<lparr>dl_entries := [Some 1, None, Some 3, None], dl_used := 2\<rparr>"
  let ?l'' = "?l\<lparr>dl_entries := [Some 1, Some 9, Some 3, None]\<rparr>"
  have 1: "dlist_remove ?l (int 1) = Some ?l'"
    by (simp add: dlist_remove_def u32_of_int_def)
  have 2: "dlist_add ?l' (Some 9) = Some (?l'', 1)"
    by (simp add: dlist_add_def dlist_find_free.simps)
  have "dlist_inv ?l" "dlist_lookup ?l 1 = Some 2"
    by (simp_all add: dlist_inv_def dlist_wf_def dlist_lookup_def)
  then have "(1 :: nat) \<le> 1" using 1 2 by (rule_tac dlist_remove_reuses [where l = ?l]) simp_all
  then show ?thesis using 1 2 by blast
qed

end
