(* ===== verification/CStrings.thy ===== *)
theory CStrings
  imports Prelude
begin

text \<open>
  \<^verbatim>\<open>kernel/base/string.c\<close> over a byte memory: \<open>m a = None\<close> is an address no object covers, so
  reading or writing it is undefined. Addresses are naturals below the top of the address space
  (no buffer wraps around it), and the \<open>int\<close> counters of the loops stay below \<open>2 ^ 31\<close>.
  The loops that search for a terminator are \<open>partial_function\<close>s: without one they run off
  the end of their object, and the result is \<open>None\<close>.
\<close>

section \<open>Memory\<close>

type_synonym memory = "nat \<Rightarrow> u8 option"

definition store :: "memory \<Rightarrow> nat \<Rightarrow> u8 \<Rightarrow> memory option" where
  "store m a v = (case m a of None \<Rightarrow> None | Some _ \<Rightarrow> Some (m(a \<mapsto> v)))"

fun load_bytes :: "memory \<Rightarrow> nat \<Rightarrow> nat \<Rightarrow> u8 list option" where
  "load_bytes m a 0 = Some []"
| "load_bytes m a (Suc n) = do { b \<leftarrow> m a; bs \<leftarrow> load_bytes m (Suc a) n; Some (b # bs) }"

fun store_bytes :: "memory \<Rightarrow> nat \<Rightarrow> u8 list \<Rightarrow> memory option" where
  "store_bytes m a [] = Some m"
| "store_bytes m a (b # bs) = do { m' \<leftarrow> store m a b; store_bytes m' (Suc a) bs }"

section \<open>String operations\<close>

partial_function (option) strlen_from :: "memory \<Rightarrow> nat \<Rightarrow> nat \<Rightarrow> nat option" where
  "strlen_from m input i =
     do { c \<leftarrow> m (input + i); if c = 0 then Some i else strlen_from m input (Suc i) }"

definition strlen :: "memory \<Rightarrow> nat \<Rightarrow> nat option" where
  "strlen m input = strlen_from m input 0"

partial_function (option) strcmp_from :: "memory \<Rightarrow> nat \<Rightarrow> nat \<Rightarrow> nat \<Rightarrow> int \<Rightarrow> int option" where
  "strcmp_from m s1 s2 i ret =
     do { a \<leftarrow> m (s1 + i);
          b \<leftarrow> m (s2 + i);
          let ret' = ret + (if a \<noteq> b then 1 else 0);
          if a = 0 \<or> b = 0 then Some ret' else strcmp_from m s1 s2 (Suc i) ret' }"

definition strcmp :: "memory \<Rightarrow> nat \<Rightarrow> nat \<Rightarrow> int option" where
  "strcmp m s1 s2 = strcmp_from m s1 s2 0 0"

function strncmp_from :: "memory \<Rightarrow> nat \<Rightarrow> nat \<Rightarrow> int \<Rightarrow> nat \<Rightarrow> int \<Rightarrow> int option" where
  "strncmp_from m s1 s2 len i ret =
     (if int i < len
      then do { a \<leftarrow> m (s1 + i);
                b \<leftarrow> m (s2 + i);
                let ret' = ret + (if a \<noteq> b then 1 else 0);
                if a = 0 \<or> b = 0 then Some ret' else strncmp_from m s1 s2 len (Suc i) ret' }
      else Some ret)"
  by pat_completeness auto
termination
  by (relation "measure (\<lambda>(m, s1, s2, len, i, ret). nat (len - int i))") auto

definition strncmp :: "memory \<Rightarrow> nat \<Rightarrow> nat \<Rightarrow> int \<Rightarrow> int option" where
  "strncmp m s1 s2 len = strncmp_from m s1 s2 len 0 0"

partial_function (option) strcpy_from :: "memory \<Rightarrow> nat \<Rightarrow> nat \<Rightarrow> nat \<Rightarrow> memory option" where
  "strcpy_from m dest src i =
     do { c \<leftarrow> m (src + i);
          if c \<noteq> 0
          then do { m' \<leftarrow> store m (dest + i) c; strcpy_from m' dest src (Suc i) }
          else store m (dest + i) 0 }"

definition strcpy :: "memory \<Rightarrow> nat \<Rightarrow> nat \<Rightarrow> memory option" where
  "strcpy m dest src = strcpy_from m dest src 0"

text \<open>The condition is \<open>src[i] && i < len\<close>: the source is read before the bound is tested.\<close>

function strncpy_from :: "memory \<Rightarrow> nat \<Rightarrow> nat \<Rightarrow> nat \<Rightarrow> nat \<Rightarrow> memory option" where
  "strncpy_from m dest src len i =
     (case m (src + i) of
        None \<Rightarrow> None
      | Some c \<Rightarrow>
          if c \<noteq> 0 \<and> i < len
          then (case store m (dest + i) c of
                  None \<Rightarrow> None
                | Some m' \<Rightarrow> strncpy_from m' dest src len (Suc i))
          else store m (dest + i) 0)"
  by pat_completeness auto
termination
  by (relation "measure (\<lambda>(m, dest, src, len, i). len - i)") auto

definition strncpy :: "memory \<Rightarrow> nat \<Rightarrow> nat \<Rightarrow> nat \<Rightarrow> memory option" where
  "strncpy m dest src len = strncpy_from m dest src len 0"

definition strcat :: "memory \<Rightarrow> nat \<Rightarrow> nat \<Rightarrow> memory option" where
  "strcat m dest src = do { i \<leftarrow> strlen_from m dest 0; strcpy m (dest + i) src }"

definition strncat :: "memory \<Rightarrow> nat \<Rightarrow> nat \<Rightarrow> nat \<Rightarrow> memory option" where
  "strncat m dest src n = do { i \<leftarrow> strlen_from m dest 0; strncpy m (dest + i) src n }"

section \<open>Memory operations\<close>

fun memset :: "memory \<Rightarrow> nat \<Rightarrow> u8 \<Rightarrow> nat \<Rightarrow> memory option" where
  "memset m dest v 0 = Some m"
| "memset m dest v (Suc count) = do { m' \<leftarrow> store m dest v; memset m' (Suc dest) v count }"

fun memsetw :: "memory \<Rightarrow> nat \<Rightarrow> u8 \<Rightarrow> nat \<Rightarrow> memory option" where
  "memsetw m dest v 0 = Some m"
| "memsetw m dest v (Suc count) = do { m' \<leftarrow> store m dest v; memsetw m' (Suc dest) v count }"

text \<open>\<open>memcpy\<close> moves words while more than four bytes are left, then single bytes.\<close>

fun memcpy_bytes :: "memory \<Rightarrow> nat \<Rightarrow> nat \<Rightarrow> nat \<Rightarrow> memory option" where
  "memcpy_bytes m d s 0 = Some m"
| "memcpy_bytes m d s (Suc count) =
     do { b \<leftarrow> m s; m' \<leftarrow> store m d b; memcpy_bytes m' (Suc d) (Suc s) count }"

function memcpy :: "memory \<Rightarrow> nat \<Rightarrow> nat \<Rightarrow> nat \<Rightarrow> memory option" where
  "memcpy m d s count =
     (if 4 < count
      then (case load_bytes m s 4 of
              None \<Rightarrow> None
            | Some w \<Rightarrow> (case store_bytes m d w of
                None \<Rightarrow> None
              | Some m' \<Rightarrow> memcpy m' (d + 4) (s + 4) (count - 4)))
      else memcpy_bytes m d s count)"
  by pat_completeness auto
termination
  by (relation "measure (\<lambda>(m, d, s, count). count)") auto

fun memmove :: "memory \<Rightarrow> nat \<Rightarrow> nat \<Rightarrow> nat \<Rightarrow> memory option" where
  "memmove m d s 0 = Some m"
| "memmove m d s (Suc count) =
     do { b \<leftarrow> m s; m' \<leftarrow> store m d b; memmove m' (Suc d) (Suc s) count }"

function memcmp_from :: "memory \<Rightarrow> nat \<Rightarrow> nat \<Rightarrow> nat \<Rightarrow> nat \<Rightarrow> int \<Rightarrow> int option" where
  "memcmp_from m s1 s2 len i ret =
     (if i < len
      then do { a \<leftarrow> m (s1 + i);
                b \<leftarrow> m (s2 + i);
                memcmp_from m s1 s2 len (Suc i) (ret + (if a \<noteq> b then 1 else 0)) }
      else Some ret)"
  by pat_completeness auto
termination
  by (relation "measure (\<lambda>(m, s1, s2, len, i, ret). len - i)") auto

definition memcmp :: "memory \<Rightarrow> nat \<Rightarrow> nat \<Rightarrow> nat \<Rightarrow> int option" where
  "memcmp m s1 s2 len = memcmp_from m s1 s2 len 0 0"

text \<open>\<open>strdup\<close> copies into the block \<open>ret\<close> that \<open>kmalloc( strlen( s ) + 1 )\<close> returned.\<close>

definition strdup :: "memory \<Rightarrow> nat \<Rightarrow> nat \<Rightarrow> memory option" where
  "strdup m ret s = do { n \<leftarrow> strlen m s; memcpy m ret s (n + 1) }"

declare strlen_from.simps [code] strcmp_from.simps [code] strcpy_from.simps [code]

declare strncmp_from.simps [simp del] strncpy_from.simps [simp del] memcpy.simps [simp del]
  memcmp_from.simps [simp del]

section \<open>Predicates on memory\<close>

definition bytes_at :: "memory \<Rightarrow> nat \<Rightarrow> u8 list \<Rightarrow> bool" where
  "bytes_at m a bs \<longleftrightarrow> (\<forall>i < length bs. m (a + i) = Some (bs ! i))"

definition cstr :: "memory \<Rightarrow> nat \<Rightarrow> u8 list \<Rightarrow> bool" where
  "cstr m s xs \<longleftrightarrow> bytes_at m s (xs @ [0]) \<and> 0 \<notin> set xs"

definition mapped :: "memory \<Rightarrow> nat \<Rightarrow> nat \<Rightarrow> bool" where
  "mapped m a n \<longleftrightarrow> (\<forall>i < n. m (a + i) \<noteq> None)"

definition upd_bytes :: "memory \<Rightarrow> nat \<Rightarrow> u8 list \<Rightarrow> memory" where
  "upd_bytes m a bs = (\<lambda>x. if a \<le> x \<and> x < a + length bs then Some (bs ! (x - a)) else m x)"

lemma bytes_at_Nil [simp]: "bytes_at m a []"
  by (simp add: bytes_at_def)

lemma bytes_at_Cons [simp]: "bytes_at m a (b # bs) \<longleftrightarrow> m a = Some b \<and> bytes_at m (Suc a) bs"
  by (auto simp: bytes_at_def All_less_Suc2 less_Suc_eq_0_disj)

lemma bytes_at_append [simp]:
  "bytes_at m a (xs @ ys) \<longleftrightarrow> bytes_at m a xs \<and> bytes_at m (a + length xs) ys"
  by (induction xs arbitrary: a) auto

lemma mapped_0 [simp]: "mapped m a 0"
  by (simp add: mapped_def)

lemma mapped_Suc: "mapped m a (Suc n) \<longleftrightarrow> m a \<noteq> None \<and> mapped m (Suc a) n"
  by (auto simp: mapped_def All_less_Suc2)

lemma mapped_add: "mapped m a (j + n) \<longleftrightarrow> mapped m a j \<and> mapped m (a + j) n"
  by (induction j arbitrary: a) (auto simp: mapped_Suc)

lemma mapped_mono: "mapped m a n \<Longrightarrow> k \<le> n \<Longrightarrow> mapped m a k"
  by (auto simp: mapped_def)

lemma upd_bytes_Nil [simp]: "upd_bytes m a [] = m"
  by (rule ext) (auto simp: upd_bytes_def)

lemma upd_bytes_Cons: "upd_bytes m a (b # bs) = upd_bytes (m(a \<mapsto> b)) (Suc a) bs"
  by (rule ext) (auto simp: upd_bytes_def nth_Cons')

lemma upd_bytes_append: "upd_bytes m a (xs @ ys) = upd_bytes (upd_bytes m a xs) (a + length xs) ys"
  by (rule ext) (auto simp: upd_bytes_def nth_append)

lemma mapped_upd [simp]: "mapped m a n \<Longrightarrow> mapped (m(x \<mapsto> v)) a n"
  by (auto simp: mapped_def)

lemma mapped_upd_bytes [simp]: "mapped m a n \<Longrightarrow> mapped (upd_bytes m x bs) a n"
  by (auto simp: mapped_def upd_bytes_def)

lemma bytes_at_upd:
  "bytes_at m a bs \<Longrightarrow> x < a \<or> a + length bs \<le> x \<Longrightarrow> bytes_at (m(x \<mapsto> v)) a bs"
  by (auto simp: bytes_at_def)

lemma bytes_at_upd_bytes:
  "bytes_at m a bs \<Longrightarrow> x + length cs \<le> a \<or> a + length bs \<le> x \<Longrightarrow> bytes_at (upd_bytes m x cs) a bs"
  by (auto simp: bytes_at_def upd_bytes_def)

lemma bytes_at_upd_bytes_same: "bytes_at (upd_bytes m a bs) a bs"
  by (auto simp: bytes_at_def upd_bytes_def)

lemma bytes_at_nth: "bytes_at m a bs \<Longrightarrow> i < length bs \<Longrightarrow> m (a + i) = Some (bs ! i)"
  by (simp add: bytes_at_def)

lemma cstr_Nil [simp]: "cstr m s [] \<longleftrightarrow> m s = Some 0"
  by (simp add: cstr_def)

lemma cstr_Cons [simp]: "cstr m s (x # xs) \<longleftrightarrow> m s = Some x \<and> x \<noteq> 0 \<and> cstr m (Suc s) xs"
  by (auto simp: cstr_def)

lemma store_ok: "m a \<noteq> None \<Longrightarrow> store m a v = Some (m(a \<mapsto> v))"
  by (auto simp: store_def)

lemma load_bytes_ok: "bytes_at m a bs \<Longrightarrow> load_bytes m a (length bs) = Some bs"
  by (induction bs arbitrary: a) auto

lemma store_bytes_ok: "mapped m a (length bs) \<Longrightarrow> store_bytes m a bs = Some (upd_bytes m a bs)"
  by (induction bs arbitrary: m a) (auto simp: mapped_Suc store_ok upd_bytes_Cons)

section \<open>Correctness of the string operations\<close>

lemma strlen_from_ok: "cstr m (s + i) xs \<Longrightarrow> strlen_from m s i = Some (i + length xs)"
proof (induction xs arbitrary: i)
  case Nil
  then show ?case by (subst strlen_from.simps) simp
next
  case (Cons x xs)
  then have "strlen_from m s (Suc i) = Some (Suc i + length xs)" by simp
  with Cons.prems show ?case by (subst strlen_from.simps) simp
qed

lemma strlen_ok: "cstr m s xs \<Longrightarrow> strlen m s = Some (length xs)"
  using strlen_from_ok [of m s 0 xs] by (simp add: strlen_def)

text \<open>The number that \<open>strcmp\<close> counts: differing positions up to the end of the shorter string.\<close>

fun diff_count :: "u8 list \<Rightarrow> u8 list \<Rightarrow> int" where
  "diff_count [] [] = 0"
| "diff_count [] (y # ys) = 1"
| "diff_count (x # xs) [] = 1"
| "diff_count (x # xs) (y # ys) = (if x \<noteq> y then 1 else 0) + diff_count xs ys"

lemma diff_count_nonneg: "0 \<le> diff_count xs ys"
  by (induction xs ys rule: diff_count.induct) auto

lemma diff_count_0_iff: "diff_count xs ys = 0 \<longleftrightarrow> xs = ys"
proof (induction xs ys rule: diff_count.induct)
  case (4 x xs y ys)
  then show ?case using diff_count_nonneg [of xs ys] by auto
qed auto

lemma strcmp_from_ok:
  "cstr m (s1 + i) xs \<Longrightarrow> cstr m (s2 + i) ys \<Longrightarrow>
   strcmp_from m s1 s2 i r = Some (r + diff_count xs ys)"
proof (induction xs ys arbitrary: i r rule: diff_count.induct)
  case (4 x xs y ys)
  let ?r = "r + (if x \<noteq> y then 1 else 0)"
  have "strcmp_from m s1 s2 (Suc i) ?r = Some (?r + diff_count xs ys)"
    using "4.prems" by (intro "4.IH") simp_all
  then show ?case
    using "4.prems" by (subst strcmp_from.simps) (simp add: Let_def add.assoc)
qed (subst strcmp_from.simps, auto simp: Let_def)+

lemma strcmp_ok:
  "cstr m s1 xs \<Longrightarrow> cstr m s2 ys \<Longrightarrow> strcmp m s1 s2 = Some (diff_count xs ys)"
  using strcmp_from_ok [of m s1 0 xs s2 ys 0] by (simp add: strcmp_def)

lemma strncpy_from_ok:
  "bytes_at m (src + i) xs \<Longrightarrow> 0 \<notin> set xs \<Longrightarrow> m (src + i + length xs) = Some c \<Longrightarrow>
   c = 0 \<or> i + length xs = len \<Longrightarrow> i + length xs \<le> len \<Longrightarrow>
   mapped m (dest + i) (length xs + 1) \<Longrightarrow>
   dest + i + length xs < src + i \<or> src + i + length xs < dest + i \<Longrightarrow>
   strncpy_from m dest src len i = Some (upd_bytes m (dest + i) (xs @ [0]))"
proof (induction xs arbitrary: m i)
  case Nil
  then show ?case
    by (subst strncpy_from.simps) (auto simp: mapped_Suc store_ok upd_bytes_Cons)
next
  case (Cons x xs)
  let ?m = "m(dest + i \<mapsto> x)"
  have dm: "m (dest + i) \<noteq> None" using Cons.prems(6) by (simp add: mapped_Suc)
  have "strncpy_from ?m dest src len (Suc i) = Some (upd_bytes ?m (dest + Suc i) (xs @ [0]))"
    using Cons.prems by (intro Cons.IH bytes_at_upd mapped_upd) (auto simp: mapped_Suc)
  then show ?case
    using Cons.prems dm by (subst strncpy_from.simps) (auto simp: store_ok upd_bytes_Cons)
qed

section \<open>Correctness of the memory operations\<close>

lemma memset_ok: "mapped m d n \<Longrightarrow> memset m d v n = Some (upd_bytes m d (replicate n v))"
  by (induction n arbitrary: m d) (auto simp: mapped_Suc store_ok upd_bytes_Cons)

text \<open>Copying upwards is right when the target starts at or below the source, or lies beyond it.\<close>

lemma memmove_ok:
  "bytes_at m s bs \<Longrightarrow> mapped m d (length bs) \<Longrightarrow> d \<le> s \<or> s + length bs \<le> d \<Longrightarrow>
   memmove m d s (length bs) = Some (upd_bytes m d bs)"
proof (induction bs arbitrary: m d s)
  case Nil
  then show ?case by simp
next
  case (Cons b bs)
  have "memmove (m(d \<mapsto> b)) (Suc d) (Suc s) (length bs) = Some (upd_bytes (m(d \<mapsto> b)) (Suc d) bs)"
    using Cons.prems by (intro Cons.IH bytes_at_upd mapped_upd) (auto simp: mapped_Suc)
  then show ?case
    using Cons.prems by (auto simp: mapped_Suc store_ok upd_bytes_Cons)
qed

lemma memcpy_bytes_memmove: "memcpy_bytes m d s n = memmove m d s n"
  by (induction n arbitrary: m d s) simp_all

lemma memcpy_ok:
  "bytes_at m s bs \<Longrightarrow> mapped m d (length bs) \<Longrightarrow> d \<le> s \<or> s + length bs \<le> d \<Longrightarrow>
   memcpy m d s (length bs) = Some (upd_bytes m d bs)"
proof (induction "length bs" arbitrary: bs m d s rule: less_induct)
  case less
  show ?case
  proof (cases "4 < length bs")
    case True
    define w r where "w = take 4 bs" and "r = drop 4 bs"
    have bs: "bs = w @ r" "length w = 4" "length bs - 4 = length r"
      using True by (auto simp: w_def r_def)
    let ?m = "upd_bytes m d w"
    have mp: "mapped m d 4" "mapped m (d + 4) (length r)"
      using less.prems(2) bs mapped_add [of m d 4 "length r"] by simp_all
    have "load_bytes m s 4 = Some w"
      using less.prems(1) bs load_bytes_ok [of m s w] by simp
    moreover have "store_bytes m d w = Some ?m"
      using mp(1) bs store_bytes_ok [of m d w] by simp
    moreover have "memcpy ?m (d + 4) (s + 4) (length r) = Some (upd_bytes ?m (d + 4) r)"
      using less.prems bs mp by (intro less.hyps) (auto intro!: bytes_at_upd_bytes)
    ultimately show ?thesis
      using True bs upd_bytes_append [of m d w r] by (subst memcpy.simps) simp
  next
    case False
    then show ?thesis
      using memmove_ok [OF less.prems] by (subst memcpy.simps) (simp add: memcpy_bytes_memmove)
  qed
qed

lemma strdup_ok:
  assumes "cstr m s xs" "mapped m ret (length xs + 1)"
    and "ret + length xs < s \<or> s + length xs < ret"
  shows "strdup m ret s = Some (upd_bytes m ret (xs @ [0]))"
  using memcpy_ok [of m s "xs @ [0]" ret] assms strlen_ok [OF assms(1)]
  by (auto simp: strdup_def cstr_def)

text \<open>Moving a block up by one byte smears its first byte over the whole target.\<close>

lemma memmove_overlap:
  "m s = Some b \<Longrightarrow> mapped m (Suc s) n \<Longrightarrow>
   memmove m (Suc s) s n = Some (upd_bytes m (Suc s) (replicate n b))"
  by (induction n arbitrary: m s) (auto simp: mapped_Suc store_ok upd_bytes_Cons)

section \<open>Properties\<close>

text \<open>C2. \<open>memcpy\<close> copies the source bytes unchanged, its word loop and its byte loop together,
  whenever the target does not start inside the source, and \<open>memmove\<close> agrees with it.\<close>

theorem memcpy_copies:
  assumes "bytes_at m s bs" "mapped m d (length bs)" "d \<le> s \<or> s + length bs \<le> d"
  shows "memcpy m d s (length bs) = Some (upd_bytes m d bs)
    \<and> memmove m d s (length bs) = memcpy m d s (length bs)"
  using memcpy_ok [OF assms] memmove_ok [OF assms] by simp

lemma memcpy_copies_witness:
  "memcpy (upd_bytes Map.empty 0 (replicate 20 7)) 10 0 (length [7, 7, 7, 7, 7, 7 :: u8])
     = Some (upd_bytes (upd_bytes Map.empty 0 (replicate 20 7)) 10 [7, 7, 7, 7, 7, 7])"
  by (rule memcpy_copies [THEN conjunct1])
    (auto simp: bytes_at_def mapped_def upd_bytes_def nth_Cons' numeral_nat)

text \<open>\<open>strcmp\<close> returns 0 exactly for equal strings; on \<open>strdup\<close>'s copy it returns 0.\<close>

theorem strcmp_strdup:
  assumes "cstr m s1 xs" "cstr m s2 ys"
  shows "(\<exists>r. strcmp m s1 s2 = Some r \<and> 0 \<le> r \<and> (r = 0 \<longleftrightarrow> xs = ys))
    \<and> (mapped m p (length xs + 1) \<and> (p + length xs < s1 \<or> s1 + length xs < p) \<longrightarrow>
        (\<exists>m'. strdup m p s1 = Some m' \<and> strcmp m' p s1 = Some 0))"
proof (intro conjI impI)
  show "\<exists>r. strcmp m s1 s2 = Some r \<and> 0 \<le> r \<and> (r = 0 \<longleftrightarrow> xs = ys)"
    using strcmp_ok [OF assms] diff_count_0_iff diff_count_nonneg by auto
next
  assume p: "mapped m p (length xs + 1) \<and> (p + length xs < s1 \<or> s1 + length xs < p)"
  let ?m = "upd_bytes m p (xs @ [0])"
  have "cstr ?m p xs" "cstr ?m s1 xs"
    using assms(1) p bytes_at_upd_bytes_same [of m p "xs @ [0]"]
      bytes_at_upd_bytes [of m s1 "xs @ [0]" p "xs @ [0]"] by (auto simp: cstr_def)
  then have "strcmp ?m p s1 = Some 0" using strcmp_ok diff_count_0_iff by metis
  then show "\<exists>m'. strdup m p s1 = Some m' \<and> strcmp m' p s1 = Some 0"
    using strdup_ok [OF assms(1)] p by blast
qed

lemma strcmp_strdup_witness:
  "\<exists>m'. strdup (upd_bytes Map.empty 0 [65, 66, 0, 1, 1, 1]) 3 0 = Some m' \<and> strcmp m' 3 0 = Some 0"
proof -
  let ?m = "upd_bytes Map.empty 0 [65, 66, 0, 1, 1, 1 :: u8]"
  have "cstr ?m 0 [65, 66]" by (auto simp: cstr_def upd_bytes_def)
  moreover have "mapped ?m 3 (length [65, 66 :: u8] + 1)"
    by (simp add: mapped_def upd_bytes_def)
  ultimately show ?thesis
    using strcmp_strdup [of ?m 0 "[65, 66]" 0 "[65, 66]" 3] by simp
qed

end
