(* ===== verification/Pipe.thy ===== *)
theory Pipe
  imports Interfaces
begin

text \<open>
  \<^verbatim>\<open>kernel/base/datastructs/pipe.c\<close>: ring buffers of bytes. All counters are 32-bit words, because
  \<open>writep\<close> is never reduced and wraps around at \<open>2 ^ 32\<close>; the well-formedness predicate says
  what that requires of the buffer size. The last part shows that a line is a bounded queue
  that forgets its oldest byte when it is full.
\<close>

section \<open>State and operations\<close>

definition PIPE_FLAG_OPEN :: u32 where "PIPE_FLAG_OPEN = 1"
definition PIPE_FLAG_BLOCK :: u32 where "PIPE_FLAG_BLOCK = 2"

record pipeline =
  pl_size :: u32
  pl_avail :: u32
  pl_writep :: u32
  pl_readp :: u32
  pl_flags :: u32
  pl_buf :: "u8 list"

record pipe =
  p_nbufs :: u32
  p_buf_size :: u32
  p_used :: u32
  p_readers :: u32
  p_writers :: u32
  p_sem :: int
  p_bufs :: "pipeline list"

text \<open>\<open>fresh\<close> and \<open>junk\<close> are the contents of the blocks that \<open>kmalloc\<close> returned: the fields
  that \<open>pipe_create\<close> does not set keep whatever was there.\<close>

definition new_pipeline :: "u32 \<Rightarrow> u32 \<Rightarrow> (nat \<Rightarrow> u8) \<Rightarrow> pipeline" where
  "new_pipeline buf_size flags junk =
     \<lparr>pl_size = buf_size, pl_avail = 0, pl_writep = 0, pl_readp = 0,
      pl_flags = PIPE_FLAG_OPEN OR flags, pl_buf = map junk [0..<unat buf_size]\<rparr>"

definition pipe_create :: "pipe \<Rightarrow> (nat \<Rightarrow> nat \<Rightarrow> u8) \<Rightarrow> u32 \<Rightarrow> u32 \<Rightarrow> u32 \<Rightarrow> pipe option" where
  "pipe_create fresh junk outputs buf_size flags =
     (if 0 < outputs
      then Some (fresh\<lparr>p_nbufs := outputs,
                       p_bufs := map (\<lambda>i. new_pipeline buf_size flags (junk i)) [0..<unat outputs]\<rparr>)
      else None)"

text \<open>One byte is stored at \<open>writep % size\<close>; a size of zero is a division by zero.\<close>

definition pipeline_store :: "pipeline \<Rightarrow> u8 \<Rightarrow> pipeline option" where
  "pipeline_store line b =
     (if pl_size line = 0 then None
      else do {
        buf \<leftarrow> write_at (pl_buf line) (unat (pl_writep line mod pl_size line)) b;
        Some (line\<lparr>pl_buf := buf, pl_writep := pl_writep line + 1\<rparr>)
      })"

definition pipeline_advance :: "pipeline \<Rightarrow> pipeline option" where
  "pipeline_advance line =
     (if pl_size line = 0 then None
      else Some (line\<lparr>pl_readp := (pl_readp line + 1) mod pl_size line\<rparr>))"

text \<open>The inner loop of \<open>pipe_write\<close> on one open line, with the running count \<open>ret\<close>.\<close>

fun pipe_write_line :: "pipeline \<Rightarrow> u8 list \<Rightarrow> u32 \<Rightarrow> (pipeline \<times> u32) option" where
  "pipe_write_line line [] ret = Some (line, ret)"
| "pipe_write_line line (b # bs) ret =
     (if pl_avail line = pl_size line - 1
      then (if pl_flags line AND PIPE_FLAG_BLOCK \<noteq> 0
            then Some (line, ret)
            else do {
              l1 \<leftarrow> pipeline_advance line;
              l2 \<leftarrow> pipeline_store l1 b;
              pipe_write_line l2 bs (ret + 1)
            })
      else do {
        l2 \<leftarrow> pipeline_store (line\<lparr>pl_avail := pl_avail line + 1\<rparr>) b;
        pipe_write_line l2 bs (ret + 1)
      })"

fun pipe_write_lines :: "pipeline list \<Rightarrow> u8 list \<Rightarrow> u32 \<Rightarrow> (pipeline list \<times> u32) option" where
  "pipe_write_lines [] buf ret = Some ([], ret)"
| "pipe_write_lines (line # ls) buf ret =
     (if pl_flags line AND PIPE_FLAG_OPEN \<noteq> 0
      then do {
        (line', ret') \<leftarrow> pipe_write_line line buf ret;
        (ls', ret'') \<leftarrow> pipe_write_lines ls buf ret';
        Some (line' # ls', ret'')
      }
      else do {
        (ls', ret') \<leftarrow> pipe_write_lines ls buf ret;
        Some (line # ls', ret')
      })"

definition pipe_write :: "pipe \<Rightarrow> u8 list \<Rightarrow> (pipe \<times> u32) option" where
  "pipe_write p buf =
     (if unat (p_nbufs p) \<le> length (p_bufs p)
      then do {
        (ls, ret) \<leftarrow> pipe_write_lines (take (unat (p_nbufs p)) (p_bufs p)) buf 0;
        Some (p\<lparr>p_bufs := ls @ drop (unat (p_nbufs p)) (p_bufs p)\<rparr>, ret)
      }
      else None)"

text \<open>\<open>i < line->avail + i\<close> is tested in 32-bit arithmetic. The bytes read are returned in order.\<close>

fun pipeline_read_from :: "pipeline \<Rightarrow> nat \<Rightarrow> u32 \<Rightarrow> (pipeline \<times> u8 list) option" where
  "pipeline_read_from line 0 i = Some (line, [])"
| "pipeline_read_from line (Suc left) i =
     (if i < pl_avail line + i
      then do {
        b \<leftarrow> read_at (pl_buf line) (unat (pl_readp line));
        l1 \<leftarrow> pipeline_advance line;
        (l2, bs) \<leftarrow> pipeline_read_from (l1\<lparr>pl_avail := pl_avail l1 - 1\<rparr>) left (i + 1);
        Some (l2, b # bs)
      }
      else Some (line, []))"

definition pipeline_read :: "pipeline \<Rightarrow> u32 \<Rightarrow> (pipeline \<times> u8 list) option" where
  "pipeline_read line count = pipeline_read_from line (unat count) 0"

section \<open>Well-formed lines and their contents\<close>

definition pl_cap :: "pipeline \<Rightarrow> nat" where
  "pl_cap l = unat (pl_size l) - 1"

definition pipeline_wf :: "pipeline \<Rightarrow> bool" where
  "pipeline_wf l \<longleftrightarrow>
     (let n = unat (pl_size l); r = unat (pl_readp l); a = unat (pl_avail l) in
      2 \<le> n \<and> n dvd 2 ^ 32 \<and> length (pl_buf l) = n \<and> r < n \<and> a < n
      \<and> unat (pl_writep l) mod n = (r + a) mod n)"

definition pl_contents :: "pipeline \<Rightarrow> u8 list" where
  "pl_contents l =
     map (\<lambda>k. pl_buf l ! ((unat (pl_readp l) + k) mod unat (pl_size l))) [0..<unat (pl_avail l)]"

lemma length_pl_contents [simp]: "length (pl_contents l) = unat (pl_avail l)"
  by (simp add: pl_contents_def)

lemma pl_contents_le: "pipeline_wf l \<Longrightarrow> length (pl_contents l) \<le> pl_cap l"
  by (auto simp: pipeline_wf_def pl_cap_def Let_def)

lemma mod_add_inj:
  fixes n :: nat
  assumes "j < n" "k < n" "(r + j) mod n = (r + k) mod n"
  shows "j = k"
  using assms
proof (induction j k rule: linorder_wlog)
  case (le j k)
  then have "n dvd (r + k) - (r + j)" by (metis add_le_cancel_left mod_eq_dvd_iff_nat)
  then have "n dvd k - j" by simp
  then show ?case using le by (metis diff_diff_cancel diff_is_0_eq' dvd_imp_le less_imp_diff_less
        linorder_not_less nat_less_le zero_less_diff)
next
  case (sym j k)
  then show ?case by simp
qed

lemma unat_Suc_mod:
  fixes w :: u32
  assumes "n dvd 2 ^ 32"
  shows "unat (w + 1) mod n = Suc (unat w) mod n"
proof -
  have "unat (w + 1) = Suc (unat w) mod 2 ^ 32"
    by (simp add: unat_word_ariths)
  then show ?thesis using assms by (simp add: mod_mod_cancel)
qed

lemma unat_Suc_mod_word:
  fixes r s :: u32
  assumes "unat r < unat s"
  shows "unat ((r + 1) mod s) = Suc (unat r) mod unat s"
proof -
  have "Suc (unat r) < 2 ^ 32" using assms by (meson Suc_leI le_less_trans unat_u32_less)
  then show ?thesis by (simp add: unat_mod unat_word_ariths)
qed

lemma pipeline_wf_size: "pipeline_wf l \<Longrightarrow> unat (pl_size l - 1) = pl_cap l \<and> 0 < pl_cap l"
  using unat_pred [of "pl_size l"] by (auto simp: pipeline_wf_def Let_def pl_cap_def)

lemma pipeline_full_iff: "pipeline_wf l \<Longrightarrow> pl_avail l = pl_size l - 1 \<longleftrightarrow> unat (pl_avail l) = pl_cap l"
  using pipeline_wf_size [of l] by (metis unat_eq_u32_iff)

lemma pipeline_wf_room:
  "pipeline_wf l \<Longrightarrow> pl_avail l \<noteq> pl_size l - 1 \<Longrightarrow> Suc (unat (pl_avail l)) < unat (pl_size l)"
  using pipeline_full_iff [of l] by (auto simp: pipeline_wf_def Let_def pl_cap_def)

text \<open>Storing a byte where there is room appends it.\<close>

lemma pipeline_store_ok:
  assumes wf: "pipeline_wf l" and room: "Suc (unat (pl_avail l)) < unat (pl_size l)"
  shows "\<exists>l'. pipeline_store (l\<lparr>pl_avail := pl_avail l + 1\<rparr>) b = Some l' \<and> pipeline_wf l'
      \<and> pl_contents l' = pl_contents l @ [b] \<and> pl_size l' = pl_size l \<and> pl_flags l' = pl_flags l"
proof -
  let ?n = "unat (pl_size l)" and ?r = "unat (pl_readp l)" and ?a = "unat (pl_avail l)"
  let ?w = "unat (pl_writep l mod pl_size l)"
  have n: "2 \<le> ?n" "?n dvd 2 ^ 32" "length (pl_buf l) = ?n" "?r < ?n" "?a < ?n"
    and w: "unat (pl_writep l) mod ?n = (?r + ?a) mod ?n"
    using wf by (auto simp: pipeline_wf_def Let_def)
  have weq: "?w = (?r + ?a) mod ?n" using w by (simp add: unat_mod)
  have wlt: "?w < ?n" using n weq by simp
  have sz: "pl_size l \<noteq> 0" using n by auto
  have a1: "unat (pl_avail l + 1) = Suc ?a"
    by (intro unat_succ [of _ "unat (pl_size l)"]) (use room in auto)
  let ?l' = "l\<lparr>pl_avail := pl_avail l + 1, pl_buf := (pl_buf l)[?w := b], pl_writep := pl_writep l + 1\<rparr>"
  have st: "pipeline_store (l\<lparr>pl_avail := pl_avail l + 1\<rparr>) b = Some ?l'"
    using wlt n sz by (simp add: pipeline_store_def)
  have "unat (pl_writep l + 1) mod ?n = (?r + Suc ?a) mod ?n"
    using unat_Suc_mod [OF n(2)] w by (metis add_Suc_right mod_Suc_eq)
  then have wf': "pipeline_wf ?l'"
    using n room a1 by (simp add: pipeline_wf_def Let_def)
  have "(pl_buf l)[?w := b] ! ((?r + k) mod ?n) = pl_buf l ! ((?r + k) mod ?n)" if "k < ?a" for k
    using that mod_add_inj [of k ?n ?a ?r] n weq by (auto simp: nth_list_update)
  then have "pl_contents ?l' = pl_contents l @ [b]"
    using a1 weq wlt n by (auto simp: pl_contents_def)
  then show ?thesis using st wf' by simp
qed

text \<open>Reading position moved on by one, count reduced by one: the first byte is gone.\<close>

lemma pipeline_advance_ok:
  assumes wf: "pipeline_wf l" and a: "0 < unat (pl_avail l)"
  shows "\<exists>l'. pipeline_advance l = Some l' \<and> pipeline_wf (l'\<lparr>pl_avail := pl_avail l - 1\<rparr>)
      \<and> pl_contents (l'\<lparr>pl_avail := pl_avail l - 1\<rparr>) = tl (pl_contents l)
      \<and> pl_avail l' = pl_avail l \<and> pl_size l' = pl_size l \<and> pl_flags l' = pl_flags l"
proof -
  let ?n = "unat (pl_size l)" and ?r = "unat (pl_readp l)" and ?a = "unat (pl_avail l)"
  have n: "2 \<le> ?n" "?n dvd 2 ^ 32" "length (pl_buf l) = ?n" "?r < ?n" "?a < ?n"
    and w: "unat (pl_writep l) mod ?n = (?r + ?a) mod ?n"
    using wf by (auto simp: pipeline_wf_def Let_def)
  have r': "unat ((pl_readp l + 1) mod pl_size l) = Suc ?r mod ?n"
    by (rule unat_Suc_mod_word) (rule n)
  have a': "unat (pl_avail l - 1) = ?a - 1"
    using a by (rule unat_pred)
  have e: "(Suc ?r mod ?n + k) mod ?n = (?r + Suc k) mod ?n" for k
    by (metis add_Suc add_Suc_right mod_add_left_eq)
  let ?l' = "l\<lparr>pl_readp := (pl_readp l + 1) mod pl_size l\<rparr>"
  have "pipeline_advance l = Some ?l'"
    using n by (auto simp: pipeline_advance_def)
  moreover have "pipeline_wf (?l'\<lparr>pl_avail := pl_avail l - 1\<rparr>)"
    using n w a r' a' e [of "?a - 1"] by (simp add: pipeline_wf_def Let_def)
  moreover have "pl_contents (?l'\<lparr>pl_avail := pl_avail l - 1\<rparr>) = tl (pl_contents l)"
    using r' a' e a by (intro nth_equalityI) (auto simp: pl_contents_def nth_tl)
  ultimately show ?thesis by simp
qed

section \<open>A line is a bounded queue\<close>

definition pipeline_put :: "pipeline \<Rightarrow> u8 \<Rightarrow> pipeline option" where
  "pipeline_put l b = map_option fst (pipe_write_line l [b] 0)"

lemma pipe_write_line_step:
  assumes wf: "pipeline_wf l" and nb: "pl_flags l AND PIPE_FLAG_BLOCK = 0"
  shows "\<exists>l'. pipeline_wf l' \<and> pl_size l' = pl_size l \<and> pl_flags l' = pl_flags l
      \<and> pl_contents l' = keep_last (pl_cap l) (pl_contents l @ [b])
      \<and> (\<forall>bs ret. pipe_write_line l (b # bs) ret = pipe_write_line l' bs (ret + 1))"
proof (cases "pl_avail l = pl_size l - 1")
  case True
  have av: "unat (pl_avail l) = pl_cap l" "0 < unat (pl_avail l)"
    using True pipeline_full_iff [OF wf] pipeline_wf_size [OF wf] by simp_all
  obtain l1 where l1: "pipeline_advance l = Some l1" "pipeline_wf (l1\<lparr>pl_avail := pl_avail l - 1\<rparr>)"
    "pl_contents (l1\<lparr>pl_avail := pl_avail l - 1\<rparr>) = tl (pl_contents l)"
    "pl_avail l1 = pl_avail l" "pl_size l1 = pl_size l" "pl_flags l1 = pl_flags l"
    using pipeline_advance_ok [OF wf av(2)] by blast
  let ?m = "l1\<lparr>pl_avail := pl_avail l - 1\<rparr>"
  have "Suc (unat (pl_avail ?m)) < unat (pl_size ?m)"
    using av l1(5) unat_pred [OF av(2)] by (simp add: pl_cap_def)
  then obtain l2 where l2: "pipeline_store (?m\<lparr>pl_avail := pl_avail ?m + 1\<rparr>) b = Some l2"
    "pipeline_wf l2" "pl_contents l2 = tl (pl_contents l) @ [b]" "pl_size l2 = pl_size l"
    "pl_flags l2 = pl_flags l"
    using pipeline_store_ok [OF l1(2)] l1 by auto
  have "?m\<lparr>pl_avail := pl_avail ?m + 1\<rparr> = l1" using l1(4) by simp
  with l2 have "pipe_write_line l (b # bs) ret = pipe_write_line l2 bs (ret + 1)" for bs ret
    using True nb l1(1) by simp
  moreover have "keep_last (pl_cap l) (pl_contents l @ [b]) = tl (pl_contents l) @ [b]"
    using av by (simp add: keep_last_def drop_Suc del: keep_last_short)
  ultimately show ?thesis using l2 by auto
next
  case False
  then obtain l2 where l2: "pipeline_store (l\<lparr>pl_avail := pl_avail l + 1\<rparr>) b = Some l2"
    "pipeline_wf l2" "pl_contents l2 = pl_contents l @ [b]" "pl_size l2 = pl_size l"
    "pl_flags l2 = pl_flags l"
    using pipeline_store_ok [OF wf pipeline_wf_room [OF wf False]] by blast
  moreover have "keep_last (pl_cap l) (pl_contents l @ [b]) = pl_contents l @ [b]"
    using pipeline_wf_room [OF wf False] by (simp add: keep_last_def pl_cap_def)
  ultimately show ?thesis using False by auto
qed


lemma pipe_write_line_ok:
  "pipeline_wf l \<Longrightarrow> pl_flags l AND PIPE_FLAG_BLOCK = 0 \<Longrightarrow>
   \<exists>l'. pipe_write_line l bs ret = Some (l', ret + of_nat (length bs)) \<and> pipeline_wf l'
      \<and> pl_size l' = pl_size l \<and> pl_flags l' = pl_flags l
      \<and> pl_contents l' = keep_last (pl_cap l) (pl_contents l @ bs)"
proof (induction bs arbitrary: l ret)
  case Nil
  then show ?case using pl_contents_le by simp
next
  case (Cons b bs)
  from pipe_write_line_step [OF Cons.prems, of b] obtain l1 where l1: "pipeline_wf l1"
    "pl_size l1 = pl_size l" "pl_flags l1 = pl_flags l"
    "pl_contents l1 = keep_last (pl_cap l) (pl_contents l @ [b])"
    "pipe_write_line l (b # bs) ret = pipe_write_line l1 bs (ret + 1)"
    by blast
  have cap: "pl_cap l1 = pl_cap l" using l1(2) by (simp add: pl_cap_def)
  from Cons.IH [OF l1(1), of "ret + 1"] l1(2-) Cons.prems(2) cap show ?case
    by (auto simp: keep_last_keep_last [of "pl_cap l" "pl_contents l @ [b]" bs, simplified] add.assoc)
qed

text \<open>A blocking line stops at the first byte that does not fit.\<close>

lemma pipe_write_line_block:
  "pipeline_wf l \<Longrightarrow> pl_flags l AND PIPE_FLAG_BLOCK \<noteq> 0 \<Longrightarrow>
   \<exists>l'. pipe_write_line l bs ret = Some (l', ret + of_nat (min (length bs) (pl_cap l - length (pl_contents l))))
      \<and> pipeline_wf l' \<and> pl_size l' = pl_size l \<and> pl_flags l' = pl_flags l
      \<and> pl_contents l' = pl_contents l @ take (pl_cap l - length (pl_contents l)) bs"
proof (induction bs arbitrary: l ret)
  case Nil
  then show ?case by simp
next
  case (Cons b bs)
  show ?case
  proof (cases "pl_avail l = pl_size l - 1")
    case True
    then show ?thesis using Cons.prems pipeline_full_iff [of l] by simp
  next
    case False
    from pipeline_store_ok [OF Cons.prems(1) pipeline_wf_room [OF Cons.prems(1) False], of b]
    obtain l1 where l1: "pipeline_store (l\<lparr>pl_avail := pl_avail l + 1\<rparr>) b = Some l1" "pipeline_wf l1"
      "pl_contents l1 = pl_contents l @ [b]" "pl_size l1 = pl_size l" "pl_flags l1 = pl_flags l"
      by blast
    have "length (pl_contents l1) = Suc (length (pl_contents l))"
      using l1(3) by simp
    moreover have "length (pl_contents l) < pl_cap l"
      using pipeline_wf_room [OF Cons.prems(1) False] by (simp add: pl_cap_def)
    moreover have "pl_cap l1 = pl_cap l" using l1(4) by (simp add: pl_cap_def)
    ultimately have d: "pl_cap l - length (pl_contents l) = Suc (pl_cap l1 - length (pl_contents l1))"
      by linarith
    have c: "1 + of_nat (min n k) = (of_nat (min (Suc n) (Suc k)) :: u32)" for n k
      by simp
    have fc: "pl_flags l1 AND PIPE_FLAG_BLOCK \<noteq> 0" using l1(5) Cons.prems(2) by simp
    have "pipe_write_line l (b # bs) ret = pipe_write_line l1 bs (ret + 1)"
      using l1(1) False by simp
    with Cons.IH [OF l1(2) fc, of "ret + 1"] l1(3-5) show ?thesis
      unfolding d length_Cons by (simp only: c [symmetric] add.assoc take_Suc_Cons) auto
  qed
qed

lemma pipeline_read_from_ok:
  "pipeline_wf l \<Longrightarrow> unat i + unat (pl_avail l) < 2 ^ 32 \<Longrightarrow>
   \<exists>l'. pipeline_read_from l left i = Some (l', take left (pl_contents l)) \<and> pipeline_wf l'
      \<and> pl_size l' = pl_size l \<and> pl_flags l' = pl_flags l \<and> pl_contents l' = drop left (pl_contents l)"
proof (induction left arbitrary: l i)
  case 0
  then show ?case by simp
next
  case (Suc left)
  have s: "unat (pl_avail l + i) = unat (pl_avail l) + unat i"
    using Suc.prems(2) by (simp add: unat_word_ariths)
  show ?case
  proof (cases "pl_avail l = 0")
    case True
    then show ?thesis using Suc.prems by (simp add: pl_contents_def)
  next
    case False
    then have a: "0 < unat (pl_avail l)" by (simp add: unat_gt_0)
    then have guard: "i < pl_avail l + i" using s by (simp add: word_less_nat_alt)
    obtain l1 where l1: "pipeline_advance l = Some l1" "pipeline_wf (l1\<lparr>pl_avail := pl_avail l - 1\<rparr>)"
      "pl_contents (l1\<lparr>pl_avail := pl_avail l - 1\<rparr>) = tl (pl_contents l)"
      "pl_avail l1 = pl_avail l" "pl_size l1 = pl_size l" "pl_flags l1 = pl_flags l"
      using pipeline_advance_ok [OF Suc.prems(1) a] by blast
    have hd: "unat (pl_readp l) < length (pl_buf l)"
      "pl_contents l = pl_buf l ! unat (pl_readp l) # tl (pl_contents l)"
      using Suc.prems(1) a
      by (auto simp: pipeline_wf_def Let_def pl_contents_def upt_conv_Cons map_tl [symmetric] simp flip: drop_Suc)
    have "unat (i + 1) + unat (pl_avail l - 1) < 2 ^ 32"
      using Suc.prems(2) a unat_pred [OF a] by (simp add: unat_word_ariths)
    from Suc.IH [OF l1(2), of "i + 1"] this l1 guard hd(1) show ?thesis
      by (subst (1 2) hd(2)) auto
  qed
qed

definition pipeline_queue :: "pipeline \<Rightarrow> bool" where
  "pipeline_queue l \<longleftrightarrow> pipeline_wf l \<and> pl_flags l AND PIPE_FLAG_BLOCK = 0"

interpretation line: bounded_queue pipeline_queue pl_contents pl_cap pipeline_put
  "\<lambda>l n. pipeline_read_from l n 0"
proof (unfold_locales, goal_cases)
  case (1 q b)
  then show ?case
    using pipe_write_line_ok [of q "[b]" 0] by (auto simp: pipeline_queue_def pipeline_put_def pl_cap_def)
next
  case (2 q n)
  then show ?case
    using pipeline_read_from_ok [of q 0 n] by (auto simp: pipeline_queue_def pl_cap_def)
next
  case (3 q)
  then show ?case using pl_contents_le by (simp add: pipeline_queue_def)
qed

lemma pipe_write_line_put:
  "pipeline_queue l \<Longrightarrow> map_option fst (pipe_write_line l bs ret) = bind_fold pipeline_put l bs"
proof (induction bs arbitrary: l ret)
  case Nil
  then show ?case by simp
next
  case (Cons b bs)
  from pipe_write_line_step [of l b] Cons.prems obtain l2 where
    l2: "pipeline_wf l2" "pl_flags l2 = pl_flags l"
    "\<forall>bs ret. pipe_write_line l (b # bs) ret = pipe_write_line l2 bs (ret + 1)"
    by (auto simp: pipeline_queue_def)
  then have "pipeline_put l b = Some l2" unfolding pipeline_put_def by (metis fst_conv
        option.simps(9) pipe_write_line.simps(1))
  moreover have "pipeline_queue l2" using l2 Cons.prems by (simp add: pipeline_queue_def)
  ultimately show ?case
    using Cons.IH [of l2 "ret + 1"] l2(3) by (simp del: pipe_write_line.simps)
qed

section \<open>Whole pipes\<close>

text \<open>A fresh line of a power-of-two size is an empty queue of capacity \<open>buf_size - 1\<close>.\<close>

lemma new_pipeline_ok:
  assumes "2 \<le> unat sz" "unat sz dvd 2 ^ 32"
  shows "pipeline_wf (new_pipeline sz fl junk) \<and> pl_contents (new_pipeline sz fl junk) = []
      \<and> pl_cap (new_pipeline sz fl junk) = unat sz - 1"
  using assms by (simp add: pipeline_wf_def new_pipeline_def pl_contents_def pl_cap_def)

text \<open>A pipe with one open line behaves as that line.\<close>

lemma pipe_write_single:
  assumes "p_nbufs p = 1" "p_bufs p = [l]" "pl_flags l AND PIPE_FLAG_OPEN \<noteq> 0"
  shows "pipe_write p buf =
    map_option (\<lambda>(l', ret). (p\<lparr>p_bufs := [l']\<rparr>, ret)) (pipe_write_line l buf 0)"
  using assms by (cases "pipe_write_line l buf 0") (auto simp: pipe_write_def)

section \<open>Properties\<close>

lemma open_flag_set: "(PIPE_FLAG_OPEN OR fl) AND PIPE_FLAG_OPEN \<noteq> 0"
proof -
  have "bit ((1 :: u32) OR fl) 0" by (simp add: bit_or_iff)
  then show ?thesis by (simp add: PIPE_FLAG_OPEN_def bit_0 and_one_eq odd_iff_mod_2_eq_one)
qed

lemma open_flag_block: "PIPE_FLAG_OPEN \<noteq> 0" "PIPE_FLAG_OPEN AND PIPE_FLAG_BLOCK = 0"
  by (simp_all add: PIPE_FLAG_OPEN_def PIPE_FLAG_BLOCK_def)

text \<open>C3. What is written to a fresh non-blocking pipe of one line is read back unchanged and in
  order; when more was written than fits, the oldest bytes are lost and the newest remain. The
  reported count is the number of bytes written.\<close>

theorem pipe_write_read:
  assumes "2 \<le> unat sz" "unat sz dvd 2 ^ 32" "fl AND PIPE_FLAG_BLOCK = 0"
    "pipe_create fresh junk 1 sz fl = Some p" "pipe_write p buf = Some (p', ret)"
  shows "ret = of_nat (length buf)
    \<and> (\<exists>l. p_bufs p' = [l] \<and> (\<exists>l'. pipeline_read l n = Some (l', take (unat n) (keep_last (unat sz - 1) buf))))"
proof -
  let ?l = "new_pipeline sz fl (junk 0)"
  have l: "pipeline_wf ?l" "pl_contents ?l = []" "pl_cap ?l = unat sz - 1"
    using new_pipeline_ok assms(1,2) by blast+
  have fl: "pl_flags ?l AND PIPE_FLAG_OPEN \<noteq> 0" "pl_flags ?l AND PIPE_FLAG_BLOCK = 0"
    using assms(3) by (simp_all add: new_pipeline_def open_flag_set open_flag_block word_ao_dist)
  have p: "p_nbufs p = 1" "p_bufs p = [?l]"
    using assms(4) by (auto simp: pipe_create_def split: if_splits)
  have q: "pipeline_queue ?l" using l(1) fl(2) by (simp add: pipeline_queue_def)
  obtain l1 where l1: "bind_fold pipeline_put ?l buf = Some l1" "pipeline_queue l1"
    "pl_contents l1 = keep_last (unat sz - 1) buf"
    using line.put_all_ok [OF q, of buf] l(2,3) by auto
  have w: "pipe_write_line ?l buf 0 = Some (l1, of_nat (length buf))"
    using pipe_write_line_ok [OF l(1) fl(2), of buf 0] pipe_write_line_put [OF q, of buf 0] l1(1) by auto
  have "p_bufs p' = [l1]" "ret = of_nat (length buf)"
    using pipe_write_single [OF p fl(1), of buf] w assms(5) by auto
  then show ?thesis
    using line.get_ok [OF l1(2), of "unat n"] l1(3) by (auto simp: pipeline_read_def)
qed

text \<open>A blocking line accepts exactly the bytes that fit, reports how many they were and never
  drops or overwrites a byte that has not been read.\<close>

theorem pipe_write_line_blocking:
  assumes "pipeline_wf l" "pl_flags l AND PIPE_FLAG_BLOCK \<noteq> 0"
  shows "\<exists>l'. pipe_write_line l bs 0 = Some (l', of_nat (min (length bs) (pl_cap l - length (pl_contents l))))
      \<and> pl_contents l' = pl_contents l @ take (pl_cap l - length (pl_contents l)) bs"
  using pipe_write_line_block [OF assms, of bs 0] by auto

lemma pipe_write_read_witness:
  "\<exists>l. \<exists>l'. pipeline_read l 2 = Some (l', take 2 (keep_last 3 [1, 2, 3, 4, 5]))"
proof -
  let ?p0 = "\<lparr>p_nbufs = 0, p_buf_size = 0, p_used = 0, p_readers = 0, p_writers = 0, p_sem = 0, p_bufs = []\<rparr>"
  let ?line = "new_pipeline 4 0 (\<lambda>_. 0)"
  let ?p = "?p0\<lparr>p_nbufs := 1, p_bufs := [?line]\<rparr>"
  have 1: "pipe_create ?p0 (\<lambda>_ _. 0) 1 4 0 = Some ?p"
    by (simp add: pipe_create_def)
  have fl: "pl_flags ?line AND PIPE_FLAG_OPEN \<noteq> 0" "pl_flags ?line AND PIPE_FLAG_BLOCK = 0"
    by (simp_all add: new_pipeline_def open_flag_block)
  have "pipeline_wf ?line" using new_pipeline_ok [of 4] by simp
  then obtain l1 ret where l1: "pipe_write_line ?line [1, 2, 3, 4, 5] 0 = Some (l1, ret)"
    using pipe_write_line_ok [OF _ fl(2)] by blast
  have 2: "pipe_write ?p [1, 2, 3, 4, 5] = Some (?p\<lparr>p_bufs := [l1]\<rparr>, ret)"
    using pipe_write_single [of ?p ?line, OF _ _ fl(1)] l1 by simp
  have 3: "2 \<le> unat (4 :: u32)" "unat (4 :: u32) dvd 2 ^ 32" "(0 :: u32) AND PIPE_FLAG_BLOCK = 0"
    by simp_all
  have "unat (4 :: u32) - 1 = 3" "unat (2 :: u32) = 2" by simp_all
  then show ?thesis
    using pipe_write_read [OF 3 1 2, of 2] by metis
qed

lemma pipe_write_line_blocking_witness:
  "\<exists>l'. pipe_write_line (new_pipeline 4 PIPE_FLAG_BLOCK (\<lambda>_. 0)) [1, 2, 3, 4, 5] 0 = Some (l', 3)
      \<and> pl_contents l' = [1, 2, 3]"
proof -
  let ?l = "new_pipeline 4 PIPE_FLAG_BLOCK (\<lambda>_. 0)"
  have "pipeline_wf ?l \<and> pl_contents ?l = [] \<and> pl_cap ?l = 3"
    using new_pipeline_ok [of 4 PIPE_FLAG_BLOCK "\<lambda>_. 0"] by simp
  moreover have "pl_flags ?l AND PIPE_FLAG_BLOCK \<noteq> 0"
    by (simp add: new_pipeline_def PIPE_FLAG_OPEN_def PIPE_FLAG_BLOCK_def)
  ultimately show ?thesis
    using pipe_write_line_blocking [of ?l "[1, 2, 3, 4, 5]"] by simp
qed

end
