(* ===== verification/LinkedList.thy ===== *)
theory LinkedList
  imports Prelude
begin

text \<open>
  \<^verbatim>\<open>kernel/base/datastructs/list.c\<close> at pointer level: nodes live in a heap that maps addresses
  to nodes, \<open>0\<close> is the null pointer, and a node that was freed is no longer in the heap, so
  following a pointer to it is \<open>None\<close>. A function that allocates takes the address \<open>temp\<close> that
  \<open>kmalloc\<close> returned. Loops over links are \<open>partial_function\<close>s: on a cyclic list they do not
  return.
\<close>

section \<open>State and operations\<close>

record 'a lnode =
  ln_next :: nat
  ln_prev :: nat
  ln_val :: int
  ln_data :: 'a

type_synonym 'a lheap = "nat \<Rightarrow> 'a lnode option"

record list_head =
  lh_base :: nat
  lh_last :: nat
  lh_length :: nat
  lh_flags :: int

definition list_create :: "int \<Rightarrow> list_head" where
  "list_create flags = \<lparr>lh_base = 0, lh_last = 0, lh_length = 0, lh_flags = flags\<rparr>"

text \<open>\<open>for ( move = list; move->next; move = move->next )\<close>.\<close>

partial_function (option) list_find_end :: "'a lheap \<Rightarrow> nat \<Rightarrow> nat option" where
  "list_find_end h move =
     do { n \<leftarrow> h move; if ln_next n \<noteq> 0 then list_find_end h (ln_next n) else Some move }"

text \<open>Both branches set the two links of the new node, whatever its memory held before.\<close>

definition list_add_node :: "'a lheap \<Rightarrow> nat \<Rightarrow> nat \<Rightarrow> int \<Rightarrow> 'a \<Rightarrow> ('a lheap \<times> nat) option" where
  "list_add_node h temp list val data =
     (let h1 = h(temp \<mapsto> \<lparr>ln_next = 0, ln_prev = 0, ln_val = val, ln_data = data\<rparr>) in
      if list \<noteq> 0
      then do {
        move \<leftarrow> list_find_end h1 list;
        n \<leftarrow> h1 move;
        let h2 = h1(move \<mapsto> n\<lparr>ln_next := temp\<rparr>);
        t \<leftarrow> h2 temp;
        let h3 = h2(temp \<mapsto> t\<lparr>ln_prev := move\<rparr>);
        t' \<leftarrow> h3 temp;
        Some (h3(temp \<mapsto> t'\<lparr>ln_next := 0\<rparr>), temp)
      }
      else Some (h1, temp))"

definition list_add_int_node :: "'a lheap \<Rightarrow> nat \<Rightarrow> nat \<Rightarrow> int \<Rightarrow> 'a \<Rightarrow> ('a lheap \<times> nat) option" where
  "list_add_int_node h temp list val null = list_add_node h temp list val null"

definition list_add_data_node :: "'a lheap \<Rightarrow> nat \<Rightarrow> nat \<Rightarrow> 'a \<Rightarrow> ('a lheap \<times> nat) option" where
  "list_add_data_node h temp list data = list_add_node h temp list 0 data"

definition list_add_int ::
  "'a lheap \<Rightarrow> nat \<Rightarrow> list_head \<Rightarrow> int \<Rightarrow> 'a \<Rightarrow> ('a lheap \<times> list_head \<times> nat) option" where
  "list_add_int h temp l val null =
     do { (h', r) \<leftarrow> list_add_int_node h temp (lh_last l) val null;
          let l1 = l\<lparr>lh_last := r\<rparr>;
          let l2 = (if lh_base l1 = 0 then l1\<lparr>lh_base := lh_last l1\<rparr> else l1);
          Some (h', l2, r) }"

definition list_add_data ::
  "'a lheap \<Rightarrow> nat \<Rightarrow> list_head \<Rightarrow> 'a \<Rightarrow> ('a lheap \<times> list_head \<times> nat) option" where
  "list_add_data h temp l data =
     do { (h', r) \<leftarrow> list_add_data_node h temp (lh_last l) data;
          let l1 = l\<lparr>lh_last := r\<rparr>;
          let l2 = (if lh_base l1 = 0 then l1\<lparr>lh_base := lh_last l1\<rparr> else l1);
          Some (h', l2, r) }"

definition list_remove_node :: "'a lheap \<Rightarrow> nat \<Rightarrow> ('a lheap \<times> nat) option" where
  "list_remove_node h node =
     (if node \<noteq> 0
      then do {
        n \<leftarrow> h node;
        (h1, ret) \<leftarrow>
          (if ln_prev n \<noteq> 0
           then do { p \<leftarrow> h (ln_prev n); Some (h(ln_prev n \<mapsto> p\<lparr>ln_next := ln_next n\<rparr>), ln_prev n) }
           else Some (h, 0));
        n1 \<leftarrow> h1 node;
        (h2, ret2) \<leftarrow>
          (if ln_next n1 \<noteq> 0
           then do { q \<leftarrow> h1 (ln_next n1);
                     Some (h1(ln_next n1 \<mapsto> q\<lparr>ln_prev := ln_prev n1\<rparr>),
                           if ret \<noteq> 0 then ret else ln_next n1) }
           else Some (h1, ret));
        Some (h2(node := None), ret2)
      }
      else Some (h, 0))"

partial_function (option) list_index_from :: "'a lheap \<Rightarrow> int \<Rightarrow> int \<Rightarrow> nat \<Rightarrow> nat \<Rightarrow> nat option" where
  "list_index_from h i n move ret =
     (if move \<noteq> 0 \<and> n \<noteq> i
      then (if 0 < i
            then do { m \<leftarrow> h move; list_index_from h i (n + 1) (ln_next m) (ln_next m) }
            else if i < 0
            then do { m \<leftarrow> h move; list_index_from h i (n - 1) (ln_prev m) (ln_prev m) }
            else list_index_from h i n move ret)
      else Some ret)"

definition list_get_index :: "'a lheap \<Rightarrow> list_head \<Rightarrow> int \<Rightarrow> nat option" where
  "list_get_index h l i =
     (let move = (if 0 < i then lh_base l else if i < 0 then lh_last l else 0)
      in list_index_from h i 0 move (lh_base l))"

definition list_remove_index :: "'a lheap \<Rightarrow> list_head \<Rightarrow> int \<Rightarrow> ('a lheap \<times> nat) option" where
  "list_remove_index h l index =
     do { move \<leftarrow> list_get_index h l index;
          if move \<noteq> 0 then list_remove_node h move else Some (h, 0) }"

partial_function (option) list_val_from :: "'a lheap \<Rightarrow> nat \<Rightarrow> int \<Rightarrow> nat option" where
  "list_val_from h move val =
     (if move = 0 then Some 0
      else do { n \<leftarrow> h move;
                if ln_val n = val then Some move else list_val_from h (ln_next n) val })"

definition list_get_val :: "'a lheap \<Rightarrow> list_head \<Rightarrow> int \<Rightarrow> nat option" where
  "list_get_val h l val = list_val_from h (lh_base l) val"

partial_function (option) listlen_from :: "'a lheap \<Rightarrow> nat \<Rightarrow> nat \<Rightarrow> nat option" where
  "listlen_from h move i =
     (if move = 0 then Some i else do { n \<leftarrow> h move; listlen_from h (ln_next n) (i + 1) })"

definition listlen :: "'a lheap \<Rightarrow> nat \<Rightarrow> nat option" where
  "listlen h node = listlen_from h node 0"

partial_function (option) list_find_start :: "'a lheap \<Rightarrow> nat \<Rightarrow> nat option" where
  "list_find_start h move =
     do { n \<leftarrow> h move; if ln_prev n \<noteq> 0 then list_find_start h (ln_prev n) else Some move }"

partial_function (option) list_free_from :: "'a lheap \<Rightarrow> nat \<Rightarrow> 'a lheap option" where
  "list_free_from h move =
     (if move = 0 then Some h
      else do { n \<leftarrow> h move; list_free_from (h(move := None)) (ln_next n) })"

definition list_free_nodes :: "'a lheap \<Rightarrow> nat \<Rightarrow> 'a lheap option" where
  "list_free_nodes h node = do { s \<leftarrow> list_find_start h node; list_free_from h s }"

declare list_find_end.simps [code] list_index_from.simps [code] list_val_from.simps [code]
  listlen_from.simps [code] list_find_start.simps [code] list_free_from.simps [code]

section \<open>Segments of a doubly linked list\<close>

text \<open>\<open>dseg h p prv xs nx lst\<close>: from pointer \<open>p\<close>, the nodes \<open>xs\<close> (address, value, data) follow
  each other; the first has \<open>prv\<close> before it, the last is \<open>lst\<close> and points on to \<open>nx\<close>.\<close>

fun dseg :: "'a lheap \<Rightarrow> nat \<Rightarrow> nat \<Rightarrow> (nat \<times> int \<times> 'a) list \<Rightarrow> nat \<Rightarrow> nat \<Rightarrow> bool" where
  "dseg h p prv [] nx lst \<longleftrightarrow> p = nx \<and> prv = lst"
| "dseg h p prv ((a, v, d) # xs) nx lst \<longleftrightarrow> p = a \<and> a \<noteq> 0 \<and>
     (\<exists>n. h a = Some n \<and> ln_prev n = prv \<and> ln_val n = v \<and> ln_data n = d \<and>
        dseg h (ln_next n) a xs nx lst)"

abbreviation addrs :: "(nat \<times> int \<times> 'a) list \<Rightarrow> nat list" where
  "addrs xs \<equiv> map fst xs"

definition list_repr :: "'a lheap \<Rightarrow> list_head \<Rightarrow> (nat \<times> int \<times> 'a) list \<Rightarrow> bool" where
  "list_repr h l xs \<longleftrightarrow> dseg h (lh_base l) 0 xs 0 (lh_last l) \<and> distinct (addrs xs)"

lemma dseg_append:
  "dseg h p prv (xs @ ys) nx lst \<longleftrightarrow> (\<exists>m k. dseg h p prv xs m k \<and> dseg h m k ys nx lst)"
proof (induction xs arbitrary: p prv)
  case (Cons x xs)
  then show ?case by (cases x) (simp, blast)
qed simp

lemma dseg_upd [simp]:
  "a \<notin> set (addrs xs) \<Longrightarrow> dseg (h(a := n)) p prv xs nx lst = dseg h p prv xs nx lst"
  by (induction xs arbitrary: p prv) auto

lemma dseg_cong:
  "\<forall>a \<in> set (addrs xs). h' a = h a \<Longrightarrow> dseg h' p prv xs nx lst = dseg h p prv xs nx lst"
  by (induction xs arbitrary: p prv) auto

lemma dseg_lst: "dseg h p prv xs nx lst \<Longrightarrow> lst = (if xs = [] then prv else last (addrs xs))"
  by (induction xs arbitrary: p prv) auto

lemma dseg_in_heap:
  "dseg h p prv xs nx lst \<Longrightarrow> x \<in> set (addrs xs) \<Longrightarrow> h x \<noteq> None \<and> x \<noteq> 0"
proof (induction xs arbitrary: p prv)
  case (Cons y xs)
  then show ?case by (cases y) auto
qed simp

lemma dseg_start: "dseg h p prv xs 0 lst \<Longrightarrow> p = 0 \<longleftrightarrow> xs = []"
  by (cases xs) auto

lemma dseg_snoc:
  "dseg h p prv (xs @ [(a, v, d)]) nx lst \<longleftrightarrow> lst = a \<and> a \<noteq> 0 \<and>
     (\<exists>k n. dseg h p prv xs a k \<and> h a = Some n \<and> ln_prev n = k \<and> ln_val n = v \<and> ln_data n = d \<and> ln_next n = nx)"
  by (auto simp: dseg_append)

text \<open>Redirecting the link out of the last node, or the back link of the first.\<close>

lemma dseg_set_next:
  assumes "dseg h p prv (xs @ [(a, v, d)]) nx a" "a \<notin> set (addrs xs)" "h a = Some n"
  shows "dseg (h(a \<mapsto> n\<lparr>ln_next := nx'\<rparr>)) p prv (xs @ [(a, v, d)]) nx' a"
  using assms by (auto simp: dseg_snoc)

lemma dseg_set_prev:
  assumes "dseg h a prv ((a, v, d) # xs) nx lst" "a \<notin> set (addrs xs)" "h a = Some n"
  shows "dseg (h(a \<mapsto> n\<lparr>ln_prev := k\<rparr>)) a k ((a, v, d) # xs) nx lst"
  using assms by auto

lemma list_repr_create [simp]: "list_repr h (list_create f) []"
  by (simp add: list_repr_def list_create_def)

lemma list_repr_frame:
  "list_repr h l xs \<Longrightarrow> a \<notin> set (addrs xs) \<Longrightarrow> list_repr (h(a := n)) l xs"
  by (simp add: list_repr_def)

lemma list_repr_last:
  "list_repr h l xs \<Longrightarrow> lh_last l = (if xs = [] then 0 else last (addrs xs))"
  by (auto simp: list_repr_def dest: dseg_lst)

section \<open>Appending\<close>

lemma list_add_node_empty:
  "list_add_node h temp 0 v d
     = Some (h(temp \<mapsto> \<lparr>ln_next = 0, ln_prev = 0, ln_val = v, ln_data = d\<rparr>), temp)"
  by (simp add: list_add_node_def Let_def)

lemma list_add_node_end:
  assumes "h a = Some n" "ln_next n = 0" "a \<noteq> 0" "a \<noteq> temp"
  shows "list_add_node h temp a v d = Some (h(a \<mapsto> n\<lparr>ln_next := temp\<rparr>,
           temp \<mapsto> \<lparr>ln_next = 0, ln_prev = a, ln_val = v, ln_data = d\<rparr>), temp)"
proof -
  let ?h1 = "h(temp \<mapsto> \<lparr>ln_next = 0, ln_prev = 0, ln_val = v, ln_data = d\<rparr>)"
  have "list_find_end ?h1 a = Some a"
    using assms by (subst list_find_end.simps) simp
  then show ?thesis
    using assms by (simp add: list_add_node_def Let_def fun_upd_twist)
qed

lemma list_add_last_ok:
  assumes r: "list_repr h l xs" and t: "h temp = None" "temp \<noteq> 0"
  shows "\<exists>h' l'. list_add_node h temp (lh_last l) v d = Some (h', temp)
      \<and> l' = l\<lparr>lh_last := temp, lh_base := (if lh_base l = 0 then temp else lh_base l)\<rparr>
      \<and> list_repr h' l' (xs @ [(temp, v, d)])
      \<and> (\<forall>a. a \<noteq> temp \<and> a \<notin> set (addrs xs) \<longrightarrow> h' a = h a)"
proof (cases xs rule: rev_cases)
  case Nil
  then show ?thesis using assms by (auto simp: list_repr_def list_add_node_empty)
next
  case (snoc ys y)
  obtain a w e where y: "y = (a, w, e)" by (cases y)
  have xs: "xs = ys @ [(a, w, e)]" using snoc y by simp
  from r have d: "dseg h (lh_base l) 0 (ys @ [(a, w, e)]) 0 a" and last: "lh_last l = a"
    and dist: "a \<notin> set (addrs ys)" "distinct (addrs xs)"
    unfolding list_repr_def xs by (auto simp: dseg_snoc)
  then obtain n where n: "h a = Some n" "ln_next n = 0" "a \<noteq> 0" by (auto simp: dseg_snoc)
  have nt: "temp \<notin> set (addrs xs)" "a \<noteq> temp"
    using r t dseg_in_heap [of h "lh_base l" 0 xs 0 "lh_last l" temp] n(1)
    unfolding list_repr_def by auto
  let ?h = "h(a \<mapsto> n\<lparr>ln_next := temp\<rparr>)"
  let ?t = "\<lparr>ln_next = 0, ln_prev = a, ln_val = v, ln_data = d\<rparr>"
  have "dseg ?h (lh_base l) 0 xs temp a"
    using dseg_set_next [OF d dist(1) n(1)] xs by simp
  then have "dseg (?h(temp \<mapsto> ?t)) (lh_base l) 0 (xs @ [(temp, v, d)]) 0 temp"
    using nt t by (auto simp: dseg_snoc)
  moreover have "lh_base l \<noteq> 0" using d by (cases ys) auto
  ultimately show ?thesis
    using list_add_node_end [where h = h and a = a and temp = temp, OF n nt(2)] last dist nt xs by (auto simp: list_repr_def)
qed

lemma list_add_data_ok:
  assumes "list_repr h l xs" "h temp = None" "temp \<noteq> 0"
  shows "\<exists>h' l'. list_add_data h temp l d = Some (h', l', temp) \<and> list_repr h' l' (xs @ [(temp, 0, d)])
      \<and> (\<forall>a. a \<noteq> temp \<and> a \<notin> set (addrs xs) \<longrightarrow> h' a = h a)"
  using list_add_last_ok [OF assms, of 0 d] assms(3)
  by (auto simp: list_add_data_def list_add_data_node_def Let_def)

lemma list_add_int_ok:
  assumes "list_repr h l xs" "h temp = None" "temp \<noteq> 0"
  shows "\<exists>h' l'. list_add_int h temp l v null = Some (h', l', temp)
      \<and> list_repr h' l' (xs @ [(temp, v, null)])
      \<and> (\<forall>a. a \<noteq> temp \<and> a \<notin> set (addrs xs) \<longrightarrow> h' a = h a)"
  using list_add_last_ok [OF assms, of v null] assms(3)
  by (auto simp: list_add_int_def list_add_int_node_def Let_def)

section \<open>Searching\<close>

lemma list_val_from_ok:
  "dseg h p prv xs 0 lst \<Longrightarrow>
   list_val_from h p v = Some (case find (\<lambda>x. fst (snd x) = v) xs of None \<Rightarrow> 0 | Some x \<Rightarrow> fst x)"
proof (induction xs arbitrary: p prv)
  case Nil
  then show ?case by (subst list_val_from.simps) simp
next
  case (Cons x xs)
  obtain a w d where x: "x = (a, w, d)" by (cases x)
  then obtain n where n: "p = a" "a \<noteq> 0" "h a = Some n" "ln_val n = w" "dseg h (ln_next n) a xs 0 lst"
    using Cons.prems by auto
  from Cons.IH [OF n(5)] n x show ?case by (subst list_val_from.simps) simp
qed

lemma list_get_val_ok:
  "list_repr h l xs \<Longrightarrow>
   list_get_val h l v = Some (case find (\<lambda>x. fst (snd x) = v) xs of None \<Rightarrow> 0 | Some x \<Rightarrow> fst x)"
  using list_val_from_ok by (fastforce simp: list_get_val_def list_repr_def)

lemma listlen_from_ok: "dseg h p prv xs 0 lst \<Longrightarrow> listlen_from h p i = Some (i + length xs)"
proof (induction xs arbitrary: p prv i)
  case Nil
  then show ?case by (subst listlen_from.simps) simp
next
  case (Cons x xs)
  obtain a w d where x: "x = (a, w, d)" by (cases x)
  then obtain n where n: "p = a" "a \<noteq> 0" "h a = Some n" "dseg h (ln_next n) a xs 0 lst"
    using Cons.prems by auto
  from Cons.IH [OF n(4)] n x show ?case by (subst listlen_from.simps) simp
qed

lemma listlen_ok: "list_repr h l xs \<Longrightarrow> listlen h (lh_base l) = Some (length xs)"
  using listlen_from_ok [of h "lh_base l" 0 xs "lh_last l" 0] by (simp add: list_repr_def listlen_def)

lemma list_index_from_ok:
  "dseg h p prv xs 0 lst \<Longrightarrow> 0 \<le> n \<Longrightarrow> n \<le> i \<Longrightarrow> 0 < i \<Longrightarrow>
   list_index_from h i n p p
     = Some (if nat (i - n) < length xs then fst (xs ! nat (i - n)) else 0)"
proof (induction xs arbitrary: p prv n)
  case Nil
  then show ?case by (subst list_index_from.simps) simp
next
  case (Cons x xs)
  obtain a w d where x: "x = (a, w, d)" by (cases x)
  then obtain m where m: "p = a" "a \<noteq> 0" "h a = Some m" "dseg h (ln_next m) a xs 0 lst"
    using Cons.prems by auto
  show ?case
  proof (cases "n = i")
    case True
    then show ?thesis using m x by (subst list_index_from.simps) simp
  next
    case False
    then have "list_index_from h i (n + 1) (ln_next m) (ln_next m)
        = Some (if nat (i - (n + 1)) < length xs then fst (xs ! nat (i - (n + 1))) else 0)"
      using Cons.prems by (intro Cons.IH [OF m(4)]) auto
    moreover have "nat (i - n) = Suc (nat (i - (n + 1)))" using False Cons.prems by simp
    ultimately show ?thesis using m x False Cons.prems
      by (subst list_index_from.simps) simp
  qed
qed

lemma list_get_index_ok:
  assumes "list_repr h l xs" "0 \<le> i"
  shows "list_get_index h l i = Some (if nat i < length xs then fst (xs ! nat i) else 0)"
proof (cases "i = 0")
  case True
  then show ?thesis using assms
    by (cases xs) (auto simp: list_get_index_def list_repr_def Let_def list_index_from.simps)
next
  case False
  then show ?thesis
    using assms list_index_from_ok [of h "lh_base l" 0 xs "lh_last l" 0 i]
    by (simp add: list_get_index_def list_repr_def Let_def)
qed

section \<open>Removing\<close>

lemma list_remove_node_inner:
  assumes r: "list_repr h l (ys @ [(p, vp, dp)] @ [(a, v, d)] @ [(q, vq, dq)] @ zs)"
  shows "\<exists>h'. list_remove_node h a = Some (h', p)
      \<and> list_repr h' l (ys @ [(p, vp, dp)] @ [(q, vq, dq)] @ zs) \<and> h' a = None"
proof -
  let ?Y = "ys @ [(p, vp, dp)]" and ?Z = "(q, vq, dq) # zs"
  from r have D: "dseg h (lh_base l) 0 ?Y a p" "distinct (addrs (?Y @ (a, v, d) # ?Z))"
    "dseg h a p ((a, v, d) # ?Z) 0 (lh_last l)"
    by (auto simp: list_repr_def dseg_append)
  then obtain n where n: "h a = Some n" "ln_prev n = p" "ln_next n = q" "a \<noteq> 0"
    "dseg h q a ?Z 0 (lh_last l)" by auto
  obtain m where m: "h p = Some m" "p \<noteq> 0" using D(1) by (auto simp: dseg_snoc)
  obtain k where k: "h q = Some k" "q \<noteq> 0" using n(5) by auto
  have ne: "p \<noteq> q" "a \<noteq> p" "a \<noteq> q" "p \<notin> set (addrs ys)" "q \<notin> set (addrs zs)" "a \<notin> set (addrs ys)"
    "a \<notin> set (addrs zs)" "p \<notin> set (addrs zs)" "q \<notin> set (addrs ys)"
    using D(2) by auto
  let ?h1 = "h(p \<mapsto> m\<lparr>ln_next := q\<rparr>)"
  let ?h2 = "?h1(q \<mapsto> k\<lparr>ln_prev := p\<rparr>)"
  have "list_remove_node h a = Some (?h2(a := None), p)"
    using n m k ne by (simp add: list_remove_node_def)
  moreover have "dseg ?h1 (lh_base l) 0 ?Y q p"
    using dseg_set_next [OF D(1) ne(4) m(1)] .
  then have "dseg (?h2(a := None)) (lh_base l) 0 ?Y q p"
    using ne by (simp del: fun_upd_apply)
  moreover have "dseg ?h1 q a ?Z 0 (lh_last l)"
    using n(5) ne by (simp del: dseg.simps fun_upd_apply)
  then have "dseg ?h2 q p ?Z 0 (lh_last l)"
    using k ne by (intro dseg_set_prev) auto
  then have "dseg (?h2(a := None)) q p ?Z 0 (lh_last l)"
    using ne by (simp del: dseg.simps fun_upd_apply)
  ultimately have rm: "list_remove_node h a = Some (?h2(a := None), p)"
    and "dseg (?h2(a := None)) (lh_base l) 0 (?Y @ ?Z) 0 (lh_last l)"
    unfolding dseg_append [of _ _ _ ?Y] by blast+
  then have "list_repr (?h2(a := None)) l (?Y @ ?Z)"
    using D(2) unfolding list_repr_def by auto
  then show ?thesis using rm by (intro exI [of _ "?h2(a := None)"]) simp
qed

text \<open>Removing the first node frees it, but the head still points there.\<close>

lemma list_remove_node_first:
  assumes "list_repr h l ((a, v, d) # xs)"
  shows "\<exists>h' r. list_remove_node h a = Some (h', r) \<and> h' (lh_base l) = None"
proof -
  obtain n where n: "h a = Some n" "ln_prev n = 0" "a \<noteq> 0" "lh_base l = a"
    "dseg h (ln_next n) a xs 0 (lh_last l)" and a: "a \<notin> set (addrs xs)"
    using assms by (auto simp: list_repr_def)
  show ?thesis
  proof (cases xs)
    case Nil
    then show ?thesis using n by (simp add: list_remove_node_def)
  next
    case (Cons x ys)
    then show ?thesis using n by (cases x) (auto simp: list_remove_node_def)
  qed
qed

lemma list_free_from_ok:
  "dseg h p prv xs 0 lst \<Longrightarrow> distinct (addrs xs) \<Longrightarrow>
   list_free_from h p = Some (h |` (- set (addrs xs)))"
proof (induction xs arbitrary: h p prv)
  case Nil
  then show ?case by (subst list_free_from.simps) (simp add: restrict_map_def)
next
  case (Cons x xs)
  obtain a w d where x: "x = (a, w, d)" by (cases x)
  then obtain n where n: "p = a" "a \<noteq> 0" "h a = Some n" "dseg h (ln_next n) a xs 0 lst"
    using Cons.prems by auto
  have xs: "a \<notin> set (addrs xs)" "distinct (addrs xs)" using Cons.prems(2) x by auto
  then have "dseg (h(a := None)) (ln_next n) a xs 0 lst"
    using n(4) by (subst dseg_upd) auto
  then have "list_free_from (h(a := None)) (ln_next n) = Some (h(a := None) |` (- set (addrs xs)))"
    using xs(2) by (rule Cons.IH)
  then show ?case
    using n x by (subst list_free_from.simps) (auto simp: restrict_map_def fun_eq_iff)
qed

lemma list_free_nodes_ok:
  assumes "list_repr h l xs" "xs \<noteq> []"
  shows "list_free_nodes h (lh_base l) = Some (h |` (- set (addrs xs)))"
proof -
  obtain a w d ys where x: "xs = (a, w, d) # ys" using assms(2) by (cases xs) auto
  have "list_find_start h (lh_base l) = Some (lh_base l)"
    using assms(1) x by (subst list_find_start.simps) (auto simp: list_repr_def)
  then show ?thesis
    using assms list_free_from_ok by (fastforce simp: list_free_nodes_def list_repr_def)
qed

end
