(* ===== verification/HashMap.thy ===== *)
theory HashMap
  imports LinkedList
begin

text \<open>
  \<^verbatim>\<open>kernel/base/datastructs/hashmap.c\<close>: an array of list heads (\<^verbatim>\<open>list.c\<close>) indexed by
  \<open>hash % nbuckets\<close>. The C code stores the unsigned hash in the \<open>int\<close> field of the node and
  searches for it converted the same way. Values are non-null pointers, as all callers store.
\<close>

section \<open>State and operations\<close>

record hashmap =
  hm_buckets :: "list_head list"
  hm_nbuckets :: u32

definition hashmap_create :: "u32 \<Rightarrow> hashmap" where
  "hashmap_create n = \<lparr>hm_buckets = replicate (unat n) (list_create 0), hm_nbuckets = n\<rparr>"

text \<open>\<open>map->buckets + ( hash % map->nbuckets )\<close>.\<close>

definition hashmap_bucket :: "hashmap \<Rightarrow> u32 \<Rightarrow> nat option" where
  "hashmap_bucket m hash =
     (if hm_nbuckets m = 0 then None else Some (unat (hash mod hm_nbuckets m)))"

definition hashmap_add ::
  "'a lheap \<Rightarrow> nat \<Rightarrow> hashmap \<Rightarrow> u32 \<Rightarrow> 'a \<Rightarrow> ('a lheap \<times> hashmap \<times> 'a option) option" where
  "hashmap_add h temp m hash val =
     do { i \<leftarrow> hashmap_bucket m hash;
          l \<leftarrow> read_at (hm_buckets m) i;
          (h1, l1, node) \<leftarrow> list_add_data h temp l val;
          bs \<leftarrow> write_at (hm_buckets m) i l1;
          let m1 = m\<lparr>hm_buckets := bs\<rparr>;
          if node \<noteq> 0
          then do { n \<leftarrow> h1 node; Some (h1(node \<mapsto> n\<lparr>ln_val := sint hash\<rparr>), m1, Some (ln_data n)) }
          else Some (h1, m1, None) }"

definition hashmap_get :: "'a lheap \<Rightarrow> hashmap \<Rightarrow> u32 \<Rightarrow> 'a option option" where
  "hashmap_get h m hash =
     do { i \<leftarrow> hashmap_bucket m hash;
          l \<leftarrow> read_at (hm_buckets m) i;
          node \<leftarrow> list_get_val h l (sint hash);
          if node \<noteq> 0 then do { n \<leftarrow> h node; Some (Some (ln_data n)) } else Some None }"

definition hashmap_remove :: "'a lheap \<Rightarrow> hashmap \<Rightarrow> u32 \<Rightarrow> 'a lheap option" where
  "hashmap_remove h m hash =
     do { i \<leftarrow> hashmap_bucket m hash;
          l \<leftarrow> read_at (hm_buckets m) i;
          node \<leftarrow> list_get_val h l (sint hash);
          if node \<noteq> 0 then map_option fst (list_remove_node h node) else Some h }"

text \<open>\<open>kfree( map->buckets )\<close>: the nodes of the buckets stay allocated.\<close>

definition hashmap_free :: "'a lheap \<Rightarrow> hashmap option \<Rightarrow> 'a lheap" where
  "hashmap_free h m = h"

section \<open>The map a table represents\<close>

text \<open>\<open>bs ! i\<close> lists the nodes of bucket \<open>i\<close>. Buckets do not share nodes, and a node hangs in the
  bucket of its hash.\<close>

definition hm_repr :: "'a lheap \<Rightarrow> hashmap \<Rightarrow> (nat \<times> int \<times> 'a) list list \<Rightarrow> bool" where
  "hm_repr h m bs \<longleftrightarrow> length bs = unat (hm_nbuckets m) \<and> length (hm_buckets m) = length bs
     \<and> 0 < length bs
     \<and> (\<forall>i < length bs. list_repr h (hm_buckets m ! i) (bs ! i))
     \<and> (\<forall>i < length bs. \<forall>j < length bs. i \<noteq> j \<longrightarrow> set (addrs (bs ! i)) \<inter> set (addrs (bs ! j)) = {})"

definition hm_slot :: "hashmap \<Rightarrow> u32 \<Rightarrow> nat" where
  "hm_slot m hash = unat (hash mod hm_nbuckets m)"

definition hm_find :: "hashmap \<Rightarrow> (nat \<times> int \<times> 'a) list list \<Rightarrow> u32 \<Rightarrow> (nat \<times> int \<times> 'a) option" where
  "hm_find m bs hash = find (\<lambda>x. fst (snd x) = sint hash) (bs ! hm_slot m hash)"

lemma sint_u32_eq_iff: "sint a = sint b \<longleftrightarrow> a = b" for a b :: u32
  by (metis signed_word_eqI)

lemma hm_slot_less: "hm_repr h m bs \<Longrightarrow> hm_slot m hash < length bs"
  by (simp add: hm_repr_def hm_slot_def unat_mod_distrib flip: length_greater_0_conv)

lemma hashmap_bucket_ok: "hm_repr h m bs \<Longrightarrow> hashmap_bucket m hash = Some (hm_slot m hash)"
  by (auto simp: hm_repr_def hm_slot_def hashmap_bucket_def)

lemma hm_repr_create: "0 < n \<Longrightarrow> hm_repr h (hashmap_create n) (replicate (unat n) [])"
  by (auto simp: hm_repr_def hashmap_create_def unat_gt_0)

lemma find_node_in_heap:
  assumes "list_repr h l xs" "find P xs = Some (a, v, d)"
  shows "\<exists>n. h a = Some n \<and> ln_data n = d \<and> ln_val n = v \<and> a \<noteq> 0"
proof -
  have "(a, v, d) \<in> set xs" using assms(2) by (auto simp: find_Some_iff)
  then obtain ys zs where "xs = ys @ (a, v, d) # zs" by (meson split_list)
  with assms(1) show ?thesis by (auto simp: list_repr_def dseg_append)
qed

lemma hashmap_get_ok:
  assumes r: "hm_repr h m bs"
  shows "hashmap_get h m hash = Some (map_option (snd \<circ> snd) (hm_find m bs hash))"
proof -
  let ?i = "hm_slot m hash"
  have i: "?i < length bs" using r by (rule hm_slot_less)
  have l: "list_repr h (hm_buckets m ! ?i) (bs ! ?i)" "length (hm_buckets m) = length bs"
    using r i by (auto simp: hm_repr_def)
  show ?thesis
  proof (cases "hm_find m bs hash")
    case None
    then show ?thesis
      using list_get_val_ok [OF l(1)] hashmap_bucket_ok [OF r] i l(2)
      by (simp add: hashmap_get_def hm_find_def)
  next
    case (Some x)
    obtain a v d where x: "x = (a, v, d)" by (cases x)
    from Some x have "find (\<lambda>x. fst (snd x) = sint hash) (bs ! ?i) = Some (a, v, d)"
      by (simp add: hm_find_def)
    from find_node_in_heap [OF l(1) this] obtain n where "h a = Some n" "ln_data n = d" "a \<noteq> 0"
      by blast
    with Some x show ?thesis
      using list_get_val_ok [OF l(1)] hashmap_bucket_ok [OF r] i l(2)
      by (simp add: hashmap_get_def hm_find_def)
  qed
qed

lemma list_repr_set_val:
  assumes "list_repr h l (xs @ [(t, v, d)])" "h t = Some n"
  shows "list_repr (h(t \<mapsto> n\<lparr>ln_val := w\<rparr>)) l (xs @ [(t, w, d)])"
  using assms by (auto simp: list_repr_def dseg_snoc)

lemma hashmap_add_ok:
  assumes r: "hm_repr h m bs" and t: "h temp = None" "temp \<noteq> 0"
  shows "\<exists>h' m'. hashmap_add h temp m hash val = Some (h', m', Some val)
      \<and> hm_repr h' m' (bs[hm_slot m hash := bs ! hm_slot m hash @ [(temp, sint hash, val)]])
      \<and> hm_nbuckets m' = hm_nbuckets m"
proof -
  let ?i = "hm_slot m hash"
  have i: "?i < length bs" using r by (rule hm_slot_less)
  have l: "list_repr h (hm_buckets m ! ?i) (bs ! ?i)" "length (hm_buckets m) = length bs"
    and all: "\<forall>j < length bs. list_repr h (hm_buckets m ! j) (bs ! j)"
    and disj: "\<forall>i < length bs. \<forall>j < length bs. i \<noteq> j \<longrightarrow> set (addrs (bs ! i)) \<inter> set (addrs (bs ! j)) = {}"
    using r i by (auto simp: hm_repr_def)
  have nt: "temp \<notin> set (addrs (bs ! j))" if "j < length bs" for j
    using all that t(1) dseg_in_heap by (metis list_repr_def)
  obtain h1 l1 where h1: "list_add_data h temp (hm_buckets m ! ?i) val = Some (h1, l1, temp)"
    "list_repr h1 l1 (bs ! ?i @ [(temp, 0, val)])"
    "\<forall>a. a \<noteq> temp \<and> a \<notin> set (addrs (bs ! ?i)) \<longrightarrow> h1 a = h a"
    using list_add_data_ok [OF l(1) t] by blast
  then obtain n where n: "h1 temp = Some n" "ln_data n = val"
    by (auto simp: list_repr_def dseg_snoc)
  let ?h2 = "h1(temp \<mapsto> n\<lparr>ln_val := sint hash\<rparr>)"
  let ?m = "m\<lparr>hm_buckets := (hm_buckets m)[?i := l1]\<rparr>"
  have add: "hashmap_add h temp m hash val = Some (?h2, ?m, Some val)"
    using h1(1) n t i l(2) hashmap_bucket_ok [OF r] by (simp add: hashmap_add_def)
  have A: "list_repr ?h2 (hm_buckets ?m ! j) (bs[?i := bs ! ?i @ [(temp, sint hash, val)]] ! j)"
    if j: "j < length bs" for j
  proof (cases "j = ?i")
    case True
    then show ?thesis using list_repr_set_val [OF h1(2) n(1)] i l(2) by simp
  next
    case False
    then have "set (addrs (bs ! ?i)) \<inter> set (addrs (bs ! j)) = {}"
      using disj i j by blast
    then have "\<forall>a \<in> set (addrs (bs ! j)). ?h2 a = h a"
      using h1(3) nt [OF j] by (metis disjoint_iff fun_upd_other)
    then have "dseg ?h2 p prv (bs ! j) nx lst = dseg h p prv (bs ! j) nx lst" for p prv nx lst
      by (rule dseg_cong)
    then show ?thesis using False all j by (simp add: list_repr_def)
  qed
  have B: "set (addrs (bs[?i := bs ! ?i @ [(temp, sint hash, val)]] ! j))
      \<inter> set (addrs (bs[?i := bs ! ?i @ [(temp, sint hash, val)]] ! k)) = {}"
    if "j < length bs" "k < length bs" "j \<noteq> k" for j k
    using that disj nt i by (auto simp: nth_list_update)
  have L: "length bs = unat (hm_nbuckets m)" "0 < length bs" using r unfolding hm_repr_def by blast+
  have "hm_repr ?h2 ?m (bs[?i := bs ! ?i @ [(temp, sint hash, val)]])"
    unfolding hm_repr_def
    by (intro conjI allI impI A B) (use L l(2) in \<open>simp_all\<close>)
  with add show ?thesis by auto
qed

text \<open>Only nodes and the new address change: what was free stays free.\<close>

lemma hashmap_add_frame:
  assumes r: "hm_repr h m bs" and t: "h temp = None" "temp \<noteq> 0"
    and add: "hashmap_add h temp m hash val = Some (h', m', v)" and x: "h x = None" "x \<noteq> temp"
  shows "h' x = None"
proof -
  let ?i = "hm_slot m hash"
  have i: "?i < length bs" using r by (rule hm_slot_less)
  have l: "list_repr h (hm_buckets m ! ?i) (bs ! ?i)" "length (hm_buckets m) = length bs"
    using r i by (auto simp: hm_repr_def)
  obtain h1 l1 where h1: "list_add_data h temp (hm_buckets m ! ?i) val = Some (h1, l1, temp)"
    "list_repr h1 l1 (bs ! ?i @ [(temp, 0, val)])"
    "\<forall>a. a \<noteq> temp \<and> a \<notin> set (addrs (bs ! ?i)) \<longrightarrow> h1 a = h a"
    using list_add_data_ok [OF l(1) t] by blast
  from h1(2) obtain n where n: "h1 temp = Some n" by (auto simp: list_repr_def dseg_snoc)
  have "x \<notin> set (addrs (bs ! ?i))" using l(1) x(1) dseg_in_heap by (metis list_repr_def)
  then have "h1 x = None" using h1(3) x by simp
  then show ?thesis
    using add h1(1) n t i l(2) hashmap_bucket_ok [OF r] x(2) by (auto simp: hashmap_add_def)
qed

lemma find_snoc: "find P (xs @ [x]) = (case find P xs of None \<Rightarrow> if P x then Some x else None | r \<Rightarrow> r)"
  by (induction xs) auto

text \<open>Seen through \<open>hm_find\<close>: a new hash is bound to the new value, an old binding stays in front,
  and no other hash changes.\<close>

lemma hm_find_add:
  assumes "hm_slot m hash < length bs" "hm_nbuckets m' = hm_nbuckets m"
  shows "hm_find m' (bs[hm_slot m hash := bs ! hm_slot m hash @ [(t, sint hash, v)]]) k
    = (if k = hash \<and> hm_find m bs hash = None then Some (t, sint hash, v) else hm_find m bs k)"
proof (cases "hm_slot m k = hm_slot m hash")
  case True
  then have k: "hm_slot m' k = hm_slot m hash" using assms(2) by (simp add: hm_slot_def)
  show ?thesis
    unfolding hm_find_def k True using assms(1)
    by (cases "k = hash") (auto simp: find_snoc sint_u32_eq_iff split: option.splits)
next
  case False
  then show ?thesis using assms by (auto simp: hm_find_def hm_slot_def)
qed

text \<open>Removing the oldest node of a bucket leaves the bucket pointing to freed memory.\<close>

lemma hashmap_remove_first:
  assumes r: "hm_repr h m bs" and b: "bs ! hm_slot m hash = (a, sint hash, d) # xs"
  shows "\<exists>h'. hashmap_remove h m hash = Some h' \<and>
    (\<forall>k. hm_slot m k = hm_slot m hash \<longrightarrow> hashmap_get h' m k = None)"
proof -
  let ?i = "hm_slot m hash"
  have i: "?i < length bs" using r by (rule hm_slot_less)
  have l: "list_repr h (hm_buckets m ! ?i) ((a, sint hash, d) # xs)" "length (hm_buckets m) = length bs"
    using r i b by (auto simp: hm_repr_def)
  obtain h' q where h': "list_remove_node h a = Some (h', q)" "h' (lh_base (hm_buckets m ! ?i)) = None"
    using list_remove_node_first [OF l(1)] by blast
  have a: "a \<noteq> 0" "lh_base (hm_buckets m ! ?i) = a" using l(1) by (auto simp: list_repr_def)
  have "hashmap_remove h m hash = Some h'"
    using h'(1) a hashmap_bucket_ok [OF r] i l(2) list_get_val_ok [OF l(1), of "sint hash"]
    by (simp add: hashmap_remove_def)
  moreover have "hashmap_get h' m k = None" if "hm_slot m k = ?i" for k
    using that h'(2) a i l(2) hashmap_bucket_ok [OF r, of k]
    by (simp add: hashmap_get_def list_get_val_def list_val_from.simps)
  ultimately show ?thesis by auto
qed

section \<open>Properties\<close>

text \<open>After \<open>hashmap_add\<close> of a hash that was not bound, \<open>hashmap_get\<close> returns the new value for
  it and the old answer for every other hash; an existing binding keeps being found first.\<close>

theorem hashmap_add_get:
  assumes "hm_repr h m bs" "h temp = None" "temp \<noteq> 0"
  shows "\<exists>h' m'. hashmap_add h temp m hash val = Some (h', m', Some val)
    \<and> (\<forall>k. hashmap_get h' m' k
         = (if k = hash \<and> hashmap_get h m hash = Some None then Some (Some val) else hashmap_get h m k))"
proof -
  obtain h' m' where h': "hashmap_add h temp m hash val = Some (h', m', Some val)"
    "hm_repr h' m' (bs[hm_slot m hash := bs ! hm_slot m hash @ [(temp, sint hash, val)]])"
    "hm_nbuckets m' = hm_nbuckets m"
    using hashmap_add_ok [OF assms] by blast
  have "hashmap_get h' m' k
      = (if k = hash \<and> hashmap_get h m hash = Some None then Some (Some val) else hashmap_get h m k)" for k
    using hm_find_add [OF hm_slot_less [OF assms(1)] h'(3), of hash temp val k]
    by (simp add: hashmap_get_ok [OF h'(2)] hashmap_get_ok [OF assms(1)])
  with h'(1) show ?thesis by blast
qed

lemma hashmap_add_get_witness:
  "\<exists>h' m'. hashmap_add (Map.empty :: nat lheap) 8 (hashmap_create 4) 6 42 = Some (h', m', Some 42)
    \<and> hashmap_get h' m' 6 = Some (Some 42) \<and> hashmap_get h' m' 2 = Some None"
proof -
  have r: "hm_repr (Map.empty :: nat lheap) (hashmap_create 4) (replicate (unat (4 :: u32)) [])"
    by (rule hm_repr_create) simp
  have "hashmap_get (Map.empty :: nat lheap) (hashmap_create 4) k = Some None" for k
    using hm_slot_less [OF r] by (simp add: hashmap_get_ok [OF r] hm_find_def)
  then show ?thesis using hashmap_add_get [OF r, of 8 6 42] by auto
qed

text \<open>\<open>hashmap_remove\<close> of the oldest entry of a bucket frees the node and leaves the bucket
  pointing to it: the next lookup of any hash of that bucket reads freed memory.\<close>

theorem hashmap_remove_dangles:
  assumes "hm_repr h m bs" "bs ! hm_slot m hash = (a, sint hash, d) # xs"
  shows "\<exists>h'. hashmap_remove h m hash = Some h' \<and>
    (\<forall>k. hm_slot m k = hm_slot m hash \<longrightarrow> hashmap_get h' m k = None)"
  using assms by (rule hashmap_remove_first)

lemma hashmap_remove_dangles_witness:
  "\<exists>h m h'. hashmap_add (Map.empty :: nat lheap) 8 (hashmap_create 4) 6 42 = Some (h, m, Some 42)
    \<and> hashmap_remove h m 6 = Some h' \<and> hashmap_get h' m 6 = None"
proof -
  have r: "hm_repr (Map.empty :: nat lheap) (hashmap_create 4) (replicate (unat (4 :: u32)) [])"
    by (rule hm_repr_create) simp
  have s: "hm_slot (hashmap_create 4) 6 = 2" by (simp add: hm_slot_def hashmap_create_def)
  obtain h m where h: "hashmap_add (Map.empty :: nat lheap) 8 (hashmap_create 4) 6 42 = Some (h, m, Some 42)"
    "hm_repr h m ((replicate (unat (4 :: u32)) [])[2 := [(8, sint (6 :: u32), 42)]])"
    "hm_nbuckets m = hm_nbuckets (hashmap_create 4)"
    using hashmap_add_ok [OF r, of 8 6 42] by (auto simp: s)
  have "hm_slot m 6 = 2" using h(3) s by (simp add: hm_slot_def)
  then show ?thesis
    using hashmap_remove_dangles [OF h(2), of 6 8 42 "[]"] h(1) by fastforce
qed

end
