(* ===== verification/DynString.thy ===== *)
theory DynString
  imports Prelude
begin

text \<open>
  \<^verbatim>\<open>kernel/base/datastructs/dynstring.c\<close>: the growable string that holds the data of a ramfs
  file. \<open>ds_block\<close> is the heap block behind \<open>string\<close>, and an access outside it is \<open>None\<close>;
  \<open>junk\<close> is what the space that \<open>krealloc\<close> adds happens to contain. Products are taken modulo
  \<open>2 ^ 32\<close> as the unsigned arithmetic of the code does.
\<close>

section \<open>State and operations\<close>

definition DEFAULT_DYNSTRING_BSIZE :: nat where
  "DEFAULT_DYNSTRING_BSIZE = 32"

record dynstring =
  ds_block :: "u8 list"
  ds_length :: nat
  ds_alloced :: nat
  ds_block_size :: nat
  ds_references :: nat

text \<open>\<open>b / B + ( b % B )? 1: 0\<close>: the conditional operator binds weaker than the sum, so the number
  of blocks is 0 or 1.\<close>

definition dstring_blocks :: "nat \<Rightarrow> nat" where
  "dstring_blocks len =
     (if len div DEFAULT_DYNSTRING_BSIZE + len mod DEFAULT_DYNSTRING_BSIZE \<noteq> 0 then 1 else 0)"

definition dstring_set_string :: "dynstring \<Rightarrow> u8 list \<Rightarrow> dynstring" where
  "dstring_set_string s newstr =
     s\<lparr>ds_block := newstr @ [0], ds_length := length newstr,
       ds_block_size := DEFAULT_DYNSTRING_BSIZE, ds_alloced := dstring_blocks (length newstr)\<rparr>"

definition dstring_create :: "u8 list \<Rightarrow> dynstring" where
  "dstring_create str =
     (dstring_set_string \<lparr>ds_block = [], ds_length = 0, ds_alloced = 0, ds_block_size = 0,
                          ds_references = 0\<rparr> str)\<lparr>ds_references := 0\<rparr>"

definition dstring_get_string :: "dynstring \<Rightarrow> u8 list" where
  "dstring_get_string s = ds_block s"

text \<open>The C string that a block holds: the bytes before the first zero; none means a read past the
  block.\<close>

fun c_string :: "u8 list \<Rightarrow> u8 list option" where
  "c_string [] = None"
| "c_string (b # bs) = (if b = 0 then Some [] else map_option ((#) b) (c_string bs))"

definition dstring_copy :: "dynstring \<Rightarrow> dynstring option" where
  "dstring_copy s = map_option dstring_create (c_string (dstring_get_string s))"

definition dstring_realloc :: "(nat \<Rightarrow> u8) \<Rightarrow> u8 list \<Rightarrow> nat \<Rightarrow> u8 list" where
  "dstring_realloc junk block n = take n block @ map junk [length block..<n]"

definition dstring_set_char :: "(nat \<Rightarrow> u8) \<Rightarrow> dynstring \<Rightarrow> nat \<Rightarrow> u8 \<Rightarrow> dynstring option" where
  "dstring_set_char junk s pos newchar =
     (let s' =
        (if ds_length s < pos \<and> (ds_alloced s * ds_block_size s) mod 2 ^ 32 < pos
         then (let alloced = pos div ds_block_size s + pos mod ds_block_size s
               in s\<lparr>ds_alloced := alloced,
                    ds_block := dstring_realloc junk (ds_block s) ((alloced * ds_block_size s) mod 2 ^ 32)\<rparr>)
         else if ds_length s < pos then s\<lparr>ds_length := pos\<rparr>
         else s)
      in do { b \<leftarrow> write_at (ds_block s') pos newchar; Some (s'\<lparr>ds_block := b\<rparr>) })"

section \<open>Facts\<close>

lemma c_string_terminated: "0 \<notin> set xs \<Longrightarrow> c_string (xs @ 0 # ys) = Some xs"
  by (induction xs) auto

lemma dstring_create_fields [simp]:
  "ds_block (dstring_create xs) = xs @ [0]" "ds_length (dstring_create xs) = length xs"
  "ds_alloced (dstring_create xs) = dstring_blocks (length xs)" "ds_block_size (dstring_create xs) = 32"
  "ds_references (dstring_create xs) = 0"
  by (simp_all add: dstring_create_def dstring_set_string_def DEFAULT_DYNSTRING_BSIZE_def)

lemma dstring_copy_create: "0 \<notin> set xs \<Longrightarrow> dstring_copy (dstring_create xs) = Some (dstring_create xs)"
  by (simp add: dstring_copy_def dstring_get_string_def c_string_terminated)

lemma dstring_blocks_le: "dstring_blocks n \<le> 1"
  by (simp add: dstring_blocks_def)

text \<open>A write at a position inside the string changes that byte only.\<close>

lemma dstring_set_char_inside:
  "pos \<le> ds_length s \<Longrightarrow> pos < length (ds_block s) \<Longrightarrow>
   dstring_set_char junk s pos c = Some (s\<lparr>ds_block := (ds_block s)[pos := c]\<rparr>)"
  by (simp add: dstring_set_char_def Let_def)

text \<open>A write past the string but within the allotted blocks makes the length equal the position.\<close>

lemma dstring_set_char_within:
  "ds_length s < pos \<Longrightarrow> pos \<le> (ds_alloced s * ds_block_size s) mod 2 ^ 32 \<Longrightarrow> pos < length (ds_block s) \<Longrightarrow>
   dstring_set_char junk s pos c = Some (s\<lparr>ds_length := pos, ds_block := (ds_block s)[pos := c]\<rparr>)"
  by (simp add: dstring_set_char_def Let_def)

text \<open>At the exact end of the allotted blocks no growth is triggered, and the write is out of
  bounds.\<close>

lemma dstring_set_char_boundary:
  "ds_length s < pos \<Longrightarrow> pos = (ds_alloced s * ds_block_size s) mod 2 ^ 32 \<Longrightarrow> length (ds_block s) \<le> pos \<Longrightarrow>
   dstring_set_char junk s pos c = None"
  by (simp add: dstring_set_char_def Let_def)

lemma dstring_set_char_grow:
  assumes "ds_length s < pos" "(ds_alloced s * ds_block_size s) mod 2 ^ 32 < pos"
    and "n = pos div ds_block_size s + pos mod ds_block_size s"
    and "pos < (n * ds_block_size s) mod 2 ^ 32" "length (ds_block s) \<le> (n * ds_block_size s) mod 2 ^ 32"
  shows "dstring_set_char junk s pos c = Some (s\<lparr>ds_alloced := n,
      ds_block := (ds_block s @ map junk [length (ds_block s)..<(n * ds_block_size s) mod 2 ^ 32])[pos := c]\<rparr>)"
  using assms by (simp add: dstring_set_char_def dstring_realloc_def Let_def)

section \<open>Properties\<close>

text \<open>\<open>dstring_set_char\<close> at the exact end of the one block that a short string owns does not
  grow the string: the write lands outside the heap block.\<close>

theorem dstring_boundary_write:
  assumes "xs \<noteq> []" "length xs < 32"
  shows "dstring_set_char junk (dstring_create xs) 32 c = None
    \<and> (\<forall>pos < length xs. \<exists>s. dstring_set_char junk (dstring_create xs) pos c = Some s
         \<and> dstring_get_string s = (xs @ [0])[pos := c])"
proof -
  have "dstring_blocks (length xs) = 1" using assms by (simp add: dstring_blocks_def DEFAULT_DYNSTRING_BSIZE_def)
  then have "dstring_set_char junk (dstring_create xs) 32 c = None"
    using assms(2) by (intro dstring_set_char_boundary) simp_all
  moreover have "dstring_set_char junk (dstring_create xs) pos c
      = Some ((dstring_create xs)\<lparr>ds_block := (xs @ [0])[pos := c]\<rparr>)" if "pos < length xs" for pos
    using that by (subst dstring_set_char_inside) simp_all
  ultimately show ?thesis by (auto simp: dstring_get_string_def)
qed

lemma dstring_boundary_write_witness:
  "dstring_set_char (\<lambda>_. 0) (dstring_create [72, 105]) 32 33 = None"
  using dstring_boundary_write [of "[72, 105]" "\<lambda>_. 0" 33] by simp

end
