(* ===== verification/Shared.thy ===== *)
theory Shared
  imports Prelude
begin

text \<open>
  \<^verbatim>\<open>kernel/base/datastructs/shared.c\<close>: reference-counted handles. The cells live in a heap that
  maps addresses to cells; a released cell is no longer there. Calls of the destructor are
  recorded in order in \<open>sh_dtor_calls\<close>. The counter is a 32-bit word.
\<close>

section \<open>State and operations\<close>

record 'a shared =
  sh_data :: 'a
  sh_references :: u32
  sh_dtor :: bool

record 'a shared_heap =
  sh_cells :: "nat \<Rightarrow> 'a shared option"
  sh_dtor_calls :: "'a list"

text \<open>\<open>ptr\<close> is the block that \<open>knew\<close> returned.\<close>

definition shared_new :: "'a shared_heap \<Rightarrow> nat \<Rightarrow> 'a \<Rightarrow> bool \<Rightarrow> 'a shared_heap \<times> nat" where
  "shared_new h ptr data dtor =
     (h\<lparr>sh_cells := (sh_cells h)(ptr \<mapsto> \<lparr>sh_data = data, sh_references = 1, sh_dtor = dtor\<rparr>)\<rparr>, ptr)"

text \<open>The inner \<open>option\<close> of the result is the data pointer or \<open>NULL\<close>.\<close>

definition shared_get :: "'a shared_heap \<Rightarrow> nat \<Rightarrow> 'a option option" where
  "shared_get h ptr =
     (if ptr \<noteq> 0 then do { c \<leftarrow> sh_cells h ptr; Some (Some (sh_data c)) } else Some None)"

definition shared_aquire :: "'a shared_heap \<Rightarrow> nat \<Rightarrow> ('a shared_heap \<times> nat) option" where
  "shared_aquire h ptr =
     (if ptr \<noteq> 0
      then do { c \<leftarrow> sh_cells h ptr;
                Some (h\<lparr>sh_cells := (sh_cells h)(ptr \<mapsto> c\<lparr>sh_references := sh_references c + 1\<rparr>)\<rparr>, ptr) }
      else Some (h, ptr))"

text \<open>The warning branch prints \<open>ptr->data\<close>, which for a null \<open>ptr\<close> is a null dereference.\<close>

definition shared_release :: "'a shared_heap \<Rightarrow> nat \<Rightarrow> 'a shared_heap option" where
  "shared_release h ptr =
     (if ptr = 0 then None
      else do {
        c \<leftarrow> sh_cells h ptr;
        if sh_references c \<noteq> 0
        then (let c' = c\<lparr>sh_references := sh_references c - 1\<rparr> in
              if sh_references c' = 0
              then (let h' = (if sh_dtor c' then h\<lparr>sh_dtor_calls := sh_dtor_calls h @ [sh_data c']\<rparr> else h)
                    in Some (h'\<lparr>sh_cells := (sh_cells h')(ptr := None)\<rparr>))
              else Some (h\<lparr>sh_cells := (sh_cells h)(ptr \<mapsto> c')\<rparr>))
        else Some h
      })"

section \<open>Lifetime of a shared object\<close>

primrec shared_aquires :: "'a shared_heap \<Rightarrow> nat \<Rightarrow> nat \<Rightarrow> 'a shared_heap option" where
  "shared_aquires h ptr 0 = Some h"
| "shared_aquires h ptr (Suc n) = do { (h', p) \<leftarrow> shared_aquire h ptr; shared_aquires h' ptr n }"

primrec shared_releases :: "'a shared_heap \<Rightarrow> nat \<Rightarrow> nat \<Rightarrow> 'a shared_heap option" where
  "shared_releases h ptr 0 = Some h"
| "shared_releases h ptr (Suc n) = do { h' \<leftarrow> shared_release h ptr; shared_releases h' ptr n }"

definition shared_set_refs :: "'a shared_heap \<Rightarrow> nat \<Rightarrow> 'a shared \<Rightarrow> nat \<Rightarrow> 'a shared_heap" where
  "shared_set_refs h ptr c n = h\<lparr>sh_cells := (sh_cells h)(ptr \<mapsto> c\<lparr>sh_references := of_nat n\<rparr>)\<rparr>"

lemma shared_set_refs_cell [simp]:
  "sh_cells (shared_set_refs h ptr c n) ptr = Some (c\<lparr>sh_references := of_nat n\<rparr>)"
  "sh_dtor_calls (shared_set_refs h ptr c n) = sh_dtor_calls h"
  by (simp_all add: shared_set_refs_def)

lemma shared_aquires_ok:
  "ptr \<noteq> 0 \<Longrightarrow> shared_aquires (shared_set_refs h ptr c k) ptr n = Some (shared_set_refs h ptr c (k + n))"
proof (induction n arbitrary: k)
  case 0
  then show ?case by simp
next
  case (Suc n)
  have "shared_aquire (shared_set_refs h ptr c k) ptr = Some (shared_set_refs h ptr c (Suc k), ptr)"
    using Suc.prems by (simp add: shared_aquire_def shared_set_refs_def add.commute)
  with Suc.IH [OF Suc.prems, of "Suc k"] show ?case by simp
qed

lemma shared_release_alive:
  assumes "ptr \<noteq> 0" "0 < k" "Suc k < 2 ^ 32"
  shows "shared_release (shared_set_refs h ptr c (Suc k)) ptr = Some (shared_set_refs h ptr c k)"
proof -
  have "of_nat (Suc k) \<noteq> (0 :: u32)" "of_nat k \<noteq> (0 :: u32)"
    using assms by (auto simp: word_of_nat_eq_0_iff dest: dvd_imp_le simp del: of_nat_Suc)
  then show ?thesis using assms by (simp add: shared_release_def shared_set_refs_def Let_def)
qed

lemma shared_releases_alive:
  "ptr \<noteq> 0 \<Longrightarrow> 0 < k \<Longrightarrow> k + n < 2 ^ 32 \<Longrightarrow>
   shared_releases (shared_set_refs h ptr c (k + n)) ptr n = Some (shared_set_refs h ptr c k)"
  by (induction n) (simp_all add: shared_release_alive)

lemma shared_release_last:
  "ptr \<noteq> 0 \<Longrightarrow> shared_release (shared_set_refs h ptr c 1) ptr =
    Some (h\<lparr>sh_cells := (sh_cells h)(ptr := None),
            sh_dtor_calls := sh_dtor_calls h @ (if sh_dtor c then [sh_data c] else [])\<rparr>)"
  by (simp add: shared_release_def shared_set_refs_def Let_def)

lemma shared_new_set_refs:
  "shared_new h ptr d f = (shared_set_refs h ptr \<lparr>sh_data = d, sh_references = 1, sh_dtor = f\<rparr> 1, ptr)"
  by (simp add: shared_new_def shared_set_refs_def)

section \<open>Properties\<close>

text \<open>A shared object acquired \<open>n\<close> times survives \<open>n\<close> releases and is destroyed by the next
  one: the destructor runs exactly once, on the object's data, and the cell is freed.\<close>

theorem shared_lifetime:
  assumes "shared_new h ptr d True = (h0, p)" "ptr \<noteq> 0" "Suc n < 2 ^ 32"
  shows "\<exists>h1 h2 h3. shared_aquires h0 p n = Some h1 \<and> shared_releases h1 p n = Some h2
    \<and> sh_dtor_calls h2 = sh_dtor_calls h \<and> shared_get h2 p = Some (Some d)
    \<and> shared_release h2 p = Some h3 \<and> sh_dtor_calls h3 = sh_dtor_calls h @ [d] \<and> sh_cells h3 p = None"
proof -
  let ?c = "\<lparr>sh_data = d, sh_references = 1, sh_dtor = True\<rparr>"
  have h0: "h0 = shared_set_refs h ptr ?c 1" "p = ptr"
    using assms(1) by (auto simp: shared_new_set_refs)
  have "shared_aquires (shared_set_refs h ptr ?c 1) ptr n = Some (shared_set_refs h ptr ?c (1 + n))"
    by (rule shared_aquires_ok [OF assms(2)])
  moreover have "shared_releases (shared_set_refs h ptr ?c (1 + n)) ptr n = Some (shared_set_refs h ptr ?c 1)"
    using shared_releases_alive [OF assms(2), of 1 n] assms(3) by simp
  ultimately show ?thesis
    unfolding h0 using shared_release_last [OF assms(2), of h ?c] assms(2)
    by (auto simp: shared_get_def)
qed

lemma shared_lifetime_witness:
  "\<exists>h1 h2 h3. shared_aquires (fst (shared_new \<lparr>sh_cells = Map.empty, sh_dtor_calls = []\<rparr> 16 (5 :: nat) True)) 16 3 = Some h1
    \<and> shared_releases h1 16 3 = Some h2 \<and> sh_dtor_calls h2 = []
    \<and> shared_release h2 16 = Some h3 \<and> sh_dtor_calls h3 = [5]"
  using shared_lifetime [of "\<lparr>sh_cells = Map.empty, sh_dtor_calls = []\<rparr>" 16 5 _ 16 3]
  by (fastforce simp: shared_new_def)

end
