(* ===== verification/Slab.thy ===== *)
theory Slab
  imports Interfaces
begin

text \<open>
  \<^verbatim>\<open>kernel/base/mem/slabnew.c\<close>: caches of equal-sized blocks. A slab is a page whose header links
  it into one of the three lists of its cache and whose bit map says which of its blocks are in
  use; block \<open>0\<close> is the header itself. Headers live in \<open>ss_slabs\<close>, by page address; reading the
  header of a page that is not a slab is \<open>None\<close>. A region is reached through its two function
  pointers, which are the arguments \<open>alloc\<close> and \<open>release\<close> here. Calls of constructors and
  destructors are recorded as the lists of the block addresses they were given. Messages printed
  to the log are left out.
\<close>

section \<open>State\<close>

definition SLAB_MAX_BITS :: u32 where "SLAB_MAX_BITS = 64"
definition BLOCK_SIZE :: nat where "BLOCK_SIZE = 4"
definition MAX_FREE_PAGES :: u32 where "MAX_FREE_PAGES = 8"
definition DARK_MAGIC :: u32 where "DARK_MAGIC = 0xabadc0de"
definition SLAB_PAGE :: u32 where "SLAB_PAGE = 0x1000"

datatype slab_stat = SLAB_STATUS_FREE | SLAB_STATUS_PARTIAL | SLAB_STATUS_FULL

record slab =
  sb_last :: u32
  sb_next :: u32
  sb_cache :: nat
  sb_map :: u64
  sb_bits_free :: u32
  sb_magic :: u32
  sb_status :: slab_stat

record slab_cache =
  sc_free :: u32
  sc_partial :: u32
  sc_full :: u32
  sc_ctor :: bool
  sc_dtor :: bool
  sc_obj_size :: u32
  sc_pages_alloced :: u32
  sc_map_bits :: u32
  sc_block_size :: u32
  sc_free_pages :: u32
  sc_max_free :: u32

record 'r slab_state =
  ss_slabs :: "u32 \<Rightarrow> slab option"
  ss_cache :: "nat \<Rightarrow> slab_cache"
  ss_region :: 'r
  ss_ctor_calls :: "u32 list"
  ss_dtor_calls :: "u32 list"

type_synonym 'r region_alloc = "'r \<Rightarrow> nat \<Rightarrow> ('r \<times> u32) option"
type_synonym 'r region_free = "'r \<Rightarrow> u32 \<Rightarrow> 'r option"

definition slab_page_of :: "u32 \<Rightarrow> u32" where
  "slab_page_of p = p AND NOT (SLAB_PAGE - 1)"

definition slab_update :: "(slab \<Rightarrow> slab) \<Rightarrow> u32 \<Rightarrow> 'r slab_state \<Rightarrow> 'r slab_state option" where
  "slab_update f a s =
     do { b \<leftarrow> ss_slabs s a; Some (s\<lparr>ss_slabs := (ss_slabs s)(a \<mapsto> f b)\<rparr>) }"

definition cache_update :: "(slab_cache \<Rightarrow> slab_cache) \<Rightarrow> nat \<Rightarrow> 'r slab_state \<Rightarrow> 'r slab_state" where
  "cache_update f c s = s\<lparr>ss_cache := (ss_cache s)(c := f (ss_cache s c))\<rparr>"

text \<open>The heads of the three lists are addressed by pointers to the fields of the cache.\<close>

datatype slab_list = LFree | LPartial | LFull

primrec head_get :: "slab_list \<Rightarrow> slab_cache \<Rightarrow> u32" where
  "head_get LFree c = sc_free c"
| "head_get LPartial c = sc_partial c"
| "head_get LFull c = sc_full c"

primrec head_set :: "slab_list \<Rightarrow> u32 \<Rightarrow> slab_cache \<Rightarrow> slab_cache" where
  "head_set LFree a c = c\<lparr>sc_free := a\<rparr>"
| "head_set LPartial a c = c\<lparr>sc_partial := a\<rparr>"
| "head_set LFull a c = c\<lparr>sc_full := a\<rparr>"

section \<open>Lists of slabs\<close>

definition slab_cache_push_block :: "nat \<Rightarrow> slab_list \<Rightarrow> u32 \<Rightarrow> 'r slab_state \<Rightarrow> 'r slab_state option" where
  "slab_cache_push_block c slist slab s =
     do { let head = head_get slist (ss_cache s c);
          s1 \<leftarrow> slab_update (sb_last_update (\<lambda>_. head)) slab s;
          s2 \<leftarrow> (if head \<noteq> 0 then slab_update (sb_next_update (\<lambda>_. slab)) head s1 else Some s1);
          s3 \<leftarrow> slab_update (sb_next_update (\<lambda>_. 0)) slab s2;
          Some (cache_update (head_set slist slab) c s3) }"

definition slab_cache_move_block ::
  "nat \<Rightarrow> slab_list \<Rightarrow> slab_list \<Rightarrow> u32 \<Rightarrow> 'r slab_state \<Rightarrow> 'r slab_state option" where
  "slab_cache_move_block c from to slab s =
     do { b \<leftarrow> ss_slabs s slab;
          s1 \<leftarrow> (if sb_last b \<noteq> 0 then slab_update (sb_next_update (\<lambda>_. sb_next b)) (sb_last b) s else Some s);
          b1 \<leftarrow> ss_slabs s1 slab;
          s2 \<leftarrow> (if sb_next b1 \<noteq> 0
                then slab_update (sb_last_update (\<lambda>_. sb_last b1)) (sb_next b1) s1
                else Some (cache_update (head_set from (sb_last b1)) c s1));
          s3 \<leftarrow> slab_update (sb_next_update (\<lambda>_. 0)) slab s2;
          let head = head_get to (ss_cache s3 c);
          s4 \<leftarrow> slab_update (sb_last_update (\<lambda>_. head)) slab s3;
          s5 \<leftarrow> (if head \<noteq> 0 then slab_update (sb_next_update (\<lambda>_. slab)) head s4 else Some s4);
          Some (cache_update (head_set to slab) c s5) }"

section \<open>Adding and removing pages\<close>

text \<open>The block addresses that the constructor or destructor loop visits.\<close>

definition slab_blocks :: "slab_cache \<Rightarrow> u32 \<Rightarrow> u32 list" where
  "slab_blocks c page = map (\<lambda>i. page + of_nat i * sc_block_size c) [1..<unat (sc_map_bits c)]"

definition slab_cache_add_page :: "nat \<Rightarrow> u32 \<Rightarrow> 'r slab_state \<Rightarrow> 'r slab_state option" where
  "slab_cache_add_page c page s =
     (let k = ss_cache s c;
          s1 = s\<lparr>ss_slabs := (ss_slabs s)(page \<mapsto>
                 \<lparr>sb_last = 0, sb_next = 0, sb_cache = c, sb_map = 1, sb_bits_free = sc_map_bits k - 1,
                  sb_magic = DARK_MAGIC, sb_status = SLAB_STATUS_FREE\<rparr>)\<rparr>;
          s2 = (if sc_ctor k then s1\<lparr>ss_ctor_calls := ss_ctor_calls s1 @ slab_blocks k page\<rparr> else s1);
          s3 = cache_update (\<lambda>k. k\<lparr>sc_free_pages := sc_free_pages k + 1, sc_pages_alloced := sc_pages_alloced k + 1\<rparr>) c s2
      in slab_cache_push_block c LFree page s3)"

fun slab_cache_add_pages :: "nat \<Rightarrow> u32 \<Rightarrow> nat \<Rightarrow> 'r slab_state \<Rightarrow> 'r slab_state option" where
  "slab_cache_add_pages c pages 0 s = Some s"
| "slab_cache_add_pages c pages (Suc n) s =
     do { s' \<leftarrow> slab_cache_add_page c pages s; slab_cache_add_pages c (pages + SLAB_PAGE) n s' }"

definition slab_cache_alloc_pages :: "'r region_alloc \<Rightarrow> nat \<Rightarrow> 'r slab_state \<Rightarrow> ('r slab_state \<times> u32) option" where
  "slab_cache_alloc_pages alloc n s =
     do { (r, p) \<leftarrow> alloc (ss_region s) n; Some (s\<lparr>ss_region := r\<rparr>, p) }"

definition slab_cache_add_page_block :: "'r region_alloc \<Rightarrow> nat \<Rightarrow> 'r slab_state \<Rightarrow> 'r slab_state option" where
  "slab_cache_add_page_block alloc c s =
     do { (s', buf) \<leftarrow> slab_cache_alloc_pages alloc BLOCK_SIZE s;
          if buf \<noteq> 0 then slab_cache_add_pages c buf BLOCK_SIZE s' else Some s' }"

definition slab_cache_do_dtors :: "nat \<Rightarrow> u32 \<Rightarrow> 'r slab_state \<Rightarrow> 'r slab_state" where
  "slab_cache_do_dtors c page s =
     (if sc_dtor (ss_cache s c)
      then s\<lparr>ss_dtor_calls := ss_dtor_calls s @ slab_blocks (ss_cache s c) page\<rparr>
      else s)"

text \<open>A page given back to its region is no longer a slab.\<close>

definition slab_release :: "'r region_free \<Rightarrow> u32 \<Rightarrow> 'r slab_state \<Rightarrow> 'r slab_state option" where
  "slab_release release page s =
     do { r \<leftarrow> release (ss_region s) page;
          Some (s\<lparr>ss_region := r, ss_slabs := (ss_slabs s)(page := None)\<rparr>) }"

definition free_one_cache_page :: "'r region_free \<Rightarrow> nat \<Rightarrow> 'r slab_state \<Rightarrow> 'r slab_state option" where
  "free_one_cache_page release c s =
     (let tmp = sc_free (ss_cache s c) in
      if tmp \<noteq> 0
      then do {
        b \<leftarrow> ss_slabs s tmp;
        let s1 = cache_update (\<lambda>k. k\<lparr>sc_free := sb_last b, sc_pages_alloced := sc_pages_alloced k - 1,
                                   sc_free_pages := sc_free_pages k - 1\<rparr>) c s;
        s2 \<leftarrow> (if sb_next b \<noteq> 0 then slab_update (sb_last_update (\<lambda>_. sb_last b)) (sb_next b) s1 else Some s1);
        b2 \<leftarrow> ss_slabs s2 tmp;
        s3 \<leftarrow> (if sb_last b2 \<noteq> 0 then slab_update (sb_next_update (\<lambda>_. sb_next b2)) (sb_last b2) s2 else Some s2);
        slab_release release tmp (slab_cache_do_dtors c tmp s3)
      }
      else Some s)"

partial_function (option) free_slab_list :: "'r region_free \<Rightarrow> nat \<Rightarrow> u32 \<Rightarrow> 'r slab_state \<Rightarrow> 'r slab_state option" where
  "free_slab_list release c move s =
     (if move = 0 then Some s
      else do {
        b \<leftarrow> ss_slabs s move;
        s1 \<leftarrow> slab_release release move (slab_cache_do_dtors c move s);
        free_slab_list release c (sb_last b)
          (cache_update (\<lambda>k. k\<lparr>sc_pages_alloced := sc_pages_alloced k - 1\<rparr>) c s1)
      })"

section \<open>Allocation\<close>

text \<open>\<open>for ( b = 1; slab->map & b; b <<= 1 ) move += block_size\<close>; after 64 shifts \<open>b\<close> is zero.\<close>

function slab_find_bit :: "u64 \<Rightarrow> u32 \<Rightarrow> nat \<Rightarrow> u32 \<Rightarrow> nat \<times> u32" where
  "slab_find_bit m block_size i move =
     (if m AND push_bit i 1 \<noteq> 0 then slab_find_bit m block_size (Suc i) (move + block_size) else (i, move))"
  by pat_completeness auto
termination
  by (relation "measure (\<lambda>(m, bs, i, mv). 64 - i)")
    (auto simp: and_exp_eq_0_iff_not_bit push_bit_of_1 dest: bit_imp_le_length)

declare slab_find_bit.simps [simp del]

definition slab_alloc_partial :: "nat \<Rightarrow> 'r slab_state \<Rightarrow> ('r slab_state \<times> u32) option" where
  "slab_alloc_partial c s =
     do { let slab = sc_partial (ss_cache s c);
          b \<leftarrow> ss_slabs s slab;
          let (i, move) = slab_find_bit (sb_map b) (sc_block_size (ss_cache s c)) 0 slab;
          let b' = b\<lparr>sb_map := sb_map b OR push_bit i 1, sb_bits_free := sb_bits_free b - 1\<rparr>;
          s1 \<leftarrow> (if sb_bits_free b' = 0
                then slab_cache_move_block c LPartial LFull slab
                       (s\<lparr>ss_slabs := (ss_slabs s)(slab \<mapsto> b'\<lparr>sb_status := SLAB_STATUS_FULL\<rparr>)\<rparr>)
                else Some (s\<lparr>ss_slabs := (ss_slabs s)(slab \<mapsto> b')\<rparr>));
          Some (s1, move) }"

definition slab_alloc_free :: "nat \<Rightarrow> 'r slab_state \<Rightarrow> ('r slab_state \<times> u32) option" where
  "slab_alloc_free c s =
     do { let slab = sc_free (ss_cache s c);
          s1 \<leftarrow> slab_update (\<lambda>b. b\<lparr>sb_map := sb_map b OR push_bit 1 1, sb_status := SLAB_STATUS_PARTIAL,
                                  sb_bits_free := sb_bits_free b - 1\<rparr>) slab s;
          let s2 = cache_update (\<lambda>k. k\<lparr>sc_free_pages := sc_free_pages k - 1\<rparr>) c s1;
          s3 \<leftarrow> slab_cache_move_block c LFree LPartial slab s2;
          Some (s3, slab + sc_block_size (ss_cache s c)) }"

text \<open>The loop \<open>for ( i = 0; !ret && i < 2; i++ )\<close>; \<open>n\<close> rounds are left.\<close>

fun slab_alloc_rounds :: "nat \<Rightarrow> 'r region_alloc \<Rightarrow> nat \<Rightarrow> 'r slab_state \<Rightarrow> ('r slab_state \<times> u32) option" where
  "slab_alloc_rounds 0 alloc c s = Some (s, 0)"
| "slab_alloc_rounds (Suc n) alloc c s =
     do { (s1, ret) \<leftarrow> (if sc_partial (ss_cache s c) \<noteq> 0 then slab_alloc_partial c s
                       else if sc_free (ss_cache s c) \<noteq> 0 then slab_alloc_free c s
                       else Some (s, 0));
          if ret = 0
          then do { s2 \<leftarrow> slab_cache_add_page_block alloc c s1; slab_alloc_rounds n alloc c s2 }
          else Some (s1, ret) }"

definition slab_alloc :: "'r region_alloc \<Rightarrow> nat \<Rightarrow> 'r slab_state \<Rightarrow> ('r slab_state \<times> u32) option" where
  "slab_alloc alloc c s = slab_alloc_rounds 2 alloc c s"

section \<open>Freeing\<close>

text \<open>A bit number of 64 or more would be an undefined shift, a block size of 0 a division by zero.\<close>

definition slab_free :: "'r region_free \<Rightarrow> nat \<Rightarrow> u32 \<Rightarrow> 'r slab_state \<Rightarrow> 'r slab_state option" where
  "slab_free release c ptr s =
     do { let slab = slab_page_of ptr;
          b \<leftarrow> ss_slabs s slab;
          s1 \<leftarrow> (if sb_magic b = DARK_MAGIC
                then if sc_block_size (ss_cache s c) = 0 then None
                else do {
                  let bits = unat ((ptr - slab) div sc_block_size (ss_cache s c));
                  let b' = b\<lparr>sb_map := sb_map b AND NOT (push_bit bits 1), sb_bits_free := sb_bits_free b + 1\<rparr>;
                  if 64 \<le> bits then None
                  else if sb_status b' = SLAB_STATUS_FULL \<and> 1 \<le> sb_bits_free b'
                  then slab_cache_move_block c LFull LPartial slab
                         (s\<lparr>ss_slabs := (ss_slabs s)(slab \<mapsto> b'\<lparr>sb_status := SLAB_STATUS_PARTIAL\<rparr>)\<rparr>)
                  else if sb_status b' = SLAB_STATUS_PARTIAL \<and> sb_bits_free b' = sc_map_bits (ss_cache s c) - 1
                  then slab_cache_move_block c LPartial LFree slab
                         (cache_update (\<lambda>k. k\<lparr>sc_free_pages := sc_free_pages k + 1\<rparr>) c
                           (s\<lparr>ss_slabs := (ss_slabs s)(slab \<mapsto> b'\<lparr>sb_status := SLAB_STATUS_FREE\<rparr>)\<rparr>))
                  else Some (s\<lparr>ss_slabs := (ss_slabs s)(slab \<mapsto> b')\<rparr>)
                }
                else Some s);
          if sc_max_free (ss_cache s1 c) < sc_free_pages (ss_cache s1 c)
          then free_one_cache_page release c s1 else Some s1 }"

definition slab_free_from_ptr :: "'r region_free \<Rightarrow> u32 \<Rightarrow> 'r slab_state \<Rightarrow> 'r slab_state option" where
  "slab_free_from_ptr release ptr s =
     do { b \<leftarrow> ss_slabs s (slab_page_of ptr);
          if sb_magic b = DARK_MAGIC then slab_free release (sb_cache b) ptr s else Some s }"

definition slab_ptr_get_obj_size :: "u32 \<Rightarrow> 'r slab_state \<Rightarrow> u32 option" where
  "slab_ptr_get_obj_size ptr s =
     do { b \<leftarrow> ss_slabs s (slab_page_of ptr);
          Some (if sb_magic b = DARK_MAGIC then sc_obj_size (ss_cache s (sb_cache b)) else 0) }"

definition slab_ptr_get_block_size :: "u32 \<Rightarrow> 'r slab_state \<Rightarrow> u32 option" where
  "slab_ptr_get_block_size ptr s =
     do { b \<leftarrow> ss_slabs s (slab_page_of ptr);
          Some (if sb_magic b = DARK_MAGIC then sc_block_size (ss_cache s (sb_cache b)) else 0) }"

section \<open>Caches\<close>

definition slab_map_bits :: "u32 \<Rightarrow> u32 option" where
  "slab_map_bits sz =
     (let temp = SLAB_PAGE div SLAB_MAX_BITS;
          units = sz div temp + (if 0 < sz mod temp then 1 else 0);
          bits = SLAB_MAX_BITS div units
      in if units = 0 then None else Some (bits - bits mod 2))"

definition new_slab_cache_at_addr ::
  "'r region_alloc \<Rightarrow> nat \<Rightarrow> u32 \<Rightarrow> bool \<Rightarrow> bool \<Rightarrow> 'r slab_state \<Rightarrow> 'r slab_state option" where
  "new_slab_cache_at_addr alloc c sz ctor dtor s =
     do { bits \<leftarrow> slab_map_bits sz;
          if bits = 0 then None
          else slab_cache_add_page_block alloc c
            (cache_update (\<lambda>_. \<lparr>sc_free = 0, sc_partial = 0, sc_full = 0, sc_ctor = ctor, sc_dtor = dtor,
               sc_obj_size = sz, sc_pages_alloced = 0, sc_map_bits = bits, sc_block_size = SLAB_PAGE div bits,
               sc_free_pages = 0, sc_max_free = MAX_FREE_PAGES\<rparr>) c s) }"

text \<open>\<open>cache\<close> is the block that \<open>kcalloc\<close> returned, or none.\<close>

definition new_slab_cache ::
  "'r region_alloc \<Rightarrow> nat option \<Rightarrow> u32 \<Rightarrow> bool \<Rightarrow> bool \<Rightarrow> 'r slab_state \<Rightarrow> ('r slab_state \<times> nat option) option" where
  "new_slab_cache alloc cache sz ctor dtor s =
     (case cache of
        None \<Rightarrow> Some (s, None)
      | Some c \<Rightarrow> do { s' \<leftarrow> new_slab_cache_at_addr alloc c sz ctor dtor s; Some (s', Some c) })"

definition delete_slab_cache :: "'r region_free \<Rightarrow> nat \<Rightarrow> 'r slab_state \<Rightarrow> 'r slab_state option" where
  "delete_slab_cache release c s =
     do { s1 \<leftarrow> free_slab_list release c (sc_free (ss_cache s c)) s;
          s2 \<leftarrow> free_slab_list release c (sc_partial (ss_cache s1 c)) s1;
          free_slab_list release c (sc_full (ss_cache s2 c)) s2 }"

end
