(* ===== verification/Bitmap.thy ===== *)
theory Bitmap
  imports Prelude
begin

text \<open>
  The byte bitmaps of the page allocators: the macros of \<^verbatim>\<open>kernel/include/base/bitmap.h\<close> and the
  inline functions of \<^verbatim>\<open>kernel/base/mem/region.c\<close>, with the facts about single bits that both
  allocators use. An index outside the bitmap is an out-of-bounds access.
\<close>

definition BM_GET_BIT :: "u8 list \<Rightarrow> nat \<Rightarrow> bool option" where
  "BM_GET_BIT m i = do { b \<leftarrow> read_at m (i div 8); Some (b AND push_bit (i mod 8) 1 \<noteq> 0) }"

definition BM_SET_BIT :: "u8 list \<Rightarrow> nat \<Rightarrow> bool \<Rightarrow> u8 list option" where
  "BM_SET_BIT m i v =
     do { b \<leftarrow> read_at m (i div 8);
          write_at m (i div 8)
            (if v then b OR push_bit (i mod 8) 1 else b AND NOT (push_bit (i mod 8) 1)) }"

definition bitmap_get :: "u8 list \<Rightarrow> nat \<Rightarrow> bool option" where
  "bitmap_get m index =
     do { b \<leftarrow> read_at m (index div 8); Some (b AND push_bit (index mod 8) 1 \<noteq> 0) }"

definition bitmap_set :: "u8 list \<Rightarrow> nat \<Rightarrow> u8 list option" where
  "bitmap_set m index =
     do { b \<leftarrow> read_at m (index div 8); write_at m (index div 8) (b OR push_bit (index mod 8) 1) }"

definition bitmap_unset :: "u8 list \<Rightarrow> nat \<Rightarrow> u8 list option" where
  "bitmap_unset m index =
     do { b \<leftarrow> read_at m (index div 8);
          write_at m (index div 8) (b AND NOT (push_bit (index mod 8) 1)) }"

text \<open>The bits a bitmap holds, as a predicate on indices.\<close>

definition bm_bit :: "u8 list \<Rightarrow> nat \<Rightarrow> bool" where
  "bm_bit m i \<longleftrightarrow> i < 8 * length m \<and> bit (m ! (i div 8)) (i mod 8)"

lemma and_push_bit_iff: "b AND push_bit k 1 \<noteq> 0 \<longleftrightarrow> bit b k" for b :: "'a::len word"
  by (simp add: and_exp_eq_0_iff_not_bit push_bit_of_1)

lemma BM_GET_BIT_ok: "i < 8 * length m \<Longrightarrow> BM_GET_BIT m i = Some (bm_bit m i)"
  by (simp add: BM_GET_BIT_def bm_bit_def and_exp_eq_0_iff_not_bit div_less_iff_less_mult mult.commute)

lemma bitmap_get_ok: "i < 8 * length m \<Longrightarrow> bitmap_get m i = Some (bm_bit m i)"
  using BM_GET_BIT_ok by (simp add: BM_GET_BIT_def bitmap_get_def)

lemma BM_SET_BIT_ok:
  assumes "i < 8 * length m"
  shows "\<exists>m'. BM_SET_BIT m i v = Some m' \<and> length m' = length m \<and> bm_bit m' = (bm_bit m)(i := v)"
proof -
  have d: "i div 8 < length m" using assms by (simp add: div_less_iff_less_mult mult.commute)
  define b where "b = (if v then m ! (i div 8) OR push_bit (i mod 8) 1
    else m ! (i div 8) AND NOT (push_bit (i mod 8) 1))"
  have b: "bit b k = (if k = i mod 8 then v else bit (m ! (i div 8)) k)" if "k < 8" for k
    using that by (auto simp: b_def bit_or_iff bit_and_iff bit_not_iff bit_exp_iff)
  have "bm_bit (m[i div 8 := b]) j = ((bm_bit m)(i := v)) j" for j
  proof (cases "j div 8 = i div 8")
    case True
    then have "j = i \<longleftrightarrow> j mod 8 = i mod 8" by (metis div_mult_mod_eq)
    then show ?thesis using True d b [of "j mod 8"] assms by (auto simp: bm_bit_def)
  next
    case False
    then show ?thesis by (auto simp: bm_bit_def)
  qed
  then show ?thesis using d by (auto simp: BM_SET_BIT_def b_def fun_eq_iff)
qed

lemma bitmap_set_eq: "bitmap_set m i = BM_SET_BIT m i True"
  by (simp add: bitmap_set_def BM_SET_BIT_def)

lemma bitmap_unset_eq: "bitmap_unset m i = BM_SET_BIT m i False"
  by (simp add: bitmap_unset_def BM_SET_BIT_def)

lemma BM_SET_BIT_Some:
  assumes "BM_SET_BIT m i v = Some m'"
  shows "i < 8 * length m" "length m' = length m" "bm_bit m' = (bm_bit m)(i := v)"
proof -
  have "i div 8 < length m" using assms by (auto simp: BM_SET_BIT_def access_iffs bind_eq_Some_conv)
  then show i: "i < 8 * length m" by (simp add: div_less_iff_less_mult mult.commute)
  from BM_SET_BIT_ok [OF i, of v] assms
  show "length m' = length m" "bm_bit m' = (bm_bit m)(i := v)" by auto
qed

lemma bm_bit_eqI: "length m = length m' \<Longrightarrow> bm_bit m = bm_bit m' \<Longrightarrow> m = m'"
proof (rule nth_equalityI)
  fix i assume a: "length m = length m'" "bm_bit m = bm_bit m'" "i < length m"
  have "bit (m ! i) k = bit (m' ! i) k" if "k < 8" for k
    using a(1,3) that fun_cong [OF a(2), of "8 * i + k"] by (simp add: bm_bit_def div_add1_eq)
  then show "m ! i = m' ! i" by (intro bit_word_eqI) simp
qed

lemma byte_full_iff: "b = 0xff \<longleftrightarrow> (\<forall>k < 8. bit b k)" for b :: u8
proof
  assume "\<forall>k < 8. bit b k"
  then have "b = mask 8" by (intro bit_word_eqI) (simp add: bit_mask_iff)
  then show "b = 0xff" by (simp add: mask_eq_exp_minus_1)
next
  assume "b = 0xff"
  then have "b = mask 8" by (simp add: mask_eq_exp_minus_1)
  then show "\<forall>k < 8. bit b k" by (simp add: bit_mask_iff)
qed

lemma byte_full_bits: "i < length m \<Longrightarrow> m ! i = 0xff \<longleftrightarrow> (\<forall>k < 8. bm_bit m (8 * i + k))"
  by (auto simp: byte_full_iff bm_bit_def)

text \<open>Setting and clearing a bit that was clear gives back the bitmap.\<close>

lemma bm_set_unset:
  assumes "BM_SET_BIT m i True = Some m'" "\<not> bm_bit m i"
  shows "BM_SET_BIT m' i False = Some m"
proof -
  note s = BM_SET_BIT_Some [OF assms(1)]
  obtain m'' where m'': "BM_SET_BIT m' i False = Some m''" "length m'' = length m'"
    "bm_bit m'' = (bm_bit m')(i := False)"
    using BM_SET_BIT_ok [of i m' False] s by auto
  then have "m'' = m" using s assms(2) by (intro bm_bit_eqI) (auto simp: fun_eq_iff)
  with m'' show ?thesis by simp
qed

lemma byte_and_full [simp]: "b AND 0xff = b" for b :: u8
proof -
  have "(0xff :: u8) = - 1" by simp
  then show ?thesis by (metis and.right_neutral)
qed

end
