(* ===== verification/Paging.thy ===== *)
theory Paging
  imports Bitmap
begin

text \<open>
  \<^verbatim>\<open>kernel/base/arch/i586/paging.c\<close> and the early allocator of \<^verbatim>\<open>kernel/base/mem/alloc.c\<close>: the
  physical frame bitmap and the two-level page tables. Page directories and tables are arrays of
  1024 words in \<open>pg_tabs\<close>, by their address; an address without one is not readable. The early
  allocator does not clear what it returns, so the contents of a new page table are the
  argument \<open>junk\<close>. Control registers are represented by the value loaded into \<open>cr3\<close>.
\<close>

section \<open>State\<close>

definition PAGE_PRESENT :: u32 where "PAGE_PRESENT = 1"
definition PAGE_WRITEABLE :: u32 where "PAGE_WRITEABLE = 2"
definition PAGE_USER :: u32 where "PAGE_USER = 4"
definition PAGE_SIZE :: u32 where "PAGE_SIZE = 0x1000"

abbreviation page_base :: "u32 \<Rightarrow> u32" where
  "page_base a \<equiv> a AND NOT 0xfff"

record paging =
  pg_tabs :: "u32 \<Rightarrow> u32 list option"
  pg_bitmap :: "u8 list option"
  pg_npages :: u32
  pg_last_free :: nat
  pg_nfree :: u32
  pg_early :: u32
  pg_kernel_end :: u32
  pg_current_dir :: u32
  pg_kernel_dir :: u32
  pg_enabled :: bool
  pg_cr3 :: u32

section \<open>The early allocator\<close>

definition kmalloc_early :: "paging \<Rightarrow> u32 \<Rightarrow> bool \<Rightarrow> paging \<times> u32" where
  "kmalloc_early pg sz align =
     (let e0 = (if pg_early pg = 0 then (pg_kernel_end pg AND 0xfffff000) + 0x1000 else pg_early pg);
          e1 = (if align \<and> e0 AND 0xfff \<noteq> 0 then (e0 AND 0xfffff000) + 0x1000 else e0)
      in (pg\<lparr>pg_early := e1 + sz\<rparr>, e1))"

section \<open>Physical frames\<close>

text \<open>\<open>for ( page = last_free_page; bitmap[page] == 0xff; page++ )\<close>.\<close>

function free_byte_from :: "u8 list \<Rightarrow> nat \<Rightarrow> nat option" where
  "free_byte_from m page =
     (case read_at m page of
        None \<Rightarrow> None
      | Some b \<Rightarrow> if b AND 0xff = 0xff then free_byte_from m (Suc page) else Some page)"
  by pat_completeness auto
termination
  by (relation "measure (\<lambda>(m, page). length m - page)") (auto simp: access_iffs)

declare free_byte_from.simps [simp del]

text \<open>\<open>for ( j = 0; i & 1; i >>= 1 ) j++\<close>.\<close>

function trailing_ones :: "nat \<Rightarrow> nat" where
  "trailing_ones i = (if odd i then Suc (trailing_ones (i div 2)) else 0)"
  by pat_completeness auto
termination
  by (relation "measure id") (auto elim: oddE)

declare trailing_ones.simps [simp del]

definition get_free_page :: "paging \<Rightarrow> (paging \<times> u32) option" where
  "get_free_page pg =
     (case pg_bitmap pg of
        None \<Rightarrow> Some (pg, 0)
      | Some m \<Rightarrow> do {
          page \<leftarrow> free_byte_from m (pg_last_free pg);
          b \<leftarrow> read_at m page;
          let j = trailing_ones (unat (b AND 0xff));
          Some (pg\<lparr>pg_last_free := page, pg_nfree := pg_nfree pg - 1\<rparr>,
                push_bit 12 (push_bit 3 (of_nat page) + of_nat j))
        })"

definition get_nfree_pages :: "paging \<Rightarrow> u32" where
  "get_nfree_pages pg = pg_nfree pg"

section \<open>Page tables\<close>

definition tab_read :: "paging \<Rightarrow> u32 \<Rightarrow> nat \<Rightarrow> u32 option" where
  "tab_read pg a i = do { t \<leftarrow> pg_tabs pg a; read_at t i }"

definition tab_write :: "paging \<Rightarrow> u32 \<Rightarrow> nat \<Rightarrow> u32 \<Rightarrow> paging option" where
  "tab_write pg a i v =
     do { t \<leftarrow> pg_tabs pg a; t' \<leftarrow> write_at t i v; Some (pg\<lparr>pg_tabs := (pg_tabs pg)(a \<mapsto> t')\<rparr>) }"

abbreviation pd_index :: "u32 \<Rightarrow> nat" where
  "pd_index v \<equiv> unat (drop_bit 22 v)"

abbreviation pt_index :: "u32 \<Rightarrow> nat" where
  "pt_index v \<equiv> unat (drop_bit 12 v AND 0x3ff)"

text \<open>The common start of \<open>map_page\<close> and \<open>map_r_page\<close>: a missing page table is allocated.\<close>

definition ensure_table :: "u32 list \<Rightarrow> paging \<Rightarrow> u32 \<Rightarrow> u32 \<Rightarrow> u32 \<Rightarrow> paging option" where
  "ensure_table junk pg dir vaddress permissions =
     do { pde \<leftarrow> tab_read pg dir (pd_index vaddress);
          if pde = 0
          then (case kmalloc_early pg PAGE_SIZE True of (pg1, a) \<Rightarrow>
                  tab_write (pg1\<lparr>pg_tabs := (pg_tabs pg1)(a \<mapsto> junk)\<rparr>) dir (pd_index vaddress)
                    (a OR permissions))
          else Some pg }"

definition map_page :: "u32 list \<Rightarrow> paging \<Rightarrow> u32 \<Rightarrow> u32 \<Rightarrow> u32 \<Rightarrow> (paging \<times> int) option" where
  "map_page junk pg dir vaddress permissions =
     do { (pg1, r) \<leftarrow> get_free_page pg;
          let raddress = page_base r OR permissions;
          if dir \<noteq> 0
          then do {
            pg2 \<leftarrow> ensure_table junk pg1 dir vaddress permissions;
            pde \<leftarrow> tab_read pg2 dir (pd_index vaddress);
            pg3 \<leftarrow> tab_write pg2 (page_base pde) (pt_index vaddress) raddress;
            m \<leftarrow> pg_bitmap pg3;
            m' \<leftarrow> BM_SET_BIT m (unat (drop_bit 12 raddress)) True;
            Some (pg3\<lparr>pg_bitmap := Some m'\<rparr>, 1)
          }
          else Some (pg1, 1) }"

definition map_r_page ::
  "u32 list \<Rightarrow> paging \<Rightarrow> u32 \<Rightarrow> u32 \<Rightarrow> u32 \<Rightarrow> u32 \<Rightarrow> (paging \<times> int) option" where
  "map_r_page junk pg dir vaddress raddress permissions =
     (if dir \<noteq> 0
      then do {
        pg1 \<leftarrow> ensure_table junk pg dir vaddress permissions;
        pde \<leftarrow> tab_read pg1 dir (pd_index vaddress);
        pg2 \<leftarrow> tab_write pg1 (page_base pde) (pt_index vaddress) (page_base raddress OR permissions);
        Some (pg2, 1)
      }
      else Some (pg, 0))"

partial_function (option) map_pages_from ::
  "u32 list \<Rightarrow> paging \<Rightarrow> u32 \<Rightarrow> u32 \<Rightarrow> u32 \<Rightarrow> u32 \<Rightarrow> paging option" where
  "map_pages_from junk pg dir i end permissions =
     (if i < end
      then do { (pg', r) \<leftarrow> map_page junk pg dir i permissions;
                map_pages_from junk pg' dir (i + PAGE_SIZE) end permissions }
      else Some pg)"

definition map_pages ::
  "u32 list \<Rightarrow> paging \<Rightarrow> u32 \<Rightarrow> u32 \<Rightarrow> u32 \<Rightarrow> u32 \<Rightarrow> (paging \<times> int) option" where
  "map_pages junk pg dir start end permissions =
     do { pg' \<leftarrow> map_pages_from junk pg dir start end permissions; Some (pg', 1) }"

definition get_page :: "paging \<Rightarrow> u32 \<Rightarrow> u32 \<Rightarrow> u32 option" where
  "get_page pg dir vaddress =
     (if dir \<noteq> 0
      then do {
        move \<leftarrow> tab_read pg dir (pd_index vaddress);
        if move \<noteq> 0 then tab_read pg (page_base move) (pt_index vaddress) else Some 0
      }
      else Some 0)"

partial_function (option) remap_pages_from ::
  "u32 list \<Rightarrow> paging \<Rightarrow> u32 \<Rightarrow> u32 \<Rightarrow> u32 \<Rightarrow> u32 \<Rightarrow> paging option" where
  "remap_pages_from junk pg dir i end permissions =
     (if i < end
      then do { r \<leftarrow> get_page pg dir i;
                (pg', x) \<leftarrow> map_r_page junk pg dir (page_base i) r permissions;
                remap_pages_from junk pg' dir (i + PAGE_SIZE) end permissions }
      else Some pg)"

definition remap_pages ::
  "u32 list \<Rightarrow> paging \<Rightarrow> u32 \<Rightarrow> u32 \<Rightarrow> u32 \<Rightarrow> u32 \<Rightarrow> (paging \<times> int) option" where
  "remap_pages junk pg dir start end permissions =
     do { pg' \<leftarrow> remap_pages_from junk pg dir start end permissions; Some (pg', 1) }"

definition free_page :: "paging \<Rightarrow> u32 \<Rightarrow> u32 \<Rightarrow> (paging \<times> int) option" where
  "free_page pg dir vaddress =
     (if dir \<noteq> 0
      then do {
        pde \<leftarrow> tab_read pg dir (pd_index vaddress);
        if pde \<noteq> 0
        then do {
          raddress \<leftarrow> tab_read pg (page_base pde) (pt_index vaddress);
          pg1 \<leftarrow> tab_write pg (page_base pde) (pt_index vaddress) 0;
          if raddress \<noteq> 0
          then do {
            m \<leftarrow> pg_bitmap pg1;
            m' \<leftarrow> BM_SET_BIT m (unat (drop_bit 12 raddress)) False;
            let hint = unat (drop_bit 15 raddress);
            Some (pg1\<lparr>pg_bitmap := Some m',
                      pg_last_free := (if hint < pg_last_free pg1 then hint else pg_last_free pg1),
                      pg_nfree := pg_nfree pg1 + 1\<rparr>, 1)
          }
          else Some (pg1, 0)
        }
        else Some (pg, 0)
      }
      else Some (pg, 0))"

definition set_page_dir :: "paging \<Rightarrow> u32 \<Rightarrow> paging option" where
  "set_page_dir pg dir =
     do { address \<leftarrow> (if pg_enabled pg then get_page pg (pg_current_dir pg) dir else Some dir);
          Some (pg\<lparr>pg_current_dir := dir,
                   pg_cr3 := address OR PAGE_USER OR PAGE_WRITEABLE OR PAGE_PRESENT\<rparr>) }"

text \<open>\<open>ret\<close> is the page that \<open>kmalloca( PAGE_SIZE )\<close> returned; all 1024 entries are copied.\<close>

definition clone_page_dir :: "paging \<Rightarrow> u32 \<Rightarrow> u32 \<Rightarrow> paging option" where
  "clone_page_dir pg dir ret =
     do { t \<leftarrow> pg_tabs pg dir; Some (pg\<lparr>pg_tabs := (pg_tabs pg)(ret \<mapsto> t)\<rparr>) }"

text \<open>Identity mapping of the low 3 MiB.\<close>

partial_function (option) init_paging_from :: "u32 list \<Rightarrow> paging \<Rightarrow> u32 \<Rightarrow> paging option" where
  "init_paging_from junk pg i =
     (if i < 0x300000
      then do {
        (pg1, r) \<leftarrow> map_r_page junk pg (pg_kernel_dir pg) i i (PAGE_USER OR PAGE_WRITEABLE OR PAGE_PRESENT);
        m \<leftarrow> pg_bitmap pg1;
        m' \<leftarrow> BM_SET_BIT m (unat (drop_bit 12 (page_base i))) True;
        init_paging_from junk (pg1\<lparr>pg_bitmap := Some m', pg_nfree := pg_nfree pg1 - 1\<rparr>) (i + 0x1000)
      }
      else Some pg)"

definition init_paging :: "u32 list \<Rightarrow> paging \<Rightarrow> u32 \<Rightarrow> paging option" where
  "init_paging junk pg max_mem =
     (let (pg1, kdir) = kmalloc_early pg PAGE_SIZE True;
          npages = max_mem div 4;
          (pg2, bm) = kmalloc_early pg1 (npages div 8) True;
          pg3 = pg2\<lparr>pg_kernel_dir := kdir, pg_npages := npages, pg_nfree := npages,
                    pg_bitmap := Some (replicate (unat (npages div 8)) 0),
                    pg_tabs := (pg_tabs pg2)(kdir \<mapsto> replicate 1024 0)\<rparr>
      in do {
        pg4 \<leftarrow> init_paging_from junk pg3 (PAGE_USER OR PAGE_WRITEABLE OR PAGE_PRESENT);
        pg5 \<leftarrow> set_page_dir pg4 (pg_kernel_dir pg4);
        Some (pg5\<lparr>pg_enabled := True\<rparr>)
      })"

declare map_pages_from.simps [code] remap_pages_from.simps [code] init_paging_from.simps [code]

section \<open>Searching for a free frame\<close>

lemma trailing_ones_bits: "\<not> bit n (trailing_ones n) \<and> (\<forall>k < trailing_ones n. bit n k)"
proof (induction n rule: trailing_ones.induct)
  case (1 n)
  show ?case
  proof (cases "odd n")
    case True
    with 1 show ?thesis
      by (subst (1 2) trailing_ones.simps) (auto simp: bit_Suc less_Suc_eq_0_disj bit_0)
  next
    case False
    then show ?thesis by (subst (1 2) trailing_ones.simps) (simp add: bit_0)
  qed
qed

lemma trailing_ones_byte:
  fixes b :: u8
  assumes "b \<noteq> 0xff"
  shows "trailing_ones (unat b) < 8 \<and> \<not> bit b (trailing_ones (unat b))
      \<and> (\<forall>k < trailing_ones (unat b). bit b k)"
proof -
  let ?j = "trailing_ones (unat b)"
  have j: "\<not> bit (unat b) ?j" "\<forall>k < ?j. bit (unat b) k" using trailing_ones_bits by blast+
  have e: "bit (unat b) k = bit b k" for k by (simp add: bit_unsigned_iff)
  obtain k where "k < 8" "\<not> bit b k" using assms by (auto simp: byte_full_iff)
  with j(2) have "\<not> k < ?j" by (auto simp: bit_unsigned_iff)
  then show ?thesis using j \<open>k < 8\<close> by (auto simp: bit_unsigned_iff)
qed

lemma free_byte_from_ok:
  "\<exists>k \<ge> page. k < length m \<and> m ! k \<noteq> 0xff \<Longrightarrow>
   \<exists>k. free_byte_from m page = Some k \<and> page \<le> k \<and> k < length m \<and> m ! k \<noteq> 0xff
     \<and> (\<forall>i. page \<le> i \<and> i < k \<longrightarrow> m ! i = 0xff)"
proof (induction m page rule: free_byte_from.induct)
  case (1 m page)
  show ?case
  proof (cases "m ! page = 0xff")
    case True
    from "1.prems" obtain k where k: "page \<le> k" "k < length m" "m ! k \<noteq> 0xff" by auto
    with True have "Suc page \<le> k" using le_neq_implies_less by fastforce
    with k have ex: "\<exists>k \<ge> Suc page. k < length m \<and> m ! k \<noteq> 0xff" by blast
    have p: "page < length m" using k by simp
    from "1.IH" [of "m ! page"] p True ex obtain j where j: "free_byte_from m (Suc page) = Some j"
      "Suc page \<le> j" "j < length m" "m ! j \<noteq> 0xff" "\<forall>i. Suc page \<le> i \<and> i < j \<longrightarrow> m ! i = 0xff"
      by auto
    have "\<forall>i. page \<le> i \<and> i < j \<longrightarrow> m ! i = 0xff"
      using j(5) True by (metis Suc_leI le_neq_implies_less)
    then show ?thesis
      using j p True by (subst free_byte_from.simps) auto
  next
    case False
    with "1.prems" show ?thesis by (subst free_byte_from.simps) auto
  qed
qed

text \<open>The hint never passes a free frame, and the bitmap covers at most the 4 GiB of the machine.\<close>

definition paging_inv :: "paging \<Rightarrow> bool" where
  "paging_inv pg \<longleftrightarrow> (\<exists>m. pg_bitmap pg = Some m \<and> length m \<le> 2 ^ 17
     \<and> (\<forall>i < 8 * pg_last_free pg. i < 8 * length m \<longrightarrow> bm_bit m i))"

definition frame_used :: "paging \<Rightarrow> nat \<Rightarrow> bool" where
  "frame_used pg f \<longleftrightarrow> (case pg_bitmap pg of None \<Rightarrow> True | Some m \<Rightarrow> f < 8 * length m \<longrightarrow> bm_bit m f)"

lemma get_free_page_ok:
  assumes inv: "paging_inv pg" and free: "\<not> frame_used pg g"
  shows "\<exists>f. get_free_page pg
      = Some (pg\<lparr>pg_last_free := f div 8, pg_nfree := pg_nfree pg - 1\<rparr>, push_bit 12 (of_nat f))
    \<and> \<not> frame_used pg f \<and> f \<le> g \<and> f < 2 ^ 20 \<and> (\<forall>k < f. frame_used pg k)"
proof -
  obtain m where m: "pg_bitmap pg = Some m" "length m \<le> 2 ^ 17"
    "\<forall>i < 8 * pg_last_free pg. i < 8 * length m \<longrightarrow> bm_bit m i"
    using inv by (auto simp: paging_inv_def)
  have g: "g < 8 * length m" "\<not> bm_bit m g" using free m(1) by (auto simp: frame_used_def)
  then have gb: "g div 8 < length m" by (simp add: div_less_iff_less_mult mult.commute)
  have "m ! (g div 8) \<noteq> 0xff"
    using byte_full_bits [OF gb] g by (metis mod_less_divisor mult_div_mod_eq zero_less_numeral)
  moreover have "pg_last_free pg \<le> g div 8"
    using m(3) g by (metis div_le_mono leI nonzero_mult_div_cancel_left zero_neq_numeral)
  ultimately obtain p where p: "free_byte_from m (pg_last_free pg) = Some p" "pg_last_free pg \<le> p"
    "p < length m" "m ! p \<noteq> 0xff" "\<forall>i. pg_last_free pg \<le> i \<and> i < p \<longrightarrow> m ! i = 0xff"
    using free_byte_from_ok [of "pg_last_free pg" m] gb by blast
  let ?j = "trailing_ones (unat (m ! p))"
  have j: "?j < 8" "\<not> bit (m ! p) ?j" "\<forall>k < ?j. bit (m ! p) k"
    using trailing_ones_byte [OF p(4)] by auto
  let ?f = "8 * p + ?j"
  have f: "?f < 8 * length m" "\<not> bm_bit m ?f" "?f div 8 = p"
    using j p(3) by (auto simp: bm_bit_def)
  have low: "bm_bit m k" if k: "k < ?f" for k
  proof -
    have kl: "k div 8 < length m" "k < 8 * length m" using k f(1) by auto
    consider "k div 8 < pg_last_free pg" | "pg_last_free pg \<le> k div 8" "k div 8 < p" | "k div 8 = p"
      using k j(1) by linarith
    then show ?thesis
    proof cases
      case 1
      then show ?thesis using m(3) kl(2) by (metis div_less_iff_less_mult mult.commute zero_less_numeral)
    next
      case 2
      then have "m ! (k div 8) = 0xff" using p(5) by blast
      then show ?thesis using byte_full_bits [OF kl(1)] by (metis mod_less_divisor mult_div_mod_eq zero_less_numeral)
    next
      case 3
      then have "k mod 8 < ?j" using k by (metis add_less_cancel_left mult_div_mod_eq)
      then show ?thesis using 3 j(3) p(3) kl(2) by (simp add: bm_bit_def)
    qed
  qed
  have "push_bit 3 (of_nat p) + of_nat ?j = (of_nat ?f :: u32)"
    by (simp add: push_bit_eq_mult)
  then have "get_free_page pg
      = Some (pg\<lparr>pg_last_free := ?f div 8, pg_nfree := pg_nfree pg - 1\<rparr>, push_bit 12 (of_nat ?f))"
    using m(1) p(1,3) f(3) by (simp add: get_free_page_def Let_def)
  moreover have "?f \<le> g" using low g(2) by (meson leI)
  moreover have "?f < 2 ^ 20" using f(1) m(2) by simp
  moreover have "\<not> frame_used pg ?f" "\<forall>k < ?f. frame_used pg k"
    using f low m(1) by (auto simp: frame_used_def)
  ultimately show ?thesis by blast
qed

section \<open>Mapping and freeing pages\<close>

lemma pd_index_less: "pd_index v < 1024"
proof -
  have "pd_index v = unat v div 2 ^ 22"
    by (simp add: drop_bit_eq_div unat_div_distrib)
  also have "\<dots> < 1024" using unat_u32_less [of v] by (simp add: less_mult_imp_div_less)
  finally show ?thesis .
qed

lemma pt_index_less: "pt_index v < 1024"
proof -
  have "drop_bit 12 v AND 0x3ff = take_bit 10 (drop_bit 12 v)"
    by (simp add: take_bit_eq_mask mask_eq_exp_minus_1)
  then have "unat (drop_bit 12 v AND 0x3ff) = take_bit 10 (unat (drop_bit 12 v))"
    by (simp add: unsigned_take_bit_eq)
  then show ?thesis using take_bit_nat_less_exp [of 10 "unat (drop_bit 12 v)"] by simp
qed

text \<open>The frame number is recovered from a page table entry, whatever its permission bits.\<close>

lemma entry_frame:
  fixes perms :: u32
  assumes f: "f < 2 ^ 20" and p: "drop_bit 12 perms = 0"
  shows "unat (drop_bit 12 (page_base (push_bit 12 (of_nat f)) OR perms)) = f"
    "unat (drop_bit 15 (page_base (push_bit 12 (of_nat f)) OR perms)) = f div 8"
proof -
  define w :: u32 where "w = of_nat f"
  have fw: "unat w = f" using f by (simp add: w_def unat_of_nat take_bit_nat_eq_self)
  have nb: "\<not> bit w k" if "20 \<le> k" for k
  proof -
    have "f < 2 ^ k" using f that order.strict_trans2 [OF f power_increasing [of 20 k 2]] by simp
    then have "\<not> bit (unat w) k" using fw by (simp add: bit_iff_odd)
    then show ?thesis using bit_imp_le_length [of w k] by (auto simp: bit_unsigned_iff)
  qed
  have pb: "\<not> bit perms k" if "12 \<le> k" for k
  proof -
    have "bit (drop_bit 12 perms) (k - 12) = bit perms k" using that by (simp add: bit_drop_bit_eq)
    then show ?thesis using p by simp
  qed
  have m: "bit (0xfff :: u32) k \<longleftrightarrow> k < 12" if "k < 32" for k
    using that bit_mask_iff [of 12 k, where ?'a = "32 word"] by (simp add: mask_eq_exp_minus_1)
  have "(- 4096 :: u32) = NOT 0xfff" by simp
  then have m': "bit (- 4096 :: u32) k \<longleftrightarrow> 12 \<le> k" if "k < 32" for k
    using that by (simp only: bit_not_iff m) auto
  have e: "drop_bit 12 (page_base (push_bit 12 w) OR perms) = w"
  proof (rule bit_word_eqI)
    fix n assume "n < LENGTH(32)"
    then show "bit (drop_bit 12 (page_base (push_bit 12 w) OR perms)) n = bit w n"
      using m' [of "12 + n"] pb [of "12 + n"] nb [of n]
      by (cases "n < 20")
        (auto simp: bit_drop_bit_eq bit_or_iff bit_and_iff bit_push_bit_iff simp del: drop_bit_or drop_bit_and)
  qed
  then show "unat (drop_bit 12 (page_base (push_bit 12 (of_nat f)) OR perms)) = f"
    using fw by (simp only: w_def)
  have "drop_bit 15 x = drop_bit 3 (drop_bit 12 x)" for x :: u32 by simp
  then have "drop_bit 15 (page_base (push_bit 12 w) OR perms) = drop_bit 3 w" using e by metis
  then have "unat (drop_bit 15 (page_base (push_bit 12 w) OR perms)) = f div 8"
    using fw by (simp only: drop_bit_eq_div [of 3 w] unat_div_distrib) simp
  then show "unat (drop_bit 15 (page_base (push_bit 12 (of_nat f)) OR perms)) = f div 8"
    by (simp only: w_def)
qed

text \<open>The page table of \<open>v\<close> exists, is not the directory itself, and is \<open>t\<close>.\<close>

definition table_at :: "paging \<Rightarrow> u32 \<Rightarrow> u32 \<Rightarrow> u32 list \<Rightarrow> bool" where
  "table_at pg dir v t \<longleftrightarrow> dir \<noteq> 0 \<and> (\<exists>d. pg_tabs pg dir = Some d \<and> length d = 1024
     \<and> d ! pd_index v \<noteq> 0 \<and> page_base (d ! pd_index v) \<noteq> dir
     \<and> pg_tabs pg (page_base (d ! pd_index v)) = Some t \<and> length t = 1024)"

lemma get_page_table: "table_at pg dir v t \<Longrightarrow> get_page pg dir v = Some (t ! pt_index v)"
  using pd_index_less [of v] pt_index_less [of v]
  by (auto simp: table_at_def get_page_def tab_read_def)

definition tab_put :: "paging \<Rightarrow> u32 \<Rightarrow> u32 list \<Rightarrow> paging" where
  "tab_put pg a t = pg\<lparr>pg_tabs := (pg_tabs pg)(a \<mapsto> t)\<rparr>"

lemma tab_put_fields [simp]:
  "pg_bitmap (tab_put pg a t) = pg_bitmap pg" "pg_last_free (tab_put pg a t) = pg_last_free pg"
  "pg_nfree (tab_put pg a t) = pg_nfree pg"
  by (simp_all add: tab_put_def)

lemma table_at_write:
  assumes "table_at pg dir v t"
  obtains pde where "tab_read pg dir (pd_index v) = Some pde" "pde \<noteq> 0"
    "tab_read pg (page_base pde) (pt_index v) = Some (t ! pt_index v)"
    "\<And>e. tab_write pg (page_base pde) (pt_index v) e = Some (tab_put pg (page_base pde) (t[pt_index v := e]))"
    "\<And>e. table_at (tab_put pg (page_base pde) (t[pt_index v := e])) dir v (t[pt_index v := e])"
    "\<And>e. tab_read (tab_put pg (page_base pde) (t[pt_index v := e])) dir (pd_index v) = Some pde"
proof -
  obtain d where d: "dir \<noteq> 0" "pg_tabs pg dir = Some d" "length d = 1024" "d ! pd_index v \<noteq> 0"
    "page_base (d ! pd_index v) \<noteq> dir" "pg_tabs pg (page_base (d ! pd_index v)) = Some t" "length t = 1024"
    using assms unfolding table_at_def by blast
  show thesis
    by (rule that [of "d ! pd_index v"])
      (use d pd_index_less [of v] pt_index_less [of v] in \<open>simp_all add: table_at_def tab_read_def tab_write_def tab_put_def\<close>)
qed

lemma table_at_cong [simp]:
  "table_at (pg\<lparr>pg_bitmap := m\<rparr>) dir v t = table_at pg dir v t"
  "table_at (pg\<lparr>pg_last_free := n\<rparr>) dir v t = table_at pg dir v t"
  "table_at (pg\<lparr>pg_nfree := w\<rparr>) dir v t = table_at pg dir v t"
  by (simp_all add: table_at_def)

lemma paging_inv_cong:
  "pg_bitmap pg' = pg_bitmap pg \<Longrightarrow> pg_last_free pg' = pg_last_free pg \<Longrightarrow> paging_inv pg' = paging_inv pg"
  by (simp add: paging_inv_def)

lemma paging_invI:
  "pg_bitmap pg = Some m \<Longrightarrow> length m \<le> 2 ^ 17 \<Longrightarrow>
   (\<And>i. i < 8 * pg_last_free pg \<Longrightarrow> i < 8 * length m \<Longrightarrow> bm_bit m i) \<Longrightarrow> paging_inv pg"
  by (simp add: paging_inv_def)

lemma frame_used_update:
  assumes "BM_SET_BIT m f v = Some m'" "pg_bitmap pg = Some m" "pg_bitmap pg' = Some m'"
  shows "frame_used pg' = (frame_used pg)(f := v)"
  using BM_SET_BIT_Some [OF assms(1)] assms(2,3) by (auto simp: frame_used_def fun_eq_iff)

lemma map_page_ok:
  assumes inv: "paging_inv pg" and free: "\<not> frame_used pg g" and p: "drop_bit 12 perms = 0"
    and tab: "table_at pg dir v t"
  shows "\<exists>pg' f. map_page junk pg dir v perms = Some (pg', 1) \<and> \<not> frame_used pg f \<and> f \<le> g
    \<and> f < 2 ^ 20 \<and> (\<forall>k < f. frame_used pg k)
    \<and> table_at pg' dir v (t[pt_index v := page_base (push_bit 12 (of_nat f)) OR perms])
    \<and> frame_used pg' = (frame_used pg)(f := True) \<and> paging_inv pg'
    \<and> pg_nfree pg' = pg_nfree pg - 1 \<and> (\<exists>m. pg_bitmap pg' = Some m \<and> f < 8 * length m)"
proof -
  obtain f where f: "get_free_page pg
      = Some (pg\<lparr>pg_last_free := f div 8, pg_nfree := pg_nfree pg - 1\<rparr>, push_bit 12 (of_nat f))"
    "\<not> frame_used pg f" "f \<le> g" "f < 2 ^ 20" "\<forall>k < f. frame_used pg k"
    using get_free_page_ok [OF inv free] by blast
  let ?pg1 = "pg\<lparr>pg_last_free := f div 8, pg_nfree := pg_nfree pg - 1\<rparr>"
  let ?r = "page_base (push_bit 12 (of_nat f)) OR perms"
  obtain m where m: "pg_bitmap pg = Some m" "length m \<le> 2 ^ 17" using inv by (auto simp: paging_inv_def)
  have fm: "f < 8 * length m" using f(2) m by (auto simp: frame_used_def)
  obtain m' where m': "BM_SET_BIT m f True = Some m'" "length m' = length m" "bm_bit m' = (bm_bit m)(f := True)"
    using BM_SET_BIT_ok [OF fm] by blast
  have "table_at ?pg1 dir v t" using tab by simp
  then obtain pde where w: "tab_read ?pg1 dir (pd_index v) = Some pde" "pde \<noteq> 0"
    "tab_write ?pg1 (page_base pde) (pt_index v) ?r = Some (tab_put ?pg1 (page_base pde) (t[pt_index v := ?r]))"
    "table_at (tab_put ?pg1 (page_base pde) (t[pt_index v := ?r])) dir v (t[pt_index v := ?r])"
    by (rule table_at_write) blast
  let ?pg2 = "tab_put ?pg1 (page_base pde) (t[pt_index v := ?r])"
  have dir: "dir \<noteq> 0" using tab by (simp add: table_at_def)
  have bm: "pg_bitmap ?pg2 = Some m" using m(1) by simp
  let ?pg' = "?pg2\<lparr>pg_bitmap := Some m'\<rparr>"
  have "map_page junk pg dir v perms = Some (?pg', 1)"
    unfolding map_page_def ensure_table_def
    using f(1) w(1-3) bm dir m'(1) entry_frame(1) [OF f(4) p] by (simp del: drop_bit_or word_ao_dist)
  moreover have "frame_used ?pg' = (frame_used pg)(f := True)"
    using frame_used_update [OF m'(1) m(1), of ?pg'] by simp
  moreover have "paging_inv ?pg'"
  proof (rule paging_invI)
    show "pg_bitmap ?pg' = Some m'" "length m' \<le> 2 ^ 17" using m' m by simp_all
  next
    fix i assume i: "i < 8 * pg_last_free ?pg'" "i < 8 * length m'"
    then have "i < f" by simp
    then show "bm_bit m' i" using f(5) m(1) m'(2,3) i(2) by (simp add: frame_used_def)
  qed
  moreover have "pg_nfree ?pg' = pg_nfree pg - 1 \<and> (\<exists>m. pg_bitmap ?pg' = Some m \<and> f < 8 * length m)"
    using fm m'(2) by simp
  ultimately show ?thesis using w(4) f(2-5) by auto
qed

lemma free_page_ok:
  assumes inv: "paging_inv pg" and tab: "table_at pg dir v t" and e: "t ! pt_index v \<noteq> 0"
    and bm: "pg_bitmap pg = Some m" "f < 8 * length m"
    and f: "unat (drop_bit 12 (t ! pt_index v)) = f" "unat (drop_bit 15 (t ! pt_index v)) = f div 8"
  shows "\<exists>pg'. free_page pg dir v = Some (pg', 1) \<and> table_at pg' dir v (t[pt_index v := 0])
    \<and> frame_used pg' = (frame_used pg)(f := False) \<and> paging_inv pg' \<and> pg_nfree pg' = pg_nfree pg + 1"
proof -
  obtain m' where m': "BM_SET_BIT m f False = Some m'" "length m' = length m" "bm_bit m' = (bm_bit m)(f := False)"
    using BM_SET_BIT_ok [OF bm(2)] by blast
  from tab obtain pde where w: "tab_read pg dir (pd_index v) = Some pde" "pde \<noteq> 0"
    "tab_read pg (page_base pde) (pt_index v) = Some (t ! pt_index v)"
    "tab_write pg (page_base pde) (pt_index v) 0 = Some (tab_put pg (page_base pde) (t[pt_index v := 0]))"
    "table_at (tab_put pg (page_base pde) (t[pt_index v := 0])) dir v (t[pt_index v := 0])"
    by (rule table_at_write) blast
  let ?pg' = "tab_put pg (page_base pde) (t[pt_index v := 0])\<lparr>pg_bitmap := Some m', pg_last_free := (if f div 8 < pg_last_free pg then f div 8 else pg_last_free pg),
    pg_nfree := pg_nfree pg + 1\<rparr>"
  have "dir \<noteq> 0" using tab by (simp add: table_at_def)
  then have "free_page pg dir v = Some (?pg', 1)"
    unfolding free_page_def using w(1-4) bm m'(1) e f by simp
  moreover have "frame_used ?pg' = (frame_used pg)(f := False)"
    using frame_used_update [OF m'(1) bm(1), of ?pg'] by simp
  moreover have "paging_inv ?pg'"
  proof (rule paging_invI)
    show "pg_bitmap ?pg' = Some m'" "length m' \<le> 2 ^ 17" using m' inv bm(1) by (simp_all add: paging_inv_def)
  next
    fix i assume i: "i < 8 * pg_last_free ?pg'" "i < 8 * length m'"
    then have "i < 8 * pg_last_free pg" "i < f" by (simp_all split: if_splits)
    then show "bm_bit m' i" using inv bm(1) m'(2,3) i(2) by (simp add: paging_inv_def)
  qed
  ultimately show ?thesis using w(5) by auto
qed

section \<open>Properties\<close>

text \<open>C22. \<open>map_page\<close> backs a virtual page with the lowest free physical frame: the frame was not in
  use, it is the only one whose state changes, \<open>get_page\<close> then finds it with the permissions, and
  the search hint stays below every free frame.\<close>

theorem map_page_lowest_frame:
  assumes "paging_inv pg" "\<not> frame_used pg g" "drop_bit 12 perms = 0" "table_at pg dir v t"
  shows "\<exists>pg' f. map_page junk pg dir v perms = Some (pg', 1) \<and> \<not> frame_used pg f \<and> (\<forall>k < f. frame_used pg k)
    \<and> get_page pg' dir v = Some (page_base (push_bit 12 (of_nat f)) OR perms)
    \<and> frame_used pg' = (frame_used pg)(f := True) \<and> paging_inv pg'"
proof -
  obtain pg' f where m: "map_page junk pg dir v perms = Some (pg', 1)" "\<not> frame_used pg f" "\<forall>k < f. frame_used pg k"
    "table_at pg' dir v (t[pt_index v := page_base (push_bit 12 (of_nat f)) OR perms])"
    "frame_used pg' = (frame_used pg)(f := True)" "paging_inv pg'"
    using map_page_ok [OF assms] by blast
  have "length t = 1024" using assms(4) by (auto simp: table_at_def)
  then show ?thesis
    using m get_page_table [OF m(4)] pt_index_less [of v] by (auto simp del: word_ao_dist)
qed

text \<open>C23. Unmapping what was just mapped gives the frame back: the set of used frames and the
  number of free pages are what they were, and the page is no longer mapped.\<close>

theorem map_page_free_page:
  assumes "paging_inv pg" "\<not> frame_used pg g" "drop_bit 12 perms = 0" "perms \<noteq> 0" "table_at pg dir v t"
  shows "\<exists>pg1 pg2. map_page junk pg dir v perms = Some (pg1, 1) \<and> free_page pg1 dir v = Some (pg2, 1)
    \<and> get_page pg2 dir v = Some 0 \<and> frame_used pg2 = frame_used pg
    \<and> get_nfree_pages pg2 = get_nfree_pages pg \<and> paging_inv pg2"
proof -
  obtain pg1 f where m: "map_page junk pg dir v perms = Some (pg1, 1)" "\<not> frame_used pg f" "f < 2 ^ 20"
    "table_at pg1 dir v (t[pt_index v := page_base (push_bit 12 (of_nat f)) OR perms])" (is "table_at _ _ _ (t[_ := ?e])")
    "frame_used pg1 = (frame_used pg)(f := True)" "paging_inv pg1" "pg_nfree pg1 = pg_nfree pg - 1"
    and ex: "\<exists>m. pg_bitmap pg1 = Some m \<and> f < 8 * length m"
    using map_page_ok [OF assms(1-3,5)] by blast
  have len: "length t = 1024" using assms(5) by (auto simp: table_at_def)
  obtain mm1 where mm1: "pg_bitmap pg1 = Some mm1" and fm1: "f < 8 * length mm1" using ex by blast
  have e: "?e \<noteq> 0" using assms(4) by (simp only: or_eq_0_iff) simp
  obtain pg2 where f: "free_page pg1 dir v = Some (pg2, 1)" "table_at pg2 dir v (t[pt_index v := 0])"
    "frame_used pg2 = (frame_used pg1)(f := False)" "paging_inv pg2" "pg_nfree pg2 = pg_nfree pg1 + 1"
    using free_page_ok [OF m(6,4) _ mm1 fm1] e entry_frame [OF m(3) assms(3)] len pt_index_less [of v]
    by (auto simp del: word_ao_dist)
  have "frame_used pg2 = frame_used pg" using f(3) m(2,5) by (auto simp: fun_eq_iff)
  moreover have "get_page pg2 dir v = Some 0"
    using get_page_table [OF f(2)] len pt_index_less [of v] by simp
  ultimately show ?thesis using m(1,7) f by (auto simp: get_nfree_pages_def)
qed

text \<open>A machine with sixteen frames, the first of them in use, and one page table.\<close>

definition small_paging :: paging where
  "small_paging =
     \<lparr>pg_tabs = [0x1000 \<mapsto> (replicate 1024 0)[0 := 0x2003], 0x2000 \<mapsto> replicate 1024 0],
      pg_bitmap = Some [1, 0], pg_npages = 16, pg_last_free = 0, pg_nfree = 15, pg_early = 0x3000,
      pg_kernel_end = 0x900, pg_current_dir = 0x1000, pg_kernel_dir = 0x1000, pg_enabled = True, pg_cr3 = 0x1007\<rparr>"

lemma small_paging_ok:
  "paging_inv small_paging" "\<not> frame_used small_paging 1"
  "table_at small_paging 0x1000 0x5000 (replicate 1024 0)"
  by (simp_all add: paging_inv_def frame_used_def table_at_def small_paging_def bm_bit_def)

lemma map_page_lowest_frame_witness:
  "\<exists>pg' f. map_page [] small_paging 0x1000 0x5000 3 = Some (pg', 1) \<and> \<not> frame_used small_paging f
    \<and> get_page pg' 0x1000 0x5000 = Some (page_base (push_bit 12 (of_nat f)) OR 3)"
  using map_page_lowest_frame [OF small_paging_ok(1,2) _ small_paging_ok(3), of 3 "[]"] by fastforce

lemma map_page_free_page_witness:
  "\<exists>pg1 pg2. map_page [] small_paging 0x1000 0x5000 3 = Some (pg1, 1) \<and> free_page pg1 0x1000 0x5000 = Some (pg2, 1)
    \<and> get_page pg2 0x1000 0x5000 = Some 0 \<and> get_nfree_pages pg2 = 15"
  using map_page_free_page [OF small_paging_ok(1,2) _ _ small_paging_ok(3), of 3 "[]"]
  by (auto simp: get_nfree_pages_def small_paging_def)

end
