(* ===== verification/Region.thy ===== *)
theory Region
  imports Paging Interfaces
begin

text \<open>
  \<^verbatim>\<open>kernel/base/mem/region.c\<close>: a window of virtual pages with a bitmap of the pages in use. A page
  is backed by a physical frame when it is handed out and loses it when it is freed, through
  \<^verbatim>\<open>paging.c\<close>. The bitmap block is the field \<open>rg_data\<close>; reading past its end is \<open>None\<close>. The
  two function pointers of a region always hold \<open>bitmap_region_alloc_page\<close> and
  \<open>bitmap_region_free_page\<close>, so they are not fields of the record.
\<close>

section \<open>State and operations\<close>

record region =
  rg_addr :: u32
  rg_data :: "u8 list"
  rg_pages :: nat
  rg_extra_data :: nat
  rg_pagedir :: u32

definition bitmap_region_init_at_addr :: "u32 \<Rightarrow> nat \<Rightarrow> u8 list \<Rightarrow> u32 \<Rightarrow> region" where
  "bitmap_region_init_at_addr vaddr npages bitmap pagedir =
     \<lparr>rg_addr = vaddr, rg_data = bitmap, rg_pages = npages, rg_extra_data = 0, rg_pagedir = pagedir\<rparr>"

text \<open>\<open>ret_ok\<close> and \<open>bitmap_ok\<close> say whether the two \<open>kcalloc\<close> calls succeed.\<close>

definition bitmap_region_init :: "bool \<Rightarrow> bool \<Rightarrow> u32 \<Rightarrow> nat \<Rightarrow> u32 \<Rightarrow> region option" where
  "bitmap_region_init ret_ok bitmap_ok vaddr sz pagedir =
     (if ret_ok
      then (let npages = sz div unat PAGE_SIZE + (if 0 < sz mod unat PAGE_SIZE then 1 else 0) in
            if bitmap_ok
            then Some (bitmap_region_init_at_addr vaddr npages (replicate (npages div 8) 0) pagedir)
            else None)
      else None)"

text \<open>\<open>for ( ; bitmap_get( bitmap, first_free ); first_free++ )\<close>.\<close>

function first_clear :: "u8 list \<Rightarrow> nat \<Rightarrow> nat option" where
  "first_clear m i =
     (case bitmap_get m i of
        None \<Rightarrow> None
      | Some b \<Rightarrow> if b then first_clear m (Suc i) else Some i)"
  by pat_completeness auto
termination
  by (relation "measure (\<lambda>(m, i). 8 * length m - i)")
    (auto simp: bitmap_get_def access_iffs bind_eq_Some_conv)

declare first_clear.simps [simp del]

fun run_free :: "u8 list \<Rightarrow> nat \<Rightarrow> nat \<Rightarrow> bool option" where
  "run_free m i 0 = Some True"
| "run_free m i (Suc n) = do { b \<leftarrow> bitmap_get m i; if b then Some False else run_free m (Suc i) n }"

fun set_run :: "u8 list \<Rightarrow> nat \<Rightarrow> nat \<Rightarrow> u8 list option" where
  "set_run m i 0 = Some m"
| "set_run m i (Suc n) = do { m' \<leftarrow> bitmap_set m i; set_run m' (Suc i) n }"

text \<open>The search loop: the result is the new hint, if the loop set one, and the first page found.
  The loop bound is the number of pages, although \<open>i\<close> counts bytes.\<close>

function region_find ::
  "u8 list \<Rightarrow> nat \<Rightarrow> nat \<Rightarrow> nat \<Rightarrow> nat option \<Rightarrow> (nat option \<times> nat option) option" where
  "region_find m n pages i hint =
     (if i < pages
      then do {
        b \<leftarrow> read_at m i;
        if b AND 0xff = 0xff
        then region_find m n pages (Suc i) hint
        else do {
          let hint' = (if hint = None then Some i else hint);
          first_free \<leftarrow> first_clear m (i * 8);
          if 1 < n
          then do {
            is_free \<leftarrow> run_free m first_free n;
            if \<not> is_free then region_find m n pages (i + 1) hint' else Some (hint', Some first_free)
          }
          else Some (hint', Some first_free)
        }
      }
      else Some (hint, None))"
  by pat_completeness auto
termination
  by (relation "measure (\<lambda>(m, n, pages, i, hint). pages - i)") auto

declare region_find.simps [simp del]

abbreviation heap_perms :: u32 where
  "heap_perms \<equiv> PAGE_USER OR PAGE_WRITEABLE OR PAGE_PRESENT"

definition region_page :: "region \<Rightarrow> nat \<Rightarrow> u32" where
  "region_page rg k = rg_addr rg + PAGE_SIZE * of_nat k"

text \<open>What is done with the pages found: their bits are set and they are mapped.\<close>

definition region_take ::
  "u32 list \<Rightarrow> region \<Rightarrow> paging \<Rightarrow> nat \<Rightarrow> nat \<Rightarrow> (u8 list \<times> paging \<times> int) option" where
  "region_take junk rg pg k n =
     (if 1 < n
      then do {
        m \<leftarrow> set_run (rg_data rg) k n;
        r \<leftarrow> map_pages junk pg (rg_pagedir rg) (region_page rg k) (region_page rg (k + n)) heap_perms;
        Some (m, r)
      }
      else do {
        m \<leftarrow> bitmap_set (rg_data rg) k;
        r \<leftarrow> map_page junk pg (rg_pagedir rg) (region_page rg k) heap_perms;
        Some (m, r)
      })"

definition bitmap_region_alloc_page ::
  "u32 list \<Rightarrow> region \<times> paging \<Rightarrow> nat \<Rightarrow> ((region \<times> paging) \<times> u32) option" where
  "bitmap_region_alloc_page junk s n = (case s of (rg, pg) \<Rightarrow> do {
     (hint, found) \<leftarrow> region_find (rg_data rg) n (rg_pages rg) (rg_extra_data rg) None;
     let rg1 = (case hint of None \<Rightarrow> rg | Some i \<Rightarrow> rg\<lparr>rg_extra_data := i\<rparr>);
     (case found of
        None \<Rightarrow> Some ((rg1, pg), 0)
      | Some k \<Rightarrow> do {
          (m, pg', r) \<leftarrow> region_take junk rg1 pg k n;
          Some ((rg1\<lparr>rg_data := m\<rparr>, pg'), region_page rg1 k)
        })
   })"

definition bitmap_region_free_page :: "region \<times> paging \<Rightarrow> u32 \<Rightarrow> (region \<times> paging) option" where
  "bitmap_region_free_page s ptr = (case s of (rg, pg) \<Rightarrow> do {
     let index = unat ((ptr - rg_addr rg) div PAGE_SIZE);
     let bytepos = index mod 8;
     m \<leftarrow> bitmap_unset (rg_data rg) index;
     let rg1 = rg\<lparr>rg_data := m\<rparr>;
     let rg2 = (if bytepos \<le> rg_extra_data rg1 then rg1\<lparr>rg_extra_data := bytepos\<rparr> else rg1);
     (pg', r) \<leftarrow> free_page pg (rg_pagedir rg2) ptr;
     Some (rg2, pg')
   })"

section \<open>The search\<close>

lemma bitmap_get_Some: "bitmap_get m i = Some b \<longleftrightarrow> i < 8 * length m \<and> b = bm_bit m i"
proof (cases "i < 8 * length m")
  case True
  then show ?thesis using bitmap_get_ok [OF True] by auto
next
  case False
  then have "length m \<le> i div 8" by simp
  then show ?thesis using False by (simp add: bitmap_get_def)
qed

lemma first_clear_Some:
  "first_clear m i = Some k \<Longrightarrow> i \<le> k \<and> k < 8 * length m \<and> \<not> bm_bit m k \<and> (\<forall>j. i \<le> j \<and> j < k \<longrightarrow> bm_bit m j)"
proof (induction m i rule: first_clear.induct)
  case (1 m i)
  from "1.prems" obtain b where b: "bitmap_get m i = Some b"
    "(if b then first_clear m (Suc i) else Some i) = Some k"
    by (subst (asm) first_clear.simps) (auto split: option.splits)
  then show ?case
    using "1.IH" [OF b(1)] le_neq_implies_less [of i]
    by (auto simp: bitmap_get_Some split: if_splits) (metis Suc_leI le_neq_implies_less)
qed

lemma first_clear_ex:
  "i \<le> k \<Longrightarrow> k < 8 * length m \<Longrightarrow> \<not> bm_bit m k \<Longrightarrow> \<exists>j. first_clear m i = Some j \<and> j \<le> k"
proof (induction m i rule: first_clear.induct)
  case (1 m i)
  have "bitmap_get m i = Some (bm_bit m i)" using "1.prems" by (simp add: bitmap_get_Some)
  moreover have "bm_bit m i \<Longrightarrow> Suc i \<le> k" using "1.prems" le_neq_implies_less by fastforce
  ultimately show ?case
    using "1.IH" [of "bm_bit m i"] "1.prems" by (subst first_clear.simps) auto
qed

lemma run_free_Some:
  "run_free m i n = Some b \<Longrightarrow> b \<Longrightarrow> \<forall>k < n. i + k < 8 * length m \<and> \<not> bm_bit m (i + k)"
proof (induction n arbitrary: i)
  case (Suc n)
  then have "i < 8 * length m" "\<not> bm_bit m i" "run_free m (Suc i) n = Some b"
    by (auto simp: bind_eq_Some_conv bitmap_get_Some split: if_splits)
  with Suc.IH [of "Suc i"] Suc.prems(2) show ?case by (auto simp: All_less_Suc2)
qed simp

lemma region_find_Some:
  "region_find m n pages i hint = Some (hint', Some k) \<Longrightarrow>
   \<forall>j < max 1 n. k + j < 8 * length m \<and> \<not> bm_bit m (k + j)"
proof (induction m n pages i hint rule: region_find.induct)
  case (1 m n pages i hint)
  let ?h = "if hint = None then Some i else hint"
  from "1.prems" have i: "i < pages" by (subst (asm) region_find.simps) (auto split: if_splits)
  with "1.prems" obtain b where b: "read_at m i = Some b"
    by (subst (asm) region_find.simps) (auto simp: bind_eq_Some_conv)
  show ?case
  proof (cases "b = 0xff")
    case True
    then show ?thesis
      using "1.IH"(1) [OF i b] "1.prems" i b by (subst (asm) (2) region_find.simps) simp
  next
    case False
    with "1.prems" i b obtain f where f: "first_clear m (i * 8) = Some f"
      by (subst (asm) region_find.simps) (auto simp: bind_eq_Some_conv Let_def)
    show ?thesis
    proof (cases "1 < n")
      case True
      with "1.prems" i b f False obtain fr where fr: "run_free m f n = Some fr"
        by (subst (asm) region_find.simps) (auto simp: bind_eq_Some_conv Let_def)
      show ?thesis
      proof (cases fr)
        case True
        then show ?thesis
          using "1.prems" i b f False fr \<open>1 < n\<close> run_free_Some [OF fr True]
          by (subst (asm) region_find.simps) simp
      next
        case False
        then show ?thesis
          using "1.IH"(2) [OF i b _ refl f \<open>1 < n\<close> fr] "1.prems" i b f \<open>b \<noteq> 0xff\<close> fr \<open>1 < n\<close>
          by (subst (asm) (2) region_find.simps) simp
      qed
    next
      case False
      then show ?thesis
        using "1.prems" i b f \<open>b \<noteq> 0xff\<close> first_clear_Some [OF f]
        by (subst (asm) region_find.simps) (auto simp: less_Suc_eq)
    qed
  qed
qed

lemma set_run_ok:
  "i + n \<le> 8 * length m \<Longrightarrow> \<exists>m'. set_run m i n = Some m' \<and> length m' = length m
     \<and> bm_bit m' = (\<lambda>j. (i \<le> j \<and> j < i + n) \<or> bm_bit m j)"
proof (induction n arbitrary: m i)
  case (Suc n)
  then have "i < 8 * length m" by simp
  then obtain m1 where m1: "bitmap_set m i = Some m1" "length m1 = length m" "bm_bit m1 = (bm_bit m)(i := True)"
    using BM_SET_BIT_ok [of i m True] by (auto simp: bitmap_set_eq)
  obtain m2 where "set_run m1 (Suc i) n = Some m2" "length m2 = length m1"
    "bm_bit m2 = (\<lambda>j. (Suc i \<le> j \<and> j < Suc i + n) \<or> bm_bit m1 j)"
    using Suc.IH [of "Suc i" m1] Suc.prems m1(2) by auto
  with m1 show ?case by (auto simp: fun_eq_iff)
qed (auto simp: fun_eq_iff)

section \<open>The page tables of a window\<close>

text \<open>Every page of \<open>V\<close> has its page table, and the frames entered there are frames of the machine.\<close>

definition entries_ok :: "paging \<Rightarrow> u32 list \<Rightarrow> bool" where
  "entries_ok pg t \<longleftrightarrow> (\<exists>m. pg_bitmap pg = Some m
     \<and> (\<forall>e \<in> set t. e \<noteq> 0 \<longrightarrow> unat (drop_bit 12 e) < 8 * length m))"

definition window_ok :: "paging \<Rightarrow> u32 \<Rightarrow> u32 set \<Rightarrow> bool" where
  "window_ok pg dir V \<longleftrightarrow> (\<forall>v \<in> V. \<exists>t. table_at pg dir v t \<and> entries_ok pg t)"

lemma entries_ok_cong: "map_option length (pg_bitmap pg') = map_option length (pg_bitmap pg) \<Longrightarrow> entries_ok pg' t = entries_ok pg t"
  by (cases "pg_bitmap pg'"; cases "pg_bitmap pg") (auto simp: entries_ok_def)

lemma table_at_put:
  assumes v: "table_at pg dir v t" "tab_read pg dir (pd_index v) = Some pde" and w: "table_at pg dir w u"
    and len: "length t' = 1024"
  shows "table_at (tab_put pg (page_base pde) t') dir w t' \<or> table_at (tab_put pg (page_base pde) t') dir w u"
proof -
  obtain d where d: "dir \<noteq> 0" "pg_tabs pg dir = Some d" "length d = 1024" "page_base (d ! pd_index v) \<noteq> dir"
    using v(1) unfolding table_at_def by blast
  have dw: "d ! pd_index w \<noteq> 0" "page_base (d ! pd_index w) \<noteq> dir"
    "pg_tabs pg (page_base (d ! pd_index w)) = Some u" "length u = 1024"
    using w d(2) unfolding table_at_def by (metis option.inject)+
  have "pde = d ! pd_index v"
    using v(2) d(2,3) pd_index_less [of v] by (simp add: tab_read_def)
  then show ?thesis
    using d dw len by (cases "page_base (d ! pd_index w) = page_base pde") (auto simp: table_at_def tab_put_def)
qed

lemma window_ok_put:
  assumes win: "window_ok pg dir V" and v: "table_at pg dir v t" "tab_read pg dir (pd_index v) = Some pde"
    and t': "length t' = 1024" "entries_ok pg t'"
  shows "window_ok (tab_put pg (page_base pde) t') dir V"
  unfolding window_ok_def
proof
  fix w assume "w \<in> V"
  then obtain u where u: "table_at pg dir w u" "entries_ok pg u" using win by (auto simp: window_ok_def)
  have c: "entries_ok (tab_put pg (page_base pde) t') x = entries_ok pg x" for x
    by (rule entries_ok_cong) simp
  from table_at_put [OF v u(1) t'(1)] show "\<exists>x. table_at (tab_put pg (page_base pde) t') dir w x
      \<and> entries_ok (tab_put pg (page_base pde) t') x"
    using u(2) t'(2) c by blast
qed

lemma window_ok_cong:
  "pg_tabs pg' = pg_tabs pg \<Longrightarrow> map_option length (pg_bitmap pg') = map_option length (pg_bitmap pg) \<Longrightarrow>
   window_ok pg' dir V = window_ok pg dir V"
  using entries_ok_cong [of pg' pg] by (auto simp: window_ok_def table_at_def)

lemma get_free_page_fields:
  "get_free_page pg = Some (pg', r) \<Longrightarrow> pg_tabs pg' = pg_tabs pg \<and> pg_bitmap pg' = pg_bitmap pg"
  by (auto simp: get_free_page_def bind_eq_Some_conv Let_def split: option.splits)

lemma map_page_window:
  assumes win: "window_ok pg dir V" and v: "v \<in> V" and mp: "map_page junk pg dir v perms = Some (pg', r)"
  shows "window_ok pg' dir V"
proof -
  obtain pg1 f where f: "get_free_page pg = Some (pg1, f)"
    using mp by (auto simp: map_page_def bind_eq_Some_conv)
  have c: "pg_tabs pg1 = pg_tabs pg" "pg_bitmap pg1 = pg_bitmap pg" using get_free_page_fields [OF f] by auto
  have win1: "window_ok pg1 dir V" using win window_ok_cong [of pg1 pg] c by simp
  then obtain t where t: "table_at pg1 dir v t" "entries_ok pg1 t" using v by (auto simp: window_ok_def)
  have dir: "dir \<noteq> 0" using t(1) by (simp add: table_at_def)
  from t(1) obtain pde where w: "tab_read pg1 dir (pd_index v) = Some pde" "pde \<noteq> 0"
    "\<And>e. tab_write pg1 (page_base pde) (pt_index v) e = Some (tab_put pg1 (page_base pde) (t[pt_index v := e]))"
    by (rule table_at_write) blast
  let ?r = "page_base f OR perms"
  let ?t = "t[pt_index v := ?r]"
  obtain m m' where m: "pg_bitmap pg1 = Some m" "BM_SET_BIT m (unat (drop_bit 12 ?r)) True = Some m'"
    "pg' = (tab_put pg1 (page_base pde) ?t)\<lparr>pg_bitmap := Some m'\<rparr>"
    using mp f dir w by (auto simp: map_page_def ensure_table_def bind_eq_Some_conv simp del: word_ao_dist)
  have lt: "unat (drop_bit 12 ?r) < 8 * length m" and lm: "length m' = length m"
    using BM_SET_BIT_Some [OF m(2)] by auto
  have len: "length ?t = 1024" using t(1) by (auto simp: table_at_def)
  have "\<forall>e \<in> set ?t. e \<noteq> 0 \<longrightarrow> unat (drop_bit 12 e) < 8 * length m"
    using t(2) m(1) lt set_update_subset_insert [of t "pt_index v" ?r] by (auto simp: entries_ok_def)
  then have "entries_ok pg1 ?t" using m(1) by (auto simp: entries_ok_def)
  from window_ok_put [OF win1 t(1) w(1) len this] show ?thesis
    unfolding m(3) using m(1) lm by (subst window_ok_cong) simp_all
qed

lemma free_page_window:
  assumes win: "window_ok pg dir V" and v: "v \<in> V"
  shows "\<exists>pg' r. free_page pg dir v = Some (pg', r) \<and> window_ok pg' dir V"
proof -
  obtain t where t: "table_at pg dir v t" "entries_ok pg t" using assms by (auto simp: window_ok_def)
  have dir: "dir \<noteq> 0" using t(1) by (simp add: table_at_def)
  obtain m where m: "pg_bitmap pg = Some m" "\<forall>e \<in> set t. e \<noteq> 0 \<longrightarrow> unat (drop_bit 12 e) < 8 * length m"
    using t(2) by (auto simp: entries_ok_def)
  from t(1) obtain pde where w: "tab_read pg dir (pd_index v) = Some pde" "pde \<noteq> 0"
    "tab_read pg (page_base pde) (pt_index v) = Some (t ! pt_index v)"
    "\<And>e. tab_write pg (page_base pde) (pt_index v) e = Some (tab_put pg (page_base pde) (t[pt_index v := e]))"
    by (rule table_at_write) blast
  let ?t = "t[pt_index v := 0]" and ?e = "t ! pt_index v"
  have len: "length t = 1024" using t(1) by (auto simp: table_at_def)
  have "entries_ok pg ?t" using m set_update_subset_insert [of t "pt_index v" 0] by (auto simp: entries_ok_def)
  with window_ok_put [OF win t(1) w(1), of ?t] len
  have put: "window_ok (tab_put pg (page_base pde) ?t) dir V" by simp
  show ?thesis
  proof (cases "?e = 0")
    case True
    then show ?thesis using put w dir by (simp add: free_page_def)
  next
    case False
    have "?e \<in> set t" using len pt_index_less [of v] by simp
    then have "unat (drop_bit 12 ?e) < 8 * length m" using m(2) False by blast
    then obtain m' where m': "BM_SET_BIT m (unat (drop_bit 12 ?e)) False = Some m'" "length m' = length m"
      using BM_SET_BIT_ok by blast
    let ?pg = "(tab_put pg (page_base pde) ?t)\<lparr>pg_bitmap := Some m',
      pg_last_free := (if unat (drop_bit 15 ?e) < pg_last_free pg then unat (drop_bit 15 ?e) else pg_last_free pg),
      pg_nfree := pg_nfree pg + 1\<rparr>"
    have "free_page pg dir v = Some (?pg, 1)"
      using w dir m(1) m'(1) False by (simp add: free_page_def Let_def)
    moreover have "window_ok ?pg dir V"
      using put m(1) m'(2) by (subst window_ok_cong) simp_all
    ultimately show ?thesis by blast
  qed
qed

section \<open>A region is a page source\<close>

definition region_window :: "region \<Rightarrow> u32 set" where
  "region_window rg = region_page rg ` {..< rg_pages rg}"

text \<open>The bitmap has one bit for every page, the window is page aligned, does not start at \<open>0\<close> and
  ends below the top of the address space, and its page tables exist.\<close>

definition region_inv :: "region \<times> paging \<Rightarrow> bool" where
  "region_inv s \<longleftrightarrow> (case s of (rg, pg) \<Rightarrow> 8 * length (rg_data rg) = rg_pages rg
     \<and> rg_addr rg AND 0xfff = 0 \<and> rg_addr rg \<noteq> 0
     \<and> unat (rg_addr rg) + 4096 * rg_pages rg < 2 ^ 32
     \<and> window_ok pg (rg_pagedir rg) (region_window rg))"

definition region_held :: "region \<times> paging \<Rightarrow> u32 set" where
  "region_held s = (case s of (rg, pg) \<Rightarrow> region_page rg ` {k. k < rg_pages rg \<and> bm_bit (rg_data rg) k})"

lemma region_page_unat:
  "unat (rg_addr rg) + 4096 * n < 2 ^ 32 \<Longrightarrow> k \<le> n \<Longrightarrow> unat (region_page rg k) = unat (rg_addr rg) + 4096 * k"
  by (simp add: region_page_def PAGE_SIZE_def unat_word_ariths unat_of_nat take_bit_nat_eq_self)

lemma region_page_cong [simp]:
  "region_page (rg\<lparr>rg_data := m\<rparr>) k = region_page rg k" "region_page (rg\<lparr>rg_extra_data := i\<rparr>) k = region_page rg k"
  by (simp_all add: region_page_def)

lemma region_window_cong [simp]:
  "region_window (rg\<lparr>rg_data := m\<rparr>) = region_window rg" "region_window (rg\<lparr>rg_extra_data := i\<rparr>) = region_window rg"
  by (simp_all add: region_window_def region_page_def)

lemma region_page_inj:
  assumes "unat (rg_addr rg) + 4096 * rg_pages rg < 2 ^ 32" "j < rg_pages rg" "k < rg_pages rg"
    "region_page rg j = region_page rg k"
  shows "j = k"
proof -
  have "unat (region_page rg j) = unat (rg_addr rg) + 4096 * j"
    using assms(2) by (intro region_page_unat [OF assms(1)]) simp
  moreover have "unat (region_page rg k) = unat (rg_addr rg) + 4096 * k"
    using assms(3) by (intro region_page_unat [OF assms(1)]) simp
  ultimately show ?thesis using assms(4) by (metis add_left_cancel mult_left_cancel zero_neq_numeral)
qed

lemma region_page_add: "region_page rg k + 0x1000 * of_nat j = region_page rg (k + j)"
  by (simp add: region_page_def PAGE_SIZE_def algebra_simps)

lemma map_pages_from_window:
  assumes a: "unat (rg_addr rg) + 4096 * rg_pages rg < 2 ^ 32" and n: "k + n \<le> rg_pages rg"
    and win: "window_ok pg dir (region_window rg)"
    and mp: "map_pages_from junk pg dir (region_page rg k) (region_page rg (k + n)) perms = Some pg'"
  shows "window_ok pg' dir (region_window rg)"
  using n win mp
proof (induction n arbitrary: k pg)
  case 0
  then show ?case by (subst (asm) map_pages_from.simps) simp
next
  case (Suc n)
  have lt: "region_page rg k < region_page rg (k + Suc n)"
    using region_page_unat [OF a, of k] region_page_unat [OF a, of "k + Suc n"] Suc.prems(1)
    by (simp add: word_less_nat_alt)
  obtain pg1 r where pg1: "map_page junk pg dir (region_page rg k) perms = Some (pg1, r)"
    "map_pages_from junk pg1 dir (region_page rg k + PAGE_SIZE) (region_page rg (k + Suc n)) perms = Some pg'"
    using Suc.prems(3) unfolding map_pages_from.simps [of junk pg dir "region_page rg k"] if_P [OF lt]
    by (auto simp: bind_eq_Some_conv)
  have "region_page rg k \<in> region_window rg" using Suc.prems(1) by (simp add: region_window_def)
  then have "window_ok pg1 dir (region_window rg)"
    using map_page_window [OF Suc.prems(2) _ pg1(1)] by blast
  moreover have "region_page rg k + PAGE_SIZE = region_page rg (Suc k)"
    by (simp add: region_page_def algebra_simps)
  ultimately show ?case using Suc.IH [of "Suc k" pg1] pg1(2) Suc.prems(1) by simp
qed

lemma region_take_ok:
  assumes a: "unat (rg_addr rg) + 4096 * rg_pages rg < 2 ^ 32" and le: "k + max 1 n \<le> rg_pages rg"
    and bm: "8 * length (rg_data rg) = rg_pages rg"
    and win: "window_ok pg (rg_pagedir rg) (region_window rg)"
    and take: "region_take junk rg pg k n = Some (m, pg', r)"
  shows "length m = length (rg_data rg) \<and> bm_bit m = (\<lambda>j. (k \<le> j \<and> j < k + max 1 n) \<or> bm_bit (rg_data rg) j)
    \<and> window_ok pg' (rg_pagedir rg) (region_window rg)"
proof (cases "1 < n")
  case True
  from take True have sr: "set_run (rg_data rg) k n = Some m"
    and mp: "map_pages junk pg (rg_pagedir rg) (region_page rg k) (region_page rg (k + n)) heap_perms = Some (pg', r)"
    by (auto simp: region_take_def bind_eq_Some_conv)
  from mp have "map_pages_from junk pg (rg_pagedir rg) (region_page rg k) (region_page rg (k + n)) heap_perms = Some pg'"
    by (auto simp: map_pages_def bind_eq_Some_conv)
  then have "window_ok pg' (rg_pagedir rg) (region_window rg)"
    using map_pages_from_window [OF a _ win] True le by simp
  then show ?thesis using set_run_ok [of k n "rg_data rg"] sr True le bm by (auto simp: max_def)
next
  case False
  from take False have bs: "bitmap_set (rg_data rg) k = Some m"
    and mp: "map_page junk pg (rg_pagedir rg) (region_page rg k) heap_perms = Some (pg', r)"
    by (auto simp: region_take_def bind_eq_Some_conv)
  have "region_page rg k \<in> region_window rg" using le by (simp add: region_window_def)
  then have "window_ok pg' (rg_pagedir rg) (region_window rg)"
    using map_page_window [OF win _ mp] by blast
  moreover have "set_run (rg_data rg) k 1 = Some m" using bs by simp
  ultimately show ?thesis using set_run_ok [of k 1 "rg_data rg"] False le bm by (auto simp: max_def)
qed

lemma region_alloc_cases:
  assumes inv: "region_inv (rg, pg)" and al: "bitmap_region_alloc_page junk (rg, pg) n = Some ((rg', pg'), p)"
  shows "(p = 0 \<and> pg' = pg \<and> rg_data rg' = rg_data rg \<and> (\<exists>i. rg' = rg\<lparr>rg_extra_data := i\<rparr>))
    \<or> (\<exists>k i m. p = region_page rg k \<and> k + max 1 n \<le> rg_pages rg \<and> (\<forall>j < max 1 n. \<not> bm_bit (rg_data rg) (k + j))
        \<and> rg' = rg\<lparr>rg_extra_data := i, rg_data := m\<rparr> \<and> length m = length (rg_data rg)
        \<and> bm_bit m = (\<lambda>j. (k \<le> j \<and> j < k + max 1 n) \<or> bm_bit (rg_data rg) j)
        \<and> window_ok pg' (rg_pagedir rg) (region_window rg))"
proof -
  from al obtain hint found where f: "region_find (rg_data rg) n (rg_pages rg) (rg_extra_data rg) None = Some (hint, found)"
    by (auto simp: bitmap_region_alloc_page_def bind_eq_Some_conv)
  obtain i where i: "(case hint of None \<Rightarrow> rg | Some i \<Rightarrow> rg\<lparr>rg_extra_data := i\<rparr>) = rg\<lparr>rg_extra_data := i\<rparr>"
    by (cases hint) (auto intro: that [of "rg_extra_data rg"])
  let ?rg = "rg\<lparr>rg_extra_data := i\<rparr>"
  have inv': "8 * length (rg_data ?rg) = rg_pages ?rg" "unat (rg_addr ?rg) + 4096 * rg_pages ?rg < 2 ^ 32"
    "window_ok pg (rg_pagedir ?rg) (region_window ?rg)"
    using inv by (auto simp: region_inv_def)
  show ?thesis
  proof (cases found)
    case None
    then have "((rg', pg'), p) = ((?rg, pg), 0)"
      using al f i by (simp add: bitmap_region_alloc_page_def Let_def)
    then show ?thesis by (intro disjI1) auto
  next
    case (Some k)
    have fr: "\<forall>j < max 1 n. k + j < 8 * length (rg_data rg) \<and> \<not> bm_bit (rg_data rg) (k + j)"
      using region_find_Some f Some by blast
    then have "k + (max 1 n - 1) < rg_pages rg"
      using inv'(1) fr [rule_format, of "max 1 n - 1"] by simp
    then have le: "k + max 1 n \<le> rg_pages ?rg" by simp
    from al f i Some obtain m r where m: "region_take junk ?rg pg k n = Some (m, pg', r)"
      "rg' = ?rg\<lparr>rg_data := m\<rparr>" "p = region_page ?rg k"
      by (auto simp: bitmap_region_alloc_page_def bind_eq_Some_conv Let_def)
    have "length m = length (rg_data rg) \<and> bm_bit m = (\<lambda>j. (k \<le> j \<and> j < k + max 1 n) \<or> bm_bit (rg_data rg) j)
        \<and> window_ok pg' (rg_pagedir rg) (region_window rg)"
      using region_take_ok [OF inv'(2) le inv'(1,3) m(1)] by simp
    then show ?thesis using m(2,3) fr le
      by (intro disjI2 exI [of _ k] exI [of _ i] exI [of _ m]) simp
  qed
qed

lemma region_held_page:
  "region_inv (rg, pg) \<Longrightarrow> j < rg_pages rg \<Longrightarrow> region_page rg j \<in> region_held (rg, pg) \<longleftrightarrow> bm_bit (rg_data rg) j"
  using region_page_inj [of rg j] by (auto simp: region_held_def region_inv_def)

lemma aligned_add: "a AND 0xfff = 0 \<Longrightarrow> (a + 0x1000 * w) AND 0xfff = 0" for a w :: u32
proof -
  have m: "x AND 0xfff = 0 \<longleftrightarrow> 2 ^ 12 dvd unat x" for x :: u32
  proof -
    have "x AND 0xfff = take_bit 12 x" by (simp add: take_bit_eq_mask mask_eq_exp_minus_1)
    then have "unat (x AND 0xfff) = unat x mod 2 ^ 12" by (simp add: take_bit_eq_mod unat_mod_distrib)
    then show ?thesis by (metis mod_eq_0_iff_dvd unat_0 word_unat_eq_iff)
  qed
  assume "a AND 0xfff = 0"
  then have "2 ^ 12 dvd unat a + unat (0x1000 * w)"
    using m by (auto simp: unat_word_ariths intro!: dvd_add dvd_mod)
  then show ?thesis by (simp add: m unat_word_ariths dvd_mod)
qed

lemma region_held_alloc:
  assumes inv: "region_inv (rg, pg)" and le: "k + max 1 n \<le> rg_pages rg"
    and m: "bm_bit m = (\<lambda>j. (k \<le> j \<and> j < k + max 1 n) \<or> bm_bit (rg_data rg) j)"
    and fr: "\<forall>j < max 1 n. \<not> bm_bit (rg_data rg) (k + j)"
  shows "region_held (rg\<lparr>rg_extra_data := i, rg_data := m\<rparr>, pg')
      = region_held (rg, pg) \<union> page_run (region_page rg k) n"
    "region_held (rg, pg) \<inter> page_run (region_page rg k) n = {}"
proof -
  have run: "page_run (region_page rg k) n = region_page rg ` {k ..< k + max 1 n}"
  proof -
    have "{k ..< k + max 1 n} = (\<lambda>j. k + j) ` {..< max 1 n}"
      by (simp add: lessThan_atLeast0 add.commute)
    then show ?thesis by (simp add: page_run_def region_page_add image_image)
  qed
  have "{j. j < rg_pages rg \<and> (k \<le> j \<and> j < k + max 1 n \<or> bm_bit (rg_data rg) j)}
      = {j. j < rg_pages rg \<and> bm_bit (rg_data rg) j} \<union> {k ..< k + max 1 n}"
    using le by auto
  then show "region_held (rg\<lparr>rg_extra_data := i, rg_data := m\<rparr>, pg')
      = region_held (rg, pg) \<union> page_run (region_page rg k) n"
    unfolding run by (simp add: region_held_def m image_Un)
  have "\<not> bm_bit (rg_data rg) j" if "k \<le> j" "j < k + max 1 n" for j
    using fr [rule_format, of "j - k"] that by simp
  then show "region_held (rg, pg) \<inter> page_run (region_page rg k) n = {}"
    unfolding run using region_held_page [OF inv] le by auto
qed

interpretation rgn: page_source region_inv region_held "bitmap_region_alloc_page junk" bitmap_region_free_page
  for junk
proof (unfold_locales, goal_cases)
  case (1 s n s' p)
  obtain rg pg rg' pg' where s: "s = (rg, pg)" "s' = (rg', pg')" by (cases s, cases s')
  from region_alloc_cases [of rg pg junk n rg' pg' p] 1 s obtain k i m where k: "p = region_page rg k"
    "k + max 1 n \<le> rg_pages rg" "\<forall>j < max 1 n. \<not> bm_bit (rg_data rg) (k + j)"
    "rg' = rg\<lparr>rg_extra_data := i, rg_data := m\<rparr>" "length m = length (rg_data rg)"
    "bm_bit m = (\<lambda>j. (k \<le> j \<and> j < k + max 1 n) \<or> bm_bit (rg_data rg) j)"
    "window_ok pg' (rg_pagedir rg) (region_window rg)"
    by blast
  have inv: "region_inv (rg, pg)" using 1 s by simp
  then have "region_inv s'" using s k(4,5,7) by (simp add: region_inv_def)
  then show ?case using region_held_alloc [OF inv k(2,6,3)] s k(1,4) by simp
next
  case (2 s n s')
  obtain rg pg rg' pg' where s: "s = (rg, pg)" "s' = (rg', pg')" by (cases s, cases s')
  have inv: "region_inv (rg, pg)" using 2 s by simp
  have "region_page rg k \<noteq> 0" if "k \<le> rg_pages rg" for k
    using inv that region_page_unat [of rg "rg_pages rg" k] by (auto simp: region_inv_def unat_eq_0)
  with region_alloc_cases [OF inv, of junk n rg' pg' 0] 2 s obtain i where
    "pg' = pg" "rg' = rg\<lparr>rg_extra_data := i\<rparr>" by fastforce
  then show ?case using s inv by (simp add: region_inv_def region_held_def)
next
  case (3 s p)
  obtain rg pg where s: "s = (rg, pg)" by (cases s)
  have inv: "8 * length (rg_data rg) = rg_pages rg" "unat (rg_addr rg) + 4096 * rg_pages rg < 2 ^ 32"
    "window_ok pg (rg_pagedir rg) (region_window rg)" "region_inv (rg, pg)"
    using 3 s by (auto simp: region_inv_def)
  obtain k where k: "k < rg_pages rg" "bm_bit (rg_data rg) k" "p = region_page rg k"
    using 3 s by (auto simp: region_held_def)
  have idx: "unat ((p - rg_addr rg) div PAGE_SIZE) = k"
    using k(1,3) inv(2) by (simp add: region_page_def PAGE_SIZE_def unat_div_distrib unat_word_ariths unat_of_nat take_bit_nat_eq_self)
  obtain m where m: "bitmap_unset (rg_data rg) k = Some m" "length m = length (rg_data rg)"
    "bm_bit m = (bm_bit (rg_data rg))(k := False)"
    using BM_SET_BIT_ok [of k "rg_data rg" False] k(1) inv(1) by (auto simp: bitmap_unset_eq)
  have "p \<in> region_window rg" using k by (simp add: region_window_def)
  then obtain pg' r where f: "free_page pg (rg_pagedir rg) p = Some (pg', r)" "window_ok pg' (rg_pagedir rg) (region_window rg)"
    using free_page_window [OF inv(3)] by blast
  obtain i where fr: "bitmap_region_free_page (rg, pg) p = Some (rg\<lparr>rg_data := m, rg_extra_data := i\<rparr>, pg')"
    using idx m(1) f(1)
    by (cases "k mod 8 \<le> rg_extra_data rg")
      (auto simp: bitmap_region_free_page_def Let_def intro: that [of "rg_extra_data rg"])
  have "region_held (rg\<lparr>rg_data := m, rg_extra_data := i\<rparr>, pg') = region_held (rg, pg) - {p}"
    unfolding region_held_def k(3) using m(3) k(1) region_page_inj [OF inv(2) _ k(1)]
    by (auto simp: image_iff split: if_splits)
  moreover have "region_inv (rg\<lparr>rg_data := m, rg_extra_data := i\<rparr>, pg')"
    using inv(4) m(2) f(2) by (simp add: region_inv_def)
  ultimately show ?case using fr s by blast
next
  case (4 s p)
  then show ?case
    by (auto simp: region_held_def region_inv_def region_page_def PAGE_SIZE_def aligned_add split: prod.splits)
next
  case (5 s)
  obtain rg pg where s: "s = (rg, pg)" by (cases s)
  have "region_page rg k \<noteq> 0" if "k < rg_pages rg" for k
    using 5 s that region_page_unat [of rg "rg_pages rg" k] by (auto simp: region_inv_def unat_eq_0)
  then show ?case using s by (auto simp: region_held_def)
qed

section \<open>Single pages\<close>

lemma region_find_one:
  "n \<le> 1 \<Longrightarrow> 8 * i \<le> k \<Longrightarrow> k < 8 * length m \<Longrightarrow> \<not> bm_bit m k \<Longrightarrow> length m \<le> pages \<Longrightarrow>
   \<exists>h' j. region_find m n pages i h = Some (h', Some j)"
proof (induction m n pages i h rule: region_find.induct)
  case (1 m n pages i h)
  have i: "i < length m" "i < pages" using "1.prems" by simp_all
  show ?case
  proof (cases "m ! i = 0xff")
    case True
    then have full: "\<forall>j < 8. bm_bit m (8 * i + j)" using byte_full_bits [OF i(1)] by blast
    have "8 * Suc i \<le> k"
    proof (rule ccontr)
      assume "\<not> ?thesis"
      then have "k - 8 * i < 8" using "1.prems"(2) by simp
      then have "bm_bit m (8 * i + (k - 8 * i))" using full by blast
      then show False using "1.prems"(2,4) by simp
    qed
    then have "\<exists>h' j. region_find m n pages (Suc i) h = Some (h', Some j)"
      using "1.IH"(1) [OF i(2), of "m ! i"] i True "1.prems" by simp
    then show ?thesis using True i by (subst region_find.simps) simp
  next
    case False
    then obtain j where j: "j < 8" "\<not> bm_bit m (8 * i + j)" using byte_full_bits [OF i(1)] by blast
    then obtain f where "first_clear m (i * 8) = Some f"
      using first_clear_ex [of "i * 8" "8 * i + j" m] i(1) by auto
    then show ?thesis using False i "1.prems"(1) by (subst region_find.simps) (simp add: Let_def)
  qed
qed

lemma heap_perms_small: "drop_bit 12 heap_perms = 0"
  by (simp add: PAGE_USER_def PAGE_WRITEABLE_def PAGE_PRESENT_def)

lemma region_alloc_one_total:
  assumes inv: "region_inv (rg, pg)" and fr: "paging_inv pg" "\<not> frame_used pg g"
    and k: "8 * rg_extra_data rg \<le> k" "k < rg_pages rg" "\<not> bm_bit (rg_data rg) k"
  shows "\<exists>s' p. bitmap_region_alloc_page junk (rg, pg) 1 = Some (s', p) \<and> p \<noteq> 0"
proof -
  have inv': "8 * length (rg_data rg) = rg_pages rg" "unat (rg_addr rg) + 4096 * rg_pages rg < 2 ^ 32"
    "window_ok pg (rg_pagedir rg) (region_window rg)" "rg_addr rg \<noteq> 0"
    using inv by (auto simp: region_inv_def)
  obtain h j where f: "region_find (rg_data rg) 1 (rg_pages rg) (rg_extra_data rg) None = Some (h, Some j)"
    using region_find_one [of 1 "rg_extra_data rg" k "rg_data rg" "rg_pages rg" None] k inv'(1) by auto
  then have j: "j < rg_pages rg" using region_find_Some [OF f] inv'(1) by simp
  obtain i where i: "(case h of None \<Rightarrow> rg | Some i \<Rightarrow> rg\<lparr>rg_extra_data := i\<rparr>) = rg\<lparr>rg_extra_data := i\<rparr>"
    by (cases h) (auto intro: that [of "rg_extra_data rg"])
  let ?rg = "rg\<lparr>rg_extra_data := i\<rparr>"
  obtain m where m: "bitmap_set (rg_data rg) j = Some m"
    using BM_SET_BIT_ok [of j "rg_data rg" True] j inv'(1) by (auto simp: bitmap_set_eq)
  obtain t where t: "table_at pg (rg_pagedir rg) (region_page rg j) t"
    using inv'(3) j by (auto simp: window_ok_def region_window_def)
  obtain pg' where mp: "map_page junk pg (rg_pagedir rg) (region_page rg j) heap_perms = Some (pg', 1)"
    using map_page_ok [OF fr heap_perms_small t] by blast
  have "region_take junk ?rg pg j 1 = Some (m, pg', 1)"
    using m mp by (simp add: region_take_def)
  then have "bitmap_region_alloc_page junk (rg, pg) 1 = Some ((?rg\<lparr>rg_data := m\<rparr>, pg'), region_page rg j)"
    using f i by (simp add: bitmap_region_alloc_page_def Let_def)
  moreover have "region_page rg j \<noteq> 0"
    using region_page_unat [OF inv'(2), of j] j inv'(4) by (auto simp: unat_eq_0)
  ultimately show ?thesis by blast
qed

lemma region_find_full:
  "\<forall>j. i \<le> j \<and> j < length m \<longrightarrow> m ! j = 0xff \<Longrightarrow> length m < pages \<Longrightarrow> i \<le> length m \<Longrightarrow>
   region_find m n pages i h = None"
proof (induction m n pages i h rule: region_find.induct)
  case (1 m n pages i h)
  show ?case
  proof (cases "i = length m")
    case True
    then show ?thesis using "1.prems"(2) by (subst region_find.simps) simp
  next
    case False
    then have i: "i < length m" "m ! i = 0xff" "i < pages" using "1.prems" by auto
    then have "region_find m n pages (Suc i) h = None"
      using "1.IH"(1) [OF i(3), of "m ! i"] "1.prems" by simp
    then show ?thesis using i by (subst region_find.simps) simp
  qed
qed

section \<open>Properties\<close>

text \<open>C25. Two requests to a region, of any sizes and in any state, never get a common page, and the
  second does not get a page that was in use before the first.\<close>

theorem region_allocs_disjoint:
  assumes "region_inv s" "bitmap_region_alloc_page junk s n = Some (s1, p)" "p \<noteq> 0"
    "bitmap_region_alloc_page junk s1 k = Some (s2, q)" "q \<noteq> 0"
  shows "page_run p n \<inter> page_run q k = {} \<and> region_held s \<inter> page_run q k = {} \<and> region_inv s2"
  using rgn.alloc_alloc_disjoint [OF assms] rgn.alloc_ok [OF assms(1-3)] rgn.alloc_ok [OF _ assms(4,5)] by auto

text \<open>As long as a page at or above the search hint and a physical frame are free, a request for
  one page succeeds with a page that was not in use, and giving it back restores the set of used
  pages.\<close>

theorem region_page_roundtrip:
  assumes "region_inv (rg, pg)" "paging_inv pg" "\<not> frame_used pg g"
    "8 * rg_extra_data rg \<le> k" "k < rg_pages rg" "\<not> bm_bit (rg_data rg) k"
  shows "\<exists>s1 p s2. bitmap_region_alloc_page junk (rg, pg) 1 = Some (s1, p) \<and> p \<notin> region_held (rg, pg)
    \<and> region_held s1 = region_held (rg, pg) \<union> {p}
    \<and> bitmap_region_free_page s1 p = Some s2 \<and> region_held s2 = region_held (rg, pg)"
proof -
  obtain s1 p where a: "bitmap_region_alloc_page junk (rg, pg) 1 = Some (s1, p)" "p \<noteq> 0"
    using region_alloc_one_total [OF assms] by blast
  have "page_run p 1 = {p}" by (auto simp: page_run_def)
  then show ?thesis
    using rgn.alloc_ok [OF assms(1) a] rgn.alloc_release [OF assms(1) a] a(1) by auto
qed

text \<open>The hint that \<open>free_page\<close> computes is \<open>index % 8\<close> instead of \<open>index / 8\<close>: when every
  byte of the bitmap from the hint on is full, a page freed below it is not found again, and the
  next request runs off the end of the bitmap.\<close>

theorem region_free_loses_page:
  assumes "region_inv (rg, pg)" "k < rg_pages rg"
    and "k div 8 < rg_extra_data rg" "rg_extra_data rg < k mod 8" "rg_extra_data rg \<le> length (rg_data rg)"
    and "\<forall>j. rg_extra_data rg \<le> j \<and> j < length (rg_data rg) \<longrightarrow> rg_data rg ! j = 0xff"
  shows "\<exists>rg' pg'. bitmap_region_free_page (rg, pg) (region_page rg k) = Some (rg', pg')
    \<and> \<not> bm_bit (rg_data rg') k \<and> bitmap_region_alloc_page junk (rg', pg') n = None"
proof -
  have inv: "8 * length (rg_data rg) = rg_pages rg" "unat (rg_addr rg) + 4096 * rg_pages rg < 2 ^ 32"
    "window_ok pg (rg_pagedir rg) (region_window rg)"
    using assms(1) by (auto simp: region_inv_def)
  have idx: "unat ((region_page rg k - rg_addr rg) div PAGE_SIZE) = k"
    using assms(2) inv(2) by (simp add: region_page_def PAGE_SIZE_def unat_div_distrib unat_word_ariths unat_of_nat take_bit_nat_eq_self)
  obtain m where m: "bitmap_unset (rg_data rg) k = Some m" "length m = length (rg_data rg)"
    "bm_bit m = (bm_bit (rg_data rg))(k := False)"
    using BM_SET_BIT_ok [of k "rg_data rg" False] assms(2) inv(1) by (auto simp: bitmap_unset_eq)
  have "region_page rg k \<in> region_window rg" using assms(2) by (simp add: region_window_def)
  then obtain pg' r where f: "free_page pg (rg_pagedir rg) (region_page rg k) = Some (pg', r)"
    using free_page_window [OF inv(3)] by blast
  have fr: "bitmap_region_free_page (rg, pg) (region_page rg k) = Some (rg\<lparr>rg_data := m\<rparr>, pg')"
    using idx m(1) f assms(4) by (simp add: bitmap_region_free_page_def Let_def)
  have "\<forall>j. rg_extra_data rg \<le> j \<and> j < length m \<longrightarrow> m ! j = 0xff"
  proof (intro allI impI)
    fix j assume j: "rg_extra_data rg \<le> j \<and> j < length m"
    then have "rg_data rg ! j = 0xff" using assms(6) m(2) by simp
    then have "\<forall>i < 8. bm_bit (rg_data rg) (8 * j + i)" using byte_full_bits [of j "rg_data rg"] j m(2) by simp
    moreover have "8 * j + i \<noteq> k" if "i < 8" for i using j assms(3) that by auto
    ultimately have "\<forall>i < 8. bm_bit m (8 * j + i)" using m(3) by simp
    then show "m ! j = 0xff" using byte_full_bits [of j m] j by simp
  qed
  then have "region_find m n (rg_pages rg) (rg_extra_data rg) None = None"
    using assms(2,5) inv(1) m(2) by (intro region_find_full) auto
  then have "bitmap_region_alloc_page junk (rg\<lparr>rg_data := m\<rparr>, pg') n = None"
    by (simp add: bitmap_region_alloc_page_def)
  then show ?thesis using fr m(3) by auto
qed

text \<open>A region of eight pages behind one page table.\<close>

definition small_region :: region where
  "small_region = \<lparr>rg_addr = 0x8000, rg_data = [1], rg_pages = 8, rg_extra_data = 0, rg_pagedir = 0x1000\<rparr>"

lemma small_table: "k < 1024 \<Longrightarrow> table_at small_paging 0x1000 (of_nat k * 0x1000) (replicate 1024 0)"
proof -
  assume k: "k < 1024"
  have "unat (of_nat k * 0x1000 :: u32) = k * 4096"
    using k by (simp add: unat_word_ariths unat_of_nat take_bit_nat_eq_self)
  then have "pd_index (of_nat k * 0x1000) = 0"
    using k by (simp add: drop_bit_eq_div unat_div_distrib)
  then show ?thesis by (simp add: table_at_def small_paging_def)
qed

lemma small_region_ok:
  assumes "8 * length m = n" "n < 1000"
  shows "region_inv (small_region\<lparr>rg_data := m, rg_pages := n, rg_extra_data := i\<rparr>, small_paging)"
proof -
  let ?rg = "small_region\<lparr>rg_data := m, rg_pages := n, rg_extra_data := i\<rparr>"
  have "table_at small_paging 0x1000 (region_page ?rg k) (replicate 1024 0)" if "k < n" for k
  proof -
    have "region_page ?rg k = of_nat (8 + k) * 0x1000"
      by (simp add: region_page_def small_region_def PAGE_SIZE_def algebra_simps)
    then show ?thesis using small_table [of "8 + k"] that assms(2) by simp
  qed
  moreover have "entries_ok small_paging (replicate 1024 0)" by (simp add: entries_ok_def small_paging_def)
  ultimately have "window_ok small_paging 0x1000 (region_window ?rg)"
    by (auto simp: window_ok_def region_window_def)
  then show ?thesis using assms by (simp add: region_inv_def small_region_def)
qed

lemma small_region_inv: "region_inv (small_region, small_paging)"
  using small_region_ok [of "[1]" 8 0] by (simp add: small_region_def)

lemma region_page_roundtrip_witness:
  "\<exists>s1 p s2. bitmap_region_alloc_page [] (small_region, small_paging) 1 = Some (s1, p)
    \<and> p \<notin> region_held (small_region, small_paging)
    \<and> bitmap_region_free_page s1 p = Some s2 \<and> region_held s2 = region_held (small_region, small_paging)"
  using region_page_roundtrip [OF small_region_inv small_paging_ok(1,2), of 1 "[]"]
  by (auto simp: small_region_def bm_bit_def)

lemma small_region_two:
  "map_option snd (do { (s1, p) \<leftarrow> bitmap_region_alloc_page [] (small_region, small_paging) 1;
                        bitmap_region_alloc_page [] s1 1 }) = Some 0xa000"
  by code_simp

lemma region_allocs_disjoint_witness:
  "\<exists>s1 p s2 q. bitmap_region_alloc_page [] (small_region, small_paging) 1 = Some (s1, p) \<and> p \<noteq> 0
    \<and> bitmap_region_alloc_page [] s1 1 = Some (s2, q) \<and> q \<noteq> 0 \<and> page_run p 1 \<inter> page_run q 1 = {}"
proof -
  obtain s1 p where a: "bitmap_region_alloc_page [] (small_region, small_paging) 1 = Some (s1, p)" "p \<noteq> 0"
    using region_alloc_one_total [OF small_region_inv small_paging_ok(1,2), of 1 "[]"]
    by (auto simp: small_region_def bm_bit_def)
  then obtain s2 where "bitmap_region_alloc_page [] s1 1 = Some (s2, 0xa000)"
    using small_region_two by auto
  then show ?thesis using region_allocs_disjoint [OF small_region_inv a, of 1 s2 "0xa000"] a by auto
qed

lemma region_free_loses_page_witness:
  "\<exists>rg' pg'. bitmap_region_free_page (small_region\<lparr>rg_data := [0xff, 0xff], rg_pages := 16, rg_extra_data := 1\<rparr>, small_paging)
      (region_page small_region 3) = Some (rg', pg')
    \<and> bitmap_region_alloc_page [] (rg', pg') 1 = None"
proof -
  let ?rg = "small_region\<lparr>rg_data := [0xff, 0xff], rg_pages := 16, rg_extra_data := 1\<rparr>"
  have "region_inv (?rg, small_paging)" by (rule small_region_ok) simp_all
  moreover have "region_page ?rg 3 = region_page small_region 3" by (simp add: region_page_def)
  moreover have "\<forall>j. rg_extra_data ?rg \<le> j \<and> j < length (rg_data ?rg) \<longrightarrow> rg_data ?rg ! j = 0xff"
    by (auto simp: nth_Cons')
  ultimately show ?thesis
    using region_free_loses_page [of ?rg small_paging 3 "[]" 1] by fastforce
qed

end
