(* ===== verification/SlabInv.thy ===== *)
theory SlabInv
  imports Slab Region
begin

text \<open>
  Correctness of the slab allocator: the three lists of a cache as segments of pages, and the
  refinement of \<open>slab_alloc\<close> and \<open>slab_free\<close> to operations on the set of blocks in use, over any
  provider of pages.
\<close>

section \<open>Lists of slabs as segments\<close>

text \<open>From \<open>p\<close>, following \<open>last\<close>, come the pages \<open>xs\<close> and then \<open>q\<close>; \<open>next\<close> points back.\<close>

fun sseg :: "(u32 \<Rightarrow> slab option) \<Rightarrow> u32 \<Rightarrow> u32 \<Rightarrow> u32 list \<Rightarrow> u32 \<Rightarrow> u32 \<Rightarrow> bool" where
  "sseg h p nx [] q l \<longleftrightarrow> p = q \<and> nx = l"
| "sseg h p nx (a # xs) q l \<longleftrightarrow> p = a \<and> a \<noteq> 0 \<and> (\<exists>b. h a = Some b \<and> sb_next b = nx \<and> sseg h (sb_last b) a xs q l)"

lemma sseg_append: "sseg h p nx (xs @ ys) q l \<longleftrightarrow> (\<exists>m k. sseg h p nx xs m k \<and> sseg h m k ys q l)"
  by (induction xs arbitrary: p nx) (simp, force)

lemma sseg_cong: "\<forall>a \<in> set xs. h' a = h a \<Longrightarrow> sseg h' p nx xs q l = sseg h p nx xs q l"
  by (induction xs arbitrary: p nx) auto

lemma sseg_upd [simp]: "a \<notin> set xs \<Longrightarrow> sseg (h(a := v)) p nx xs q l = sseg h p nx xs q l"
  by (rule sseg_cong) auto

lemma sseg_live: "sseg h p nx xs q l \<Longrightarrow> x \<in> set xs \<Longrightarrow> x \<noteq> 0 \<and> h x \<noteq> None"
  by (induction xs arbitrary: p nx) auto

lemma sseg_snoc: "sseg h p nx (xs @ [a]) q l \<longleftrightarrow>
    l = a \<and> a \<noteq> 0 \<and> (\<exists>k b. sseg h p nx xs a k \<and> h a = Some b \<and> sb_next b = k \<and> sb_last b = q)"
  by (auto simp: sseg_append)

lemma sseg_end: "sseg h p nx xs q l \<Longrightarrow> l = (if xs = [] then nx else last xs)"
  by (induction xs arbitrary: p nx) auto

lemma sseg_start: "sseg h p nx xs 0 l \<Longrightarrow> p = 0 \<longleftrightarrow> xs = []"
  by (cases xs) auto

definition slist :: "'r slab_state \<Rightarrow> nat \<Rightarrow> slab_list \<Rightarrow> u32 list \<Rightarrow> bool" where
  "slist s c L xs \<longleftrightarrow> (\<exists>l. sseg (ss_slabs s) (head_get L (ss_cache s c)) 0 xs 0 l)"

lemma slist_head: "slist s c L xs \<Longrightarrow> head_get L (ss_cache s c) = (if xs = [] then 0 else hd xs)"
  by (cases xs) (auto simp: slist_def)

lemma head_get_set [simp]: "head_get L (head_set M a k) = (if L = M then a else head_get L k)"
  by (cases L; cases M) simp_all

text \<open>A slab without its links.\<close>

definition strip :: "slab \<Rightarrow> slab" where
  "strip b = b\<lparr>sb_last := 0, sb_next := 0\<rparr>"

lemma strip_simps [simp]:
  "strip (b\<lparr>sb_last := x\<rparr>) = strip b" "strip (b\<lparr>sb_next := x\<rparr>) = strip b"
  "strip (sb_last_update f b) = strip b" "strip (sb_next_update f b) = strip b"
  by (simp_all add: strip_def)

definition same_data :: "'r slab_state \<Rightarrow> 'r slab_state \<Rightarrow> bool" where
  "same_data s s' \<longleftrightarrow> (\<forall>x. map_option strip (ss_slabs s' x) = map_option strip (ss_slabs s x))
     \<and> ss_region s' = ss_region s \<and> ss_ctor_calls s' = ss_ctor_calls s \<and> ss_dtor_calls s' = ss_dtor_calls s"

lemma same_data_refl [simp]: "same_data s s"
  by (simp add: same_data_def)

lemma same_data_trans: "same_data s s1 \<Longrightarrow> same_data s1 s2 \<Longrightarrow> same_data s s2"
  by (simp add: same_data_def)

section \<open>Moving a slab\<close>

definition unlink :: "nat \<Rightarrow> slab_list \<Rightarrow> u32 \<Rightarrow> 'r slab_state \<Rightarrow> 'r slab_state option" where
  "unlink c from slab s =
     do { b \<leftarrow> ss_slabs s slab;
          s1 \<leftarrow> (if sb_last b \<noteq> 0 then slab_update (sb_next_update (\<lambda>_. sb_next b)) (sb_last b) s else Some s);
          b1 \<leftarrow> ss_slabs s1 slab;
          (if sb_next b1 \<noteq> 0
           then slab_update (sb_last_update (\<lambda>_. sb_last b1)) (sb_next b1) s1
           else Some (cache_update (head_set from (sb_last b1)) c s1)) }"

definition relink :: "nat \<Rightarrow> slab_list \<Rightarrow> u32 \<Rightarrow> 'r slab_state \<Rightarrow> 'r slab_state option" where
  "relink c to slab s2 =
     do { s3 \<leftarrow> slab_update (sb_next_update (\<lambda>_. 0)) slab s2;
          let head = head_get to (ss_cache s3 c);
          s4 \<leftarrow> slab_update (sb_last_update (\<lambda>_. head)) slab s3;
          s5 \<leftarrow> (if head \<noteq> 0 then slab_update (sb_next_update (\<lambda>_. slab)) head s4 else Some s4);
          Some (cache_update (head_set to slab) c s5) }"

lemma move_unlink_relink: "slab_cache_move_block c from to slab s = do { s2 \<leftarrow> unlink c from slab s; relink c to slab s2 }"
  by (simp add: slab_cache_move_block_def unlink_def relink_def)

lemma cache_update_simps [simp]:
  "ss_slabs (cache_update f c s) = ss_slabs s" "ss_region (cache_update f c s) = ss_region s"
  "ss_ctor_calls (cache_update f c s) = ss_ctor_calls s" "ss_dtor_calls (cache_update f c s) = ss_dtor_calls s"
  "ss_cache (cache_update f c s) = (ss_cache s)(c := f (ss_cache s c))"
  by (simp_all add: cache_update_def)

lemma unlink_ok:
  assumes "sseg (ss_slabs s) (head_get from (ss_cache s c)) 0 (xs @ a # ys) 0 l" "distinct (xs @ a # ys)"
  shows "\<exists>s'. unlink c from a s = Some s' \<and> slist s' c from (xs @ ys) \<and> same_data s s'
    \<and> (\<forall>x. x \<notin> set (xs @ ys) \<longrightarrow> ss_slabs s' x = ss_slabs s x)
    \<and> (\<exists>p. ss_cache s' = (ss_cache s)(c := head_set from p (ss_cache s c)))"
proof -
  let ?h = "ss_slabs s" and ?p = "head_get from (ss_cache s c)"
  obtain m k where x: "sseg ?h ?p 0 xs m k" "sseg ?h m k (a # ys) 0 l" using assms(1) by (auto simp: sseg_append)
  then obtain b where b: "m = a" "a \<noteq> 0" "?h a = Some b" "sb_next b = k" "sseg ?h (sb_last b) a ys 0 l" by auto
  have k: "k = (if xs = [] then 0 else last xs)" using sseg_end [OF x(1)] .
  text \<open>First the page behind, if there is one, is joined to what is before.\<close>
  obtain s1 where s1: "(if sb_last b \<noteq> 0 then slab_update (sb_next_update (\<lambda>_. k)) (sb_last b) s else Some s) = Some s1"
    "sseg (ss_slabs s1) (sb_last b) k ys 0 (if ys = [] then k else l)" "same_data s s1"
    "\<forall>x. x \<notin> set ys \<longrightarrow> ss_slabs s1 x = ?h x" "ss_cache s1 = ss_cache s"
  proof (cases ys)
    case Nil
    then show thesis using that [of s] b(5) by simp
  next
    case (Cons y vs)
    obtain d where d: "sb_last b = y" "y \<noteq> 0" "?h y = Some d" "sseg ?h (sb_last d) y vs 0 l" using b(5) Cons by auto
    let ?s1 = "s\<lparr>ss_slabs := ?h(y \<mapsto> d\<lparr>sb_next := k\<rparr>)\<rparr>"
    have "y \<notin> set vs" using assms(2) Cons by simp
    then show thesis using that [of ?s1] d Cons by (simp add: slab_update_def same_data_def)
  qed
  have a1: "ss_slabs s1 a = Some b" using s1(4) b(3) assms(2) by auto
  have x1: "sseg (ss_slabs s1) ?p 0 xs a k"
  proof -
    have "\<forall>x \<in> set xs. ss_slabs s1 x = ?h x" using s1(4) assms(2) by auto
    then show ?thesis using x(1) b(1) sseg_cong [of xs "ss_slabs s1" ?h] by simp
  qed
  show ?thesis
  proof (cases xs rule: rev_cases)
    case Nil
    then have k0: "k = 0" using k by simp
    let ?s2 = "cache_update (head_set from (sb_last b)) c s1"
    have "unlink c from a s = Some ?s2" using b(3,4) a1 s1(1) k0 by (cases "sb_last b = 0") (simp_all add: unlink_def)
    moreover have "slist ?s2 c from (xs @ ys)" using s1(2) Nil k0 by (auto simp: slist_def)
    moreover have "same_data s ?s2" using s1(3) by (simp add: same_data_def)
    ultimately show ?thesis using s1(4,5) by (intro exI [of _ ?s2]) auto
  next
    case (snoc us u)
    have ku: "k = u" using k snoc by simp
    obtain j e where e: "u \<noteq> 0" "sseg (ss_slabs s1) ?p 0 us u j" "ss_slabs s1 u = Some e" "sb_next e = j" "sb_last e = a"
      using x1 snoc by (auto simp: sseg_snoc)
    let ?s2 = "s1\<lparr>ss_slabs := (ss_slabs s1)(u \<mapsto> e\<lparr>sb_last := sb_last b\<rparr>)\<rparr>"
    have nu: "u \<notin> set us" "u \<notin> set ys" "u \<noteq> a" using assms(2) snoc by auto
    have "unlink c from a s = Some ?s2" using b(3,4) a1 s1(1) ku e
      by (cases "sb_last b = 0") (simp_all add: unlink_def slab_update_def [of _ u])
    moreover have "sseg (ss_slabs ?s2) ?p 0 ((us @ [u]) @ ys) 0 (if ys = [] then k else l)"
      unfolding sseg_append [of _ _ _ "us @ [u]"] sseg_snoc
      by (rule exI [of _ "sb_last b"], rule exI [of _ u]) (use s1(2) e nu ku in auto)
    then have "slist ?s2 c from (xs @ ys)" using snoc s1(5) unfolding slist_def by auto
    moreover have "same_data s ?s2" by (rule same_data_trans [OF s1(3)]) (use e(3) in \<open>auto simp: same_data_def\<close>)
    moreover have "\<forall>x. x \<notin> set (xs @ ys) \<longrightarrow> ss_slabs ?s2 x = ?h x" using s1(4) snoc by auto
    moreover have "ss_cache ?s2 = (ss_cache s)(c := head_set from ?p (ss_cache s c))"
      using s1(5) by (cases "from") simp_all
    ultimately show ?thesis by blast
  qed
qed

lemma relink_ok:
  assumes "slist s c to zs" "distinct (a # zs)" "ss_slabs s a = Some b" "a \<noteq> 0"
  shows "\<exists>s'. relink c to a s = Some s' \<and> slist s' c to (a # zs) \<and> same_data s s'
    \<and> (\<forall>x. x \<notin> set (a # zs) \<longrightarrow> ss_slabs s' x = ss_slabs s x)
    \<and> ss_cache s' = (ss_cache s)(c := head_set to a (ss_cache s c))"
proof (cases zs)
  case Nil
  let ?s = "cache_update (head_set to a) c (s\<lparr>ss_slabs := (ss_slabs s)(a \<mapsto> b\<lparr>sb_next := 0, sb_last := 0\<rparr>)\<rparr>)"
  have h: "head_get to (ss_cache s c) = 0" using slist_head [OF assms(1)] Nil by simp
  have "relink c to a s = Some ?s" using h assms(3) by (simp add: relink_def slab_update_def Let_def)
  moreover have "slist ?s c to (a # zs)" using Nil assms(4) by (simp add: slist_def)
  ultimately show ?thesis using assms(3) Nil by (intro exI [of _ ?s]) (simp add: same_data_def)
next
  case (Cons z ws)
  obtain l where l: "sseg (ss_slabs s) (head_get to (ss_cache s c)) 0 zs 0 l" using assms(1) by (auto simp: slist_def)
  then obtain d where d: "head_get to (ss_cache s c) = z" "z \<noteq> 0" "ss_slabs s z = Some d" "sseg (ss_slabs s) (sb_last d) z ws 0 l"
    using Cons by auto
  let ?b = "b\<lparr>sb_next := 0, sb_last := z\<rparr>"
  let ?s = "cache_update (head_set to a) c (s\<lparr>ss_slabs := (ss_slabs s)(a \<mapsto> ?b, z \<mapsto> d\<lparr>sb_next := a\<rparr>)\<rparr>)"
  have ne: "a \<noteq> z" "a \<notin> set ws" "z \<notin> set ws" using assms(2) Cons by auto
  have "relink c to a s = Some ?s" using d assms(3) ne by (simp add: relink_def slab_update_def Let_def)
  moreover have "slist ?s c to (a # zs)" using Cons assms(4) d ne by (auto simp: slist_def)
  moreover have "same_data s ?s" using assms(3) d(3) by (auto simp: same_data_def)
  ultimately show ?thesis using Cons by (intro exI [of _ ?s]) auto
qed

lemma move_block_ok:
  assumes "slist s c from (xs @ a # ys)" "slist s c to zs" "distinct (xs @ a # ys @ zs)" "from \<noteq> to"
  shows "\<exists>s'. slab_cache_move_block c from to a s = Some s' \<and> slist s' c from (xs @ ys) \<and> slist s' c to (a # zs)
    \<and> same_data s s' \<and> (\<forall>x. x \<notin> set (xs @ a # ys @ zs) \<longrightarrow> ss_slabs s' x = ss_slabs s x)
    \<and> (\<exists>p. ss_cache s' = (ss_cache s)(c := head_set to a (head_set from p (ss_cache s c))))"
proof -
  obtain l where l: "sseg (ss_slabs s) (head_get from (ss_cache s c)) 0 (xs @ a # ys) 0 l"
    using assms(1) by (auto simp: slist_def)
  then obtain b where b: "ss_slabs s a = Some b" "a \<noteq> 0" using sseg_live [of _ _ _ _ _ _ a] by fastforce
  have "distinct (xs @ a # ys)" using assms(3) by (simp, blast)
  from unlink_ok [OF l this] obtain s1 p where s1: "unlink c from a s = Some s1" "slist s1 c from (xs @ ys)" "same_data s s1"
    "\<forall>x. x \<notin> set (xs @ ys) \<longrightarrow> ss_slabs s1 x = ss_slabs s x"
    "ss_cache s1 = (ss_cache s)(c := head_set from p (ss_cache s c))" by blast
  have "\<forall>x \<in> set zs. ss_slabs s1 x = ss_slabs s x" using s1(4) assms(3) by auto
  then have z1: "slist s1 c to zs" using assms(2,4) s1(5) sseg_cong [of zs "ss_slabs s1" "ss_slabs s"] by (simp add: slist_def)
  have a1: "ss_slabs s1 a = Some b" using s1(4) b(1) assms(3) by auto
  have "distinct (a # zs)" using assms(3) by auto
  from relink_ok [OF z1 this a1 b(2)] obtain s2 where s2: "relink c to a s1 = Some s2" "slist s2 c to (a # zs)"
    "same_data s1 s2" "\<forall>x. x \<notin> set (a # zs) \<longrightarrow> ss_slabs s2 x = ss_slabs s1 x"
    "ss_cache s2 = (ss_cache s1)(c := head_set to a (ss_cache s1 c))" by blast
  have "\<forall>x \<in> set (xs @ ys). ss_slabs s2 x = ss_slabs s1 x" using s2(4) assms(3) by auto
  then have "slist s2 c from (xs @ ys)"
    using s1(2) s2(5) assms(4) sseg_cong [of "xs @ ys" "ss_slabs s2" "ss_slabs s1"] by (simp add: slist_def)
  moreover have "same_data s s2" using same_data_trans s1(3) s2(3) by blast
  moreover have "\<forall>x. x \<notin> set (xs @ a # ys @ zs) \<longrightarrow> ss_slabs s2 x = ss_slabs s x" using s1(4) s2(4) by auto
  moreover have "ss_cache s2 = (ss_cache s)(c := head_set to a (head_set from p (ss_cache s c)))"
    using s1(5) s2(5) by simp
  ultimately show ?thesis using s1(1) s2(1,2) by (auto simp: move_unlink_relink)
qed

section \<open>Blocks of a page\<close>

definition page_aligned :: "u32 \<Rightarrow> bool" where
  "page_aligned a \<longleftrightarrow> a AND 0xfff = 0"

definition block_addr :: "slab_cache \<Rightarrow> u32 \<Rightarrow> nat \<Rightarrow> u32" where
  "block_addr k a i = a + of_nat i * sc_block_size k"

text \<open>The sizes of a cache fit: at least two blocks behind the header block, all within the page.\<close>

definition cache_shape :: "slab_cache \<Rightarrow> bool" where
  "cache_shape k \<longleftrightarrow> 3 \<le> unat (sc_map_bits k) \<and> unat (sc_map_bits k) \<le> 64 \<and> sc_block_size k \<noteq> 0
     \<and> unat (sc_map_bits k) * unat (sc_block_size k) \<le> 4096"

lemma block_offset:
  assumes "cache_shape k" "i < unat (sc_map_bits k)"
  shows "unat (of_nat i * sc_block_size k :: u32) = i * unat (sc_block_size k)" "i * unat (sc_block_size k) < 4096"
proof -
  have pos: "0 < unat (sc_block_size k)" using assms(1) by (simp add: cache_shape_def unat_gt_0)
  have "i * unat (sc_block_size k) < unat (sc_map_bits k) * unat (sc_block_size k)" using assms(2) pos by (rule mult_strict_right_mono)
  moreover have "unat (sc_map_bits k) * unat (sc_block_size k) \<le> 4096" using assms(1) unfolding cache_shape_def by blast
  ultimately show lt: "i * unat (sc_block_size k) < 4096" by (rule less_le_trans)
  have i: "unat (of_nat i :: u32) = i" using assms by (intro unat_of_nat_small) (auto simp: cache_shape_def)
  have "unat (of_nat i :: u32) * unat (sc_block_size k) < 2 ^ LENGTH(32)" using i lt by simp
  then show "unat (of_nat i * sc_block_size k :: u32) = i * unat (sc_block_size k)"
    using unat_mult_lem [of "of_nat i :: u32" "sc_block_size k"] i by simp
qed

lemma aligned_page_of:
  fixes a x :: u32
  assumes "page_aligned a" "unat x < 4096"
  shows "slab_page_of (a + x) = a"
proof -
  have m: "(0xfff :: u32) = mask 12" by (simp add: mask_eq_exp_minus_1)
  have abit: "\<not> bit a n" if "n < 12" for n
  proof
    assume "bit a n"
    then have "bit (a AND 0xfff) n" using that by (simp add: bit_and_iff m bit_mask_iff bit_imp_le_length)
    then show False using assms(1) by (simp add: page_aligned_def)
  qed
  have "take_bit 12 x = x" using assms(2) by (simp add: take_bit_eq_mod word_unat_eq_iff unat_mod_distrib)
  then have xbit: "\<not> bit x n" if "12 \<le> n" for n using that by (metis bit_take_bit_iff not_less)
  have "\<not> (bit a n \<and> bit x n)" for n using abit [of n] xbit [of n] by (cases "n < 12") auto
  then have "a AND x = 0" by (intro bit_word_eqI) (simp add: bit_and_iff)
  then have s: "a + x = a OR x" by (rule disjunctive_add_eq_or)
  have "(a OR x) AND NOT 0xfff = a"
  proof (rule bit_word_eqI)
    fix n
    assume "n < LENGTH(32)"
    then show "bit ((a OR x) AND NOT 0xfff) n = bit a n"
      using abit [of n] xbit [of n] by (cases "n < 12") (simp_all add: bit_and_iff bit_or_iff bit_not_iff m bit_mask_iff)
  qed
  then show ?thesis by (simp add: slab_page_of_def SLAB_PAGE_def s)
qed

lemma block_decode:
  assumes "page_aligned a" "cache_shape k" "i < unat (sc_map_bits k)"
  shows "slab_page_of (block_addr k a i) = a" "unat ((block_addr k a i - a) div sc_block_size k) = i"
proof -
  note o = block_offset [OF assms(2,3)]
  show "slab_page_of (block_addr k a i) = a"
    using aligned_page_of [OF assms(1)] o by (simp add: block_addr_def)
  have "unat (sc_block_size k) \<noteq> 0" using assms(2) by (simp add: cache_shape_def unat_eq_0)
  then show "unat ((block_addr k a i - a) div sc_block_size k) = i"
    using o by (simp add: block_addr_def unat_div_distrib)
qed

section \<open>Bit maps\<close>

definition free_bits :: "nat \<Rightarrow> u64 \<Rightarrow> nat" where
  "free_bits mb m = card {i. i < mb \<and> \<not> bit m i}"

lemma bit_single: "bit (2 ^ i :: u64) j \<longleftrightarrow> j = i \<and> i < 64"
  by (auto simp: bit_exp_iff)

lemma bit_set: "bit (m OR 2 ^ i :: u64) j \<longleftrightarrow> bit m j \<or> j = i \<and> i < 64"
  by (simp add: bit_or_iff bit_single)

lemma bit_clear: "bit (m AND NOT (2 ^ i) :: u64) j \<longleftrightarrow> bit m j \<and> j \<noteq> i"
  using bit_imp_le_length [of m j] by (auto simp: bit_and_iff bit_not_iff bit_single)

lemma free_bits_set:
  assumes "i < mb" "\<not> bit m i" "mb \<le> 64"
  shows "free_bits mb m = Suc (free_bits mb (m OR 2 ^ i))"
proof -
  have "{j. j < mb \<and> \<not> bit m j} = insert i {j. j < mb \<and> \<not> bit (m OR 2 ^ i) j}"
    using assms by (auto simp: bit_set)
  moreover have "i \<notin> {j. j < mb \<and> \<not> bit (m OR 2 ^ i) j}" using assms by (simp add: bit_set)
  moreover have "finite {j. j < mb \<and> \<not> bit (m OR 2 ^ i) j}" by simp
  ultimately show ?thesis unfolding free_bits_def by simp
qed

lemma free_bits_clear:
  assumes "i < mb" "bit m i"
  shows "free_bits mb (m AND NOT (2 ^ i)) = Suc (free_bits mb m)"
proof -
  have "{j. j < mb \<and> \<not> bit (m AND NOT (2 ^ i)) j} = insert i {j. j < mb \<and> \<not> bit m j}"
    using assms by (auto simp: bit_clear)
  moreover have "i \<notin> {j. j < mb \<and> \<not> bit m j}" using assms by simp
  ultimately show ?thesis unfolding free_bits_def by simp
qed

lemma free_bits_0: "free_bits mb m = 0 \<longleftrightarrow> (\<forall>i < mb. bit m i)"
  by (auto simp: free_bits_def)

lemma free_bits_all:
  assumes "bit m 0" "0 < mb"
  shows "free_bits mb m \<le> mb - 1" "free_bits mb m = mb - 1 \<Longrightarrow> 0 < i \<Longrightarrow> i < mb \<Longrightarrow> \<not> bit m i"
proof -
  have sub: "{j. j < mb \<and> \<not> bit m j} \<subseteq> {1..<mb}" 
  proof
    fix j
    assume "j \<in> {j. j < mb \<and> \<not> bit m j}"
    then show "j \<in> {1..<mb}" using assms(1) by (cases "j = 0") auto
  qed
  then show "free_bits mb m \<le> mb - 1" unfolding free_bits_def using card_mono [OF _ sub] by simp
  assume "free_bits mb m = mb - 1" "0 < i" "i < mb"
  then have "card {j. j < mb \<and> \<not> bit m j} = card {1..<mb}" by (simp add: free_bits_def)
  then have e: "{j. j < mb \<and> \<not> bit m j} = {1..<mb}" by (rule card_subset_eq [OF finite_atLeastLessThan sub])
  have "i \<in> {j. j < mb \<and> \<not> bit m j}" unfolding e using \<open>0 < i\<close> \<open>i < mb\<close> by simp
  then show "\<not> bit m i" by simp
qed

lemma slab_find_bit_ok:
  assumes "j < 64" "\<not> bit m j" "i \<le> j"
  shows "\<exists>e. slab_find_bit m bs i mv = (e, mv + of_nat (e - i) * bs) \<and> i \<le> e \<and> e \<le> j \<and> \<not> bit m e
    \<and> (\<forall>k. i \<le> k \<and> k < e \<longrightarrow> bit m k)"
  using assms
proof (induction m bs i mv rule: slab_find_bit.induct)
  case (1 m bs i mv)
  have b: "m AND push_bit i 1 \<noteq> 0 \<longleftrightarrow> bit m i"
    by (simp add: and_exp_eq_0_iff_not_bit)
  show ?case
  proof (cases "bit m i")
    case True
    then have ij: "i < j" using "1.prems" by (metis le_neq_implies_less)
    from "1.IH" [OF b [THEN iffD2, OF True] "1.prems"(1,2) Suc_leI [OF ij]] obtain e where e: "slab_find_bit m bs (Suc i) (mv + bs) = (e, mv + bs + of_nat (e - Suc i) * bs)"
      "Suc i \<le> e" "e \<le> j" "\<not> bit m e" "\<forall>k. Suc i \<le> k \<and> k < e \<longrightarrow> bit m k" by blast
    have "mv + bs + of_nat (e - Suc i) * bs = mv + of_nat (e - i) * bs"
    proof -
      have "e - i = Suc (e - Suc i)" using e(2) by simp
      then show ?thesis by (simp add: algebra_simps)
    qed
    moreover have "\<forall>k. i \<le> k \<and> k < e \<longrightarrow> bit m k" using e(5) True by (metis Suc_leI le_neq_implies_less)
    ultimately show ?thesis using e True b by (subst slab_find_bit.simps) auto
  next
    case False
    then show ?thesis using b "1.prems" by (subst slab_find_bit.simps) auto
  qed
qed

end
