(* ===== verification/SlabRefine.thy ===== *)
theory SlabRefine
  imports SlabInv
begin

text \<open>
  The slab allocator as an operation on the set of blocks in use: the invariant of a cache, its
  preservation by every step of \<open>slab_alloc\<close> and \<open>slab_free\<close> over any provider of pages.
\<close>

section \<open>The invariant of a cache\<close>

primrec status_of :: "slab_list \<Rightarrow> slab_stat" where
  "status_of LFree = SLAB_STATUS_FREE"
| "status_of LPartial = SLAB_STATUS_PARTIAL"
| "status_of LFull = SLAB_STATUS_FULL"

primrec list_range :: "slab_list \<Rightarrow> nat \<Rightarrow> nat \<Rightarrow> bool" where
  "list_range LFree mb n \<longleftrightarrow> n = mb - 1"
| "list_range LPartial mb n \<longleftrightarrow> 0 < n \<and> n < mb - 1"
| "list_range LFull mb n \<longleftrightarrow> n = 0"

definition map_ok :: "nat \<Rightarrow> slab \<Rightarrow> bool" where
  "map_ok mb b \<longleftrightarrow> bit (sb_map b) 0 \<and> (\<forall>i. bit (sb_map b) i \<longrightarrow> i < mb) \<and> unat (sb_bits_free b) = free_bits mb (sb_map b)"

definition slab_ok :: "nat \<Rightarrow> nat \<Rightarrow> slab_list \<Rightarrow> slab \<Rightarrow> bool" where
  "slab_ok c mb L b \<longleftrightarrow> sb_cache b = c \<and> sb_magic b = DARK_MAGIC \<and> sb_status b = status_of L
     \<and> map_ok mb b \<and> list_range L mb (unat (sb_bits_free b))"

lemma strip_fields:
  "sb_cache (strip b) = sb_cache b" "sb_magic (strip b) = sb_magic b" "sb_status (strip b) = sb_status b"
  "sb_map (strip b) = sb_map b" "sb_bits_free (strip b) = sb_bits_free b"
  by (simp_all add: strip_def)

lemma slab_ok_strip: "strip b = strip b' \<Longrightarrow> slab_ok c mb L b = slab_ok c mb L b'"
  unfolding slab_ok_def map_ok_def by (metis strip_fields)

definition lists_ok :: "'r slab_state \<Rightarrow> nat \<Rightarrow> (slab_list \<Rightarrow> u32 list) \<Rightarrow> bool" where
  "lists_ok s c f \<longleftrightarrow> (\<forall>L. slist s c L (f L) \<and> distinct (f L)) \<and> (\<forall>L M. L \<noteq> M \<longrightarrow> set (f L) \<inter> set (f M) = {})"

definition members_ok :: "'r slab_state \<Rightarrow> nat \<Rightarrow> (slab_list \<Rightarrow> u32 list) \<Rightarrow> bool" where
  "members_ok s c f \<longleftrightarrow>
     (\<forall>L. \<forall>a \<in> set (f L). page_aligned a \<and> (\<exists>b. ss_slabs s a = Some b \<and> slab_ok c (unat (sc_map_bits (ss_cache s c))) L b))
     \<and> (\<forall>a b. ss_slabs s a = Some b \<longrightarrow> sb_cache b = c \<longrightarrow> (\<exists>L. a \<in> set (f L)))"

definition cache_ok :: "'r slab_state \<Rightarrow> nat \<Rightarrow> bool" where
  "cache_ok s c \<longleftrightarrow> cache_shape (ss_cache s c) \<and> (\<exists>f. lists_ok s c f \<and> members_ok s c f)"

text \<open>What an operation on cache \<open>c\<close> leaves alone: the slabs of the other caches and their state.\<close>

definition frame :: "nat \<Rightarrow> 'r slab_state \<Rightarrow> 'r slab_state \<Rightarrow> bool" where
  "frame c s s' \<longleftrightarrow> (\<forall>x (b :: slab). sb_cache b \<noteq> c \<longrightarrow> (ss_slabs s' x = Some b \<longleftrightarrow> ss_slabs s x = Some b))
     \<and> (\<forall>d. d \<noteq> c \<longrightarrow> ss_cache s' d = ss_cache s d)
     \<and> sc_map_bits (ss_cache s' c) = sc_map_bits (ss_cache s c)
     \<and> sc_block_size (ss_cache s' c) = sc_block_size (ss_cache s c)"

lemma frame_refl [simp]: "frame c s s"
  by (simp add: frame_def)

lemma frame_trans: "frame c s s1 \<Longrightarrow> frame c s1 s2 \<Longrightarrow> frame c s s2"
  by (simp add: frame_def)

lemma sseg_data:
  fixes b b' :: slab
  assumes "h a = Some b" "sb_last b' = sb_last b" "sb_next b' = sb_next b"
  shows "sseg (h(a \<mapsto> b')) p nx xs q l = sseg h p nx xs q l"
  using assms by (induction xs arbitrary: p nx) auto

lemma frame_cache_ok:
  assumes "frame c s s'" "d \<noteq> c" "cache_ok s d"
  shows "cache_ok s' d"
proof -
  obtain f where f: "lists_ok s d f" "members_ok s d f" using assms(3) by (auto simp: cache_ok_def)
  have k: "ss_cache s' d = ss_cache s d" using assms(1,2) by (simp add: frame_def)
  have fr: "sb_cache b = d \<Longrightarrow> ss_slabs s' x = Some b \<longleftrightarrow> ss_slabs s x = Some b" for x b
    using assms(1,2) by (auto simp: frame_def)
  have e: "ss_slabs s' x = ss_slabs s x" if x: "x \<in> set (f L)" for L x
  proof -
    obtain b where b: "ss_slabs s x = Some b" "slab_ok d (unat (sc_map_bits (ss_cache s d))) L b"
      using f(2) x unfolding members_ok_def by blast
    then show ?thesis using fr [of b x] by (simp add: slab_ok_def)
  qed
  have "slist s' d L (f L)" for L
    using f(1) sseg_cong [of "f L" "ss_slabs s'" "ss_slabs s"] e k by (simp add: lists_ok_def slist_def)
  then have "lists_ok s' d f" using f(1) by (simp add: lists_ok_def)
  moreover have "members_ok s' d f" using f(2) unfolding members_ok_def k by (metis e fr)
  ultimately show ?thesis using assms(3) k by (auto simp: cache_ok_def)
qed

section \<open>Moving a slab whose data has changed\<close>

definition shape :: "slab_cache \<Rightarrow> u32 \<times> u32" where
  "shape k = (sc_map_bits k, sc_block_size k)"

lemma shape_head_set [simp]: "shape (head_set L p k) = shape k"
  by (cases L) (simp_all add: shape_def)

lemma shape_heads: "cache_shape k \<longleftrightarrow> (case shape k of (mb, bs) \<Rightarrow>
    3 \<le> unat mb \<and> unat mb \<le> 64 \<and> bs \<noteq> 0 \<and> unat mb * unat bs \<le> 4096)"
  by (simp add: shape_def cache_shape_def)

lemma move_lists:
  assumes "lists_ok s c f" "a \<in> set (f from)" "from \<noteq> to"
  shows "\<exists>s' f'. slab_cache_move_block c from to a s = Some s' \<and> lists_ok s' c f'
    \<and> set (f' from) = set (f from) - {a} \<and> set (f' to) = insert a (set (f to))
    \<and> (\<forall>M. M \<noteq> from \<longrightarrow> M \<noteq> to \<longrightarrow> f' M = f M) \<and> same_data s s'
    \<and> (\<forall>x. (\<forall>L. x \<notin> set (f L)) \<longrightarrow> ss_slabs s' x = ss_slabs s x)
    \<and> shape (ss_cache s' c) = shape (ss_cache s c) \<and> (\<forall>d. d \<noteq> c \<longrightarrow> ss_cache s' d = ss_cache s d)"
proof -
  obtain xs ys where xy: "f from = xs @ a # ys" using assms(2) by (auto dest: split_list)
  let ?f = "f(from := xs @ ys, to := a # f to)"
  have sl: "slist s c L (f L)" "distinct (f L)" for L using assms(1) by (simp_all add: lists_ok_def)
  have dj: "L \<noteq> M \<Longrightarrow> set (f L) \<inter> set (f M) = {}" for L M using assms(1) unfolding lists_ok_def by blast
  have "distinct (xs @ a # ys @ f to)" using sl(2) [of "from"] sl(2) [of to] dj [OF assms(3)] xy by auto
  from move_block_ok [OF sl(1) [of "from", unfolded xy] sl(1) this assms(3)] obtain s' p where s':
    "slab_cache_move_block c from to a s = Some s'" "slist s' c from (xs @ ys)" "slist s' c to (a # f to)" "same_data s s'"
    "\<forall>x. x \<notin> set (xs @ a # ys @ f to) \<longrightarrow> ss_slabs s' x = ss_slabs s x"
    "ss_cache s' = (ss_cache s)(c := head_set to a (head_set from p (ss_cache s c)))" by blast
  have o: "slist s' c M (f M)" if "M \<noteq> from" "M \<noteq> to" for M
  proof -
    have "\<forall>x \<in> set (f M). ss_slabs s' x = ss_slabs s x" using s'(5) dj [OF that(1)] dj [OF that(2)] xy by auto
    then show ?thesis using sl(1) [of M] that s'(6) sseg_cong [of "f M" "ss_slabs s'" "ss_slabs s"] by (simp add: slist_def)
  qed
  have "lists_ok s' c ?f" unfolding lists_ok_def
  proof (intro conjI allI impI)
    fix L
    show "slist s' c L (?f L)" using s'(2,3) o assms(3) by simp
    show "distinct (?f L)" using sl(2) [of L] sl(2) [of "from"] sl(2) [of to] dj [OF assms(3)] xy by auto
    fix M
    assume "L \<noteq> M"
    then show "set (?f L) \<inter> set (?f M) = {}"
      using dj [of L M] dj [of "from" M] dj [of to M] dj [of L "from"] dj [of L to] sl(2) [of "from"] xy assms(3) by auto
  qed
  moreover have "set (?f from) = set (f from) - {a}" "set (?f to) = insert a (set (f to))"
    using xy sl(2) [of "from"] assms(3) by auto
  moreover have "\<forall>x. (\<forall>L. x \<notin> set (f L)) \<longrightarrow> ss_slabs s' x = ss_slabs s x"
  proof (intro allI impI)
    fix x
    assume "\<forall>L. x \<notin> set (f L)"
    then have "x \<notin> set (f from)" "x \<notin> set (f to)" by simp_all
    then show "ss_slabs s' x = ss_slabs s x" using s'(5) xy by simp
  qed
  ultimately show ?thesis using s'(1,4,6) by (intro exI [of _ s'] exI [of _ ?f]) simp
qed

text \<open>What a step does to the header of one page, and to nothing else but links and heads.\<close>

definition sets_slab :: "nat \<Rightarrow> u32 \<Rightarrow> slab \<Rightarrow> 'r slab_state \<Rightarrow> 'r slab_state \<Rightarrow> bool" where
  "sets_slab c a b' s s' \<longleftrightarrow> cache_ok s' c \<and> frame c s s' \<and> ss_region s' = ss_region s
     \<and> (\<forall>x. map_option strip (ss_slabs s' x) = (if x = a then Some (strip b') else map_option strip (ss_slabs s x)))"

lemma members_update:
  assumes "members_ok s c f" "a \<in> set (f L)" "slab_ok c (unat (sc_map_bits (ss_cache s c))) M b'"
    and "\<forall>x. map_option strip (ss_slabs s' x) = (if x = a then Some (strip b') else map_option strip (ss_slabs s x))"
    and "shape (ss_cache s' c) = shape (ss_cache s c)"
    and "set (f' L) = (if L = M then set (f L) else set (f L) - {a})" "set (f' M) = insert a (set (f M))"
    and "\<forall>N. N \<noteq> L \<longrightarrow> N \<noteq> M \<longrightarrow> f' N = f N" "\<forall>N. N \<noteq> L \<longrightarrow> a \<notin> set (f N)"
  shows "members_ok s' c f'"
proof -
  let ?mb = "unat (sc_map_bits (ss_cache s c))"
  have mb: "sc_map_bits (ss_cache s' c) = sc_map_bits (ss_cache s c)" using assms(5) by (simp add: shape_def)
  have m1: "x \<in> set (f N) \<Longrightarrow> page_aligned x \<and> (\<exists>b. ss_slabs s x = Some b \<and> slab_ok c ?mb N b)" for x N
    using assms(1) unfolding members_ok_def by blast
  have m2: "ss_slabs s x = Some b \<Longrightarrow> sb_cache b = c \<Longrightarrow> \<exists>N. x \<in> set (f N)" for x b
    using assms(1) unfolding members_ok_def by blast
  have self: "\<exists>b. ss_slabs s' a = Some b \<and> slab_ok c ?mb M b"
  proof -
    obtain b where b: "ss_slabs s' a = Some b" "strip b = strip b'" using assms(4) [rule_format, of a] by auto
    then show ?thesis using assms(3) slab_ok_strip by blast
  qed
  have oth: "\<exists>b. ss_slabs s' x = Some b \<and> slab_ok c ?mb N b" if xa: "x \<noteq> a" and xN: "x \<in> set (f N)" for x N
  proof -
    obtain b where b: "ss_slabs s x = Some b" "slab_ok c ?mb N b" using m1 [OF xN] by blast
    then obtain d where "ss_slabs s' x = Some d" "strip d = strip b" using assms(4) [rule_format, of x] xa by auto
    then show ?thesis using b(2) slab_ok_strip by blast
  qed
  have sub: "x \<in> set (f' N) \<Longrightarrow> x = a \<and> N = M \<or> x \<noteq> a \<and> x \<in> set (f N)" for x N
    using assms(2,6-9) by (cases "N = L"; cases "N = M") (auto split: if_splits)
  have sup: "x \<in> set (f N) \<Longrightarrow> \<exists>N. x \<in> set (f' N)" for x N
    using assms(6-8) by (cases "x = a"; cases "N = L"; cases "N = M") (auto split: if_splits intro: exI [of _ M] exI [of _ N])
  show ?thesis unfolding members_ok_def mb
  proof (intro conjI allI ballI impI)
    fix N x
    assume "x \<in> set (f' N)"
    then consider "x = a" "N = M" | "x \<noteq> a" "x \<in> set (f N)" using sub by blast
    then show "page_aligned x" "\<exists>b. ss_slabs s' x = Some b \<and> slab_ok c ?mb N b"
      using m1 [OF assms(2)] self m1 [of x N] oth [of x N] by (cases, auto)
  next
    fix x b
    assume b: "ss_slabs s' x = Some b" "sb_cache b = c"
    show "\<exists>N. x \<in> set (f' N)"
    proof (cases "x = a")
      case True
      then show ?thesis using assms(7) by auto
    next
      case False
      then obtain d where d: "ss_slabs s x = Some d" "strip d = strip b"
        using assms(4) [rule_format, of x] b(1) by (cases "ss_slabs s x") auto
      then have "sb_cache d = c" using b(2) strip_fields(1) by metis
      then show ?thesis using m2 [OF d(1)] sup by blast
    qed
  qed
qed

lemma frame_update:
  assumes "lists_ok s c f" "members_ok s c f" "sb_cache (b' :: slab) = c" "a \<in> set (f L)"
    and "\<forall>x. map_option strip (ss_slabs s' x) = (if x = a then Some (strip b') else map_option strip (ss_slabs s x))"
    and "\<forall>x. (\<forall>L. x \<notin> set (f L)) \<longrightarrow> ss_slabs s' x = ss_slabs s x"
    and "shape (ss_cache s' c) = shape (ss_cache s c)" "\<forall>d. d \<noteq> c \<longrightarrow> ss_cache s' d = ss_cache s d"
  shows "frame c s s'"
  unfolding frame_def
proof (intro conjI allI impI)
  fix x and b :: slab
  assume nc: "sb_cache b \<noteq> c"
  show "ss_slabs s' x = Some b \<longleftrightarrow> ss_slabs s x = Some b"
  proof (cases "\<exists>N. x \<in> set (f N)")
    case True
    then obtain N where N: "x \<in> set (f N)" by blast
    then obtain d where d: "ss_slabs s x = Some d" "sb_cache d = c"
      using assms(2) unfolding members_ok_def slab_ok_def by blast
    then obtain e where e: "ss_slabs s' x = Some e" "strip e = strip (if x = a then b' else d)"
      using assms(5) [rule_format, of x] by (auto split: if_splits)
    then have "sb_cache e = c" using d(2) assms(3) strip_fields(1) by metis
    then show ?thesis using nc d e by auto
  next
    case False
    then show ?thesis using assms(6) by simp
  qed
qed (use assms(7,8) in \<open>simp_all add: shape_def\<close>)

text \<open>The data of a page changes and the page stays where it is.\<close>

lemma stay_ok:
  assumes "cache_shape (ss_cache s c)" "lists_ok s c f" "members_ok s c f" "a \<in> set (f L)" "ss_slabs s a = Some b"
    and "slab_ok c (unat (sc_map_bits (ss_cache s c))) L b'" "sb_last b' = sb_last b" "sb_next b' = sb_next b"
  shows "sets_slab c a b' s (s\<lparr>ss_slabs := (ss_slabs s)(a \<mapsto> b')\<rparr>)"
proof -
  let ?s = "s\<lparr>ss_slabs := (ss_slabs s)(a \<mapsto> b')\<rparr>"
  have l: "lists_ok ?s c f" using assms(2) sseg_data [of "ss_slabs s" a b b', OF assms(5,7,8)] by (simp add: lists_ok_def slist_def)
  have st: "\<forall>x. map_option strip (ss_slabs ?s x) = (if x = a then Some (strip b') else map_option strip (ss_slabs s x))" by simp
  have dj: "\<forall>N. N \<noteq> L \<longrightarrow> a \<notin> set (f N)" using assms(2,4) unfolding lists_ok_def by blast
  have "members_ok ?s c f" by (rule members_update [OF assms(3,4,6) st _ _ _ _ dj]) (use assms(4) in auto)
  moreover have "frame c s ?s"
    by (rule frame_update [OF assms(2,3) _ assms(4) st]) (use assms(4,6) in \<open>auto simp: slab_ok_def\<close>)
  ultimately show ?thesis using st l assms(1) unfolding sets_slab_def cache_ok_def by auto
qed

text \<open>The data of a page changes and the page moves to another list; a counter of the cache may change, too.\<close>

lemma move_ok:
  assumes "cache_shape (ss_cache s c)" "lists_ok s c f" "members_ok s c f" "a \<in> set (f L)" "ss_slabs s a = Some b"
    and "slab_ok c (unat (sc_map_bits (ss_cache s c))) M b'" "sb_last b' = sb_last b" "sb_next b' = sb_next b" "L \<noteq> M"
    and "\<forall>k. shape (g k) = shape k" "\<forall>N k. head_get N (g k) = head_get N k"
  shows "\<exists>s'. slab_cache_move_block c L M a (cache_update g c (s\<lparr>ss_slabs := (ss_slabs s)(a \<mapsto> b')\<rparr>)) = Some s'
    \<and> sets_slab c a b' s s'"
proof -
  let ?s = "cache_update g c (s\<lparr>ss_slabs := (ss_slabs s)(a \<mapsto> b')\<rparr>)"
  have "lists_ok ?s c f" using assms(2,11) sseg_data [of "ss_slabs s" a b b', OF assms(5,7,8)] by (simp add: lists_ok_def slist_def)
  from move_lists [OF this assms(4,9)] obtain s' f' where s': "slab_cache_move_block c L M a ?s = Some s'" "lists_ok s' c f'"
    "set (f' L) = set (f L) - {a}" "set (f' M) = insert a (set (f M))" "\<forall>N. N \<noteq> L \<longrightarrow> N \<noteq> M \<longrightarrow> f' N = f N"
    "same_data ?s s'" "\<forall>x. (\<forall>L. x \<notin> set (f L)) \<longrightarrow> ss_slabs s' x = ss_slabs ?s x"
    "shape (ss_cache s' c) = shape (ss_cache ?s c)" "\<forall>d. d \<noteq> c \<longrightarrow> ss_cache s' d = ss_cache ?s d" by blast
  have st: "\<forall>x. map_option strip (ss_slabs s' x) = (if x = a then Some (strip b') else map_option strip (ss_slabs s x))"
    and reg: "ss_region s' = ss_region s"
    using s'(6) by (simp_all add: same_data_def)
  have sh: "shape (ss_cache s' c) = shape (ss_cache s c)" using s'(8) assms(10) by simp
  have dj: "\<forall>N. N \<noteq> L \<longrightarrow> a \<notin> set (f N)" using assms(2,4) unfolding lists_ok_def by blast
  have "members_ok s' c f'"
    by (rule members_update [OF assms(3,4,6) st sh _ s'(4,5) dj]) (use s'(3) assms(9) in simp)
  moreover have "frame c s s'"
    by (rule frame_update [OF assms(2,3) _ assms(4) st _ sh]) (use assms(4,6) s'(7,9) in \<open>auto simp: slab_ok_def\<close>)
  moreover have "cache_shape (ss_cache s' c)" using assms(1) sh unfolding shape_heads by simp
  ultimately show ?thesis using s'(1,2) st reg unfolding sets_slab_def cache_ok_def by blast
qed

section \<open>The blocks in use\<close>

definition slab_live :: "'r slab_state \<Rightarrow> nat \<Rightarrow> u32 set" where
  "slab_live s c = {block_addr (ss_cache s c) a i | a i. \<exists>b. ss_slabs s a = Some b \<and> sb_cache b = c \<and> 0 < i \<and> bit (sb_map b) i}"

lemma slab_liveI:
  "ss_slabs s a = Some b \<Longrightarrow> sb_cache b = c \<Longrightarrow> 0 < i \<Longrightarrow> bit (sb_map b) i \<Longrightarrow> block_addr (ss_cache s c) a i \<in> slab_live s c"
  by (auto simp: slab_live_def)

lemma block_addr_shape: "shape k' = shape k \<Longrightarrow> block_addr k' = block_addr k"
  by (simp add: shape_def block_addr_def fun_eq_iff)

lemma cache_okE:
  assumes "cache_ok s c" "ss_slabs s a = Some b" "sb_cache b = c"
  shows "page_aligned a" "\<exists>L. slab_ok c (unat (sc_map_bits (ss_cache s c))) L b"
    "bit (sb_map b) i \<Longrightarrow> i < unat (sc_map_bits (ss_cache s c))"
proof -
  obtain f where f: "members_ok s c f" using assms(1) by (auto simp: cache_ok_def)
  then obtain L where L: "a \<in> set (f L)" using assms(2,3) unfolding members_ok_def by blast
  then have m: "page_aligned a" "\<exists>d. ss_slabs s a = Some d \<and> slab_ok c (unat (sc_map_bits (ss_cache s c))) L d"
    using f unfolding members_ok_def by blast+
  then have k: "slab_ok c (unat (sc_map_bits (ss_cache s c))) L b" using assms(2) by simp
  show "page_aligned a" "\<exists>L. slab_ok c (unat (sc_map_bits (ss_cache s c))) L b" using m(1) k by blast+
  show "bit (sb_map b) i \<Longrightarrow> i < unat (sc_map_bits (ss_cache s c))" using k by (simp add: slab_ok_def map_ok_def)
qed

text \<open>The address of a block tells its page and its number.\<close>

lemma block_addr_inj:
  assumes "cache_shape k" "page_aligned a" "i < unat (sc_map_bits k)" "page_aligned a'" "j < unat (sc_map_bits k)"
    and "block_addr k a i = block_addr k a' j"
  shows "a = a' \<and> i = j"
proof -
  have "a = a'" using block_decode(1) [OF assms(2,1,3)] block_decode(1) [OF assms(4,1,5)] assms(6) by metis
  then show ?thesis
    using block_decode(2) [OF assms(2,1,3)] block_decode(2) [OF assms(4,1,5)] assms(6) by metis
qed

lemma slab_live_iff:
  assumes "cache_ok s c" "page_aligned a" "i < unat (sc_map_bits (ss_cache s c))"
  shows "block_addr (ss_cache s c) a i \<in> slab_live s c \<longleftrightarrow>
    (\<exists>b. ss_slabs s a = Some b \<and> sb_cache b = c \<and> 0 < i \<and> bit (sb_map b) i)"
proof
  assume "block_addr (ss_cache s c) a i \<in> slab_live s c"
  then obtain a' j b where j: "block_addr (ss_cache s c) a i = block_addr (ss_cache s c) a' j"
    "ss_slabs s a' = Some b" "sb_cache b = c" "0 < j" "bit (sb_map b) j" unfolding slab_live_def by blast
  have "cache_shape (ss_cache s c)" using assms(1) by (simp add: cache_ok_def)
  from block_addr_inj [OF this assms(2,3) cache_okE(1,3) [OF assms(1) j(2,3)] j(1)] j(5)
  have "a = a'" "i = j" by blast+
  then show "\<exists>b. ss_slabs s a = Some b \<and> sb_cache b = c \<and> 0 < i \<and> bit (sb_map b) i" using j(2-5) by blast
next
  assume "\<exists>b. ss_slabs s a = Some b \<and> sb_cache b = c \<and> 0 < i \<and> bit (sb_map b) i"
  then show "block_addr (ss_cache s c) a i \<in> slab_live s c" by (auto intro: slab_liveI)
qed

text \<open>Membership of any address, by its page and number.\<close>

lemma slab_live_elim:
  assumes "cache_ok s c" "p \<in> slab_live s c"
  obtains a b i where "p = block_addr (ss_cache s c) a i" "ss_slabs s a = Some b" "sb_cache b = c" "0 < i"
    "i < unat (sc_map_bits (ss_cache s c))" "bit (sb_map b) i" "page_aligned a"
proof -
  obtain a b i where x: "p = block_addr (ss_cache s c) a i" "ss_slabs s a = Some b" "sb_cache b = c" "0 < i" "bit (sb_map b) i"
    using assms(2) unfolding slab_live_def by blast
  then show ?thesis using cache_okE(1,3) [OF assms(1) x(2,3)] that by blast
qed

lemma image2_cong:
  "(\<And>x j. f x j \<noteq> z \<Longrightarrow> P x j = Q x j) \<Longrightarrow> {f x j | x j. P x j} - {z} = {f x j | x j. Q x j} - {z}"
  by blast

lemma live_sets:
  assumes "cache_ok s c" "sets_slab c a b' s s'" "sb_cache b' = c" "ss_slabs s a = Some b" "sb_cache b = c"
    and "\<forall>j. bit (sb_map b') j \<longrightarrow> j < unat (sc_map_bits (ss_cache s c))"
    and "\<forall>j. j \<noteq> i \<longrightarrow> bit (sb_map b') j = bit (sb_map b) j" "0 < i" "i < unat (sc_map_bits (ss_cache s c))"
  shows "slab_live s' c - {block_addr (ss_cache s c) a i} = slab_live s c - {block_addr (ss_cache s c) a i}"
    and "block_addr (ss_cache s c) a i \<in> slab_live s' c \<longleftrightarrow> bit (sb_map b') i"
    and "block_addr (ss_cache s c) a i \<in> slab_live s c \<longleftrightarrow> bit (sb_map b) i"
proof -
  let ?k = "ss_cache s c"
  have k: "sc_map_bits (ss_cache s' c) = sc_map_bits ?k" "sc_block_size (ss_cache s' c) = sc_block_size ?k" and ok: "cache_ok s' c"
    using assms(2) by (simp_all add: sets_slab_def frame_def)
  have ka: "block_addr (ss_cache s' c) = block_addr ?k" by (rule block_addr_shape) (simp add: shape_def k)
  have al: "page_aligned a" using cache_okE(1) [OF assms(1,4,5)] .
  have st: "map_option strip (ss_slabs s' x) = (if x = a then Some (strip b') else map_option strip (ss_slabs s x))" for x
    using assms(2) by (simp add: sets_slab_def)
  obtain d where d: "ss_slabs s' a = Some d" "strip d = strip b'" using st [of a] by auto
  then have dm: "sb_map d = sb_map b'" "sb_cache d = c" using strip_fields assms(3) by metis+
  show n: "block_addr ?k a i \<in> slab_live s' c \<longleftrightarrow> bit (sb_map b') i"
    using slab_live_iff [OF ok al, of i] assms(8,9) d(1) dm by (simp add: k ka)
  show o: "block_addr ?k a i \<in> slab_live s c \<longleftrightarrow> bit (sb_map b) i"
    using slab_live_iff [OF assms(1) al, of i] assms(4,5,8,9) by simp
  have e: "(\<exists>e. ss_slabs s' x = Some e \<and> sb_cache e = c \<and> 0 < j \<and> bit (sb_map e) j)
      \<longleftrightarrow> (\<exists>e. ss_slabs s x = Some e \<and> sb_cache e = c \<and> 0 < j \<and> bit (sb_map e) j)" if "x \<noteq> a \<or> j \<noteq> i" for x j
  proof (cases "x = a")
    case True
    then show ?thesis using d dm assms(4,5,7) that by simp
  next
    case False
    then have "map_option strip (ss_slabs s' x) = map_option strip (ss_slabs s x)" using st by simp
    then show ?thesis using strip_fields by (cases "ss_slabs s' x"; cases "ss_slabs s x") (simp, simp, simp, metis map_option_eq_Some option.inject option.simps(9))
  qed
  show "slab_live s' c - {block_addr ?k a i} = slab_live s c - {block_addr ?k a i}"
    unfolding slab_live_def ka by (rule image2_cong, rule e) auto
qed

lemma sets_slab_dom: "sets_slab c a b' s s' \<Longrightarrow> ss_slabs s a = Some b \<Longrightarrow> dom (ss_slabs s') = dom (ss_slabs s)"
proof (rule set_eqI)
  fix x
  assume "sets_slab c a b' s s'" "ss_slabs s a = Some b"
  then show "x \<in> dom (ss_slabs s') \<longleftrightarrow> x \<in> dom (ss_slabs s)"
    unfolding sets_slab_def by (cases "ss_slabs s' x"; cases "ss_slabs s x") (auto split: if_splits)
qed

section \<open>Taking a block of a page\<close>

text \<open>The heads of the two lists that allocation looks at.\<close>

lemma list_head_member:
  assumes "lists_ok s c f" "members_ok s c f" "head_get L (ss_cache s c) \<noteq> 0"
  obtains b where "head_get L (ss_cache s c) \<in> set (f L)" "ss_slabs s (head_get L (ss_cache s c)) = Some b"
    "slab_ok c (unat (sc_map_bits (ss_cache s c))) L b" "page_aligned (head_get L (ss_cache s c))"
proof -
  have "slist s c L (f L)" using assms(1) by (simp add: lists_ok_def)
  then have "head_get L (ss_cache s c) \<in> set (f L)" using slist_head assms(3) by (cases "f L") fastforce+
  then show ?thesis using assms(2) that unfolding members_ok_def by blast
qed

lemma list_range_cases: "n \<le> mb - 1 \<Longrightarrow> 0 < n \<Longrightarrow> list_range (if n = mb - 1 then LFree else LPartial) mb n"
  by simp

lemma map_ok_set:
  assumes "map_ok mb b" "3 \<le> mb" "mb \<le> 64" "i < mb" "\<not> bit (sb_map b) i"
  shows "map_ok mb (b\<lparr>sb_map := sb_map b OR 2 ^ i, sb_bits_free := sb_bits_free b - 1\<rparr>)"
    and "unat (sb_bits_free b) = Suc (unat (sb_bits_free b - 1))"
proof -
  have n: "free_bits mb (sb_map b) = Suc (free_bits mb (sb_map b OR 2 ^ i))" using free_bits_set [OF assms(4,5,3)] .
  then have "0 < unat (sb_bits_free b)" using assms(1) by (simp add: map_ok_def)
  then have p: "unat (sb_bits_free b - 1) = unat (sb_bits_free b) - 1" by (rule unat_pred)
  show "unat (sb_bits_free b) = Suc (unat (sb_bits_free b - 1))" using p \<open>0 < unat (sb_bits_free b)\<close> by simp
  show "map_ok mb (b\<lparr>sb_map := sb_map b OR 2 ^ i, sb_bits_free := sb_bits_free b - 1\<rparr>)"
    using assms n p by (auto simp: map_ok_def bit_set)
qed

definition took :: "nat \<Rightarrow> u32 \<Rightarrow> 'r slab_state \<Rightarrow> 'r slab_state \<Rightarrow> bool" where
  "took c p s s' \<longleftrightarrow> p \<noteq> 0 \<and> p \<notin> slab_live s c \<and> slab_live s' c = insert p (slab_live s c) \<and> cache_ok s' c
     \<and> frame c s s' \<and> ss_region s' = ss_region s \<and> dom (ss_slabs s') = dom (ss_slabs s)"

lemma block_addr_nonzero:
  assumes "page_aligned a" "a \<noteq> 0" "cache_shape k" "i < unat (sc_map_bits k)"
  shows "block_addr k a i \<noteq> 0"
  using block_decode(1) [OF assms(1,3,4)] assms(2) by (auto simp: slab_page_of_def)

lemma took_block:
  assumes "cache_ok s c" "ss_slabs s a = Some b" "sb_cache b = c" "sets_slab c a b' s s'" "sb_map b' = sb_map b OR 2 ^ i"
    and "sb_cache b' = c" "0 < i" "i < unat (sc_map_bits (ss_cache s c))" "\<not> bit (sb_map b) i" "a \<noteq> 0"
  shows "took c (block_addr (ss_cache s c) a i) s s'"
proof -
  have sh: "cache_shape (ss_cache s c)" and mb: "unat (sc_map_bits (ss_cache s c)) \<le> 64" "unat (sc_map_bits (ss_cache s c)) \<noteq> 0"
    using assms(1) by (simp_all add: cache_ok_def cache_shape_def)
  have "\<forall>j. bit (sb_map b') j \<longrightarrow> j < unat (sc_map_bits (ss_cache s c))"
    using cache_okE(3) [OF assms(1-3)] assms(5,8) by (auto simp: bit_set)
  moreover have "\<forall>j. j \<noteq> i \<longrightarrow> bit (sb_map b') j = bit (sb_map b) j" using assms(5) by (auto simp: bit_set)
  ultimately have l: "slab_live s' c - {block_addr (ss_cache s c) a i} = slab_live s c - {block_addr (ss_cache s c) a i}"
    "block_addr (ss_cache s c) a i \<in> slab_live s' c" "block_addr (ss_cache s c) a i \<notin> slab_live s c"
    using live_sets [OF assms(1,4,6,2,3) _ _ assms(7,8)] assms(5,8,9) mb(1) by (simp_all add: bit_set)
  have nz: "block_addr (ss_cache s c) a i \<noteq> 0"
    using block_addr_nonzero [OF cache_okE(1) [OF assms(1-3)] assms(10) sh assms(8)] .
  show ?thesis unfolding took_def using l nz assms(4) sets_slab_dom [OF assms(4,2)] unfolding sets_slab_def by blast
qed

lemma slab_alloc_partial_ok:
  assumes "cache_ok s c" "sc_partial (ss_cache s c) \<noteq> 0"
  shows "\<exists>s' p. slab_alloc_partial c s = Some (s', p) \<and> took c p s s'"
proof -
  let ?k = "ss_cache s c" and ?a = "sc_partial (ss_cache s c)" and ?mb = "unat (sc_map_bits (ss_cache s c))"
  have sh: "cache_shape ?k" using assms(1) by (simp add: cache_ok_def)
  then have mb: "3 \<le> ?mb" "?mb \<le> 64" by (simp_all add: cache_shape_def)
  obtain f where f: "lists_ok s c f" "members_ok s c f" using assms(1) by (auto simp: cache_ok_def)
  obtain b where b: "?a \<in> set (f LPartial)" "ss_slabs s ?a = Some b" "slab_ok c ?mb LPartial b"
    using list_head_member [OF f, of LPartial] assms(2) by auto
  have mo: "map_ok ?mb b" and n: "0 < unat (sb_bits_free b)" "unat (sb_bits_free b) < ?mb - 1" and bc: "sb_cache b = c"
    using b(3) by (simp_all add: slab_ok_def)
  then have "free_bits ?mb (sb_map b) \<noteq> 0" by (simp add: map_ok_def)
  then obtain j where j: "j < ?mb" "\<not> bit (sb_map b) j" unfolding free_bits_0 by blast
  then have "j < 64" using mb(2) by simp
  from slab_find_bit_ok [OF this j(2), of 0 "sc_block_size ?k" ?a] obtain e where e:
    "slab_find_bit (sb_map b) (sc_block_size ?k) 0 ?a = (e, block_addr ?k ?a e)" "e \<le> j" "\<not> bit (sb_map b) e"
    by (auto simp: block_addr_def)
  have e0: "0 < e" using e(3) mo by (cases e) (simp_all add: map_ok_def)
  have emb: "e < ?mb" using e(2) j(1) by simp
  let ?b = "b\<lparr>sb_map := sb_map b OR 2 ^ e, sb_bits_free := sb_bits_free b - 1\<rparr>"
  note ms = map_ok_set [OF mo mb emb e(3)]
  show ?thesis
  proof (cases "sb_bits_free b - 1 = 0")
    case True
    let ?b' = "?b\<lparr>sb_status := SLAB_STATUS_FULL\<rparr>"
    have "slab_ok c ?mb LFull ?b'" using ms(1) True b(3) by (simp add: slab_ok_def map_ok_def)
    from move_ok [OF sh f b(1,2) this, of "\<lambda>k. k"] obtain s' where s':
      "slab_cache_move_block c LPartial LFull ?a (s\<lparr>ss_slabs := (ss_slabs s)(?a \<mapsto> ?b')\<rparr>) = Some s'" "sets_slab c ?a ?b' s s'"
      by (auto simp: cache_update_def)
    have "slab_alloc_partial c s = Some (s', block_addr ?k ?a e)"
      using b(2) e(1) True s'(1) by (simp add: slab_alloc_partial_def Let_def)
    moreover have "took c (block_addr ?k ?a e) s s'"
      by (rule took_block [OF assms(1) b(2) bc s'(2) _ _ e0 emb e(3) assms(2)]) (simp_all add: bc)
    ultimately show ?thesis by blast
  next
    case False
    let ?s' = "s\<lparr>ss_slabs := (ss_slabs s)(?a \<mapsto> ?b)\<rparr>"
    have "unat (sb_bits_free b - 1) \<noteq> 0" using False unfolding unat_eq_0 .
    then have "slab_ok c ?mb LPartial ?b" using ms b(3) n(2) unfolding slab_ok_def by simp
    then have st: "sets_slab c ?a ?b s ?s'" by (rule stay_ok [OF sh f b(1,2)]) simp_all
    have "slab_alloc_partial c s = Some (?s', block_addr ?k ?a e)"
      using b(2) e(1) False by (simp add: slab_alloc_partial_def Let_def)
    moreover have "took c (block_addr ?k ?a e) s ?s'"
      by (rule took_block [OF assms(1) b(2) bc st _ _ e0 emb e(3) assms(2)]) (simp_all add: bc)
    ultimately show ?thesis by blast
  qed
qed

lemma slab_alloc_free_ok:
  assumes "cache_ok s c" "sc_free (ss_cache s c) \<noteq> 0"
  shows "\<exists>s' p. slab_alloc_free c s = Some (s', p) \<and> took c p s s'"
proof -
  let ?k = "ss_cache s c" and ?a = "sc_free (ss_cache s c)" and ?mb = "unat (sc_map_bits (ss_cache s c))"
  have sh: "cache_shape ?k" using assms(1) by (simp add: cache_ok_def)
  then have mb: "3 \<le> ?mb" "?mb \<le> 64" by (simp_all add: cache_shape_def)
  obtain f where f: "lists_ok s c f" "members_ok s c f" using assms(1) by (auto simp: cache_ok_def)
  obtain b where b: "?a \<in> set (f LFree)" "ss_slabs s ?a = Some b" "slab_ok c ?mb LFree b"
    using list_head_member [OF f, of LFree] assms(2) by auto
  have mo: "map_ok ?mb b" and n: "unat (sb_bits_free b) = ?mb - 1" and bc: "sb_cache b = c"
    using b(3) by (simp_all add: slab_ok_def)
  have one: "\<not> bit (sb_map b) 1"
    using free_bits_all(2) [of "sb_map b" ?mb 1] mo n mb by (simp add: map_ok_def)
  have lt: "1 < ?mb" using mb(1) by simp
  let ?b = "b\<lparr>sb_map := sb_map b OR 2 ^ 1, sb_bits_free := sb_bits_free b - 1\<rparr>"
  note ms = map_ok_set [OF mo mb lt one]
  let ?b' = "b\<lparr>sb_map := sb_map b OR 2 ^ 1, sb_status := SLAB_STATUS_PARTIAL, sb_bits_free := sb_bits_free b - 1\<rparr>"
  have r: "0 < unat (sb_bits_free b - 1) \<and> unat (sb_bits_free b - 1) < ?mb - 1" using ms(2) n mb(1) by arith
  have ok: "slab_ok c ?mb LPartial ?b'" using ms(1) b(3) r by (simp add: slab_ok_def map_ok_def)
  obtain s' where s':
    "slab_cache_move_block c LFree LPartial ?a
      (cache_update (\<lambda>k. k\<lparr>sc_free_pages := sc_free_pages k - 1\<rparr>) c (s\<lparr>ss_slabs := (ss_slabs s)(?a \<mapsto> ?b')\<rparr>)) = Some s'"
    "sets_slab c ?a ?b' s s'"
  proof -
    have "\<forall>N k. head_get N (k\<lparr>sc_free_pages := sc_free_pages k - 1\<rparr>) = head_get N k"
      by (intro allI, case_tac N) simp_all
    then show ?thesis using move_ok [OF sh f b(1,2) ok, of "\<lambda>k. k\<lparr>sc_free_pages := sc_free_pages k - 1\<rparr>"] that
      by (auto simp: shape_def)
  qed
  have "slab_alloc_free c s = Some (s', block_addr ?k ?a 1)"
    using b(2) s'(1) by (simp add: slab_alloc_free_def slab_update_def Let_def block_addr_def)
  moreover have "took c (block_addr ?k ?a 1) s s'"
    by (rule took_block [OF assms(1) b(2) bc s'(2) _ _ _ lt one assms(2)]) (simp_all add: bc)
  ultimately show ?thesis by blast
qed

section \<open>Adding pages\<close>

lemma push_relink:
  assumes "ss_slabs s a = Some b" "head_get to (ss_cache s c) \<noteq> a"
  shows "slab_cache_push_block c to a s = relink c to a s"
proof (cases "head_get to (ss_cache s c) = 0")
  case True
  then show ?thesis using assms by (cases b) (simp add: slab_cache_push_block_def relink_def slab_update_def)
next
  case False
  show ?thesis
  proof (cases "ss_slabs s (head_get to (ss_cache s c))")
    case None
    then show ?thesis using False assms by (simp add: slab_cache_push_block_def relink_def slab_update_def)
  next
    case (Some h)
    then show ?thesis using False assms
      by (cases b) (simp add: slab_cache_push_block_def relink_def slab_update_def fun_upd_twist)
  qed
qed

definition added :: "nat \<Rightarrow> u32 set \<Rightarrow> 'r slab_state \<Rightarrow> 'r slab_state \<Rightarrow> bool" where
  "added c ps s s' \<longleftrightarrow> cache_ok s' c \<and> frame c s s' \<and> ss_region s' = ss_region s
     \<and> dom (ss_slabs s') = ps \<union> dom (ss_slabs s) \<and> slab_live s' c = slab_live s c"

lemma added_trans: "added c ps s s1 \<Longrightarrow> added c qs s1 s2 \<Longrightarrow> added c (ps \<union> qs) s s2"
  unfolding added_def using frame_trans by fastforce

lemma new_map_ok: "0 < unat mb \<Longrightarrow> sb_map b = 1 \<Longrightarrow> sb_bits_free b = mb - 1 \<Longrightarrow> map_ok (unat mb) b \<and> unat (sb_bits_free b) = unat mb - 1"
proof -
  assume a: "0 < unat mb" "sb_map b = 1" "sb_bits_free b = mb - 1"
  have "{i. i < unat mb \<and> \<not> bit (1 :: u64) i} = {1..<unat mb}" by (auto simp: bit_1_iff)
  then show ?thesis using a unat_pred [of mb] by (simp add: map_ok_def free_bits_def bit_1_iff)
qed

lemma live_added:
  assumes "shape (ss_cache s' c) = shape (ss_cache s c)"
    and "\<And>x. x \<noteq> a \<Longrightarrow> map_option strip (ss_slabs s' x) = map_option strip (ss_slabs s x)"
    and "ss_slabs s a = None" "ss_slabs s' a = Some b" "sb_map b = 1"
  shows "slab_live s' c = slab_live s c"
proof -
  have "(\<exists>b. ss_slabs s' x = Some b \<and> sb_cache b = c \<and> 0 < i \<and> bit (sb_map b) i)
      \<longleftrightarrow> (\<exists>b. ss_slabs s x = Some b \<and> sb_cache b = c \<and> 0 < i \<and> bit (sb_map b) i)" for x i
  proof (cases "x = a")
    case True
    then show ?thesis using assms(3-5) by (auto simp: bit_1_iff)
  next
    case False
    show ?thesis using assms(2) [OF False] strip_fields
      by (cases "ss_slabs s' x"; cases "ss_slabs s x") (simp, simp, simp, metis map_option_eq_Some option.inject option.simps(9))
  qed
  then show ?thesis unfolding slab_live_def block_addr_shape [OF assms(1)] by simp
qed

lemma members_added:
  assumes "members_ok s c f" "page_aligned a" "slab_ok c (unat (sc_map_bits (ss_cache s c))) LFree b"
    and st: "\<And>x. map_option strip (ss_slabs s' x) = (if x = a then Some (strip b) else map_option strip (ss_slabs s x))"
    and na: "\<And>L. a \<notin> set (f L)" and mb: "sc_map_bits (ss_cache s' c) = sc_map_bits (ss_cache s c)"
  shows "members_ok s' c (f(LFree := a # f LFree))"
  unfolding members_ok_def mb
proof (intro conjI allI ballI impI)
  let ?mb = "unat (sc_map_bits (ss_cache s c))" and ?f = "f(LFree := a # f LFree)"
  have mem: "x \<in> set (f L) \<Longrightarrow> page_aligned x \<and> (\<exists>b. ss_slabs s x = Some b \<and> slab_ok c ?mb L b)" for x L
    using assms(1) unfolding members_ok_def by blast
  fix L x
  assume x: "x \<in> set (?f L)"
  show "page_aligned x" using x mem [of x L] assms(2) by (auto split: if_splits)
  show "\<exists>d. ss_slabs s' x = Some d \<and> slab_ok c ?mb L d"
  proof (cases "x = a")
    case True
    obtain b' where "ss_slabs s' a = Some b'" "strip b' = strip b" using st [of a] by auto
    moreover have "L = LFree" using x True na by (auto split: if_splits)
    ultimately show ?thesis using assms(3) True slab_ok_strip by blast
  next
    case False
    then obtain d where d: "ss_slabs s x = Some d" "slab_ok c ?mb L d" using x mem [of x L] by (auto split: if_splits)
    then obtain e where "ss_slabs s' x = Some e" "strip e = strip d" using st [of x] False by auto
    then show ?thesis using d(2) slab_ok_strip by blast
  qed
next
  fix x d
  assume d: "ss_slabs s' x = Some d" "sb_cache d = c"
  show "\<exists>L. x \<in> set ((f(LFree := a # f LFree)) L)"
  proof (cases "x = a")
    case True
    then show ?thesis by (auto intro: exI [of _ LFree])
  next
    case False
    then obtain e where e: "ss_slabs s x = Some e" "strip e = strip d" using st [of x] d(1) by (cases "ss_slabs s x") auto
    then have "sb_cache e = c" using d(2) strip_fields(1) by metis
    then obtain L where "x \<in> set (f L)" using assms(1) e(1) unfolding members_ok_def by blast
    then show ?thesis by (intro exI [of _ L]) auto
  qed
qed

lemma frame_added:
  assumes "members_ok s c f" "sb_cache b = c" "ss_slabs s a = None" "\<And>L. a \<notin> set (f L)"
    and st: "\<And>x. map_option strip (ss_slabs s' x) = (if x = a then Some (strip b) else map_option strip (ss_slabs s x))"
    and "\<And>x. x \<notin> set (a # f LFree) \<Longrightarrow> ss_slabs s' x = ss_slabs s x"
    and "shape (ss_cache s' c) = shape (ss_cache s c)" "\<And>d. d \<noteq> c \<Longrightarrow> ss_cache s' d = ss_cache s d"
  shows "frame c s s'"
  unfolding frame_def
proof (intro conjI allI impI)
  fix x and d :: slab
  assume nc: "sb_cache d \<noteq> c"
  obtain b' where b': "ss_slabs s' a = Some b'" "strip b' = strip b" using st [of a] by auto
  then have "sb_cache b' = c" using strip_fields(1) [of b'] strip_fields(1) [of b] assms(2) by simp
  moreover have "\<exists>e g. ss_slabs s' x = Some e \<and> ss_slabs s x = Some g \<and> sb_cache e = c \<and> sb_cache g = c" if x: "x \<in> set (f LFree)"
  proof -
    obtain g where g: "ss_slabs s x = Some g" "sb_cache g = c" using assms(1) x unfolding members_ok_def slab_ok_def by blast
    moreover have "x \<noteq> a" using x assms(4) by auto
    ultimately obtain e where "ss_slabs s' x = Some e" "strip e = strip g" using st [of x] by auto
    then show ?thesis using g strip_fields(1) by metis
  qed
  ultimately show "ss_slabs s' x = Some d \<longleftrightarrow> ss_slabs s x = Some d"
    using nc b'(1) assms(3,6) by (cases "x = a"; cases "x \<in> set (f LFree)") auto
qed (use assms(7,8) in \<open>simp_all add: shape_def\<close>)

lemma lists_added:
  assumes "\<And>L. slist s c L (f L)" "lists_ok s0 c f" "\<And>L. a \<notin> set (f L)" "ss_slabs s a = Some b" "a \<noteq> 0"
  shows "\<exists>s'. slab_cache_push_block c LFree a s = Some s' \<and> lists_ok s' c (f(LFree := a # f LFree)) \<and> same_data s s'
    \<and> (\<forall>x. x \<notin> set (a # f LFree) \<longrightarrow> ss_slabs s' x = ss_slabs s x)
    \<and> ss_cache s' = (ss_cache s)(c := head_set LFree a (ss_cache s c))"
proof -
  have sl: "distinct (f L)" "L \<noteq> M \<Longrightarrow> set (f L) \<inter> set (f M) = {}" for L M
    using assms(2) unfolding lists_ok_def by blast+
  have "head_get LFree (ss_cache s c) \<noteq> a"
    using slist_head [OF assms(1) [of LFree]] assms(3) [of LFree] assms(5) by (cases "f LFree") auto
  then have pr: "slab_cache_push_block c LFree a s = relink c LFree a s" by (rule push_relink [OF assms(4)])
  have "distinct (a # f LFree)" using sl(1) assms(3) by simp
  from relink_ok [OF assms(1) this assms(4,5)] obtain s' where s': "relink c LFree a s = Some s'" "slist s' c LFree (a # f LFree)"
    "same_data s s'" "\<forall>x. x \<notin> set (a # f LFree) \<longrightarrow> ss_slabs s' x = ss_slabs s x"
    "ss_cache s' = (ss_cache s)(c := head_set LFree a (ss_cache s c))" by blast
  have "slist s' c L (f L)" if "L \<noteq> LFree" for L
  proof -
    have "x \<notin> set (a # f LFree)" if "x \<in> set (f L)" for x
      using sl(2) [OF \<open>L \<noteq> LFree\<close>] assms(3) [of L] that by auto
    then have "\<forall>x \<in> set (f L). ss_slabs s' x = ss_slabs s x" using s'(4) by blast
    then show ?thesis using assms(1) [of L] that s'(5) sseg_cong [of "f L" "ss_slabs s'" "ss_slabs s"]
      by (cases L) (auto simp: slist_def)
  qed
  then have "lists_ok s' c (f(LFree := a # f LFree))" using s'(2) sl assms(3) by (auto simp: lists_ok_def)
  with s'(1,3-5) show ?thesis unfolding pr by (intro exI [of _ s'] conjI)
qed

lemma slab_cache_add_page_ok:
  assumes "cache_ok s c" "page_aligned a" "a \<noteq> 0" "ss_slabs s a = None"
  shows "\<exists>s'. slab_cache_add_page c a s = Some s' \<and> added c {a} s s'"
proof -
  let ?k = "ss_cache s c"
  obtain f where f: "lists_ok s c f" "members_ok s c f" using assms(1) by (auto simp: cache_ok_def)
  have na: "a \<notin> set (f L)" for L using f(2) assms(4) unfolding members_ok_def by fastforce
  define b where "b = \<lparr>sb_last = 0, sb_next = 0, sb_cache = c, sb_map = 1, sb_bits_free = sc_map_bits ?k - 1,
    sb_magic = DARK_MAGIC, sb_status = SLAB_STATUS_FREE\<rparr>"
  define s1 where "s1 = cache_update (\<lambda>k. k\<lparr>sc_free_pages := sc_free_pages k + 1, sc_pages_alloced := sc_pages_alloced k + 1\<rparr>) c
    (if sc_ctor ?k then s\<lparr>ss_slabs := (ss_slabs s)(a \<mapsto> b), ss_ctor_calls := ss_ctor_calls s @ slab_blocks ?k a\<rparr>
     else s\<lparr>ss_slabs := (ss_slabs s)(a \<mapsto> b)\<rparr>)"
  have s1: "ss_slabs s1 = (ss_slabs s)(a \<mapsto> b)" "ss_region s1 = ss_region s" "shape (ss_cache s1 c) = shape ?k"
    "head_get L (ss_cache s1 c) = head_get L ?k" "d \<noteq> c \<Longrightarrow> ss_cache s1 d = ss_cache s d" for L d
    by (cases L; simp add: s1_def shape_def)+
  have ap: "slab_cache_add_page c a s = slab_cache_push_block c LFree a s1"
    by (simp add: slab_cache_add_page_def s1_def b_def Let_def)
  have l1: "slist s1 c L (f L)" for L using f(1) na s1(1,4) by (simp add: lists_ok_def slist_def)
  have ab: "ss_slabs s1 a = Some b" using s1(1) by simp
  from lists_added [OF l1 f(1) na ab assms(3)] obtain s' where s': "slab_cache_push_block c LFree a s1 = Some s'"
    "lists_ok s' c (f(LFree := a # f LFree))" "same_data s1 s'"
    "\<forall>x. x \<notin> set (a # f LFree) \<longrightarrow> ss_slabs s' x = ss_slabs s1 x"
    "ss_cache s' = (ss_cache s1)(c := head_set LFree a (ss_cache s1 c))" by blast
  have st: "map_option strip (ss_slabs s' x) = (if x = a then Some (strip b) else map_option strip (ss_slabs s x))" for x
    using s'(3) s1(1) by (simp add: same_data_def)
  have sh: "shape (ss_cache s' c) = shape ?k" using s'(5) s1(3) by (simp add: shape_def)
  have "0 < unat (sc_map_bits ?k)" using assms(1) by (simp add: cache_ok_def cache_shape_def)
  from new_map_ok [OF this, of b] have bo: "slab_ok c (unat (sc_map_bits ?k)) LFree b" by (simp add: slab_ok_def b_def)
  have "members_ok s' c (f(LFree := a # f LFree))"
    by (rule members_added [OF f(2) assms(2) bo st na]) (use sh in \<open>simp add: shape_def\<close>)
  moreover have "cache_shape (ss_cache s' c)" using assms(1) sh unfolding cache_ok_def shape_heads by simp
  ultimately have ok: "cache_ok s' c" using s'(2) unfolding cache_ok_def by blast
  obtain b' where b': "ss_slabs s' a = Some b'" "strip b' = strip b" using st [of a] by auto
  then have "sb_map b' = 1" using strip_fields(4) [of b'] strip_fields(4) [of b] by (simp add: b_def)
  from live_added [OF sh _ assms(4) b'(1) this] st have lv: "slab_live s' c = slab_live s c" by simp
  have "x \<in> dom (ss_slabs s') \<longleftrightarrow> x \<in> {a} \<union> dom (ss_slabs s)" for x
    using st [of x] by (cases "ss_slabs s' x"; cases "ss_slabs s x") (auto split: if_splits)
  then have dm: "dom (ss_slabs s') = {a} \<union> dom (ss_slabs s)" by blast
  have "frame c s s'"
    by (rule frame_added [OF f(2) _ assms(4) na st _ sh]) (use s'(4,5) s1(1,5) in \<open>auto simp: b_def\<close>)
  then show ?thesis using ap s'(1,3) s1(2) ok lv dm unfolding added_def same_data_def by auto
qed

definition slab_run :: "u32 \<Rightarrow> nat \<Rightarrow> u32 set" where
  "slab_run p n = (\<lambda>k. p + SLAB_PAGE * of_nat k) ` {..<n}"

lemma slab_run_Suc: "slab_run p (Suc n) = insert p (slab_run (p + SLAB_PAGE) n)"
proof -
  have "{..<Suc n} = insert 0 (Suc ` {..<n})" by (auto simp: image_iff gr0_conv_Suc less_Suc_eq_0_disj)
  then show ?thesis by (simp add: slab_run_def image_image algebra_simps)
qed

lemma slab_run_fresh:
  assumes "n < 0x1000"
  shows "p \<notin> slab_run (p + SLAB_PAGE) n"
proof
  assume "p \<in> slab_run (p + SLAB_PAGE) n"
  then obtain k where k: "k < n" "p = p + SLAB_PAGE + SLAB_PAGE * of_nat k" by (auto simp: slab_run_def)
  then have "SLAB_PAGE + SLAB_PAGE * of_nat k = 0" by (metis add.assoc add_cancel_right_right)
  then have "SLAB_PAGE * of_nat (Suc k) = 0" by (simp add: algebra_simps)
  moreover have "unat (SLAB_PAGE * of_nat (Suc k) :: u32) = 0x1000 * Suc k"
    using k(1) assms by (simp add: SLAB_PAGE_def unat_word_ariths unat_of_nat take_bit_nat_eq_self)
  ultimately show False by simp
qed

lemma slab_cache_add_pages_ok:
  assumes "cache_ok s c" "\<forall>a \<in> slab_run p n. page_aligned a \<and> a \<noteq> 0 \<and> ss_slabs s a = None" "n < 0x1000"
  shows "\<exists>s'. slab_cache_add_pages c p n s = Some s' \<and> added c (slab_run p n) s s'"
  using assms
proof (induction n arbitrary: p s)
  case 0
  then show ?case by (simp add: slab_run_def added_def)
next
  case (Suc n)
  then obtain s1 where s1: "slab_cache_add_page c p s = Some s1" "added c {p} s s1"
    using slab_cache_add_page_ok [of s c p] by (auto simp: slab_run_Suc)
  have "p \<notin> slab_run (p + SLAB_PAGE) n" by (rule slab_run_fresh) (use Suc.prems(3) in simp)
  then have "\<forall>a \<in> slab_run (p + SLAB_PAGE) n. page_aligned a \<and> a \<noteq> 0 \<and> ss_slabs s1 a = None"
    using Suc.prems(2) s1(2) unfolding added_def slab_run_Suc dom_def by auto
  from Suc.IH [OF _ this] s1(2) Suc.prems(3) obtain s2 where "slab_cache_add_pages c (p + SLAB_PAGE) n s1 = Some s2"
    "added c (slab_run (p + SLAB_PAGE) n) s1 s2" by (auto simp: added_def)
  then show ?case using s1 added_trans by (fastforce simp: slab_run_Suc)
qed

section \<open>The allocator over a source of pages\<close>

context page_source
begin

definition slab_inv :: "'s slab_state \<Rightarrow> bool" where
  "slab_inv s \<longleftrightarrow> inv (ss_region s) \<and> dom (ss_slabs s) \<subseteq> held (ss_region s)"

definition allocates :: "nat \<Rightarrow> u32 \<Rightarrow> 's slab_state \<Rightarrow> 's slab_state \<Rightarrow> bool" where
  "allocates c p s s' \<longleftrightarrow> slab_inv s' \<and> cache_ok s' c \<and> frame c s s' \<and>
     (if p = 0 then slab_live s' c = slab_live s c
      else p \<notin> slab_live s c \<and> slab_live s' c = insert p (slab_live s c))"

lemma add_page_block_ok:
  assumes "slab_inv s" "cache_ok s c" "slab_cache_add_page_block alloc c s = Some s'"
  shows "slab_inv s' \<and> cache_ok s' c \<and> frame c s s' \<and> slab_live s' c = slab_live s c"
proof -
  obtain r p where a: "alloc (ss_region s) 4 = Some (r, p)"
    and n: "if p \<noteq> 0 then slab_cache_add_pages c p 4 (s\<lparr>ss_region := r\<rparr>) = Some s' else s' = s\<lparr>ss_region := r\<rparr>"
    using assms(3)
    by (auto simp: slab_cache_add_page_block_def slab_cache_alloc_pages_def BLOCK_SIZE_def bind_eq_Some_conv split: if_splits)
  let ?s = "s\<lparr>ss_region := r\<rparr>"
  have i: "inv (ss_region s)" "dom (ss_slabs s) \<subseteq> held (ss_region s)" using assms(1) by (auto simp: slab_inv_def)
  have "lists_ok ?s c f = lists_ok s c f" "members_ok ?s c f = members_ok s c f" for f
    by (simp_all add: lists_ok_def slist_def members_ok_def)
  then have k: "cache_ok ?s c" "frame c s ?s" "slab_live ?s c = slab_live s c"
    using assms(2) by (simp_all add: cache_ok_def frame_def slab_live_def)
  show ?thesis
  proof (cases "p = 0")
    case True
    then have s': "s' = ?s" using n by simp
    have "inv r" "held r = held (ss_region s)" using alloc_none [OF i(1)] a True by auto
    then have "slab_inv ?s" using i(2) by (simp add: slab_inv_def)
    then show ?thesis unfolding s' using k by blast
  next
    case False
    have h: "inv r" "held r = held (ss_region s) \<union> page_run p 4" "held (ss_region s) \<inter> page_run p 4 = {}"
      using alloc_ok [OF i(1) a False] by auto
    have run: "page_run p 4 = slab_run p 4" by (simp add: page_run_def slab_run_def SLAB_PAGE_def)
    have "page_aligned x \<and> x \<noteq> 0 \<and> ss_slabs ?s x = None" if "x \<in> slab_run p 4" for x
    proof -
      have "x \<in> held r" using h(2) that run by blast
      then have "x AND 0xfff = 0" "x \<noteq> 0" using held_aligned [OF h(1)] held_nonzero [OF h(1)] by auto
      moreover have "x \<notin> dom (ss_slabs s)" using h(3) i(2) that run by blast
      ultimately show ?thesis by (simp add: page_aligned_def domIff)
    qed
    then obtain s1 where "slab_cache_add_pages c p 4 ?s = Some s1" "added c (slab_run p 4) ?s s1"
      using slab_cache_add_pages_ok [OF k(1), of p 4] by auto
    then have ad: "added c (slab_run p 4) ?s s'" using n False by simp
    then have "dom (ss_slabs s') = slab_run p 4 \<union> dom (ss_slabs s)" "ss_region s' = r" by (simp_all add: added_def)
    then have "slab_inv s'" using h(1,2) i(2) run unfolding slab_inv_def by auto
    then show ?thesis using ad k(2,3) frame_trans [OF k(2)] unfolding added_def by blast
  qed
qed

lemma took_allocates: "slab_inv s \<Longrightarrow> took c p s s' \<Longrightarrow> allocates c p s s'"
  unfolding took_def allocates_def slab_inv_def by simp

lemma alloc_rounds_ok:
  "slab_inv s \<Longrightarrow> cache_ok s c \<Longrightarrow> slab_alloc_rounds n alloc c s = Some (s', p) \<Longrightarrow> allocates c p s s'"
proof (induction n arbitrary: s)
  case 0
  then show ?case by (simp add: allocates_def)
next
  case (Suc n)
  consider s1 q where "took c q s s1" "slab_alloc_rounds (Suc n) alloc c s = Some (s1, q)"
    | "slab_alloc_rounds (Suc n) alloc c s = do { s2 \<leftarrow> slab_cache_add_page_block alloc c s; slab_alloc_rounds n alloc c s2 }"
  proof (cases "sc_partial (ss_cache s c) = 0")
    case False
    then obtain s1 q where "slab_alloc_partial c s = Some (s1, q)" "took c q s s1"
      using slab_alloc_partial_ok [OF Suc.prems(2)] by blast
    then show ?thesis using that(1) [of q s1] False by (simp add: took_def)
  next
    case partial: True
    show ?thesis
    proof (cases "sc_free (ss_cache s c) = 0")
      case False
      then obtain s1 q where "slab_alloc_free c s = Some (s1, q)" "took c q s s1"
        using slab_alloc_free_ok [OF Suc.prems(2)] by blast
      then show ?thesis using that(1) [of q s1] False partial by (simp add: took_def)
    qed (use that(2) partial in simp)
  qed
  then show ?case
  proof cases
    case 1
    then show ?thesis using Suc.prems(3) took_allocates [OF Suc.prems(1)] by simp
  next
    case 2
    then obtain s2 where s2: "slab_cache_add_page_block alloc c s = Some s2" "slab_alloc_rounds n alloc c s2 = Some (s', p)"
      using Suc.prems(3) by (auto elim: bind_SomeE)
    note a = add_page_block_ok [OF Suc.prems(1,2) s2(1)]
    from Suc.IH [OF _ _ s2(2)] a have "allocates c p s2 s'" by blast
    then show ?thesis using a frame_trans [of c s s2 s'] by (auto simp: allocates_def)
  qed
qed

lemma slab_alloc_ok:
  "slab_inv s \<Longrightarrow> cache_ok s c \<Longrightarrow> slab_alloc alloc c s = Some (s', p) \<Longrightarrow> allocates c p s s'"
  unfolding slab_alloc_def by (rule alloc_rounds_ok)

end

section \<open>Giving a page back\<close>

lemma members_removed:
  assumes "members_ok s c f" "a \<in> set (f L)" "distinct (f L)" "\<And>N. N \<noteq> L \<Longrightarrow> a \<notin> set (f N)"
    and st: "\<And>x. map_option strip (ss_slabs s' x) = (if x = a then None else map_option strip (ss_slabs s x))"
    and mb: "sc_map_bits (ss_cache s' c) = sc_map_bits (ss_cache s c)"
    and f': "set (f' L) = set (f L) - {a}" "\<And>N. N \<noteq> L \<Longrightarrow> f' N = f N"
  shows "members_ok s' c f'"
  unfolding members_ok_def mb
proof (intro conjI allI ballI impI)
  let ?mb = "unat (sc_map_bits (ss_cache s c))"
  have mem: "x \<in> set (f L) \<Longrightarrow> page_aligned x \<and> (\<exists>b. ss_slabs s x = Some b \<and> slab_ok c ?mb L b)" for x L
    using assms(1) unfolding members_ok_def by blast
  fix N x
  assume x: "x \<in> set (f' N)"
  then have xx: "x \<noteq> a" "x \<in> set (f N)" using f' assms(4) [of N] by (cases "N = L"; auto)+
  show "page_aligned x" using mem [OF xx(2)] by blast
  obtain d where d: "ss_slabs s x = Some d" "slab_ok c ?mb N d" using mem [OF xx(2)] by blast
  then obtain e where "ss_slabs s' x = Some e" "strip e = strip d" using st [of x] xx(1) by auto
  then show "\<exists>d. ss_slabs s' x = Some d \<and> slab_ok c ?mb N d" using d(2) slab_ok_strip by blast
next
  fix x d
  assume d: "ss_slabs s' x = Some d" "sb_cache d = c"
  then have xa: "x \<noteq> a" using st [of x] by auto
  then obtain e where e: "ss_slabs s x = Some e" "strip e = strip d" using st [of x] d(1) by (cases "ss_slabs s x") auto
  then have "sb_cache e = c" using d(2) strip_fields(1) by metis
  then obtain N where "x \<in> set (f N)" using assms(1) e(1) unfolding members_ok_def by blast
  then show "\<exists>N. x \<in> set (f' N)" using f' xa by (intro exI [of _ N]) (cases "N = L"; simp)
qed

lemma live_strip:
  assumes "shape (ss_cache s' c) = shape (ss_cache s c)"
    and "\<And>x. x \<noteq> a \<Longrightarrow> map_option strip (ss_slabs s' x) = map_option strip (ss_slabs s x)"
    and "ss_slabs s' a = None" "ss_slabs s a = Some b" "\<And>i. 0 < i \<Longrightarrow> \<not> bit (sb_map b) i"
  shows "slab_live s' c = slab_live s c"
proof -
  have "(\<exists>b. ss_slabs s' x = Some b \<and> sb_cache b = c \<and> 0 < i \<and> bit (sb_map b) i)
      \<longleftrightarrow> (\<exists>b. ss_slabs s x = Some b \<and> sb_cache b = c \<and> 0 < i \<and> bit (sb_map b) i)" for x i
  proof (cases "x = a")
    case True
    then show ?thesis using assms(3-5) by auto
  next
    case False
    show ?thesis using assms(2) [OF False] strip_fields
      by (cases "ss_slabs s' x"; cases "ss_slabs s x") (simp, simp, simp, metis map_option_eq_Some option.inject option.simps(9))
  qed
  then show ?thesis unfolding slab_live_def block_addr_shape [OF assms(1)] by simp
qed

text \<open>The head of the list of free pages is cut off.\<close>

lemma cut_head:
  assumes "lists_ok s c f" "f LFree = a # ys" "a \<noteq> 0" "ss_slabs s a = Some b"
    and "ss_cache s' c = g (ss_cache s c)" "\<And>L k. head_get L (g k) = (if L = LFree then sb_last b else head_get L k)"
    and "ss_slabs s' = (if sb_last b = 0 then ss_slabs s
      else (ss_slabs s)(sb_last b \<mapsto> (the (ss_slabs s (sb_last b)))\<lparr>sb_next := 0\<rparr>))(a := None)"
  shows "lists_ok s' c (f(LFree := ys))"
    and "\<And>x. map_option strip (ss_slabs s' x) = (if x = a then None else map_option strip (ss_slabs s x))"
    and "\<And>x. x \<notin> set (f LFree) \<Longrightarrow> ss_slabs s' x = ss_slabs s x"
    and "sb_next b = 0" "sb_last b = 0 \<or> ss_slabs s (sb_last b) \<noteq> None" "sb_last b \<noteq> a"
proof -
  obtain l where l: "sseg (ss_slabs s) (head_get LFree (ss_cache s c)) 0 (a # ys) 0 l"
    using assms(1,2) unfolding lists_ok_def slist_def by metis
  then have b: "sb_next b = 0" "sseg (ss_slabs s) (sb_last b) a ys 0 l" using assms(4) by auto
  show "sb_next b = 0" by (fact b(1))
  have di: "distinct (a # ys)" using assms(1,2) unfolding lists_ok_def by metis
  have dj: "N \<noteq> LFree \<Longrightarrow> set (f N) \<inter> set (a # ys) = {}" for N using assms(1,2) unfolding lists_ok_def by metis
  show lb: "sb_last b = 0 \<or> ss_slabs s (sb_last b) \<noteq> None" "sb_last b \<noteq> a"
    using b(2) di assms(3) by (cases ys; auto)+
  have out: "x \<notin> set (a # ys) \<Longrightarrow> ss_slabs s' x = ss_slabs s x" for x
    using b(2) assms(7) by (cases ys) auto
  then show "\<And>x. x \<notin> set (f LFree) \<Longrightarrow> ss_slabs s' x = ss_slabs s x" by (simp add: assms(2))
  show "\<And>x. map_option strip (ss_slabs s' x) = (if x = a then None else map_option strip (ss_slabs s x))"
    using lb assms(7) by auto
  have "slist s' c LFree ys"
  proof (cases ys)
    case Nil
    then show ?thesis using b(2) assms(5,6) by (simp add: slist_def)
  next
    case (Cons y vs)
    then obtain d where "sb_last b = y" "y \<noteq> 0" "ss_slabs s y = Some d" "sseg (ss_slabs s) (sb_last d) y vs 0 l" using b(2) by auto
    then show ?thesis using Cons di assms(5-7) by (auto simp: slist_def)
  qed
  moreover have "slist s' c N (f N)" if "N \<noteq> LFree" for N
  proof -
    have "\<forall>x \<in> set (f N). ss_slabs s' x = ss_slabs s x" using out dj [OF that] by blast
    moreover have "slist s c N (f N)" using assms(1) by (simp add: lists_ok_def)
    ultimately show ?thesis using that assms(5,6) sseg_cong [of "f N" "ss_slabs s'" "ss_slabs s"] by (simp add: slist_def)
  qed
  ultimately have "\<forall>L. slist s' c L ((f(LFree := ys)) L)" by simp
  moreover have "\<forall>L. distinct ((f(LFree := ys)) L)" using assms(1) di unfolding lists_ok_def by simp
  moreover have "set ((f(LFree := ys)) L) \<inter> set ((f(LFree := ys)) M) = {}" if "L \<noteq> M" for L M
  proof -
    have "set (f L) \<inter> set (f M) = {}" using assms(1) that unfolding lists_ok_def by blast
    then show ?thesis using that dj [of L] dj [of M] by auto
  qed
  ultimately show "lists_ok s' c (f(LFree := ys))" unfolding lists_ok_def by blast
qed

definition gave_back :: "nat \<Rightarrow> u32 \<Rightarrow> 'r \<Rightarrow> 'r slab_state \<Rightarrow> 'r slab_state \<Rightarrow> bool" where
  "gave_back c a r s s' \<longleftrightarrow> cache_ok s' c \<and> frame c s s' \<and> ss_region s' = r
     \<and> dom (ss_slabs s') = dom (ss_slabs s) - {a} \<and> slab_live s' c = slab_live s c"

lemma free_one_cache_page_ok:
  assumes "cache_ok s c" "sc_free (ss_cache s c) \<noteq> 0" "release (ss_region s) (sc_free (ss_cache s c)) = Some r"
  shows "\<exists>s'. free_one_cache_page release c s = Some s' \<and> gave_back c (sc_free (ss_cache s c)) r s s'"
proof -
  let ?a = "sc_free (ss_cache s c)" and ?k = "ss_cache s c" and ?mb = "unat (sc_map_bits (ss_cache s c))"
  obtain f where f: "lists_ok s c f" "members_ok s c f" using assms(1) by (auto simp: cache_ok_def)
  obtain b where b: "?a \<in> set (f LFree)" "ss_slabs s ?a = Some b" "slab_ok c ?mb LFree b"
    using list_head_member [OF f, of LFree] assms(2) by auto
  have "slist s c LFree (f LFree)" using f(1) by (simp add: lists_ok_def)
  then obtain ys where ys: "f LFree = ?a # ys" using slist_head [of s c LFree] b(1) by (cases "f LFree") auto
  define g where "g = (\<lambda>k :: slab_cache. k\<lparr>sc_free := sb_last b, sc_pages_alloced := sc_pages_alloced k - 1, sc_free_pages := sc_free_pages k - 1\<rparr>)"
  have g: "head_get L (g k) = (if L = LFree then sb_last b else head_get L k)" "shape (g k) = shape k" for L k
    by (cases L; simp add: g_def shape_def)+
  define h where "h = (if sb_last b = 0 then ss_slabs s
    else (ss_slabs s)(sb_last b \<mapsto> (the (ss_slabs s (sb_last b)))\<lparr>sb_next := 0\<rparr>))"
  define s1 where "s1 = slab_cache_do_dtors c ?a ((cache_update g c s)\<lparr>ss_slabs := h\<rparr>)"
  define s' where "s' = s1\<lparr>ss_region := r, ss_slabs := h(?a := None)\<rparr>"
  have s1: "ss_slabs s1 = h" "ss_region s1 = ss_region s" "ss_cache s1 = (ss_cache s)(c := g ?k)"
    by (simp_all add: s1_def slab_cache_do_dtors_def)
  have c1: "ss_cache s' c = g ?k" and sl: "ss_slabs s' = (if sb_last b = 0 then ss_slabs s
      else (ss_slabs s)(sb_last b \<mapsto> (the (ss_slabs s (sb_last b)))\<lparr>sb_next := 0\<rparr>))(?a := None)"
    by (simp_all add: s'_def s1 h_def)
  note ch = cut_head [OF f(1) ys assms(2) b(2) c1 g(1) sl]
  have "free_one_cache_page release c s = slab_release release ?a s1"
    using assms(2) b(2) ch(4-6)
    by (auto simp: free_one_cache_page_def Let_def slab_update_def h_def s1_def g_def cache_update_def)
  also have "\<dots> = Some s'" using assms(3) s1 by (simp add: slab_release_def s'_def)
  finally have run: "free_one_cache_page release c s = Some s'" .
  have sh: "shape (ss_cache s' c) = shape ?k" using c1 g(2) by simp
  have di: "distinct (f LFree)" "N \<noteq> LFree \<Longrightarrow> ?a \<notin> set (f N)" for N using f(1) b(1) unfolding lists_ok_def by blast+
  have "members_ok s' c (f(LFree := ys))"
    by (rule members_removed [OF f(2) b(1) di ch(2)]) (use sh ys di in \<open>auto simp: shape_def\<close>)
  moreover have "cache_shape (ss_cache s' c)" using assms(1) sh unfolding cache_ok_def shape_heads by simp
  ultimately have ok: "cache_ok s' c" using ch(1) unfolding cache_ok_def by blast
  have mo: "map_ok ?mb b" "unat (sb_bits_free b) = ?mb - 1" using b(3) by (simp_all add: slab_ok_def)
  have "0 < ?mb" using assms(1) by (simp add: cache_ok_def cache_shape_def)
  then have nb: "\<not> bit (sb_map b) i" if "0 < i" for i
    using that mo free_bits_all(2) [of "sb_map b" ?mb i] by (auto simp: map_ok_def)
  have an: "ss_slabs s' ?a = None" by (simp add: s'_def)
  have lv: "slab_live s' c = slab_live s c" by (rule live_strip [OF sh _ an b(2) nb]) (use ch(2) in auto)
  have "x \<in> dom (ss_slabs s') \<longleftrightarrow> x \<in> dom (ss_slabs s) - {?a}" for x
    using ch(2) [of x] by (cases "ss_slabs s' x"; cases "ss_slabs s x") (auto split: if_splits)
  then have dm: "dom (ss_slabs s') = dom (ss_slabs s) - {?a}" by blast
  have "frame c s s'" unfolding frame_def
  proof (intro conjI allI impI)
    fix x and d :: slab
    assume nc: "sb_cache d \<noteq> c"
    show "ss_slabs s' x = Some d \<longleftrightarrow> ss_slabs s x = Some d"
    proof (cases "x \<in> set (f LFree)")
      case True
      then obtain e where e: "ss_slabs s x = Some e" "sb_cache e = c" using f(2) unfolding members_ok_def slab_ok_def by blast
      have "ss_slabs s' x \<noteq> Some d"
      proof
        assume "ss_slabs s' x = Some d"
        then have "strip d = strip e" using ch(2) [of x] e(1) by (auto split: if_splits)
        then show False using nc e(2) strip_fields(1) by metis
      qed
      then show ?thesis using nc e by auto
    qed (use ch(3) in simp)
  qed (use sh s1 in \<open>simp_all add: s'_def shape_def\<close>)
  then show ?thesis using run ok lv dm unfolding gave_back_def by (intro exI [of _ s']) (simp add: s'_def)
qed

section \<open>Giving a block back\<close>

lemma map_ok_clear:
  assumes "map_ok mb b" "3 \<le> mb" "mb \<le> 64" "i < mb" "0 < i" "bit (sb_map b) i"
  shows "map_ok mb (b\<lparr>sb_map := sb_map b AND NOT (2 ^ i), sb_bits_free := sb_bits_free b + 1\<rparr>)"
    and "unat (sb_bits_free b + 1) = Suc (unat (sb_bits_free b))" "Suc (unat (sb_bits_free b)) \<le> mb - 1"
proof -
  have n: "free_bits mb (sb_map b AND NOT (2 ^ i)) = Suc (free_bits mb (sb_map b))" using free_bits_clear [OF assms(4,6)] .
  have "free_bits mb (sb_map b AND NOT (2 ^ i)) \<le> mb - 1"
    by (rule free_bits_all(1)) (use assms in \<open>simp_all add: bit_clear map_ok_def\<close>)
  then show le: "Suc (unat (sb_bits_free b)) \<le> mb - 1" using n assms(1) by (simp add: map_ok_def)
  then show p: "unat (sb_bits_free b + 1) = Suc (unat (sb_bits_free b))"
    using assms(3) by (intro unat_succ [of _ 100]) simp_all
  show "map_ok mb (b\<lparr>sb_map := sb_map b AND NOT (2 ^ i), sb_bits_free := sb_bits_free b + 1\<rparr>)"
    using assms n p by (simp add: map_ok_def bit_clear)
qed

lemma map_ok_status [simp]: "map_ok mb (b\<lparr>sb_status := st\<rparr>) = map_ok mb b"
  by (simp add: map_ok_def)

definition cleared :: "nat \<Rightarrow> u32 \<Rightarrow> 'r slab_state \<Rightarrow> 'r slab_state \<Rightarrow> bool" where
  "cleared c p s s' \<longleftrightarrow> slab_live s' c = slab_live s c - {p} \<and> cache_ok s' c \<and> frame c s s'
     \<and> ss_region s' = ss_region s \<and> dom (ss_slabs s') = dom (ss_slabs s)"

lemma cleared_block:
  assumes "cache_ok s c" "ss_slabs s a = Some b" "sb_cache b = c" "sets_slab c a b' s s'"
    and "sb_map b' = sb_map b AND NOT (2 ^ i)" "sb_cache b' = c" "0 < i" "i < unat (sc_map_bits (ss_cache s c))"
  shows "cleared c (block_addr (ss_cache s c) a i) s s'"
proof -
  have "\<forall>j. bit (sb_map b') j \<longrightarrow> j < unat (sc_map_bits (ss_cache s c))"
    using cache_okE(3) [OF assms(1-3)] assms(5) by (auto simp: bit_clear)
  moreover have "\<forall>j. j \<noteq> i \<longrightarrow> bit (sb_map b') j = bit (sb_map b) j" using assms(5) by (auto simp: bit_clear)
  ultimately have "slab_live s' c - {block_addr (ss_cache s c) a i} = slab_live s c - {block_addr (ss_cache s c) a i}"
    "block_addr (ss_cache s c) a i \<notin> slab_live s' c"
    using live_sets [OF assms(1,4,6,2,3) _ _ assms(7,8)] assms(5) by (simp_all add: bit_clear)
  then have "slab_live s' c = slab_live s c - {block_addr (ss_cache s c) a i}" by blast
  then show ?thesis using assms(4) sets_slab_dom [OF assms(4,2)] unfolding cleared_def sets_slab_def by blast
qed

definition slab_trim :: "'r region_free \<Rightarrow> nat \<Rightarrow> 'r slab_state \<Rightarrow> 'r slab_state option" where
  "slab_trim release c s =
     (if sc_max_free (ss_cache s c) < sc_free_pages (ss_cache s c) then free_one_cache_page release c s else Some s)"

lemma free_pages_keeps: "head_get N (k\<lparr>sc_free_pages := n\<rparr>) = head_get N k" "shape (k\<lparr>sc_free_pages := n\<rparr>) = shape k"
  by (cases N; simp add: shape_def)+

lemma slab_free_clears:
  assumes "cache_ok s c" "p \<in> slab_live s c"
  shows "\<exists>s1. slab_free release c p s = slab_trim release c s1 \<and> cleared c p s s1"
proof -
  let ?k = "ss_cache s c" and ?mb = "unat (sc_map_bits (ss_cache s c))"
  obtain a b i where x: "p = block_addr ?k a i" "ss_slabs s a = Some b" "sb_cache b = c" "0 < i" "i < ?mb"
    "bit (sb_map b) i" "page_aligned a" using slab_live_elim [OF assms] .
  have sh: "cache_shape ?k" using assms(1) by (simp add: cache_ok_def)
  then have mb: "3 \<le> ?mb" "?mb \<le> 64" and bs: "sc_block_size ?k \<noteq> 0" by (simp_all add: cache_shape_def)
  obtain f where f: "lists_ok s c f" "members_ok s c f" using assms(1) by (auto simp: cache_ok_def)
  obtain L where L: "a \<in> set (f L)" using f(2) x(2,3) unfolding members_ok_def by blast
  then have bo: "slab_ok c ?mb L b" using f(2) x(2) unfolding members_ok_def by fastforce
  then have mo: "map_ok ?mb b" and r: "list_range L ?mb (unat (sb_bits_free b))"
    and mg: "sb_magic b = DARK_MAGIC" and stt: "sb_status b = status_of L"
    by (simp_all add: slab_ok_def)
  note dec = block_decode [OF x(7) sh x(5)]
  let ?b = "b\<lparr>sb_map := sb_map b AND NOT (2 ^ i), sb_bits_free := sb_bits_free b + 1\<rparr>"
  note mc = map_ok_clear [OF mo mb x(5,4,6)]
  have i64: "\<not> 64 \<le> i" using x(5) mb(2) by simp
  note fold = slab_free_def slab_trim_def x(1,2) dec mg bs Let_def
  have fin: "\<exists>s1. slab_free release c p s = slab_trim release c s1 \<and> cleared c p s s1"
    if "slab_free release c p s = slab_trim release c s1" "sets_slab c a (b'\<lparr>sb_status := st\<rparr>) s s1" "b' = ?b" for s1 b' st
    using that cleared_block [OF assms(1) x(2,3) that(2) _ _ x(4,5)] x(1,3) by auto
  show ?thesis
  proof (cases L)
    case LFree
    then have "\<not> bit (sb_map b) i" using free_bits_all(2) [of "sb_map b" ?mb i] mo r x(4,5) by (simp add: map_ok_def)
    then show ?thesis using x(6) by simp
  next
    case LFull
    have ok: "slab_ok c ?mb LPartial (?b\<lparr>sb_status := SLAB_STATUS_PARTIAL\<rparr>)"
      using mc(1) mc(2) bo r LFull mb(1) by (simp add: slab_ok_def)
    obtain s1 where s1: "slab_cache_move_block c LFull LPartial a (s\<lparr>ss_slabs := (ss_slabs s)(a \<mapsto> ?b\<lparr>sb_status := SLAB_STATUS_PARTIAL\<rparr>)\<rparr>) = Some s1"
      "sets_slab c a (?b\<lparr>sb_status := SLAB_STATUS_PARTIAL\<rparr>) s s1"
      using move_ok [OF sh f L [unfolded LFull] x(2) ok, of "\<lambda>k. k"] by (auto simp: cache_update_def)
    have "1 \<le> sb_bits_free b + 1" unfolding word_le_nat_alt using mc(2) by simp
    then have "slab_free release c p s = slab_trim release c s1" using s1(1) stt LFull i64 by (simp add: fold)
    then show ?thesis using fin s1(2) by blast
  next
    case LPartial
    have e: "sb_bits_free b + 1 = sc_map_bits ?k - 1 \<longleftrightarrow> Suc (unat (sb_bits_free b)) = ?mb - 1"
      unfolding word_unat_eq_iff mc(2) using unat_pred [of "sc_map_bits ?k"] mb(1) by simp
    show ?thesis
    proof (cases "Suc (unat (sb_bits_free b)) = ?mb - 1")
      case True
      let ?g = "\<lambda>k. k\<lparr>sc_free_pages := sc_free_pages k + 1\<rparr>"
      have ok: "slab_ok c ?mb LFree (?b\<lparr>sb_status := SLAB_STATUS_FREE\<rparr>)"
        using mc bo True by (simp add: slab_ok_def map_ok_def)
      obtain s1 where s1: "slab_cache_move_block c LPartial LFree a
          (cache_update ?g c (s\<lparr>ss_slabs := (ss_slabs s)(a \<mapsto> ?b\<lparr>sb_status := SLAB_STATUS_FREE\<rparr>)\<rparr>)) = Some s1"
        "sets_slab c a (?b\<lparr>sb_status := SLAB_STATUS_FREE\<rparr>) s s1"
        using move_ok [OF sh f L [unfolded LPartial] x(2) ok, of ?g] by (auto simp: free_pages_keeps)
      have "slab_free release c p s = slab_trim release c s1" using s1(1) stt LPartial i64 True e by (simp add: fold)
      then show ?thesis using fin s1(2) by blast
    next
      case False
      have "?b = ?b\<lparr>sb_status := SLAB_STATUS_PARTIAL\<rparr>" using stt LPartial by simp
      moreover have "slab_ok c ?mb L ?b" using mc bo False r LPartial by (simp add: slab_ok_def map_ok_def)
      ultimately have s1: "sets_slab c a (?b\<lparr>sb_status := SLAB_STATUS_PARTIAL\<rparr>) s (s\<lparr>ss_slabs := (ss_slabs s)(a \<mapsto> ?b)\<rparr>)"
        using stay_ok [OF sh f L x(2), of ?b] by simp
      have "slab_free release c p s = slab_trim release c (s\<lparr>ss_slabs := (ss_slabs s)(a \<mapsto> ?b)\<rparr>)"
        using stt LPartial i64 False e by (simp add: fold)
      then show ?thesis using fin s1 by blast
    qed
  qed
qed

context page_source
begin

lemma slab_trim_ok:
  assumes "slab_inv s" "cache_ok s c"
  shows "\<exists>s'. slab_trim release c s = Some s' \<and> slab_inv s' \<and> cache_ok s' c \<and> frame c s s' \<and> slab_live s' c = slab_live s c"
proof (cases "sc_max_free (ss_cache s c) < sc_free_pages (ss_cache s c) \<and> sc_free (ss_cache s c) \<noteq> 0")
  case True
  let ?a = "sc_free (ss_cache s c)"
  obtain f where f: "lists_ok s c f" "members_ok s c f" using assms(2) by (auto simp: cache_ok_def)
  obtain b where "ss_slabs s ?a = Some b" using list_head_member [OF f, of LFree] True by auto
  then have "?a \<in> held (ss_region s)" using assms(1) by (auto simp: slab_inv_def)
  then obtain r where r: "release (ss_region s) ?a = Some r" "inv r" "held r = held (ss_region s) - {?a}"
    using release_ok assms(1) unfolding slab_inv_def by blast
  obtain s' where s': "free_one_cache_page release c s = Some s'" "gave_back c ?a r s s'"
    using free_one_cache_page_ok [where release = release, OF assms(2) _ r(1)] True by blast
  then have "slab_inv s'" using r(2,3) assms(1) by (auto simp: slab_inv_def gave_back_def)
  then show ?thesis using s' True unfolding gave_back_def slab_trim_def by auto
next
  case False
  then have "slab_trim release c s = Some s" by (auto simp: slab_trim_def free_one_cache_page_def Let_def)
  then show ?thesis using assms by simp
qed

lemma slab_free_ok:
  assumes "slab_inv s" "cache_ok s c" "p \<in> slab_live s c"
  shows "\<exists>s'. slab_free release c p s = Some s' \<and> slab_inv s' \<and> cache_ok s' c \<and> frame c s s'
    \<and> slab_live s' c = slab_live s c - {p}"
proof -
  obtain s1 where s1: "slab_free release c p s = slab_trim release c s1" "cleared c p s s1"
    using slab_free_clears [OF assms(2,3)] by blast
  then have i: "slab_inv s1" "cache_ok s1 c" "frame c s s1" "slab_live s1 c = slab_live s c - {p}"
    using assms(1) by (simp_all add: slab_inv_def cleared_def)
  from slab_trim_ok [OF i(1,2)] obtain s2 where "slab_trim release c s1 = Some s2" "slab_inv s2" "cache_ok s2 c"
    "frame c s1 s2" "slab_live s2 c = slab_live s1 c" by blast
  then show ?thesis using s1(1) i frame_trans [OF i(3)] by auto
qed

text \<open>The pointer alone leads to its cache.\<close>

lemma slab_free_from_ptr_ok:
  assumes "slab_inv s" "cache_ok s c" "p \<in> slab_live s c"
  shows "\<exists>s'. slab_free_from_ptr release p s = Some s' \<and> slab_inv s' \<and> cache_ok s' c \<and> frame c s s'
    \<and> slab_live s' c = slab_live s c - {p}"
proof -
  obtain a b i where x: "p = block_addr (ss_cache s c) a i" "ss_slabs s a = Some b" "sb_cache b = c" "0 < i"
    "i < unat (sc_map_bits (ss_cache s c))" "bit (sb_map b) i" "page_aligned a" using slab_live_elim [OF assms(2,3)] .
  have sh: "cache_shape (ss_cache s c)" using assms(2) by (simp add: cache_ok_def)
  have "sb_magic b = DARK_MAGIC" using cache_okE(2) [OF assms(2) x(2,3)] by (auto simp: slab_ok_def)
  then have "slab_free_from_ptr release p s = slab_free release c p s"
    using x(1-3) block_decode(1) [OF x(7) sh x(5)] by (simp add: slab_free_from_ptr_def)
  then show ?thesis using slab_free_ok [OF assms] by simp
qed

end

lemma frame_live: "frame c s s' \<Longrightarrow> d \<noteq> c \<Longrightarrow> slab_live s' d = slab_live s d"
  unfolding frame_def slab_live_def by (intro Collect_cong) metis

section \<open>New caches\<close>

lemma slab_map_bits_shape:
  assumes "0 < sz" "sz \<le> 1024" "slab_map_bits sz = Some bits"
  shows "3 \<le> unat bits" "unat bits \<le> 64" "SLAB_PAGE div bits \<noteq> 0" "unat bits * unat (SLAB_PAGE div bits) \<le> 4096"
proof -
  define n where "n = unat sz"
  have n: "0 < n" "n \<le> 1024" using assms(1,2) by (simp_all add: n_def word_less_nat_alt word_le_nat_alt)
  define u where "u = n div 64 + (if 0 < n mod 64 then 1 else 0)"
  define q where "q = n div 64"
  define r where "r = n mod 64"
  have qr: "n div 64 = q" "n mod 64 = r" "n = 64 * q + r" "r < 64" by (simp_all add: q_def r_def)
  then have u: "1 \<le> u" "u \<le> 16" using n unfolding u_def qr(1,2) by (cases r; simp)+
  define units where "units = sz div 64 + (if 0 < sz mod 64 then 1 else 0)"
  have md: "(0 < sz mod 64) = (0 < n mod 64)" by (simp add: word_less_nat_alt unat_mod_distrib n_def)
  have dv: "unat (sz div 64) = n div 64" by (simp add: unat_div_distrib n_def)
  have uu: "unat units = u" using u n dv md by (auto simp: units_def u_def unat_word_ariths split: if_splits)
  then have u0: "units \<noteq> 0" using u(1) by auto
  have b: "bits = 64 div units - (64 div units) mod 2"
    using assms(3) u0 by (simp add: slab_map_bits_def SLAB_PAGE_def SLAB_MAX_BITS_def units_def Let_def split: if_splits)
  have q: "unat (64 div units) = 64 div u" using uu by (simp add: unat_div_distrib)
  have "(64 div units) mod 2 \<le> 64 div units" unfolding word_le_nat_alt unat_mod_distrib by (rule mod_less_eq_dividend)
  then have bn: "unat bits = 64 div u - (64 div u) mod 2" unfolding b by (simp add: unat_sub unat_mod_distrib q)
  have "4 \<le> 64 div u" "64 div u \<le> 64" using u by (simp_all add: less_eq_div_iff_mult_less_eq div_le_dividend)
  then show l: "3 \<le> unat bits" and h: "unat bits \<le> 64" unfolding bn by arith+
  have d: "unat (SLAB_PAGE div bits) = 4096 div unat bits" by (simp add: unat_div_distrib SLAB_PAGE_def)
  have "64 \<le> 4096 div unat bits" using l h by (simp add: less_eq_div_iff_mult_less_eq)
  then show "SLAB_PAGE div bits \<noteq> 0" using d by auto
  show "unat bits * unat (SLAB_PAGE div bits) \<le> 4096" unfolding d by (rule times_div_less_eq_dividend)
qed

lemma fresh_cache_ok:
  assumes "\<forall>a b. ss_slabs s a = Some b \<longrightarrow> sb_cache b \<noteq> c" "cache_shape k" "\<And>L. head_get L k = 0"
  shows "cache_ok (cache_update (\<lambda>_. k) c s) c" "slab_live (cache_update (\<lambda>_. k) c s) c = {}"
proof -
  let ?s = "cache_update (\<lambda>_. k) c s"
  have "lists_ok ?s c (\<lambda>_. [])" using assms(3) by (simp add: lists_ok_def slist_def)
  moreover have "members_ok ?s c (\<lambda>_. [])" using assms(1) by (auto simp: members_ok_def)
  ultimately show "cache_ok ?s c" using assms(2) unfolding cache_ok_def by auto
  show "slab_live ?s c = {}" using assms(1) by (auto simp: slab_live_def)
qed

context page_source
begin

lemma new_slab_cache_ok:
  assumes "slab_inv s" "\<forall>a b. ss_slabs s a = Some b \<longrightarrow> sb_cache b \<noteq> c" "0 < sz" "sz \<le> 1024"
    and "new_slab_cache_at_addr alloc c sz ctor dtor s = Some s'"
  shows "slab_inv s' \<and> cache_ok s' c \<and> slab_live s' c = {} \<and> (\<forall>d. d \<noteq> c \<longrightarrow> cache_ok s d \<longrightarrow> cache_ok s' d \<and> slab_live s' d = slab_live s d)
    \<and> (\<forall>a b. sb_cache b \<noteq> c \<longrightarrow> ss_slabs s' a = Some b \<longrightarrow> ss_slabs s a = Some b)"
proof -
  obtain bits where b: "slab_map_bits sz = Some bits" "bits \<noteq> 0"
    using assms(5) by (auto simp: new_slab_cache_at_addr_def split: if_splits elim!: bind_SomeE)
  define k where "k = \<lparr>sc_free = 0, sc_partial = 0, sc_full = 0, sc_ctor = ctor, sc_dtor = dtor,
    sc_obj_size = sz, sc_pages_alloced = 0, sc_map_bits = bits, sc_block_size = SLAB_PAGE div bits,
    sc_free_pages = 0, sc_max_free = MAX_FREE_PAGES\<rparr>"
  let ?s = "cache_update (\<lambda>_. k) c s"
  have run: "slab_cache_add_page_block alloc c ?s = Some s'"
    using assms(5) b by (simp add: new_slab_cache_at_addr_def k_def)
  have sh: "cache_shape k" using slab_map_bits_shape [OF assms(3,4) b(1)] by (simp add: cache_shape_def k_def)
  have hd: "head_get L k = 0" for L by (cases L) (simp_all add: k_def)
  note f = fresh_cache_ok [OF assms(2) sh hd]
  have i: "slab_inv ?s" using assms(1) by (simp add: slab_inv_def)
  from add_page_block_ok [OF i f(1) run] have a: "slab_inv s'" "cache_ok s' c" "frame c ?s s'" "slab_live s' c = {}"
    using f(2) by simp_all
  have "cache_ok s' d" "slab_live s' d = slab_live s d" if "d \<noteq> c" "cache_ok s d" for d
  proof -
    have "lists_ok ?s d f = lists_ok s d f" "members_ok ?s d f = members_ok s d f" for f
      using that(1) by (simp_all add: lists_ok_def slist_def members_ok_def)
    then have "cache_ok ?s d" using that by (simp add: cache_ok_def)
    then show "cache_ok s' d" by (rule frame_cache_ok [OF a(3) that(1)])
    show "slab_live s' d = slab_live s d" using frame_live [OF a(3) that(1)] that(1) by (simp add: slab_live_def)
  qed
  moreover have "\<forall>a b. sb_cache b \<noteq> c \<longrightarrow> ss_slabs s' a = Some b \<longrightarrow> ss_slabs s a = Some b"
    using a(3) by (simp add: frame_def)
  ultimately show ?thesis using a by blast
qed

end

end
