(* ===== verification/SlabHeap.thy ===== *)
theory SlabHeap
  imports SlabRefine
begin

text \<open>
  The slab allocator on the page regions of the kernel: blocks in use never overlap, and any
  sequence of client operations refines a store of blocks.
\<close>

section \<open>The bytes of a block\<close>

definition block_bytes :: "'r slab_state \<Rightarrow> nat \<Rightarrow> u32 \<Rightarrow> nat set" where
  "block_bytes s c p = {unat p ..< unat p + unat (sc_block_size (ss_cache s c))}"

lemma aligned_dvd: "page_aligned a \<Longrightarrow> 4096 dvd unat a"
proof -
  assume "page_aligned a"
  moreover have "(0xfff :: u32) = mask 12" by (simp add: mask_eq_exp_minus_1)
  ultimately have "take_bit 12 a = 0" by (simp add: page_aligned_def take_bit_eq_mask)
  then have "take_bit 12 (unat a) = 0" by (metis unsigned_0 unsigned_take_bit_eq)
  then show ?thesis by (simp add: take_bit_eq_mod mod_eq_0_iff_dvd)
qed

lemma block_in_page:
  assumes "page_aligned a" "cache_shape k" "i < unat (sc_map_bits k)"
  shows "unat (block_addr k a i) = unat a + i * unat (sc_block_size k)"
    and "i * unat (sc_block_size k) + unat (sc_block_size k) \<le> 4096"
proof -
  note o = block_offset [OF assms(2,3)]
  obtain q where q: "unat a = 4096 * q" using aligned_dvd [OF assms(1)] by blast
  have "unat a < 2 ^ 32" by simp
  then have "q < 2 ^ 20" using q by simp
  then have "4096 * q + 4096 \<le> 2 ^ 32" by simp
  then have "unat a + unat (of_nat i * sc_block_size k) < 2 ^ LENGTH(32)" using o q by simp
  then show "unat (block_addr k a i) = unat a + i * unat (sc_block_size k)"
    using unat_add_lem [of a "of_nat i * sc_block_size k"] o(1) by (simp add: block_addr_def)
  have "Suc i * unat (sc_block_size k) \<le> unat (sc_map_bits k) * unat (sc_block_size k)"
    using assms(3) by (intro mult_le_mono) simp_all
  also have "\<dots> \<le> 4096" using assms(2) unfolding cache_shape_def by blast
  finally show "i * unat (sc_block_size k) + unat (sc_block_size k) \<le> 4096" by simp
qed

lemma rows_disjoint:
  fixes i j n :: nat
  assumes "i \<noteq> j"
  shows "{i * n ..< i * n + n} \<inter> {j * n ..< j * n + n} = {}"
proof -
  have "i < j \<or> j < i" using assms by arith
  then have "i * n + n \<le> j * n \<or> j * n + n \<le> i * n"
    by (metis Suc_leI add.commute mult_Suc mult_le_mono1)
  then show ?thesis by auto
qed

lemma live_blocks_disjoint:
  assumes "cache_ok s c" "cache_ok s d" "p \<in> slab_live s c" "q \<in> slab_live s d" "(c, p) \<noteq> (d, q)"
  shows "block_bytes s c p \<inter> block_bytes s d q = {}"
proof -
  obtain a b i where x: "p = block_addr (ss_cache s c) a i" "ss_slabs s a = Some b" "sb_cache b = c"
    "i < unat (sc_map_bits (ss_cache s c))" "page_aligned a" using slab_live_elim [OF assms(1,3)] .
  obtain a' b' j where y: "q = block_addr (ss_cache s d) a' j" "ss_slabs s a' = Some b'" "sb_cache b' = d"
    "j < unat (sc_map_bits (ss_cache s d))" "page_aligned a'" using slab_live_elim [OF assms(2,4)] .
  have sh: "cache_shape (ss_cache s c)" "cache_shape (ss_cache s d)" using assms(1,2) by (simp_all add: cache_ok_def)
  note bp = block_in_page [OF x(5) sh(1) x(4)] and bq = block_in_page [OF y(5) sh(2) y(4)]
  show ?thesis
  proof (cases "a = a'")
    case True
    then have "c = d" using x(2,3) y(2,3) by simp
    then have "i \<noteq> j" using True x(1) y(1) assms(5) by auto
    from rows_disjoint [OF this, of "unat (sc_block_size (ss_cache s c))"] show ?thesis
      using bp(1) bq(1) x(1) y(1) True \<open>c = d\<close> by (auto simp: block_bytes_def disjoint_iff)
  next
    case False
    obtain u v where uv: "unat a = 4096 * u" "unat a' = 4096 * v" using aligned_dvd x(5) y(5) unfolding dvd_def by blast
    then have "u \<noteq> v" using False by (auto simp: word_unat_eq_iff)
    then have "4096 * u + 4096 \<le> 4096 * v \<or> 4096 * v + 4096 \<le> 4096 * u" by arith
    then show ?thesis using bp bq x(1) y(1) uv by (auto simp: block_bytes_def disjoint_iff)
  qed
qed

section \<open>Runs of the allocator on the page region\<close>

type_synonym region_state = "region \<times> paging"

text \<open>
  \<open>slab_trace junk s C B\<close>: from an empty heap the operations of clients lead to the state \<open>s\<close> with the
  caches \<open>C\<close>, and the clients hold the blocks \<open>B\<close>: they give back only what they were given.
\<close>

inductive slab_trace :: "u32 list \<Rightarrow> region_state slab_state \<Rightarrow> nat set \<Rightarrow> (nat \<times> u32) set \<Rightarrow> bool" for junk where
  trace_start: "region_inv (ss_region s) \<Longrightarrow> ss_slabs s = (\<lambda>_. None) \<Longrightarrow> slab_trace junk s {} {}"
| trace_cache: "slab_trace junk s C B \<Longrightarrow> c \<notin> C \<Longrightarrow> 0 < sz \<Longrightarrow> sz \<le> 1024 \<Longrightarrow>
    new_slab_cache_at_addr (bitmap_region_alloc_page junk) c sz ctor dtor s = Some s' \<Longrightarrow> slab_trace junk s' (insert c C) B"
| trace_alloc: "slab_trace junk s C B \<Longrightarrow> c \<in> C \<Longrightarrow> slab_alloc (bitmap_region_alloc_page junk) c s = Some (s', p) \<Longrightarrow>
    p \<noteq> 0 \<Longrightarrow> slab_trace junk s' C (insert (c, p) B)"
| trace_alloc_fails: "slab_trace junk s C B \<Longrightarrow> c \<in> C \<Longrightarrow> slab_alloc (bitmap_region_alloc_page junk) c s = Some (s', 0) \<Longrightarrow>
    slab_trace junk s' C B"
| trace_free: "slab_trace junk s C B \<Longrightarrow> (c, p) \<in> B \<Longrightarrow> slab_free_from_ptr bitmap_region_free_page p s = Some s' \<Longrightarrow>
    slab_trace junk s' C (B - {(c, p)})"

definition heap_inv :: "region_state slab_state \<Rightarrow> nat set \<Rightarrow> (nat \<times> u32) set \<Rightarrow> bool" where
  "heap_inv s C B \<longleftrightarrow> page_source.slab_inv region_inv region_held s \<and> (\<forall>c \<in> C. cache_ok s c)
     \<and> (\<forall>a b. ss_slabs s a = Some b \<longrightarrow> sb_cache b \<in> C) \<and> (\<forall>c p. (c, p) \<in> B \<longleftrightarrow> c \<in> C \<and> p \<in> slab_live s c)"

lemma heap_invD:
  assumes "heap_inv s C B"
  shows "page_source.slab_inv region_inv region_held s" "c \<in> C \<Longrightarrow> cache_ok s c"
    "ss_slabs s a = Some b \<Longrightarrow> sb_cache b \<in> C" "(c, p) \<in> B \<longleftrightarrow> c \<in> C \<and> p \<in> slab_live s c"
  using assms unfolding heap_inv_def by simp_all

lemma heap_step:
  assumes "heap_inv s C B" "page_source.slab_inv region_inv region_held s'" "cache_ok s' c" "frame c s s'" "c \<in> C"
    and "\<And>d p. (d, p) \<in> B' \<longleftrightarrow> d \<in> C \<and> (if d = c then p \<in> slab_live s' c else (d, p) \<in> B)"
  shows "heap_inv s' C B'"
proof -
  have "cache_ok s' d" if "d \<in> C" for d
    using frame_cache_ok [OF assms(4), of d] assms(1,3) that unfolding heap_inv_def by (cases "d = c") auto
  moreover have "sb_cache b \<in> C" if "ss_slabs s' a = Some b" for a b
    using that assms(1,4,5) unfolding heap_inv_def frame_def by (cases "sb_cache b = c") auto
  moreover have "(d, p) \<in> B' \<longleftrightarrow> d \<in> C \<and> p \<in> slab_live s' d" for d p
    using assms(1,6) frame_live [OF assms(4), of d] unfolding heap_inv_def by (cases "d = c") auto
  ultimately show ?thesis using assms(2) unfolding heap_inv_def by blast
qed

lemma new_cache_heap:
  assumes "heap_inv s C B" "c \<notin> C" "0 < sz" "sz \<le> 1024"
    and "new_slab_cache_at_addr (bitmap_region_alloc_page junk) c sz ctor dtor s = Some s'"
  shows "heap_inv s' (insert c C) B"
proof -
  have nc: "\<forall>a b. ss_slabs s a = Some b \<longrightarrow> sb_cache b \<noteq> c" using assms(1,2) unfolding heap_inv_def by blast
  have i: "page_source.slab_inv region_inv region_held s" using assms(1) by (simp add: heap_inv_def)
  note n = rgn.new_slab_cache_ok [OF i nc assms(3-5)]
  then have n1: "page_source.slab_inv region_inv region_held s'" "cache_ok s' c" "slab_live s' c = {}"
    and n2: "d \<noteq> c \<Longrightarrow> cache_ok s d \<Longrightarrow> cache_ok s' d \<and> slab_live s' d = slab_live s d"
    and n3: "sb_cache b \<noteq> c \<Longrightarrow> ss_slabs s' a = Some b \<Longrightarrow> ss_slabs s a = Some b" for a b d
    by blast+
  note h = heap_invD [OF assms(1)]
  have slabs: "\<forall>a b. ss_slabs s' a = Some b \<longrightarrow> sb_cache b \<in> insert c C" using n3 h(3) by blast
  have ok: "\<forall>d \<in> insert c C. cache_ok s' d"
  proof
    fix d
    assume "d \<in> insert c C"
    then show "cache_ok s' d" using n1(2) n2 [of d] h(2) [of d] by (cases "d = c") simp_all
  qed
  have "(d, p) \<in> B \<longleftrightarrow> d \<in> insert c C \<and> p \<in> slab_live s' d" for d p
  proof (cases "d \<in> C")
    case True
    then have "d \<noteq> c" using assms(2) by auto
    then show ?thesis using n2 [of d] h(2) [OF True] h(4) [of d p] True by simp
  next
    case False
    then show ?thesis using n1(3) h(4) [of d p] by auto
  qed
  then show ?thesis using n1(1) slabs ok unfolding heap_inv_def by blast
qed

lemma slab_trace_inv: "slab_trace junk s C B \<Longrightarrow> heap_inv s C B"
proof (induction rule: slab_trace.induct)
  case (trace_start s)
  then show ?case by (simp add: heap_inv_def rgn.slab_inv_def)
next
  case (trace_cache s C B c sz ctor dtor s')
  then show ?case using new_cache_heap by blast
next
  case (trace_alloc s C B c s' p)
  then have i: "page_source.slab_inv region_inv region_held s" "cache_ok s c" by (simp_all add: heap_inv_def)
  note a = rgn.slab_alloc_ok [OF i trace_alloc.hyps(3), unfolded rgn.allocates_def]
  show ?case
    by (rule heap_step [OF trace_alloc.IH, of _ c]) (use a trace_alloc in \<open>auto simp: heap_inv_def\<close>)
next
  case (trace_alloc_fails s C B c s')
  then have i: "page_source.slab_inv region_inv region_held s" "cache_ok s c" by (simp_all add: heap_inv_def)
  note a = rgn.slab_alloc_ok [OF i trace_alloc_fails.hyps(3), unfolded rgn.allocates_def]
  show ?case
    by (rule heap_step [OF trace_alloc_fails.IH, of _ c]) (use a trace_alloc_fails in \<open>auto simp: heap_inv_def\<close>)
next
  case (trace_free s C B c p s')
  then have i: "page_source.slab_inv region_inv region_held s" "cache_ok s c" "p \<in> slab_live s c" "c \<in> C"
    by (auto simp: heap_inv_def)
  from rgn.slab_free_from_ptr_ok [OF i(1-3)] trace_free.hyps(3) have a: "page_source.slab_inv region_inv region_held s'"
    "cache_ok s' c" "frame c s s'" "slab_live s' c = slab_live s c - {p}" by auto
  show ?case
    by (rule heap_step [OF trace_free.IH a(1-3) i(4)]) (use a(4) trace_free.IH in \<open>auto simp: heap_inv_def\<close>)
qed

lemma slab_trace_alloc_fresh:
  assumes "slab_trace junk s C B" "c \<in> C" "slab_alloc (bitmap_region_alloc_page junk) c s = Some (s', p)" "p \<noteq> 0"
  shows "(c, p) \<notin> B"
proof -
  note h = heap_invD [OF slab_trace_inv [OF assms(1)]]
  show ?thesis using rgn.slab_alloc_ok [OF h(1) h(2) assms(3)] assms(2,4) h(4) by (simp add: rgn.allocates_def)
qed

lemma slab_trace_free_total:
  assumes "slab_trace junk s C B" "(c, p) \<in> B"
  shows "\<exists>s'. slab_free_from_ptr bitmap_region_free_page p s = Some s' \<and> slab_trace junk s' C (B - {(c, p)})"
proof -
  note h = heap_invD [OF slab_trace_inv [OF assms(1)]]
  have "c \<in> C" "p \<in> slab_live s c" using assms(2) h(4) by simp_all
  then obtain s' where "slab_free_from_ptr bitmap_region_free_page p s = Some s'"
    using rgn.slab_free_from_ptr_ok [OF h(1) h(2)] by blast
  then show ?thesis using trace_free [OF assms] by simp
qed

text \<open>C26. The slab allocator implements a store of blocks: after any sequence of creating caches,
  allocating and giving back, the blocks of a cache that are in use are exactly those that the
  clients hold, their bytes never overlap, an allocation never returns a block that is held, and
  giving back a block that is held always succeeds and takes away just this block.\<close>

theorem slab_trace_refines:
  assumes "slab_trace junk s C B"
  shows "(\<forall>c \<in> C. slab_live s c = {p. (c, p) \<in> B})
    \<and> (\<forall>c p d q. (c, p) \<in> B \<longrightarrow> (d, q) \<in> B \<longrightarrow> (c, p) \<noteq> (d, q) \<longrightarrow> block_bytes s c p \<inter> block_bytes s d q = {})
    \<and> (\<forall>c \<in> C. \<forall>s' p. slab_alloc (bitmap_region_alloc_page junk) c s = Some (s', p) \<longrightarrow> p \<noteq> 0 \<longrightarrow> (c, p) \<notin> B)
    \<and> (\<forall>c p. (c, p) \<in> B \<longrightarrow> (\<exists>s'. slab_free_from_ptr bitmap_region_free_page p s = Some s' \<and> slab_trace junk s' C (B - {(c, p)})))"
proof (intro conjI allI ballI impI)
  note h = heap_invD [OF slab_trace_inv [OF assms]]
  show "c \<in> C \<Longrightarrow> slab_live s c = {p. (c, p) \<in> B}" for c using h(4) by simp
  show "block_bytes s c p \<inter> block_bytes s d q = {}" if "(c, p) \<in> B" "(d, q) \<in> B" "(c, p) \<noteq> (d, q)" for c p d q
    by (rule live_blocks_disjoint) (use that h in simp_all)
qed (use slab_trace_alloc_fresh [OF assms] slab_trace_free_total [OF assms] in blast)+

text \<open>A heap with one cache on the small region.\<close>

definition small_heap :: "region_state slab_state" where
  "small_heap = \<lparr>ss_slabs = (\<lambda>_. None), ss_cache = (\<lambda>_. \<lparr>sc_free = 0, sc_partial = 0, sc_full = 0, sc_ctor = False,
     sc_dtor = False, sc_obj_size = 0, sc_pages_alloced = 0, sc_map_bits = 0, sc_block_size = 0, sc_free_pages = 0,
     sc_max_free = 0\<rparr>), ss_region = (small_region, small_paging), ss_ctor_calls = [], ss_dtor_calls = []\<rparr>"

lemma small_heap_run:
  "map_option snd (do { s1 \<leftarrow> new_slab_cache_at_addr (bitmap_region_alloc_page []) 0 64 False False small_heap;
                        slab_alloc (bitmap_region_alloc_page []) 0 s1 }) = Some 0xc040"
  by code_simp

lemma slab_trace_refines_witness:
  "\<exists>s s'. slab_trace [] s {0} {(0, 0xc040)} \<and> slab_live s 0 = {0xc040}
    \<and> slab_free_from_ptr bitmap_region_free_page 0xc040 s = Some s' \<and> slab_trace [] s' {0} {}"
proof -
  obtain s1 s where s1: "new_slab_cache_at_addr (bitmap_region_alloc_page []) 0 64 False False small_heap = Some s1"
    and s: "slab_alloc (bitmap_region_alloc_page []) 0 s1 = Some (s, 0xc040)"
    using small_heap_run by (auto simp: bind_eq_Some_conv)
  have "slab_trace [] small_heap {} {}" by (rule trace_start) (simp_all add: small_heap_def small_region_inv)
  from trace_cache [OF this _ _ _ s1] have "slab_trace [] s1 {0} {}" by simp
  from trace_alloc [OF this _ s] have t: "slab_trace [] s {0} {(0, 0xc040)}" by simp
  show ?thesis using slab_trace_refines [OF t] t by auto
qed

end
