(* ===== verification/Semaphore.thy ===== *)
theory Semaphore
  imports Prelude
begin

text \<open>
  \<^verbatim>\<open>kernel/base/tasking/semaphore.c\<close> and the inline functions of its header: counting
  semaphores and variables protected by one. Entering a semaphore at 0 waits for another task
  to leave it; as an operation of one task alone that is \<open>None\<close>.
\<close>

definition init_semaphore :: "int \<Rightarrow> int" where
  "init_semaphore nallowed = nallowed"

definition enter_semaphore :: "int \<Rightarrow> int option" where
  "enter_semaphore sem = (if sem \<noteq> 0 then Some (sem - 1) else None)"

definition leave_semaphore :: "int \<Rightarrow> int" where
  "leave_semaphore sem = sem + 1"

record 'a protected_var =
  pv_sem :: int
  pv_var :: 'a
  pv_flags :: int

definition create_protected_var :: "int \<Rightarrow> 'a \<Rightarrow> 'a protected_var" where
  "create_protected_var nallowed var = \<lparr>pv_sem = nallowed, pv_var = var, pv_flags = 0\<rparr>"

definition access_protected_var :: "'a protected_var \<Rightarrow> ('a protected_var \<times> 'a) option" where
  "access_protected_var v = map_option (\<lambda>s. (v\<lparr>pv_sem := s\<rparr>, pv_var v)) (enter_semaphore (pv_sem v))"

definition leave_protected_var :: "'a protected_var \<Rightarrow> 'a protected_var" where
  "leave_protected_var v = v\<lparr>pv_sem := leave_semaphore (pv_sem v)\<rparr>"

lemma enter_leave: "enter_semaphore sem = Some s \<Longrightarrow> leave_semaphore s = sem"
  by (auto simp: enter_semaphore_def leave_semaphore_def split: if_splits)

lemma enter_positive [simp]: "0 < sem \<Longrightarrow> enter_semaphore sem = Some (sem - 1)"
  by (simp add: enter_semaphore_def)

lemma leave_after_enter [simp]: "leave_semaphore (sem - 1) = sem"
  by (simp add: leave_semaphore_def)

section \<open>Several tasks\<close>

text \<open>Where a task is: outside, past the test of \<open>enter_semaphore\<close> but before its decrement, waiting
  until the scheduler finds the semaphore non-zero, or inside.\<close>

datatype sem_pc = Outside | Passed | Blocked | Inside

text \<open>A step of one task when the timer can interrupt between the test and the decrement.\<close>

inductive sem_step :: "int \<times> sem_pc list \<Rightarrow> int \<times> sem_pc list \<Rightarrow> bool" where
  pass: "i < length ps \<Longrightarrow> ps ! i = Outside \<Longrightarrow> v \<noteq> 0 \<Longrightarrow> sem_step (v, ps) (v, ps[i := Passed])"
| block: "i < length ps \<Longrightarrow> ps ! i = Outside \<Longrightarrow> v = 0 \<Longrightarrow> sem_step (v, ps) (v, ps[i := Blocked])"
| wake: "i < length ps \<Longrightarrow> ps ! i = Blocked \<Longrightarrow> v \<noteq> 0 \<Longrightarrow> sem_step (v, ps) (v, ps[i := Passed])"
| take: "i < length ps \<Longrightarrow> ps ! i = Passed \<Longrightarrow> sem_step (v, ps) (v - 1, ps[i := Inside])"
| leave: "i < length ps \<Longrightarrow> ps ! i = Inside \<Longrightarrow> sem_step (v, ps) (leave_semaphore v, ps[i := Outside])"

text \<open>A step of one task when nothing comes between the test and the decrement.\<close>

inductive sem_atomic :: "int \<times> sem_pc list \<Rightarrow> int \<times> sem_pc list \<Rightarrow> bool" where
  enter: "i < length ps \<Longrightarrow> ps ! i = Outside \<or> ps ! i = Blocked \<Longrightarrow> enter_semaphore v = Some v' \<Longrightarrow>
          sem_atomic (v, ps) (v', ps[i := Inside])"
| stay: "i < length ps \<Longrightarrow> ps ! i = Outside \<Longrightarrow> enter_semaphore v = None \<Longrightarrow> sem_atomic (v, ps) (v, ps[i := Blocked])"
| exit: "i < length ps \<Longrightarrow> ps ! i = Inside \<Longrightarrow> sem_atomic (v, ps) (leave_semaphore v, ps[i := Outside])"

inductive_cases sem_atomicE: "sem_atomic (v, ps) (v', ps')"

code_pred sem_atomic .

definition holders :: "sem_pc list \<Rightarrow> nat" where
  "holders ps = count_list ps Inside"

lemma count_list_update:
  "i < length xs \<Longrightarrow> count_list (xs[i := y]) x + (if xs ! i = x then 1 else 0) = count_list xs x + (if y = x then 1 else 0)"
proof (induction xs arbitrary: i)
  case (Cons z xs)
  show ?case
  proof (cases i)
    case (Suc j)
    then show ?thesis using Cons.IH [of j] Cons.prems by (simp split: if_splits)
  qed auto
qed simp

lemma holders_update:
  "i < length ps \<Longrightarrow> int (holders (ps[i := p])) = int (holders ps) - (if ps ! i = Inside then 1 else 0) + (if p = Inside then 1 else 0)"
  using count_list_update [of i ps p Inside] by (auto simp: holders_def split: if_splits)

lemma sem_atomic_inv:
  "sem_atomic (v, ps) (v', ps') \<Longrightarrow> 0 \<le> v \<Longrightarrow> 0 \<le> v' \<and> v' + int (holders ps') = v + int (holders ps)"
  by (elim sem_atomicE) (auto simp: holders_update enter_semaphore_def leave_semaphore_def split: if_splits)

lemma sem_atomic_reach:
  "sem_atomic\<^sup>*\<^sup>* (v, ps) (v', ps') \<Longrightarrow> 0 \<le> v \<Longrightarrow> 0 \<le> v' \<and> v' + int (holders ps') = v + int (holders ps)"
proof (induction rule: rtranclp_induct2)
  case (step v1 ps1 v2 ps2)
  then show ?case using sem_atomic_inv [of v1 ps1 v2 ps2] by auto
qed simp

lemma holders_start [simp]: "holders (replicate k Outside) = 0"
  by (induction k) (simp_all add: holders_def)

section \<open>Properties\<close>

text \<open>C35. A semaphore of \<open>n\<close> admits at most \<open>n\<close> tasks at a time, and its value is the number of
  places left, if entering it is not interrupted.\<close>

theorem semaphore_bounds_holders:
  assumes "sem_atomic\<^sup>*\<^sup>* (init_semaphore (int n), replicate k Outside) (v, ps)"
  shows "holders ps \<le> n \<and> v = int n - int (holders ps)"
  using sem_atomic_reach [OF assms] by (simp add: init_semaphore_def)

lemma semaphore_bounds_holders_witness:
  "holders [Inside, Blocked] \<le> 1"
proof -
  have "sem_atomic (1, [Outside, Outside]) (0, [Inside, Outside])"
    using sem_atomic.enter [of 0 "[Outside, Outside]" 1 0] by simp
  moreover have "sem_atomic (0, [Inside, Outside]) (0, [Inside, Blocked])"
    using sem_atomic.stay [of 1 "[Inside, Outside]" 0] by (simp add: enter_semaphore_def)
  ultimately have "sem_atomic\<^sup>*\<^sup>* (init_semaphore (int 1), replicate 2 Outside) (0, [Inside, Blocked])"
    by (simp add: init_semaphore_def numeral_2_eq_2)
  from semaphore_bounds_holders [OF this] show ?thesis by simp
qed

text \<open>The test and the decrement are separate: when the timer interrupts between them, two
  tasks enter a semaphore that admits one, and its value is negative, which counts as free.\<close>

theorem semaphore_race:
  "\<exists>ps. sem_step\<^sup>*\<^sup>* (init_semaphore 1, [Outside, Outside]) (-1, ps) \<and> holders ps = 2 \<and> enter_semaphore (-1) \<noteq> None"
proof -
  have "sem_step\<^sup>*\<^sup>* (1, [Outside, Outside]) (1, [Passed, Outside])"
    using sem_step.pass [of 0 "[Outside, Outside]" 1] by (simp add: r_into_rtranclp)
  also have "sem_step\<^sup>*\<^sup>* (1, [Passed, Outside]) (1, [Passed, Passed])"
    using sem_step.pass [of 1 "[Passed, Outside]" 1] by (simp add: r_into_rtranclp)
  also have "sem_step\<^sup>*\<^sup>* (1, [Passed, Passed]) (0, [Inside, Passed])"
    using sem_step.take [of 0 "[Passed, Passed]" 1] by (simp add: r_into_rtranclp)
  also have "sem_step\<^sup>*\<^sup>* (0, [Inside, Passed]) (-1, [Inside, Inside])"
    using sem_step.take [of 1 "[Inside, Passed]" 0] by (simp add: r_into_rtranclp)
  finally have "sem_step\<^sup>*\<^sup>* (init_semaphore 1, [Outside, Outside]) (-1, [Inside, Inside])"
    by (simp add: init_semaphore_def)
  then show ?thesis by (intro exI [of _ "[Inside, Inside]"]) (simp add: holders_def enter_semaphore_def)
qed

end
