(* ===== verification/SHeap.thy ===== *)
theory SHeap
  imports Slab CStrings Region Semaphore
begin

text \<open>
  \<^verbatim>\<open>kernel/base/mem/salloc.c\<close>, the kernel heap: sixteen slab caches for requests below 1024
  bytes and whole pages with a length word for larger ones, and the \<open>kmalloc\<close> family of
  \<^verbatim>\<open>kernel/base/mem/alloc.c\<close> that guards it with a semaphore. The caches are the indices \<open>0\<close> to
  \<open>15\<close> of the slab state. \<open>sp_sizes\<close> holds the length words at the start of large blocks,
  \<open>sp_data\<close> the bytes of the heap window. Waiting on the semaphore is \<open>None\<close>: it needs another task.
\<close>

section \<open>State\<close>

record 'r sheap =
  sp_slabs :: "'r slab_state"
  sp_sizes :: "u32 \<Rightarrow> u32 option"
  sp_data :: memory
  sp_max_size :: u32

section \<open>Size classes\<close>

text \<open>A divisor of zero is a division by zero.\<close>

definition sheap_valid_denom :: "u32 \<Rightarrow> bool" where
  "sheap_valid_denom i =
     (let minsize = PAGE_SIZE div SLAB_MAX_BITS in
      (SLAB_MAX_BITS div i) mod 2 \<noteq> 1 \<and> PAGE_SIZE div (SLAB_MAX_BITS div i) div minsize = i)"

text \<open>\<open>while ( !sheap_valid_denom( bits ) && bits <= 16 ) bits++\<close>.\<close>

function sheap_next_denom :: "u32 \<Rightarrow> u32" where
  "sheap_next_denom bits =
     (if \<not> sheap_valid_denom bits \<and> bits \<le> 16 then sheap_next_denom (bits + 1) else bits)"
  by pat_completeness auto
termination
proof (relation "measure (\<lambda>b. 17 - unat b)", goal_cases)
  case (2 bits)
  then have "unat bits < 17" by (simp add: word_le_nat_alt)
  then show ?case using unat_succ [of bits 17] by simp
qed simp

declare sheap_next_denom.simps [simp del]

definition sheap_bits :: "u32 \<Rightarrow> u32" where
  "sheap_bits sz =
     (let temp = PAGE_SIZE div SLAB_MAX_BITS
      in sheap_next_denom (sz div temp + (if 0 < sz mod temp then 1 else 0)))"

section \<open>Operations\<close>

fun sheap_init_caches :: "'r region_alloc \<Rightarrow> u32 list \<Rightarrow> 'r slab_state \<Rightarrow> 'r slab_state option" where
  "sheap_init_caches alloc [] s = Some s"
| "sheap_init_caches alloc (i # is) s =
     do { s' \<leftarrow> (if sheap_valid_denom i
                then new_slab_cache_at_addr alloc (unat i - 1) (PAGE_SIZE div SLAB_MAX_BITS * i) False False s
                else Some s);
          sheap_init_caches alloc is s' }"

definition sheap_init_at_addr :: "'r region_alloc \<Rightarrow> 'r sheap \<Rightarrow> 'r \<Rightarrow> 'r sheap option" where
  "sheap_init_at_addr alloc addr region =
     (let minsize = PAGE_SIZE div SLAB_MAX_BITS;
          maxbits = 1024 div minsize
      in do { s \<leftarrow> sheap_init_caches alloc (map of_nat [1..<unat maxbits + 1]) ((sp_slabs addr)\<lparr>ss_region := region\<rparr>);
              Some (addr\<lparr>sp_max_size := 1024, sp_slabs := s\<rparr>) })"

definition sheap_npages :: "u32 \<Rightarrow> u32" where
  "sheap_npages sz = (sz + 4) div PAGE_SIZE + (if 0 < sz mod PAGE_SIZE then 1 else 0)"

definition sheap_alloc :: "'r region_alloc \<Rightarrow> 'r sheap \<Rightarrow> u32 \<Rightarrow> ('r sheap \<times> u32) option" where
  "sheap_alloc alloc heap sz0 =
     (let sz = (if sz0 = 0 then 1 else sz0) in
      if sz < sp_max_size heap
      then (let bits = sheap_bits sz in
            if bits \<noteq> 0 \<and> bits \<le> 16
            then do { (s, ret) \<leftarrow> slab_alloc alloc (unat bits - 1) (sp_slabs heap);
                      Some (heap\<lparr>sp_slabs := s\<rparr>, ret) }
            else Some (heap, 0))
      else do { (s, ret) \<leftarrow> slab_cache_alloc_pages alloc (unat (sheap_npages sz)) (sp_slabs heap);
                if ret = 0 then None
                else Some (heap\<lparr>sp_slabs := s, sp_sizes := (sp_sizes heap)(ret \<mapsto> sz + 4)\<rparr>, ret + 4) })"

fun release_times :: "'r region_free \<Rightarrow> nat \<Rightarrow> u32 \<Rightarrow> 'r \<Rightarrow> 'r option" where
  "release_times release 0 p r = Some r"
| "release_times release (Suc n) p r = do { r' \<leftarrow> release r p; release_times release n p r' }"

text \<open>The loop over the pages of a large block passes the same page every time.\<close>

definition sheap_free :: "'r region_free \<Rightarrow> 'r sheap \<Rightarrow> u32 \<Rightarrow> 'r sheap option" where
  "sheap_free release heap ptr =
     (if ptr \<noteq> 0
      then if ptr AND (PAGE_SIZE - 1) \<noteq> 4
           then map_option (\<lambda>s. heap\<lparr>sp_slabs := s\<rparr>) (slab_free_from_ptr release ptr (sp_slabs heap))
           else do {
             let pageptr = ptr AND NOT (PAGE_SIZE - 1);
             sz \<leftarrow> sp_sizes heap pageptr;
             let npages = sz div PAGE_SIZE + (if 0 < sz mod PAGE_SIZE then 1 else 0);
             r \<leftarrow> release_times release (unat npages) pageptr (ss_region (sp_slabs heap));
             Some (heap\<lparr>sp_slabs := (sp_slabs heap)\<lparr>ss_region := r\<rparr>\<rparr>)
           }
      else Some heap)"

definition is_mapped_alloc :: "u32 \<Rightarrow> bool" where
  "is_mapped_alloc ptr \<longleftrightarrow> ptr AND (PAGE_SIZE - 1) = 4"

text \<open>The four bytes at \<open>ptr\<close> itself, which are the first bytes of the caller's data.\<close>

definition mapped_alloc_size :: "'r sheap \<Rightarrow> u32 \<Rightarrow> u32 option" where
  "mapped_alloc_size heap ptr =
     map_option (\<lambda>bs. \<Sum>i \<leftarrow> [0..<4]. push_bit (8 * i) (ucast (bs ! i)))
       (load_bytes (sp_data heap) (unat ptr) 4)"

definition sheap_realloc :: "'r region_alloc \<Rightarrow> 'r sheap \<Rightarrow> u32 \<Rightarrow> u32 \<Rightarrow> ('r sheap \<times> u32) option" where
  "sheap_realloc alloc heap ptr sz =
     do { fits \<leftarrow> (if \<not> is_mapped_alloc ptr
                   then map_option (\<lambda>b. sz \<le> b) (slab_ptr_get_block_size ptr (sp_slabs heap))
                   else Some False);
          if fits then Some (heap, ptr)
          else if 0 < sz
          then do {
            (heap1, ret) \<leftarrow> sheap_alloc alloc heap sz;
            if ret \<noteq> 0
            then do {
              obj_size \<leftarrow> (if is_mapped_alloc ptr then mapped_alloc_size heap1 ptr
                          else slab_ptr_get_obj_size ptr (sp_slabs heap1));
              d \<leftarrow> memcpy (sp_data heap1) (unat ret) (unat ptr) (unat (if obj_size < sz then obj_size else sz));
              Some (heap1\<lparr>sp_data := d\<rparr>, ret)
            }
            else Some (heap1, ret)
          }
          else sheap_alloc alloc heap sz }"

definition sheap_calloc :: "'r region_alloc \<Rightarrow> 'r sheap \<Rightarrow> u32 \<Rightarrow> u32 \<Rightarrow> ('r sheap \<times> u32) option" where
  "sheap_calloc alloc heap nmemb sz =
     do { (heap1, ret) \<leftarrow> sheap_alloc alloc heap (nmemb * sz);
          if ret \<noteq> 0
          then do { d \<leftarrow> memset (sp_data heap1) (unat ret) 0 (unat (nmemb * sz));
                    Some (heap1\<lparr>sp_data := d\<rparr>, ret) }
          else Some (heap1, ret) }"

section \<open>The kernel heap\<close>

record 'r kernel_heap =
  kh_sem :: int
  kh_heap :: "'r sheap"

definition kmalloc :: "'r region_alloc \<Rightarrow> 'r kernel_heap \<Rightarrow> u32 \<Rightarrow> ('r kernel_heap \<times> u32) option" where
  "kmalloc alloc k sz =
     do { sem \<leftarrow> enter_semaphore (kh_sem k);
          (h, ret) \<leftarrow> sheap_alloc alloc (kh_heap k) sz;
          Some (k\<lparr>kh_heap := h, kh_sem := leave_semaphore sem\<rparr>, ret) }"

definition kmalloca :: "'r region_alloc \<Rightarrow> 'r kernel_heap \<Rightarrow> u32 \<Rightarrow> ('r kernel_heap \<times> u32) option" where
  "kmalloca alloc k sz =
     do { sem \<leftarrow> enter_semaphore (kh_sem k);
          let num_pages = sz div PAGE_SIZE + (if sz mod PAGE_SIZE \<noteq> 0 then 1 else 0);
          (s, ret) \<leftarrow> slab_cache_alloc_pages alloc (unat num_pages) (sp_slabs (kh_heap k));
          Some (k\<lparr>kh_heap := (kh_heap k)\<lparr>sp_slabs := s\<rparr>, kh_sem := leave_semaphore sem\<rparr>, ret) }"

definition kcalloc :: "'r region_alloc \<Rightarrow> 'r kernel_heap \<Rightarrow> u32 \<Rightarrow> u32 \<Rightarrow> ('r kernel_heap \<times> u32) option" where
  "kcalloc alloc k nmemb memsize =
     do { let sz = nmemb * memsize;
          (k1, ret) \<leftarrow> kmalloc alloc k sz;
          if ret \<noteq> 0
          then do { d \<leftarrow> memset (sp_data (kh_heap k1)) (unat ret) 0 (unat sz);
                    Some (k1\<lparr>kh_heap := (kh_heap k1)\<lparr>sp_data := d\<rparr>\<rparr>, ret) }
          else Some (k1, ret) }"

definition kfree :: "'r region_free \<Rightarrow> 'r kernel_heap \<Rightarrow> u32 \<Rightarrow> 'r kernel_heap option" where
  "kfree release k ptr =
     do { sem \<leftarrow> enter_semaphore (kh_sem k);
          h \<leftarrow> sheap_free release (kh_heap k) ptr;
          Some (k\<lparr>kh_heap := h, kh_sem := leave_semaphore sem\<rparr>) }"

definition kfreea :: "'r region_free \<Rightarrow> 'r kernel_heap \<Rightarrow> u32 \<Rightarrow> 'r kernel_heap option" where
  "kfreea release k ptr =
     do { sem \<leftarrow> enter_semaphore (kh_sem k);
          r \<leftarrow> release (ss_region (sp_slabs (kh_heap k))) ptr;
          Some (k\<lparr>kh_heap := (kh_heap k)\<lparr>sp_slabs := (sp_slabs (kh_heap k))\<lparr>ss_region := r\<rparr>\<rparr>,
                  kh_sem := leave_semaphore sem\<rparr>) }"

definition krealloc :: "'r region_alloc \<Rightarrow> 'r kernel_heap \<Rightarrow> u32 \<Rightarrow> u32 \<Rightarrow> ('r kernel_heap \<times> u32) option" where
  "krealloc alloc k ptr sz =
     do { sem \<leftarrow> enter_semaphore (kh_sem k);
          (h, ret) \<leftarrow> sheap_realloc alloc (kh_heap k) ptr sz;
          Some (k\<lparr>kh_heap := h, kh_sem := leave_semaphore sem\<rparr>, ret) }"

text \<open>The early allocator does not clear the bitmap block: \<open>bits\<close> is what it holds.\<close>

definition init_kernel_heap ::
  "u32 list \<Rightarrow> (nat \<Rightarrow> u8) \<Rightarrow> (region \<times> paging) sheap \<Rightarrow> paging \<Rightarrow> u32 \<Rightarrow> u32 \<Rightarrow> u32 \<Rightarrow> (region \<times> paging) sheap option" where
  "init_kernel_heap junk bits heap pg p_dir start sz =
     (let (pg1, bitmap) = kmalloc_early pg (sz div PAGE_SIZE div 8) False;
          rg = bitmap_region_init_at_addr start (unat (sz div PAGE_SIZE))
                 (map bits [0..<unat (sz div PAGE_SIZE div 8)]) p_dir
      in sheap_init_at_addr (bitmap_region_alloc_page junk) heap (rg, pg1))"

section \<open>Mapped ranges\<close>

text \<open>\<^verbatim>\<open>kernel/base/mem/memmap.c\<close>: the ranges of user memory that the page fault handler backs on demand.\<close>

record memmap =
  mm_type :: nat
  mm_perms :: u32
  mm_start :: u32
  mm_end :: u32
  mm_references :: u32

definition memmap_create :: "u32 \<Rightarrow> u32 \<Rightarrow> nat \<Rightarrow> u32 \<Rightarrow> memmap" where
  "memmap_create start end type perms =
     \<lparr>mm_type = type, mm_perms = perms, mm_start = start, mm_end = end, mm_references = 0\<rparr>"

definition memmap_check :: "memmap \<Rightarrow> u32 \<Rightarrow> bool" where
  "memmap_check m address \<longleftrightarrow> mm_start m \<le> address \<and> address < mm_end m"

section \<open>Size classes hold their requests\<close>

definition class_ok :: "u32 \<Rightarrow> bool" where
  "class_ok n = (case slab_map_bits (64 * sheap_next_denom n) of None \<Rightarrow> False
     | Some mb \<Rightarrow> sheap_next_denom n \<noteq> 0 \<and> sheap_next_denom n \<le> 16 \<and> sheap_valid_denom (sheap_next_denom n)
         \<and> mb \<noteq> 0 \<and> 64 * n \<le> SLAB_PAGE div mb)"

lemma class_ok_all: "list_all class_ok (map word_of_nat [1..<17])"
  by code_simp

lemma class_ok_small: "1 \<le> n \<Longrightarrow> n \<le> 16 \<Longrightarrow> class_ok n" for n :: u32
proof -
  assume "1 \<le> n" "n \<le> 16"
  then have "unat n \<in> set [1..<17]" by (auto simp: word_le_nat_alt)
  moreover have "\<forall>k \<in> set [1..<17]. class_ok (word_of_nat k)"
    using class_ok_all by (simp only: list_all_iff set_map ball_simps)
  ultimately have "class_ok (word_of_nat (unat n))" by blast
  then show ?thesis by simp
qed

lemma units_bounds:
  fixes sz :: u32
  assumes "0 < sz" "sz < 1024"
  shows "1 \<le> sz div 64 + (if 0 < sz mod 64 then 1 else 0)" "sz div 64 + (if 0 < sz mod 64 then 1 else 0) \<le> 16"
    "sz \<le> 64 * (sz div 64 + (if 0 < sz mod 64 then 1 else 0))"
proof -
  let ?n = "sz div 64 + (if 0 < sz mod 64 then 1 else 0)"
  have s: "0 < unat sz" "unat sz < 1024" using assms by (simp_all add: word_less_nat_alt)
  have n: "unat ?n = unat sz div 64 + (if 0 < unat sz mod 64 then 1 else 0)"
    using s by (auto simp: unat_word_ariths unat_div_distrib unat_mod_distrib word_less_nat_alt)
  have b: "1 \<le> unat ?n \<and> unat ?n \<le> 16 \<and> unat sz \<le> 64 * unat ?n" unfolding n using s by auto
  then show "1 \<le> ?n" "?n \<le> 16" by (simp_all add: word_le_nat_alt)
  have "unat (64 * n) = 64 * unat n" if "unat n \<le> 16" for n :: u32
    using that by (simp add: unat_word_ariths)
  then show "sz \<le> 64 * ?n" using b by (metis word_le_nat_alt)
qed

section \<open>Properties\<close>

text \<open>Every request below 1024 bytes is directed to one of the sixteen caches, one that
  \<open>sheap_init_at_addr\<close> sets up, and the blocks of that cache are at least as large as the request.\<close>

theorem sheap_class_fits:
  assumes "0 < sz" "sz < 1024"
  shows "sheap_bits sz \<noteq> 0 \<and> sheap_bits sz \<le> 16 \<and> sheap_valid_denom (sheap_bits sz)
    \<and> (\<exists>mb. slab_map_bits (64 * sheap_bits sz) = Some mb \<and> mb \<noteq> 0 \<and> sz \<le> SLAB_PAGE div mb)"
proof -
  let ?n = "sz div 64 + (if 0 < sz mod 64 then 1 else 0)"
  have "class_ok ?n" using units_bounds(1,2) [OF assms] by (rule class_ok_small)
  moreover have "sheap_bits sz = sheap_next_denom ?n"
    by (simp add: sheap_bits_def Let_def PAGE_SIZE_def SLAB_MAX_BITS_def)
  ultimately show ?thesis
    using units_bounds(3) [OF assms] by (auto simp: class_ok_def split: option.splits intro: order_trans)
qed

lemma sheap_class_fits_witness: "\<exists>mb. slab_map_bits (64 * sheap_bits 700) = Some mb \<and> 700 \<le> SLAB_PAGE div mb"
  using sheap_class_fits [of 700] by auto

text \<open>A large request that is a multiple of the page size gets no page for the four bytes of
  its length word: the pages cover the data only, so the last four bytes lie beyond them.\<close>

theorem sheap_large_short:
  assumes "unat sz = 4096 * q" "unat sz + 4 < 2 ^ 32"
  shows "4096 * unat (sheap_npages sz) = unat sz \<and> 4096 * unat (sheap_npages sz) < unat (sz + 4)"
proof -
  have 4: "unat (sz + 4) = unat sz + 4" using assms(2) by (simp add: unat_word_ariths)
  have "unat (sz mod 0x1000) = 0" by (simp only: unat_mod_distrib assms(1)) simp
  then have "\<not> 0 < sz mod 0x1000" by (simp add: unat_eq_0)
  then have "unat (sheap_npages sz) = unat (sz + 4) div 4096"
    by (simp add: sheap_npages_def PAGE_SIZE_def unat_div_distrib)
  also have "\<dots> = q" unfolding 4 assms(1) by simp
  finally show ?thesis using assms(1) 4 by simp
qed

lemma sheap_large_short_witness: "4096 * unat (sheap_npages 8192) = 8192 \<and> 8192 < unat (8192 + 4 :: u32)"
  using sheap_large_short [of 8192 2] by simp

end
