(* ===== verification/VFS.thy ===== *)
theory VFS
  imports Prelude
begin

text \<open>
  \<^verbatim>\<open>kernel/base/vfs/vfs.c\<close> and the types of \<^verbatim>\<open>kernel/include/base/vfs/vfs.h\<close>: file systems,
  mounts, drivers and path lookup. Structures are in heaps by address (\<open>0\<close> is null), because
  nodes, mounts and file systems refer to each other and a task's root can be freed while it is
  in use. \<open>knew\<close> clears what it returns and never returns a live address: it is the counter
  \<open>vs_next\<close>. A file system names its table of functions by a value of \<open>fs_kind\<close>; the table itself
  is the argument \<open>tbl\<close> of the functions that call through it, and the private data of the
  drivers is the type \<open>'d\<close>. Names are strings, equal exactly when \<open>strcmp\<close> returns 0.
\<close>

section \<open>Types\<close>

definition ERROR_NO_FUNC :: int where "ERROR_NO_FUNC = 1"
definition ERROR_INVALID_ARGUMENT :: int where "ERROR_INVALID_ARGUMENT = 2"
definition ERROR_NOT_DIRECTORY :: int where "ERROR_NOT_DIRECTORY = 3"
definition ERROR_IS_DIRECTORY :: int where "ERROR_IS_DIRECTORY = 4"
definition ERROR_NOT_FILE :: int where "ERROR_NOT_FILE = 5"
definition ERROR_NOT_FOUND :: int where "ERROR_NOT_FOUND = 6"
definition ERROR_INVALID_PATH :: int where "ERROR_INVALID_PATH = 7"
definition ERROR_INVALID_OFFSET :: int where "ERROR_INVALID_OFFSET = 8"
definition ERROR_TRY_AGAIN :: int where "ERROR_TRY_AGAIN = 9"

lemmas error_numbers = ERROR_NO_FUNC_def ERROR_INVALID_ARGUMENT_def ERROR_NOT_DIRECTORY_def
  ERROR_IS_DIRECTORY_def ERROR_NOT_FILE_def ERROR_NOT_FOUND_def ERROR_INVALID_PATH_def
  ERROR_INVALID_OFFSET_def ERROR_TRY_AGAIN_def

definition MAX_FILENAME_SIZE :: nat where "MAX_FILENAME_SIZE = 256"
definition FILE_CREATE :: u32 where "FILE_CREATE = 4"
definition FILE_NONBLOCK :: u32 where "FILE_NONBLOCK = 16"

datatype file_type = FILE_TYPE_NULL | FILE_TYPE_REG | FILE_TYPE_DIR

datatype fs_kind = NoFuncs | RamfsFuncs | PipeFuncs | OtherFuncs nat

record file_node =
  fn_inode :: u32
  fn_flags :: u32
  fn_references :: u32
  fn_fs :: nat
  fn_mount :: nat
  fn_data :: nat

definition null_node :: file_node where
  "null_node = \<lparr>fn_inode = 0, fn_flags = 0, fn_references = 0, fn_fs = 0, fn_mount = 0, fn_data = 0\<rparr>"

record file_mount =
  mt_flags :: u32
  mt_fs :: nat

record file_system =
  fs_root :: nat
  fs_functions :: fs_kind
  fs_references :: u32
  fs_devstruct :: nat

record file_driver =
  fd_references :: u32
  fd_flags :: u32
  fd_name :: string
  fd_kind :: fs_kind

record file_info =
  fi_type :: file_type
  fi_mask :: u32
  fi_inode :: u32
  fi_size :: u32
  fi_links :: u32

record dirent =
  de_inode :: u32
  de_offset :: int
  de_length :: u32
  de_name :: string

record 'd vfs =
  vs_nodes :: "nat \<Rightarrow> file_node option"
  vs_mounts :: "nat \<Rightarrow> file_mount option"
  vs_fss :: "nat \<Rightarrow> file_system option"
  vs_drivers :: "nat \<Rightarrow> file_driver option"
  vs_driver_list :: "nat list"
  vs_mount_list :: "nat list"
  vs_root :: nat
  vs_froot :: nat
  vs_curdir :: nat
  vs_next :: nat
  vs_dev :: 'd

record 'd file_funcs =
  ff_read :: "('d vfs \<Rightarrow> file_node \<Rightarrow> u32 \<Rightarrow> u32 \<Rightarrow> ('d vfs \<times> int \<times> u8 list) option) option"
  ff_write :: "('d vfs \<Rightarrow> file_node \<Rightarrow> u8 list \<Rightarrow> u32 \<Rightarrow> ('d vfs \<times> int) option) option"
  ff_mkdir :: "('d vfs \<Rightarrow> file_node \<Rightarrow> string \<Rightarrow> u32 \<Rightarrow> ('d vfs \<times> int) option) option"
  ff_mount :: "('d vfs \<Rightarrow> file_node \<Rightarrow> file_node \<Rightarrow> u32 \<Rightarrow> ('d vfs \<times> int) option) option"
  ff_readdir :: "('d vfs \<Rightarrow> file_node \<Rightarrow> int \<Rightarrow> ('d vfs \<times> int \<times> dirent option) option) option"
  ff_lookup :: "('d vfs \<Rightarrow> file_node \<Rightarrow> file_node \<Rightarrow> string \<Rightarrow> u32 \<Rightarrow> ('d vfs \<times> int \<times> file_node) option) option"
  ff_open :: "('d vfs \<Rightarrow> file_node \<Rightarrow> string \<Rightarrow> u32 \<Rightarrow> ('d vfs \<times> int) option) option"
  ff_close :: "('d vfs \<Rightarrow> file_node \<Rightarrow> u32 \<Rightarrow> ('d vfs \<times> int) option) option"
  ff_get_info :: "('d vfs \<Rightarrow> file_node \<Rightarrow> ('d vfs \<times> int \<times> file_info option) option) option"

type_synonym 'd func_table = "fs_kind \<Rightarrow> 'd file_funcs option"

text \<open>The macro \<open>VFS_FUNCTION\<close>: the function of the node's file system, if there is one.\<close>

definition VFS_FUNCTION :: "'d func_table \<Rightarrow> ('d file_funcs \<Rightarrow> 'f option) \<Rightarrow> 'd vfs \<Rightarrow> file_node \<Rightarrow> 'f option option" where
  "VFS_FUNCTION tbl sel s node =
     do { fs \<leftarrow> vs_fss s (fn_fs node);
          Some (case tbl (fs_functions fs) of None \<Rightarrow> None | Some ff \<Rightarrow> sel ff) }"

section \<open>Allocation\<close>

definition vfs_new :: "'d vfs \<Rightarrow> 'd vfs \<times> nat" where
  "vfs_new s = (s\<lparr>vs_next := Suc (vs_next s)\<rparr>, vs_next s)"

section \<open>Drivers and mounts\<close>

text \<open>The lists start with a dummy node whose data pointer is null; the first entry replaces it.\<close>

definition list_register :: "nat list \<Rightarrow> nat \<Rightarrow> nat list option" where
  "list_register l x = (case l of [] \<Rightarrow> None | d # ds \<Rightarrow> Some (if d = 0 then x # ds else d # ds @ [x]))"

definition file_register_driver :: "'d vfs \<Rightarrow> nat \<Rightarrow> ('d vfs \<times> int) option" where
  "file_register_driver s driver =
     do { l \<leftarrow> list_register (vs_driver_list s) driver;
          d \<leftarrow> vs_drivers s driver;
          Some (s\<lparr>vs_driver_list := l,
                  vs_drivers := (vs_drivers s)(driver \<mapsto> d\<lparr>fd_references := fd_references d + 1\<rparr>)\<rparr>, 0) }"

definition file_register_mount :: "'d vfs \<Rightarrow> nat \<Rightarrow> ('d vfs \<times> nat) option" where
  "file_register_mount s fs =
     (let (s1, m) = vfs_new s in
      do { f \<leftarrow> vs_fss s1 fs;
           l \<leftarrow> list_register (vs_mount_list s1) m;
           Some (s1\<lparr>vs_mounts := (vs_mounts s1)(m \<mapsto> \<lparr>mt_flags = 0, mt_fs = fs\<rparr>),
                    vs_fss := (vs_fss s1)(fs \<mapsto> f\<lparr>fs_references := fs_references f + 1\<rparr>),
                    vs_mount_list := l\<rparr>, m) })"

fun find_driver :: "(nat \<Rightarrow> file_driver option) \<Rightarrow> nat list \<Rightarrow> string \<Rightarrow> nat option" where
  "find_driver h [] name = Some 0"
| "find_driver h (d # ds) name =
     do { test \<leftarrow> h d; if fd_name test = name then Some d else find_driver h ds name }"

definition file_get_driver :: "'d vfs \<Rightarrow> string \<Rightarrow> nat option" where
  "file_get_driver s name = find_driver (vs_drivers s) (vs_driver_list s) name"

section \<open>Roots\<close>

definition set_global_vfs_root :: "'d vfs \<Rightarrow> nat \<Rightarrow> 'd vfs" where
  "set_global_vfs_root s root = s\<lparr>vs_root := root\<rparr>"

definition get_global_vfs_root :: "'d vfs \<Rightarrow> nat" where
  "get_global_vfs_root s = vs_root s"

definition get_local_vfs_root :: "'d vfs \<Rightarrow> nat" where
  "get_local_vfs_root s = (if vs_froot s \<noteq> 0 then vs_froot s else get_global_vfs_root s)"

definition get_current_dir :: "'d vfs \<Rightarrow> nat" where
  "get_current_dir s = (if vs_curdir s = 0 then get_local_vfs_root s else vs_curdir s)"

section \<open>Path lookup\<close>

text \<open>The next component of a path: at most 256 characters up to a slash, and what follows it. A
  component of 256 characters has its terminator written past the name buffer.\<close>

definition path_component :: "string \<Rightarrow> string" where
  "path_component p = take 256 (takeWhile (\<lambda>c. c \<noteq> CHR ''/'') p)"

definition path_rest :: "string \<Rightarrow> string" where
  "path_rest p = (case drop (length (path_component p)) p of [] \<Rightarrow> [] | c # cs \<Rightarrow> if c = CHR ''/'' then cs else c # cs)"

lemma path_rest_shorter: "p \<noteq> [] \<Longrightarrow> length (path_rest p) < length p"
proof (cases p)
  case (Cons c cs)
  show ?thesis
  proof (cases "c = CHR ''/''")
    case True
    then show ?thesis using Cons by (simp add: path_rest_def path_component_def)
  next
    case False
    then have n: "0 < length (path_component p)" using Cons by (simp add: path_component_def)
    have "length (path_rest p) \<le> length (drop (length (path_component p)) p)"
      unfolding path_rest_def by (cases "drop (length (path_component p)) p") simp_all
    moreover have "length (drop (length (path_component p)) p) < length p"
      using n Cons by (simp del: length_greater_0_conv)
    ultimately show ?thesis by linarith
  qed
qed simp

text \<open>Following a mount found on the node: the walk goes on at the root of the mounted system.\<close>

definition cross_mount :: "'d vfs \<Rightarrow> file_node \<Rightarrow> file_node option" where
  "cross_mount s n =
     (if fn_mount n \<noteq> 0
      then do { m \<leftarrow> vs_mounts s (fn_mount n); fs \<leftarrow> vs_fss s (mt_fs m); vs_nodes s (fs_root fs) }
      else Some n)"

function lookup_walk ::
  "'d func_table \<Rightarrow> string \<Rightarrow> 'd vfs \<Rightarrow> file_node \<Rightarrow> u32 \<Rightarrow> ('d vfs \<times> int \<times> file_node) option" where
  "lookup_walk tbl path s move flags =
     (if path = [] then Some (s, 0, move)
      else if MAX_FILENAME_SIZE \<le> length (path_component path) then None
      else if path_component path = ''.'' then lookup_walk tbl (path_rest path) s move flags
      else (case VFS_FUNCTION tbl ff_lookup s move of
              None \<Rightarrow> None
            | Some None \<Rightarrow> Some (s, - ERROR_NO_FUNC, move)
            | Some (Some f) \<Rightarrow>
                (case f s move null_node (path_component path) flags of
                   None \<Rightarrow> None
                 | Some (s1, r, buf) \<Rightarrow>
                     if r \<noteq> 0 then Some (s1, r, move)
                     else (case cross_mount s1 buf of
                             None \<Rightarrow> None
                           | Some move' \<Rightarrow> lookup_walk tbl (path_rest path) s1 move' flags))))"
  by pat_completeness auto
termination
  by (relation "measure (\<lambda>(tbl, path, s, move, flags). length path)") (simp_all add: path_rest_shorter)

declare lookup_walk.simps [simp del]

text \<open>The result is the node written to \<open>buf\<close>, if one is.\<close>

definition file_lookup_relative ::
  "'d func_table \<Rightarrow> 'd vfs \<Rightarrow> string option \<Rightarrow> nat \<Rightarrow> u32 \<Rightarrow> ('d vfs \<times> int \<times> file_node option) option" where
  "file_lookup_relative tbl s path node flags =
     (case path of
        None \<Rightarrow> Some (s, - ERROR_INVALID_PATH, None)
      | Some p \<Rightarrow> do {
          n \<leftarrow> vs_nodes s node;
          (s1, ret, move) \<leftarrow> lookup_walk tbl p s n flags;
          Some (s1, ret, if ret = 0 then Some move else None)
        })"

definition file_lookup ::
  "'d func_table \<Rightarrow> 'd vfs \<Rightarrow> string option \<Rightarrow> u32 \<Rightarrow> ('d vfs \<times> int \<times> file_node option) option" where
  "file_lookup tbl s path flags =
     (case path of
        None \<Rightarrow> Some (s, - ERROR_INVALID_PATH, None)
      | Some p \<Rightarrow>
          if p \<noteq> [] \<and> hd p = CHR ''/''
          then if tl p \<noteq> []
               then file_lookup_relative tbl s (Some (tl p)) (get_local_vfs_root s) flags
               else do { n \<leftarrow> vs_nodes s (get_local_vfs_root s); Some (s, 0, Some n) }
          else file_lookup_relative tbl s (Some p) (get_current_dir s) flags)"

definition file_lookup_absolute ::
  "'d func_table \<Rightarrow> 'd vfs \<Rightarrow> string \<Rightarrow> u32 \<Rightarrow> ('d vfs \<times> int \<times> file_node option) option" where
  "file_lookup_absolute tbl s path flags =
     (let root = get_local_vfs_root s in
      if root = 0 \<or> path = [] \<or> hd path \<noteq> CHR ''/''
      then Some (s, - ERROR_NOT_FOUND, None)
      else file_lookup_relative tbl s (Some (tl path)) root flags)"

section \<open>Mounting\<close>

text \<open>\<open>create\<close> is the \<open>create\<close> function of the driver found; it returns the new file system or null.
  The node looked up is a heap block that is freed again before the function returns.\<close>

definition file_mount_filesystem ::
  "'d func_table \<Rightarrow> (fs_kind \<Rightarrow> 'd vfs \<Rightarrow> string option \<Rightarrow> u32 \<Rightarrow> ('d vfs \<times> nat) option) \<Rightarrow>
   'd vfs \<Rightarrow> string \<Rightarrow> string option \<Rightarrow> string \<Rightarrow> u32 \<Rightarrow> ('d vfs \<times> int) option" where
  "file_mount_filesystem tbl create s mount_path device filesystem flags =
     do { driver \<leftarrow> file_get_driver s filesystem;
          if driver = 0 then Some (s, - 1)
          else do {
            d \<leftarrow> vs_drivers s driver;
            (s1, fs) \<leftarrow> create (fd_kind d) s device flags;
            if fs = 0 then Some (s1, - 1)
            else do {
              (s2, m) \<leftarrow> file_register_mount s1 fs;
              f \<leftarrow> vs_fss s2 fs;
              if mount_path = ''/'' then Some (set_global_vfs_root s2 (fs_root f), 0)
              else do {
                (s3, foo, mount) \<leftarrow> file_lookup_absolute tbl s2 mount_path 0;
                if 0 \<le> foo
                then do {
                  let mnode = (case mount of None \<Rightarrow> null_node | Some n \<Rightarrow> n);
                  rootn \<leftarrow> vs_nodes s3 (fs_root f);
                  fn \<leftarrow> VFS_FUNCTION tbl ff_mount s3 mnode;
                  (case fn of
                     None \<Rightarrow> Some (s3, - ERROR_NO_FUNC)
                   | Some g \<Rightarrow> g s3 mnode rootn flags)
                }
                else Some (s3, 0)
              }
            }
          } }"

end
