(* ===== verification/RamFS.thy ===== *)
theory RamFS
  imports VFS DList DynString
begin

text \<open>
  \<^verbatim>\<open>kernel/base/vfs/ramfs/ramfs.c\<close>: the in-memory file system. A node is reached only through
  the inode table of its file system, so the table (a \<open>dlist\<close>) holds the nodes themselves. The
  data pointer of a node is null, a table of directory entries or a dynamic string; using it as
  something else is \<open>None\<close>, as is reading a \<open>file_info\<close> that was never filled in. \<open>junk\<close> is what
  the space added to a dynamic string contains.
\<close>

section \<open>State\<close>

record ramfs_dirent =
  rde_name :: string
  rde_inode :: u32

datatype ramfs_data = RNull | RDir "ramfs_dirent dlist" | RFile dynstring

record ramfs_node =
  rn_name :: string
  rn_data :: ramfs_data
  rn_info :: file_info
  rn_mount :: nat

record ramfs_head =
  rh_nodes :: "ramfs_node dlist"
  rh_fs :: nat
  rh_nnodes :: u32
  rh_root_inode :: u32

record ramdev =
  rd_heads :: "nat \<Rightarrow> ramfs_head option"

type_synonym 'x ramvfs = "'x ramdev_scheme vfs"

definition ramfs_head_of :: "'x ramvfs \<Rightarrow> file_node \<Rightarrow> (nat \<times> ramfs_head) option" where
  "ramfs_head_of s node =
     do { fs \<leftarrow> vs_fss s (fn_fs node);
          h \<leftarrow> rd_heads (vs_dev s) (fs_devstruct fs);
          Some (fs_devstruct fs, h) }"

definition ramfs_set_head :: "nat \<Rightarrow> ramfs_head \<Rightarrow> 'x ramvfs \<Rightarrow> 'x ramvfs" where
  "ramfs_set_head a h s = s\<lparr>vs_dev := (vs_dev s)\<lparr>rd_heads := (rd_heads (vs_dev s))(a \<mapsto> h)\<rparr>\<rparr>"

text \<open>Writing through a pointer to the node of an inode.\<close>

definition ramfs_put :: "ramfs_head \<Rightarrow> nat \<Rightarrow> ramfs_node \<Rightarrow> ramfs_head" where
  "ramfs_put h i n = h\<lparr>rh_nodes := (rh_nodes h)\<lparr>dl_entries := (dl_entries (rh_nodes h))[i := Some n]\<rparr>\<rparr>"

section \<open>Nodes\<close>

definition ramfs_get_node :: "ramfs_head \<Rightarrow> file_node \<Rightarrow> u32 \<Rightarrow> (int \<times> file_node) option" where
  "ramfs_get_node head buf inode =
     do { temp \<leftarrow> dlist_get (rh_nodes head) (sint inode);
          Some (case temp of
                  None \<Rightarrow> (- ERROR_NOT_FOUND, buf)
                | Some t \<Rightarrow> (0, buf\<lparr>fn_inode := fi_inode (rn_info t), fn_flags := 0, fn_references := 0,
                                   fn_mount := rn_mount t, fn_fs := rh_fs head\<rparr>)) }"

definition ramfs_get_internal_node :: "ramfs_head \<Rightarrow> u32 \<Rightarrow> (int \<times> ramfs_node option) option" where
  "ramfs_get_internal_node head inode =
     do { temp \<leftarrow> dlist_get (rh_nodes head) (sint inode);
          Some (case temp of None \<Rightarrow> (- ERROR_NOT_FOUND, None) | Some t \<Rightarrow> (0, Some t)) }"

definition ramfs_node_get_info :: "'x ramvfs \<Rightarrow> file_node \<Rightarrow> ('x ramvfs \<times> int \<times> file_info option) option" where
  "ramfs_node_get_info s node =
     do { (a, head) \<leftarrow> ramfs_head_of s node;
          temp \<leftarrow> dlist_get (rh_nodes head) (sint (fn_inode node));
          Some (case temp of None \<Rightarrow> (s, - 1, None) | Some t \<Rightarrow> (s, 0, Some (rn_info t))) }"

fun find_dirent :: "ramfs_dirent option list \<Rightarrow> string \<Rightarrow> int" where
  "find_dirent [] name = - 1"
| "find_dirent (None # es) name = find_dirent es name"
| "find_dirent (Some d # es) name = (if name = rde_name d then sint (rde_inode d) else find_dirent es name)"

definition ramfs_dir_findnode :: "'x ramvfs \<Rightarrow> file_node \<Rightarrow> string \<Rightarrow> int option" where
  "ramfs_dir_findnode s node name =
     do { (a, head) \<leftarrow> ramfs_head_of s node;
          (r, n) \<leftarrow> ramfs_get_internal_node head (fn_inode node);
          rnode \<leftarrow> n;
          (case rn_data rnode of
             RDir d \<Rightarrow> Some (find_dirent (take (dl_alloced d) (dl_entries d)) name)
           | _ \<Rightarrow> None) }"

definition ramfs_node_lookup ::
  "'x ramvfs \<Rightarrow> file_node \<Rightarrow> file_node \<Rightarrow> string \<Rightarrow> u32 \<Rightarrow> ('x ramvfs \<times> int \<times> file_node) option" where
  "ramfs_node_lookup s node buf name flags =
     do { (s1, r, infobuf) \<leftarrow> ramfs_node_get_info s node;
          info \<leftarrow> infobuf;
          if fi_type info = FILE_TYPE_DIR
          then do {
            inode \<leftarrow> ramfs_dir_findnode s node name;
            if 0 \<le> inode
            then do { (a, head) \<leftarrow> ramfs_head_of s node;
                      (r', buf') \<leftarrow> ramfs_get_node head buf (word_of_int inode);
                      Some (s, 0, buf') }
            else Some (s, - ERROR_NOT_FOUND, buf)
          }
          else Some (s, - ERROR_NOT_DIRECTORY, buf) }"

section \<open>Creating nodes\<close>

definition empty_info :: file_info where
  "empty_info = \<lparr>fi_type = FILE_TYPE_NULL, fi_mask = 0, fi_inode = 0, fi_size = 0, fi_links = 0\<rparr>"

text \<open>\<open>dir\<close> is the inode of the directory; the result is the new head and the inode.\<close>

definition ramfs_add_node :: "ramfs_head \<Rightarrow> nat \<Rightarrow> string \<Rightarrow> (ramfs_head \<times> nat) option" where
  "ramfs_add_node head dir name =
     do { let ret = \<lparr>rn_name = name, rn_data = RNull, rn_info = empty_info, rn_mount = 0\<rparr>;
          (nodes, inode) \<leftarrow> dlist_add (rh_nodes head) (Some ret);
          let head1 = ramfs_put (head\<lparr>rh_nodes := nodes, rh_nnodes := rh_nnodes head + 1\<rparr>) inode
                        (ret\<lparr>rn_info := empty_info\<lparr>fi_inode := of_nat inode\<rparr>\<rparr>);
          d \<leftarrow> dlist_lookup (rh_nodes head1) dir;
          (case rn_data d of
             RDir dl \<Rightarrow> do {
               (dl', k) \<leftarrow> dlist_add dl (Some \<lparr>rde_name = name, rde_inode = of_nat inode\<rparr>);
               Some (ramfs_put head1 dir (d\<lparr>rn_data := RDir dl'\<rparr>), inode)
             }
           | _ \<Rightarrow> None) }"

definition ramfs_open_node :: "'x ramvfs \<Rightarrow> file_node \<Rightarrow> string \<Rightarrow> u32 \<Rightarrow> ('x ramvfs \<times> int) option" where
  "ramfs_open_node s node path flags =
     do { (s1, r, infobuf) \<leftarrow> ramfs_node_get_info s node;
          info \<leftarrow> infobuf;
          if fi_type info = FILE_TYPE_DIR
          then do {
            inode \<leftarrow> ramfs_dir_findnode s node path;
            if 0 \<le> inode then Some (s, inode)
            else if flags AND FILE_CREATE \<noteq> 0
            then do {
              (a, head) \<leftarrow> ramfs_head_of s node;
              (head1, i) \<leftarrow> ramfs_add_node head (unat (fn_inode node)) path;
              n \<leftarrow> dlist_lookup (rh_nodes head1) i;
              Some (ramfs_set_head a (ramfs_put head1 i (n\<lparr>rn_data := RFile (dstring_create [])\<rparr>)) s,
                    sint (fi_inode (rn_info n)))
            }
            else Some (s, - ERROR_NOT_FOUND)
          }
          else Some (s, - ERROR_NOT_DIRECTORY) }"

definition ramfs_close_node :: "'x ramvfs \<Rightarrow> file_node \<Rightarrow> u32 \<Rightarrow> ('x ramvfs \<times> int) option" where
  "ramfs_close_node s node flags = Some (s, 0)"

definition ramfs_mkdir_node :: "'x ramvfs \<Rightarrow> file_node \<Rightarrow> string \<Rightarrow> u32 \<Rightarrow> ('x ramvfs \<times> int) option" where
  "ramfs_mkdir_node s node name flags =
     do { (s1, r, infobuf) \<leftarrow> ramfs_node_get_info s node;
          info \<leftarrow> infobuf;
          if fi_type info = FILE_TYPE_DIR
          then do {
            (a, head) \<leftarrow> ramfs_head_of s node;
            (head1, i) \<leftarrow> ramfs_add_node head (unat (fn_inode node)) name;
            n \<leftarrow> dlist_lookup (rh_nodes head1) i;
            Some (ramfs_set_head a (ramfs_put head1 i
                    (n\<lparr>rn_data := RDir (dlist_create 0 0), rn_info := (rn_info n)\<lparr>fi_type := FILE_TYPE_DIR\<rparr>\<rparr>)) s, 0)
          }
          else Some (s, - ERROR_NOT_DIRECTORY) }"

section \<open>Reading and writing\<close>

fun dstring_set_chars :: "(nat \<Rightarrow> u8) \<Rightarrow> dynstring \<Rightarrow> nat \<Rightarrow> u8 list \<Rightarrow> dynstring option" where
  "dstring_set_chars junk d pos [] = Some d"
| "dstring_set_chars junk d pos (c # cs) =
     do { d' \<leftarrow> dstring_set_char junk d (pos mod 2 ^ 32) c; dstring_set_chars junk d' (Suc pos) cs }"

definition ramfs_write_node ::
  "(nat \<Rightarrow> u8) \<Rightarrow> 'x ramvfs \<Rightarrow> file_node \<Rightarrow> u8 list \<Rightarrow> u32 \<Rightarrow> ('x ramvfs \<times> int) option" where
  "ramfs_write_node junk s node buffer offset =
     do { (a, head) \<leftarrow> ramfs_head_of s node;
          (ret, n) \<leftarrow> ramfs_get_internal_node head (fn_inode node);
          (case n of
             None \<Rightarrow> Some (s, ret)
           | Some rnode \<Rightarrow>
               if fi_type (rn_info rnode) \<noteq> FILE_TYPE_DIR
               then if buffer = [] then Some (s, 0)
               else (case rn_data rnode of
                 RFile d \<Rightarrow> do {
                   d' \<leftarrow> dstring_set_chars junk d (unat offset) buffer;
                   Some (ramfs_set_head a (ramfs_put head (unat (fn_inode node)) (rnode\<lparr>rn_data := RFile d'\<rparr>)) s,
                         int (length buffer))
                 }
               | _ \<Rightarrow> None)
               else Some (s, - ERROR_IS_DIRECTORY)) }"

text \<open>\<open>for ( place = 0; place < length && place + offset <= dstrbuf->length; place++ )\<close>.\<close>

fun dstring_read :: "dynstring \<Rightarrow> nat \<Rightarrow> nat \<Rightarrow> u8 list option" where
  "dstring_read d 0 pos = Some []"
| "dstring_read d (Suc count) pos =
     (if pos mod 2 ^ 32 \<le> ds_length d
      then do { c \<leftarrow> read_at (dstring_get_string d) (pos mod 2 ^ 32);
                cs \<leftarrow> dstring_read d count (Suc pos);
                Some (c # cs) }
      else Some [])"

definition ramfs_read_node ::
  "'x ramvfs \<Rightarrow> file_node \<Rightarrow> u32 \<Rightarrow> u32 \<Rightarrow> ('x ramvfs \<times> int \<times> u8 list) option" where
  "ramfs_read_node s node len offset =
     do { (a, head) \<leftarrow> ramfs_head_of s node;
          (ret, n) \<leftarrow> ramfs_get_internal_node head (fn_inode node);
          (case n of
             None \<Rightarrow> Some (s, ret, [])
           | Some rnode \<Rightarrow>
               (case rn_data rnode of
                  RFile d \<Rightarrow> do { cs \<leftarrow> dstring_read d (unat len) (unat offset); Some (s, int (length cs), cs) }
                | _ \<Rightarrow> None)) }"

definition ramfs_readdir_node ::
  "'x ramvfs \<Rightarrow> file_node \<Rightarrow> int \<Rightarrow> ('x ramvfs \<times> int \<times> dirent option) option" where
  "ramfs_readdir_node s node entry =
     do { (a, head) \<leftarrow> ramfs_head_of s node;
          (foo, n) \<leftarrow> ramfs_get_internal_node head (fn_inode node);
          (case n of
             None \<Rightarrow> Some (s, - ERROR_NOT_FOUND, None)
           | Some rnode \<Rightarrow>
               if fi_type (rn_info rnode) = FILE_TYPE_DIR
               then (case rn_data rnode of
                 RDir dl \<Rightarrow> do {
                   dirbuf \<leftarrow> dlist_get dl entry;
                   (case dirbuf of
                      None \<Rightarrow> Some (s, 0, None)
                    | Some e \<Rightarrow>
                        if 256 \<le> length (rde_name e) then None
                        else Some (s, 1, Some \<lparr>de_inode = rde_inode e, de_offset = entry, de_length = 272,
                                              de_name = rde_name e\<rparr>))
                 }
               | _ \<Rightarrow> None)
               else Some (s, - ERROR_NOT_DIRECTORY, None)) }"

definition ramfs_mount_node :: "'x ramvfs \<Rightarrow> file_node \<Rightarrow> file_node \<Rightarrow> u32 \<Rightarrow> ('x ramvfs \<times> int) option" where
  "ramfs_mount_node s node mount flags =
     do { (a, head) \<leftarrow> ramfs_head_of s node;
          (r, n) \<leftarrow> ramfs_get_internal_node head (fn_inode node);
          rfsbuf \<leftarrow> n;
          (s1, m) \<leftarrow> file_register_mount s (fn_fs mount);
          Some (ramfs_set_head a (ramfs_put head (unat (fn_inode node)) (rfsbuf\<lparr>rn_mount := m\<rparr>)) s1, 0) }"

section \<open>The file system\<close>

definition ramfs_functions :: "(nat \<Rightarrow> u8) \<Rightarrow> 'x ramdev_scheme file_funcs" where
  "ramfs_functions junk =
     \<lparr>ff_read = Some ramfs_read_node, ff_write = Some (ramfs_write_node junk),
      ff_mkdir = Some ramfs_mkdir_node, ff_mount = Some ramfs_mount_node,
      ff_readdir = Some ramfs_readdir_node, ff_lookup = Some ramfs_node_lookup,
      ff_open = Some ramfs_open_node, ff_close = Some ramfs_close_node,
      ff_get_info = Some ramfs_node_get_info\<rparr>"

definition ramfs_root_node :: ramfs_node where
  "ramfs_root_node = \<lparr>rn_name = ''root'', rn_data = RDir (dlist_create 0 0),
     rn_info = empty_info\<lparr>fi_type := FILE_TYPE_DIR, fi_mask := 511, fi_inode := 0, fi_links := 1\<rparr>, rn_mount = 0\<rparr>"

definition create_ramfs :: "'x ramvfs \<Rightarrow> ('x ramvfs \<times> nat) option" where
  "create_ramfs s =
     (let (s1, new_ramfs) = vfs_new s; (s2, ret) = vfs_new s1; (s3, fs_root) = vfs_new s2 in
      do { (nodes, d) \<leftarrow> dlist_set (dlist_create 0 0) 0 (Some ramfs_root_node);
           let head = \<lparr>rh_nodes = nodes, rh_fs = ret, rh_nnodes = 1, rh_root_inode = 0\<rparr>;
           (r, node) \<leftarrow> ramfs_get_node head null_node (rh_root_inode head);
           let root = node\<lparr>fn_references := fn_references node + 1, fn_fs := ret\<rparr>;
           let s4 = ramfs_set_head new_ramfs head
             (s3\<lparr>vs_fss := (vs_fss s3)(ret \<mapsto> \<lparr>fs_root = fs_root, fs_functions = RamfsFuncs,
                              fs_references = 0, fs_devstruct = new_ramfs\<rparr>),
                 vs_nodes := (vs_nodes s3)(fs_root \<mapsto> root)\<rparr>);
           (s5, r') \<leftarrow> ramfs_mkdir_node s4 root ''test'' 0;
           Some (s5, ret) })"

definition init_ramfs :: "'x ramvfs \<Rightarrow> ('x ramvfs \<times> int) option" where
  "init_ramfs s =
     (let (s1, d) = vfs_new s;
          s2 = s1\<lparr>vs_drivers := (vs_drivers s1)(d \<mapsto>
                 \<lparr>fd_references = 0, fd_flags = 1, fd_name = ''ramfs'', fd_kind = RamfsFuncs\<rparr>)\<rparr>
      in do { (s3, r) \<leftarrow> file_register_driver s2 d; Some (s3, 0) })"

section \<open>Access to nodes\<close>

lemma u32_of_int_sint [simp]: "u32_of_int (sint w) = unat w" for w :: u32
proof -
  have "uint w = sint w mod 2 ^ 32" by (simp add: uint_sint take_bit_eq_mod)
  then show ?thesis by (metis u32_of_int_def nat_uint_eq)
qed

lemma ramfs_head_of_set:
  "ramfs_head_of s node = Some (a, h) \<Longrightarrow> ramfs_head_of (ramfs_set_head a h' s) node = Some (a, h')"
  by (auto simp: ramfs_head_of_def ramfs_set_head_def bind_eq_Some_conv)

lemma dlist_wf_put [simp]: "dlist_wf (rh_nodes (ramfs_put h i n)) = dlist_wf (rh_nodes h)"
  by (simp add: ramfs_put_def dlist_wf_def)

lemma dlist_lookup_put:
  "dlist_lookup (rh_nodes h) i \<noteq> None \<Longrightarrow>
   dlist_lookup (rh_nodes (ramfs_put h i n)) = (dlist_lookup (rh_nodes h))(i := Some n)"
  by (auto simp: ramfs_put_def dlist_lookup_def fun_eq_iff split: if_splits)

lemma ramfs_get_internal_ok:
  "dlist_wf (rh_nodes h) \<Longrightarrow> dlist_lookup (rh_nodes h) (unat i) = Some n \<Longrightarrow>
   ramfs_get_internal_node h i = Some (0, Some n)"
  by (simp add: ramfs_get_internal_node_def dlist_get_ok)

section \<open>Contents of a file\<close>

definition ramfs_file :: "'x ramvfs \<Rightarrow> file_node \<Rightarrow> dynstring \<Rightarrow> bool" where
  "ramfs_file s node d \<longleftrightarrow> (\<exists>a h n. ramfs_head_of s node = Some (a, h) \<and> dlist_wf (rh_nodes h)
     \<and> dlist_lookup (rh_nodes h) (unat (fn_inode node)) = Some n
     \<and> fi_type (rn_info n) \<noteq> FILE_TYPE_DIR \<and> rn_data n = RFile d)"

lemma dstring_set_chars_within:
  "ds_length d < p \<Longrightarrow> ds_alloced d * ds_block_size d = 32 \<Longrightarrow> length (ds_block d) = 32 \<Longrightarrow> p + length cs \<le> 32 \<Longrightarrow>
   dstring_set_chars junk d p cs = Some (d\<lparr>ds_length := (if cs = [] then ds_length d else p + length cs - 1),
     ds_block := take p (ds_block d) @ cs @ drop (p + length cs) (ds_block d)\<rparr>)"
proof (induction cs arbitrary: d p)
  case Nil
  then show ?case by simp
next
  case (Cons c cs)
  let ?d = "d\<lparr>ds_length := p, ds_block := (ds_block d)[p := c]\<rparr>"
  have "dstring_set_char junk d p c = Some ?d"
    using Cons.prems by (intro dstring_set_char_within) simp_all
  moreover have "dstring_set_chars junk ?d (Suc p) cs = Some (?d\<lparr>ds_length := (if cs = [] then p else Suc p + length cs - 1),
      ds_block := take (Suc p) ((ds_block d)[p := c]) @ cs @ drop (Suc p + length cs) ((ds_block d)[p := c])\<rparr>)"
    using Cons.IH [of ?d "Suc p"] Cons.prems by simp
  moreover have "take (Suc p) ((ds_block d)[p := c]) = take p (ds_block d) @ [c]"
    using Cons.prems by (simp add: take_Suc_conv_app_nth)
  moreover have "p mod 2 ^ 32 = p" using Cons.prems by simp
  ultimately show ?case by auto
qed

text \<open>The first characters of a new file: the second write makes room for one block of 32 bytes.\<close>

lemma dstring_fill:
  assumes "2 \<le> length bs" "length bs \<le> 32"
  shows "\<exists>d r. dstring_set_chars junk (dstring_create []) 0 bs = Some d
    \<and> ds_length d = (if length bs = 2 then 0 else length bs - 1) \<and> ds_block d = bs @ r \<and> length (ds_block d) = 32
    \<and> ds_alloced d * ds_block_size d = 32"
proof -
  obtain b0 b1 cs where bs: "bs = b0 # b1 # cs" using assms(1) by (cases bs; cases "tl bs") auto
  let ?d0 = "(dstring_create [])\<lparr>ds_block := [b0]\<rparr>"
  let ?d1 = "(dstring_create [])\<lparr>ds_alloced := 1, ds_block := b0 # b1 # map junk [2..<32]\<rparr>"
  have 0: "dstring_set_char junk (dstring_create []) 0 b0 = Some ?d0"
    using dstring_set_char_inside [of 0 "dstring_create []" junk b0] by simp
  have u: "[Suc 0..<32] = 1 # [2..<32]" by (simp add: upt_rec [of "Suc 0"] numeral_2_eq_2)
  have 1: "dstring_set_char junk ?d0 1 b1 = Some ?d1"
    using dstring_set_char_grow [of ?d0 1 1 junk b1] by (simp add: dstring_blocks_def DEFAULT_DYNSTRING_BSIZE_def u)
  have "dstring_set_chars junk ?d1 2 cs = Some (?d1\<lparr>ds_length := (if cs = [] then ds_length ?d1 else 2 + length cs - 1),
      ds_block := take 2 (ds_block ?d1) @ cs @ drop (2 + length cs) (ds_block ?d1)\<rparr>)"
    using assms(2) bs by (intro dstring_set_chars_within) simp_all
  then show ?thesis using 0 1 bs assms by (auto simp: numeral_2_eq_2)
qed

lemma dstring_read_ok:
  "pos + count \<le> Suc (ds_length d) \<Longrightarrow> pos + count \<le> length (ds_block d) \<Longrightarrow> pos + count < 2 ^ 32 \<Longrightarrow>
   dstring_read d count pos = Some (take count (drop pos (ds_block d)))"
proof (induction count arbitrary: pos)
  case (Suc count)
  have "dstring_read d count (Suc pos) = Some (take count (drop (Suc pos) (ds_block d)))"
    using Suc.prems by (intro Suc.IH) simp_all
  moreover have "drop pos (ds_block d) = ds_block d ! pos # drop (Suc pos) (ds_block d)"
    using Suc.prems by (simp add: Cons_nth_drop_Suc)
  ultimately show ?case using Suc.prems by (simp add: dstring_get_string_def)
qed simp

lemma ramfs_write_file:
  assumes "ramfs_file s node d" "bs \<noteq> []" "dstring_set_chars junk d (unat off) bs = Some d'"
  shows "\<exists>s'. ramfs_write_node junk s node bs off = Some (s', int (length bs)) \<and> ramfs_file s' node d'"
proof -
  obtain a h n where f: "ramfs_head_of s node = Some (a, h)" "dlist_wf (rh_nodes h)"
    "dlist_lookup (rh_nodes h) (unat (fn_inode node)) = Some n" "fi_type (rn_info n) \<noteq> FILE_TYPE_DIR" "rn_data n = RFile d"
    using assms(1) by (auto simp: ramfs_file_def)
  let ?h = "ramfs_put h (unat (fn_inode node)) (n\<lparr>rn_data := RFile d'\<rparr>)"
  have "ramfs_write_node junk s node bs off = Some (ramfs_set_head a ?h s, int (length bs))"
    using f assms(2,3) ramfs_get_internal_ok [OF f(2,3)] by (simp add: ramfs_write_node_def)
  moreover have "ramfs_file (ramfs_set_head a ?h s) node d'"
    using f ramfs_head_of_set [OF f(1)] dlist_lookup_put [of h "unat (fn_inode node)"]
    by (auto simp: ramfs_file_def)
  ultimately show ?thesis by blast
qed

lemma ramfs_read_file:
  assumes "ramfs_file s node d" "dstring_read d (unat len) (unat off) = Some cs"
  shows "ramfs_read_node s node len off = Some (s, int (length cs), cs)"
  using assms ramfs_get_internal_ok by (fastforce simp: ramfs_file_def ramfs_read_node_def)

section \<open>Directories\<close>

definition entry_at :: "'a option list \<Rightarrow> nat \<Rightarrow> 'a option" where
  "entry_at es k = (if k < length es then es ! k else None)"

lemma dlist_lookup_entry: "dlist_lookup l = entry_at (dl_entries l)"
  by (simp add: fun_eq_iff dlist_lookup_def entry_at_def)

lemma entry_at_Cons: "entry_at (e # es) k = (case k of 0 \<Rightarrow> e | Suc j \<Rightarrow> entry_at es j)"
  by (simp add: entry_at_def split: nat.split)

lemma find_dirent_none: "\<forall>k d. entry_at es k = Some d \<longrightarrow> rde_name d \<noteq> name \<Longrightarrow> find_dirent es name = - 1"
proof (induction es)
  case (Cons e es)
  have "\<forall>k d. entry_at es k = Some d \<longrightarrow> rde_name d \<noteq> name"
  proof (intro allI impI)
    fix k d assume "entry_at es k = Some d"
    then have "entry_at (e # es) (Suc k) = Some d" by (simp add: entry_at_Cons)
    then show "rde_name d \<noteq> name" using Cons.prems by blast
  qed
  moreover have "e = Some d \<Longrightarrow> rde_name d \<noteq> name" for d
    using Cons.prems [THEN spec, of 0] by (simp add: entry_at_Cons)
  ultimately show ?case using Cons.IH by (cases e) auto
qed simp

lemma find_dirent_some:
  "entry_at es k = Some d \<Longrightarrow> rde_name d = name \<Longrightarrow>
   \<forall>j e. entry_at es j = Some e \<and> rde_name e = name \<longrightarrow> rde_inode e = i \<Longrightarrow> find_dirent es name = sint i"
proof (induction es name arbitrary: k rule: find_dirent.induct)
  case (1 name)
  then show ?case by (simp add: entry_at_def)
next
  case (2 es name)
  obtain j where j: "entry_at es j = Some d" using "2.prems"(1) by (auto simp: entry_at_Cons split: nat.splits)
  have "\<forall>j e. entry_at es j = Some e \<and> rde_name e = name \<longrightarrow> rde_inode e = i"
  proof (intro allI impI)
    fix j e assume "entry_at es j = Some e \<and> rde_name e = name"
    then have "entry_at (None # es) (Suc j) = Some e \<and> rde_name e = name" by (simp add: entry_at_Cons)
    then show "rde_inode e = i" using "2.prems"(3) by blast
  qed
  then show ?case using "2.IH" [OF j "2.prems"(2)] by simp
next
  case (3 c es name)
  show ?case
  proof (cases "name = rde_name c")
    case True
    have "entry_at (Some c # es) 0 = Some c" by (simp add: entry_at_Cons)
    then show ?thesis using "3.prems"(3) True by force
  next
    case False
    then obtain j where j: "entry_at es j = Some d"
      using "3.prems"(1,2) by (auto simp: entry_at_Cons split: nat.splits)
    have "\<forall>j e. entry_at es j = Some e \<and> rde_name e = name \<longrightarrow> rde_inode e = i"
    proof (intro allI impI)
      fix j e assume "entry_at es j = Some e \<and> rde_name e = name"
      then have "entry_at (Some c # es) (Suc j) = Some e \<and> rde_name e = name" by (simp add: entry_at_Cons)
      then show "rde_inode e = i" using "3.prems"(3) by blast
    qed
    then show ?thesis using "3.IH" [OF False j "3.prems"(2)] False by simp
  qed
qed

lemma find_dirent_other:
  "\<forall>k. entry_at fs k = entry_at es k \<or> (entry_at es k = None \<and> (\<exists>d. entry_at fs k = Some d \<and> rde_name d \<noteq> name)) \<Longrightarrow>
   find_dirent fs name = find_dirent es name"
proof (induction fs arbitrary: es)
  case Nil
  then have "\<forall>k d. entry_at es k = Some d \<longrightarrow> rde_name d \<noteq> name" by (auto simp: entry_at_def)
  then show ?case by (simp add: find_dirent_none)
next
  case (Cons f fs)
  show ?case
  proof (cases es)
    case Nil
    have "\<forall>k d. entry_at (f # fs) k = Some d \<longrightarrow> rde_name d \<noteq> name"
    proof (intro allI impI)
      fix k d assume d: "entry_at (f # fs) k = Some d"
      have "entry_at es k = None" using Nil by (simp add: entry_at_def)
      then show "rde_name d \<noteq> name" using Cons.prems [THEN spec, of k] d by auto
    qed
    then show ?thesis using find_dirent_none [of "f # fs"] Nil by simp
  next
    case (Cons e es')
    have "find_dirent fs name = find_dirent es' name"
    proof (rule Cons.IH, rule allI)
      fix k
      from Cons.prems [unfolded Cons, THEN spec, of "Suc k"]
      show "entry_at fs k = entry_at es' k \<or> entry_at es' k = None \<and> (\<exists>d. entry_at fs k = Some d \<and> rde_name d \<noteq> name)"
        by (simp add: entry_at_Cons)
    qed
    moreover have "f = e \<or> e = None \<and> (\<exists>d. f = Some d \<and> rde_name d \<noteq> name)"
      using Cons.prems [unfolded Cons, THEN spec, of 0] by (simp add: entry_at_Cons)
    ultimately show ?thesis using Cons by (cases e) auto
  qed
qed

definition ramfs_dir :: "'x ramvfs \<Rightarrow> file_node \<Rightarrow> ramfs_dirent dlist \<Rightarrow> bool" where
  "ramfs_dir s node d \<longleftrightarrow> (\<exists>a h n. ramfs_head_of s node = Some (a, h) \<and> rh_fs h = fn_fs node
     \<and> dlist_inv (rh_nodes h) \<and> dlist_lookup (rh_nodes h) (unat (fn_inode node)) = Some n
     \<and> fi_type (rn_info n) = FILE_TYPE_DIR \<and> rn_data n = RDir d \<and> dlist_inv d)"

text \<open>Both tables have room for one more entry.\<close>

definition ramfs_room :: "'x ramvfs \<Rightarrow> file_node \<Rightarrow> ramfs_dirent dlist \<Rightarrow> bool" where
  "ramfs_room s node d \<longleftrightarrow> dlist_room d
     \<and> (\<forall>a h. ramfs_head_of s node = Some (a, h) \<longrightarrow> dlist_room (rh_nodes h))"

lemma dlist_inv_put [simp]: "dlist_inv (rh_nodes (ramfs_put h i n)) = dlist_inv (rh_nodes h)"
  by (simp add: dlist_inv_def ramfs_put_def dlist_wf_def)

lemma ramfs_put_fs [simp]: "rh_fs (ramfs_put h i n) = rh_fs h"
  by (simp add: ramfs_put_def)

lemma ramfs_add_node_ok:
  assumes h: "dlist_inv (rh_nodes h)" "dlist_room (rh_nodes h)"
    and n: "dlist_lookup (rh_nodes h) dir = Some n" "rn_data n = RDir d" "dlist_inv d" "dlist_room d"
  shows "\<exists>h' i d' k. ramfs_add_node h dir name = Some (h', i) \<and> dlist_lookup (rh_nodes h) i = None \<and> i < 2 ^ 31
    \<and> dlist_inv (rh_nodes h') \<and> rh_fs h' = rh_fs h \<and> dlist_inv d' \<and> dlist_lookup d k = None
    \<and> dlist_lookup d' = (dlist_lookup d)(k := Some \<lparr>rde_name = name, rde_inode = of_nat i\<rparr>)
    \<and> dlist_lookup (rh_nodes h') = (dlist_lookup (rh_nodes h))(i := Some \<lparr>rn_name = name, rn_data = RNull,
          rn_info = empty_info\<lparr>fi_inode := of_nat i\<rparr>, rn_mount = 0\<rparr>, dir := Some (n\<lparr>rn_data := RDir d'\<rparr>))"
proof -
  let ?ret = "\<lparr>rn_name = name, rn_data = RNull, rn_info = empty_info, rn_mount = 0\<rparr>"
  obtain nodes i where a: "dlist_add (rh_nodes h) (Some ?ret) = Some (nodes, i)" "dlist_inv nodes"
    "dlist_lookup (rh_nodes h) i = None" "dlist_lookup nodes = (dlist_lookup (rh_nodes h))(i := Some ?ret)"
    using dl.add_ok [OF h, of ?ret] by blast
  have i: "i < 2 ^ 31" "i \<noteq> dir"
    using a dlist_lookup_in_range [of nodes i] n(1) by (auto simp: dlist_inv_def)
  let ?e = "\<lparr>rde_name = name, rde_inode = of_nat i\<rparr>"
  obtain d' k where b: "dlist_add d (Some ?e) = Some (d', k)" "dlist_inv d'" "dlist_lookup d k = None"
    "dlist_lookup d' = (dlist_lookup d)(k := Some ?e)"
    using dl.add_ok [OF n(3,4), of ?e] by blast
  let ?n = "\<lparr>rn_name = name, rn_data = RNull, rn_info = empty_info\<lparr>fi_inode := of_nat i\<rparr>, rn_mount = 0\<rparr>"
  let ?h1 = "ramfs_put (h\<lparr>rh_nodes := nodes, rh_nnodes := rh_nnodes h + 1\<rparr>) i ?n"
  have l1: "dlist_lookup (rh_nodes ?h1) = (dlist_lookup (rh_nodes h))(i := Some ?n)"
    using a(4) by (subst dlist_lookup_put) (auto simp: fun_eq_iff)
  have inv1: "dlist_inv (rh_nodes ?h1)" using a(2) by simp
  let ?h2 = "ramfs_put ?h1 dir (n\<lparr>rn_data := RDir d'\<rparr>)"
  have d1: "dlist_lookup (rh_nodes ?h1) dir = Some n" using l1 i(2) n(1) by simp
  have "ramfs_add_node h dir name = Some (?h2, i)"
    using a(1) b(1) n(2) d1 by (simp add: ramfs_add_node_def)
  moreover have "dlist_lookup (rh_nodes ?h2) = (dlist_lookup (rh_nodes h))(i := Some ?n, dir := Some (n\<lparr>rn_data := RDir d'\<rparr>))"
    using d1 l1 by (subst dlist_lookup_put) auto
  moreover have "dlist_inv (rh_nodes ?h2)" using inv1 by simp
  moreover have "rh_fs ?h2 = rh_fs h" by simp
  ultimately show ?thesis using a(3) b(2-4) i(1) by blast
qed

lemma ramfs_dir_facts:
  assumes "ramfs_dir s node d"
  obtains a h n where "ramfs_head_of s node = Some (a, h)" "rh_fs h = fn_fs node"
    "dlist_inv (rh_nodes h)" "dlist_lookup (rh_nodes h) (unat (fn_inode node)) = Some n"
    "fi_type (rn_info n) = FILE_TYPE_DIR" "rn_data n = RDir d" "dlist_inv d"
    "ramfs_node_get_info s node = Some (s, 0, Some (rn_info n))"
    "ramfs_get_internal_node h (fn_inode node) = Some (0, Some n)"
proof -
  obtain a h n where f: "ramfs_head_of s node = Some (a, h)" "rh_fs h = fn_fs node"
    "dlist_inv (rh_nodes h)" "dlist_lookup (rh_nodes h) (unat (fn_inode node)) = Some n"
    "fi_type (rn_info n) = FILE_TYPE_DIR" "rn_data n = RDir d" "dlist_inv d"
    using assms by (auto simp: ramfs_dir_def)
  have wf: "dlist_wf (rh_nodes h)" using f(3) by (simp add: dlist_inv_def)
  show thesis
    by (rule that [OF f]) (use f wf in \<open>simp_all add: ramfs_node_get_info_def dlist_get_ok ramfs_get_internal_ok\<close>)
qed

lemma ramfs_findnode_ok:
  assumes "ramfs_dir s node d"
  shows "ramfs_dir_findnode s node name = Some (find_dirent (dl_entries d) name)"
proof -
  from assms obtain a h n where "ramfs_head_of s node = Some (a, h)" "rn_data n = RDir d" "dlist_inv d"
    "ramfs_get_internal_node h (fn_inode node) = Some (0, Some n)"
    by (rule ramfs_dir_facts) blast
  then show ?thesis by (simp add: ramfs_dir_findnode_def dlist_inv_def dlist_wf_def)
qed

lemma ramfs_head_of_cong: "fn_fs node = fn_fs node' \<Longrightarrow> ramfs_head_of s node = ramfs_head_of s node'"
  by (simp add: ramfs_head_of_def)

lemma ramfs_lookup_dir:
  assumes "ramfs_dir s node d" "find_dirent (dl_entries d) name = int i" "i < 2 ^ 31"
    and "ramfs_head_of s node = Some (a, h)" "dlist_lookup (rh_nodes h) i = Some m"
  shows "ramfs_node_lookup s node buf name fl = Some (s, 0, buf\<lparr>fn_inode := fi_inode (rn_info m), fn_flags := 0,
      fn_references := 0, fn_mount := rn_mount m, fn_fs := fn_fs node\<rparr>)"
proof -
  from assms(1) obtain a' h' and n :: ramfs_node where f: "ramfs_head_of s node = Some (a', h')" "rh_fs h' = fn_fs node"
    "dlist_inv (rh_nodes h')" "fi_type (rn_info n) = FILE_TYPE_DIR"
    "ramfs_node_get_info s node = Some (s, 0, Some (rn_info n))"
    by (rule ramfs_dir_facts) blast
  have "unat (word_of_int (int i) :: u32) = i"
    using assms(3) by (simp add: unat_of_nat take_bit_nat_eq_self)
  moreover have "dlist_wf (rh_nodes h)" using f(1,3) assms(4) by (simp add: dlist_inv_def)
  ultimately have "ramfs_get_node h buf (word_of_int (int i)) = Some (0, buf\<lparr>fn_inode := fi_inode (rn_info m), fn_flags := 0,
      fn_references := 0, fn_mount := rn_mount m, fn_fs := rh_fs h\<rparr>)"
    using assms(5) by (simp add: ramfs_get_node_def dlist_get_ok)
  then show ?thesis
    using f assms(2,4) ramfs_findnode_ok [OF assms(1)] by (simp add: ramfs_node_lookup_def)
qed

lemma ramfs_mkdir_ok:
  assumes dir: "ramfs_dir s node d" and room: "ramfs_room s node d"
    and fresh: "\<forall>k e. dlist_lookup d k = Some e \<longrightarrow> rde_name e \<noteq> name"
  shows "\<exists>s' i d'. ramfs_mkdir_node s node name fl = Some (s', 0) \<and> i < 2 ^ 31
    \<and> (\<forall>a h. ramfs_head_of s node = Some (a, h) \<longrightarrow> dlist_lookup (rh_nodes h) i = None)
    \<and> ramfs_dir s' node d' \<and> find_dirent (dl_entries d') name = int i
    \<and> (\<forall>m. m \<noteq> name \<longrightarrow> find_dirent (dl_entries d') m = find_dirent (dl_entries d) m)
    \<and> (\<forall>node'. fn_fs node' = fn_fs node \<and> fn_inode node' = of_nat i \<longrightarrow> ramfs_dir s' node' (dlist_create 0 0))
    \<and> (\<exists>a h n. ramfs_head_of s' node = Some (a, h) \<and> dlist_lookup (rh_nodes h) i = Some n
         \<and> fi_inode (rn_info n) = of_nat i \<and> rn_mount n = 0)"
proof -
  from dir obtain a h n where f: "ramfs_head_of s node = Some (a, h)" "rh_fs h = fn_fs node"
    "dlist_inv (rh_nodes h)" "dlist_lookup (rh_nodes h) (unat (fn_inode node)) = Some n"
    "fi_type (rn_info n) = FILE_TYPE_DIR" "rn_data n = RDir d" "dlist_inv d"
    "ramfs_node_get_info s node = Some (s, 0, Some (rn_info n))"
    by (rule ramfs_dir_facts) blast
  let ?dir = "unat (fn_inode node)"
  have rm: "dlist_room (rh_nodes h)" "dlist_room d" using room f(1) unfolding ramfs_room_def by blast+
  obtain h' i d' k where add: "ramfs_add_node h ?dir name = Some (h', i)" "dlist_lookup (rh_nodes h) i = None"
    "i < 2 ^ 31" "dlist_inv (rh_nodes h')" "rh_fs h' = rh_fs h" "dlist_inv d'" "dlist_lookup d k = None"
    "dlist_lookup d' = (dlist_lookup d)(k := Some \<lparr>rde_name = name, rde_inode = of_nat i\<rparr>)"
    "dlist_lookup (rh_nodes h') = (dlist_lookup (rh_nodes h))(i := Some \<lparr>rn_name = name, rn_data = RNull,
          rn_info = empty_info\<lparr>fi_inode := of_nat i\<rparr>, rn_mount = 0\<rparr>, ?dir := Some (n\<lparr>rn_data := RDir d'\<rparr>))"
    using ramfs_add_node_ok [OF f(3) rm(1) f(4,6,7) rm(2)] by blast
  have ne: "i \<noteq> ?dir" using add(2) f(4) by auto
  let ?m = "\<lparr>rn_name = name, rn_data = RDir (dlist_create 0 0),
    rn_info = (empty_info\<lparr>fi_inode := of_nat i\<rparr>)\<lparr>fi_type := FILE_TYPE_DIR\<rparr>, rn_mount = 0\<rparr>"
  let ?h2 = "ramfs_put h' i ?m"
  let ?s = "ramfs_set_head a ?h2 s"
  have li: "dlist_lookup (rh_nodes h') i = Some \<lparr>rn_name = name, rn_data = RNull,
          rn_info = empty_info\<lparr>fi_inode := of_nat i\<rparr>, rn_mount = 0\<rparr>"
    using add(9) ne by simp
  have mk: "ramfs_mkdir_node s node name fl = Some (?s, 0)"
    using f(1,5,8) add(1) li by (simp add: ramfs_mkdir_node_def)
  have l2: "dlist_lookup (rh_nodes ?h2) = (dlist_lookup (rh_nodes h'))(i := Some ?m)"
    using li by (subst dlist_lookup_put) auto
  have hd: "ramfs_head_of ?s node' = Some (a, ?h2)" if "fn_fs node' = fn_fs node" for node'
    using ramfs_head_of_set [OF f(1), of ?h2] ramfs_head_of_cong [OF that, of ?s] by simp
  have ui: "unat (of_nat i :: u32) = i" using add(3) by (simp add: unat_of_nat take_bit_nat_eq_self)
  have new: "ramfs_dir ?s node' (dlist_create 0 0)" if "fn_fs node' = fn_fs node \<and> fn_inode node' = of_nat i" for node'
    unfolding ramfs_dir_def using hd [of node'] that f(2) add(4,5) l2 ui
    by (intro exI [of _ a] exI [of _ ?h2] exI [of _ ?m]) simp
  have old: "ramfs_dir ?s node d'"
    unfolding ramfs_dir_def using hd [of node] f(2,5) add(4,5,6,9) l2 ne
    by (intro exI [of _ a] exI [of _ ?h2] exI [of _ "n\<lparr>rn_data := RDir d'\<rparr>"]) simp
  have e: "entry_at (dl_entries d') = (entry_at (dl_entries d))(k := Some \<lparr>rde_name = name, rde_inode = of_nat i\<rparr>)"
    "entry_at (dl_entries d) k = None" "\<forall>k e. entry_at (dl_entries d) k = Some e \<longrightarrow> rde_name e \<noteq> name"
    using add(7,8) fresh by (simp_all add: dlist_lookup_entry)
  have "find_dirent (dl_entries d') name = sint (of_nat i :: u32)"
    by (rule find_dirent_some [of _ k "\<lparr>rde_name = name, rde_inode = of_nat i\<rparr>"]) (use e in \<open>auto split: if_splits\<close>)
  moreover have "sint (of_nat i :: u32) = int i" using add(3) by (rule sint_of_nat_u32)
  ultimately have fi: "find_dirent (dl_entries d') name = int i" by simp
  have fo: "find_dirent (dl_entries d') m = find_dirent (dl_entries d) m" if "m \<noteq> name" for m
    using that e by (intro find_dirent_other) auto
  show ?thesis
    using mk add(2,3) f(1) old fi fo new hd [of node] l2
    by (intro exI [of _ ?s] exI [of _ i] exI [of _ d']) auto
qed

lemma dstring_set_chars_append:
  "dstring_set_chars junk d p (xs @ ys) = do { d' \<leftarrow> dstring_set_chars junk d p xs; dstring_set_chars junk d' (p + length xs) ys }"
  by (induction xs arbitrary: d p) simp_all

section \<open>Properties\<close>

text \<open>C27. What is written to a new file is read back: after writing between 3 and 32 bytes at the
  start of a file that was just created, reading any range of them returns exactly those bytes.\<close>

theorem ramfs_write_read:
  assumes "ramfs_file s node (dstring_create [])" "3 \<le> length bs" "length bs \<le> 32" "off + len \<le> length bs"
  shows "\<exists>s'. ramfs_write_node junk s node bs 0 = Some (s', int (length bs))
    \<and> ramfs_read_node s' node (of_nat len) (of_nat off) = Some (s', int len, take len (drop off bs))"
proof -
  obtain d r where d: "dstring_set_chars junk (dstring_create []) 0 bs = Some d"
    "ds_length d = length bs - 1" "ds_block d = bs @ r" "length (ds_block d) = 32"
    using dstring_fill [of bs junk] assms(2,3) by auto
  obtain s' where s': "ramfs_write_node junk s node bs 0 = Some (s', int (length bs))" "ramfs_file s' node d"
    using ramfs_write_file [OF assms(1), of bs junk 0 d] d(1) assms(2) by (cases "bs = []") auto
  have u: "unat (of_nat len :: u32) = len" "unat (of_nat off :: u32) = off"
    using assms(3,4) by (simp_all add: unat_of_nat_small)
  have "dstring_read d len off = Some (take len (drop off bs))"
    using dstring_read_ok [of off len d] d assms(2-4) by simp
  then have "ramfs_read_node s' node (of_nat len) (of_nat off) = Some (s', int (length (take len (drop off bs))), take len (drop off bs))"
    using u by (intro ramfs_read_file [OF s'(2)]) simp
  then show ?thesis using s'(1) assms(4) by auto
qed

text \<open>The limits of that: a file of two bytes reads back as its first byte only, because the
  length is the last position written instead of a count, and only when that position is past the
  old length; and writing more than 32 bytes to a new file leaves the heap block.\<close>

theorem ramfs_write_limits:
  assumes "ramfs_file s node (dstring_create [])"
  shows "(\<exists>s'. ramfs_write_node junk s node [a, b] 0 = Some (s', 2) \<and> ramfs_read_node s' node 2 0 = Some (s', 1, [a]))
    \<and> (32 < length bs \<longrightarrow> ramfs_write_node junk s node bs 0 = None)"
proof (intro conjI impI)
  obtain d r where d: "dstring_set_chars junk (dstring_create []) 0 [a, b] = Some d"
    "ds_length d = 0" "ds_block d = [a, b] @ r" "length (ds_block d) = 32"
    using dstring_fill [of "[a, b]" junk] by auto
  obtain s' where s': "ramfs_write_node junk s node [a, b] 0 = Some (s', 2)" "ramfs_file s' node d"
    using ramfs_write_file [OF assms, of "[a, b]" junk 0 d] d(1) by auto
  have "dstring_read d 2 0 = Some [a]" using d by (simp add: numeral_2_eq_2 dstring_get_string_def)
  then have "ramfs_read_node s' node 2 0 = Some (s', int (length [a]), [a])"
    by (intro ramfs_read_file [OF s'(2)]) simp
  then show "\<exists>s'. ramfs_write_node junk s node [a, b] 0 = Some (s', 2) \<and> ramfs_read_node s' node 2 0 = Some (s', 1, [a])"
    using s'(1) by auto
next
  assume l: "32 < length bs"
  define xs where "xs = take 32 bs"
  have xs: "length xs = 32" using l by (simp add: xs_def)
  have bs: "bs = xs @ bs ! 32 # drop 33 bs"
    using l id_take_nth_drop [of 32 bs] by (simp add: xs_def)
  obtain d where d: "dstring_set_chars junk (dstring_create []) 0 xs = Some d" "ds_length d = 31"
    "length (ds_block d) = 32" "ds_alloced d * ds_block_size d = 32"
    using dstring_fill [of xs junk] xs by auto
  have "dstring_set_char junk d 32 (bs ! 32) = None"
    using d by (intro dstring_set_char_boundary) simp_all
  then have "dstring_set_chars junk (dstring_create []) 0 bs = None"
    by (subst bs) (simp add: dstring_set_chars_append d(1) xs)
  moreover have "bs \<noteq> []" using l by auto
  ultimately show "ramfs_write_node junk s node bs 0 = None"
    using assms ramfs_get_internal_ok by (fastforce simp: ramfs_file_def ramfs_write_node_def)
qed

text \<open>C28. \<open>mkdir\<close> of a new name gives it an inode that was not in use; looking the name up afterwards
  finds an empty directory there, and every other name is found as before.\<close>

theorem ramfs_mkdir_lookup:
  assumes "ramfs_dir s node d" "ramfs_room s node d"
    and "\<forall>k e. dlist_lookup d k = Some e \<longrightarrow> rde_name e \<noteq> name"
  shows "\<exists>s' i buf'. ramfs_mkdir_node s node name fl = Some (s', 0)
    \<and> (\<forall>a h. ramfs_head_of s node = Some (a, h) \<longrightarrow> dlist_lookup (rh_nodes h) i = None)
    \<and> ramfs_node_lookup s' node buf name fl' = Some (s', 0, buf') \<and> fn_inode buf' = of_nat i
    \<and> ramfs_dir s' buf' (dlist_create 0 0)
    \<and> (\<forall>m. m \<noteq> name \<longrightarrow> ramfs_dir_findnode s' node m = ramfs_dir_findnode s node m)"
proof -
  obtain s' i d' where m: "ramfs_mkdir_node s node name fl = Some (s', 0)" "i < 2 ^ 31"
    "\<forall>a h. ramfs_head_of s node = Some (a, h) \<longrightarrow> dlist_lookup (rh_nodes h) i = None"
    "ramfs_dir s' node d'" "find_dirent (dl_entries d') name = int i"
    "\<forall>m. m \<noteq> name \<longrightarrow> find_dirent (dl_entries d') m = find_dirent (dl_entries d) m"
    "\<forall>node'. fn_fs node' = fn_fs node \<and> fn_inode node' = of_nat i \<longrightarrow> ramfs_dir s' node' (dlist_create 0 0)"
    "\<exists>a h n. ramfs_head_of s' node = Some (a, h) \<and> dlist_lookup (rh_nodes h) i = Some n
         \<and> fi_inode (rn_info n) = of_nat i \<and> rn_mount n = 0"
    using ramfs_mkdir_ok [OF assms] by blast
  then obtain a h n where n: "ramfs_head_of s' node = Some (a, h)" "dlist_lookup (rh_nodes h) i = Some n"
    "fi_inode (rn_info n) = of_nat i" "rn_mount n = 0" by blast
  let ?b = "buf\<lparr>fn_inode := of_nat i, fn_flags := 0, fn_references := 0, fn_mount := 0, fn_fs := fn_fs node\<rparr>"
  have "ramfs_node_lookup s' node buf name fl' = Some (s', 0, ?b)"
    using ramfs_lookup_dir [OF m(4,5,2) n(1,2)] n(3,4) by simp
  moreover have "ramfs_dir s' ?b (dlist_create 0 0)" using m(7) by simp
  moreover have "ramfs_dir_findnode s' node k = ramfs_dir_findnode s node k" if "k \<noteq> name" for k
    using that m(6) ramfs_findnode_ok [OF m(4)] ramfs_findnode_ok [OF assms(1)] by simp
  ultimately show ?thesis
    using m(1,3) by (intro exI [of _ s'] exI [of _ i] exI [of _ ?b]) simp
qed

text \<open>A file system with an empty root directory and one new file, inode 1.\<close>

definition small_ramfs :: "ramdev vfs" where
  "small_ramfs =
     \<lparr>vs_nodes = Map.empty, vs_mounts = Map.empty,
      vs_fss = [2 \<mapsto> \<lparr>fs_root = 3, fs_functions = RamfsFuncs, fs_references = 0, fs_devstruct = 1\<rparr>],
      vs_drivers = Map.empty, vs_driver_list = [0], vs_mount_list = [0], vs_root = 3, vs_froot = 0, vs_curdir = 0,
      vs_next = 4,
      vs_dev = \<lparr>rd_heads = [1 \<mapsto> \<lparr>rh_nodes = (dlist_create 0 0)\<lparr>dl_entries := [Some ramfs_root_node,
          Some \<lparr>rn_name = ''file'', rn_data = RFile (dstring_create []), rn_info = empty_info, rn_mount = 0\<rparr>]
          @ replicate 6 None\<rparr>, rh_fs = 2, rh_nnodes = 2, rh_root_inode = 0\<rparr>]\<rparr>\<rparr>"

lemma small_nodes_wf: "dlist_inv ((dlist_create 0 0 :: ramfs_node dlist)\<lparr>dl_entries := es @ replicate 6 None\<rparr>)"
  if "length es = 2"
  using that by (simp add: dlist_inv_def dlist_wf_def dlist_create_def DLIST_DEFAULT_BLOCKSIZE_def)

lemma small_ramfs_file: "ramfs_file small_ramfs (null_node\<lparr>fn_inode := 1, fn_fs := 2\<rparr>) (dstring_create [])"
  using small_nodes_wf [of "[Some ramfs_root_node,
          Some \<lparr>rn_name = ''file'', rn_data = RFile (dstring_create []), rn_info = empty_info, rn_mount = 0\<rparr>]"]
  by (auto simp: ramfs_file_def ramfs_head_of_def small_ramfs_def null_node_def dlist_inv_def dlist_lookup_def empty_info_def)

lemma small_ramfs_dir: "ramfs_dir small_ramfs (null_node\<lparr>fn_fs := 2\<rparr>) (dlist_create 0 0)"
  using small_nodes_wf [of "[Some ramfs_root_node,
          Some \<lparr>rn_name = ''file'', rn_data = RFile (dstring_create []), rn_info = empty_info, rn_mount = 0\<rparr>]"]
  by (auto simp: ramfs_dir_def ramfs_head_of_def small_ramfs_def null_node_def dlist_lookup_def ramfs_root_node_def)

lemma small_ramfs_room: "ramfs_room small_ramfs (null_node\<lparr>fn_fs := 2\<rparr>) (dlist_create 0 0)"
  by (simp add: ramfs_room_def ramfs_head_of_def small_ramfs_def null_node_def)

lemma ramfs_write_read_witness:
  "\<exists>s'. ramfs_write_node (\<lambda>_. 0) small_ramfs (null_node\<lparr>fn_inode := 1, fn_fs := 2\<rparr>) [72, 101, 108, 112] 0 = Some (s', 4)
    \<and> ramfs_read_node s' (null_node\<lparr>fn_inode := 1, fn_fs := 2\<rparr>) 2 1 = Some (s', 2, [101, 108])"
  using ramfs_write_read [OF small_ramfs_file, of "[72, 101, 108, 112]" 1 2 "\<lambda>_. 0"] by (simp add: numeral_2_eq_2)

lemma ramfs_write_limits_witness:
  "ramfs_write_node (\<lambda>_. 0) small_ramfs (null_node\<lparr>fn_inode := 1, fn_fs := 2\<rparr>) (replicate 40 65) 0 = None"
  using ramfs_write_limits [OF small_ramfs_file, of "\<lambda>_. 0" 0 0 "replicate 40 65"] by simp

lemma ramfs_mkdir_lookup_witness:
  "\<exists>s' i buf'. ramfs_mkdir_node small_ramfs (null_node\<lparr>fn_fs := 2\<rparr>) ''test'' 0 = Some (s', 0)
    \<and> ramfs_node_lookup s' (null_node\<lparr>fn_fs := 2\<rparr>) null_node ''test'' 0 = Some (s', 0, buf') \<and> fn_inode buf' = of_nat i"
  using ramfs_mkdir_lookup [OF small_ramfs_dir small_ramfs_room, of "''test''" 0 null_node 0] by auto

end
