(* ===== verification/VfsSyscalls.thy ===== *)
theory VfsSyscalls
  imports VFS DList
begin

text \<open>
  \<^verbatim>\<open>kernel/base/vfs/vfs_syscalls.c\<close> and \<^verbatim>\<open>kernel/base/tasking/pobj.c\<close>: the file descriptors of
  the running task and the system calls on them. The descriptor table is a \<open>dlist\<close>, and each
  object is reached from one table slot only, so the table holds the objects themselves. The
  constructor and destructor pointers of an object are a value of \<open>pobj_hooks\<close>, with the tables of
  functions they stand for as arguments. A call that blocks gives up the processor: \<open>sched\<close> is
  what the other tasks do to the state meanwhile. Following a pointer that was never set is \<open>None\<close>.
\<close>

section \<open>State\<close>

definition FILE_POBJ :: u32 where "FILE_POBJ = 0xf11e"

datatype pobj_hooks = NoHooks | PipeHooks

record file_pobj =
  po_type :: u32
  po_size :: u32
  po_hooks :: pobj_hooks
  po_node :: file_node
  po_read_offset :: u32
  po_write_offset :: u32
  po_file_type :: u32

record 'd files =
  f_vfs :: "'d vfs"
  f_pobjects :: "file_pobj dlist"

type_synonym 'd pobj_dtors = "pobj_hooks \<Rightarrow> ('d vfs \<Rightarrow> file_pobj \<Rightarrow> 'd vfs option) option"
type_synonym 'd pobj_ctors = "pobj_hooks \<Rightarrow> ('d vfs \<Rightarrow> file_pobj \<Rightarrow> ('d vfs \<times> file_pobj) option) option"

section \<open>Process objects\<close>

text \<open>Without a constructor the copy is \<open>size\<close> bytes of the object, all of it for the objects here.\<close>

definition pobj_copy :: "'d pobj_ctors \<Rightarrow> 'd vfs \<Rightarrow> file_pobj \<Rightarrow> ('d vfs \<times> file_pobj) option" where
  "pobj_copy ctors s obj =
     (case ctors (po_hooks obj) of Some ctor \<Rightarrow> ctor s obj | None \<Rightarrow> Some (s, obj))"

definition pobj_free :: "'d pobj_dtors \<Rightarrow> 'd vfs \<Rightarrow> file_pobj \<Rightarrow> 'd vfs option" where
  "pobj_free dtors s obj =
     (case dtors (po_hooks obj) of Some dtor \<Rightarrow> dtor s obj | None \<Rightarrow> Some s)"

definition pobj_get :: "'d files \<Rightarrow> u32 \<Rightarrow> (int \<times> file_pobj option) option" where
  "pobj_get s pnode =
     (if unat pnode < dlist_allocated (f_pobjects s)
      then do { temp \<leftarrow> dlist_get (f_pobjects s) (sint pnode);
                Some (case temp of None \<Rightarrow> (- ERROR_NOT_FOUND, None) | Some t \<Rightarrow> (0, Some t)) }
      else Some (- ERROR_INVALID_ARGUMENT, None))"

text \<open>The object pointer is only written when the result is 0.\<close>

definition vfs_get_pobj :: "'d files \<Rightarrow> int \<Rightarrow> (int \<times> file_pobj option) option" where
  "vfs_get_pobj s pnode =
     (if u32_of_int pnode < dlist_allocated (f_pobjects s)
      then do { nodeobj \<leftarrow> dlist_get (f_pobjects s) pnode;
                Some (case nodeobj of
                        None \<Rightarrow> (- ERROR_NOT_FOUND, None)
                      | Some t \<Rightarrow> if po_type t = FILE_POBJ then (0, Some t) else (- ERROR_NOT_FILE, None)) }
      else Some (- ERROR_INVALID_ARGUMENT, None))"

definition put_pobj :: "int \<Rightarrow> file_pobj \<Rightarrow> 'd files \<Rightarrow> 'd files" where
  "put_pobj fd t s = s\<lparr>f_pobjects := (f_pobjects s)\<lparr>dl_entries := (dl_entries (f_pobjects s))[u32_of_int fd := Some t]\<rparr>\<rparr>"

definition new_pobj :: file_pobj where
  "new_pobj = \<lparr>po_type = FILE_POBJ, po_size = 52, po_hooks = NoHooks, po_node = null_node,
     po_read_offset = 0, po_write_offset = 0, po_file_type = 0\<rparr>"

section \<open>open and close\<close>

text \<open>The path up to its last slash and the name behind it, if there is a slash.\<close>

definition split_path :: "string \<Rightarrow> (string \<times> string) option" where
  "split_path path =
     (let r = rev path; name = takeWhile (\<lambda>c. c \<noteq> CHR ''/'') r; rest = dropWhile (\<lambda>c. c \<noteq> CHR ''/'') r
      in if rest = [] then None else Some (rev (tl rest), rev name))"

definition add_pobj :: "'d files \<Rightarrow> file_pobj \<Rightarrow> ('d files \<times> int) option" where
  "add_pobj s obj =
     do { (l, i) \<leftarrow> dlist_add (f_pobjects s) (Some obj); Some (s\<lparr>f_pobjects := l\<rparr>, int i) }"

text \<open>After the file system opened the name, the path is looked up again; when that fails the node
  stays as it was. The failure is not reported.\<close>

definition open_found :: "'d func_table \<Rightarrow> 'd files \<Rightarrow> string \<Rightarrow> file_node \<Rightarrow> ('d files \<times> int) option" where
  "open_found tbl s path node =
     do { (v, r, n) \<leftarrow> file_lookup tbl (f_vfs s) (Some path) 0;
          add_pobj (s\<lparr>f_vfs := v\<rparr>) (new_pobj\<lparr>po_node := (case n of None \<Rightarrow> node | Some n' \<Rightarrow> n')\<rparr>) }"

text \<open>\<open>VFS_FUNCTION( node, open, name, flags )\<close>.\<close>

definition open_node :: "'d func_table \<Rightarrow> 'd vfs \<Rightarrow> file_node \<Rightarrow> string \<Rightarrow> u32 \<Rightarrow> ('d vfs \<times> int) option" where
  "open_node tbl v node name flags =
     do { fn \<leftarrow> VFS_FUNCTION tbl ff_open v node;
          (case fn of None \<Rightarrow> Some (v, - ERROR_NO_FUNC) | Some f \<Rightarrow> f v node name flags) }"

definition vfs_open :: "'d func_table \<Rightarrow> 'd files \<Rightarrow> string \<Rightarrow> u32 \<Rightarrow> ('d files \<times> int) option" where
  "vfs_open tbl s path flags =
     (if path = [] then Some (s, - ERROR_NOT_FOUND)
      else (case split_path path of
        Some (dirpath, fpath) \<Rightarrow> do {
          (v, lookup, n) \<leftarrow> (if dirpath \<noteq> [] then file_lookup tbl (f_vfs s) (Some dirpath) 0
                           else file_lookup_absolute tbl (f_vfs s) ''/'' 0);
          let s1 = s\<lparr>f_vfs := v\<rparr>;
          let node = (case n of None \<Rightarrow> null_node | Some n' \<Rightarrow> n');
          if lookup = 0
          then if fpath \<noteq> []
               then do {
                 (v2, r) \<leftarrow> open_node tbl v node fpath flags;
                 let s2 = s1\<lparr>f_vfs := v2\<rparr>;
                 if 0 \<le> r then open_found tbl s2 path node else Some (s2, r)
               }
               else add_pobj s1 (new_pobj\<lparr>po_node := node\<rparr>)
          else if lookup < 0 then Some (s1, lookup)
          else Some (s1, - ERROR_NOT_FOUND)
        }
      | None \<Rightarrow> do {
          node \<leftarrow> vs_nodes (f_vfs s) (get_current_dir (f_vfs s));
          (v, r) \<leftarrow> open_node tbl (f_vfs s) node path flags;
          let s1 = s\<lparr>f_vfs := v\<rparr>;
          if 0 \<le> r then open_found tbl s1 path null_node else Some (s1, r)
        }))"

definition vfs_close :: "'d func_table \<Rightarrow> 'd pobj_dtors \<Rightarrow> 'd files \<Rightarrow> int \<Rightarrow> ('d files \<times> int) option" where
  "vfs_close tbl dtors s pnode =
     do { (ret, obj) \<leftarrow> vfs_get_pobj s pnode;
          (case obj of
             None \<Rightarrow> Some (s, ret)
           | Some t \<Rightarrow> do {
               fn \<leftarrow> VFS_FUNCTION tbl ff_close (f_vfs s) (po_node t);
               (v, r) \<leftarrow> (case fn of None \<Rightarrow> Some (f_vfs s, - ERROR_NO_FUNC) | Some f \<Rightarrow> f (f_vfs s) (po_node t) 0);
               l \<leftarrow> dlist_remove (f_pobjects s) pnode;
               v' \<leftarrow> pobj_free dtors v t;
               Some (s\<lparr>f_vfs := v', f_pobjects := l\<rparr>, r)
             }) }"

section \<open>read and write\<close>

text \<open>One round of the loop: the call into the file system and the new offset.\<close>

definition read_once :: "'d func_table \<Rightarrow> 'd files \<Rightarrow> int \<Rightarrow> file_pobj \<Rightarrow> u32 \<Rightarrow> ('d files \<times> int \<times> u8 list) option" where
  "read_once tbl s pnode t len =
     do { fn \<leftarrow> VFS_FUNCTION tbl ff_read (f_vfs s) (po_node t);
          (v, ret, bs) \<leftarrow> (case fn of None \<Rightarrow> Some (f_vfs s, - ERROR_NO_FUNC, [])
                         | Some f \<Rightarrow> f (f_vfs s) (po_node t) len (po_read_offset t));
          Some (put_pobj pnode (t\<lparr>po_read_offset := po_read_offset t + (if 0 < ret then word_of_int ret else 0)\<rparr>)
                  (s\<lparr>f_vfs := v\<rparr>), ret, bs) }"

definition write_once :: "'d func_table \<Rightarrow> 'd files \<Rightarrow> int \<Rightarrow> file_pobj \<Rightarrow> u8 list \<Rightarrow> ('d files \<times> int) option" where
  "write_once tbl s pnode t buf =
     do { fn \<leftarrow> VFS_FUNCTION tbl ff_write (f_vfs s) (po_node t);
          (v, ret) \<leftarrow> (case fn of None \<Rightarrow> Some (f_vfs s, - ERROR_NO_FUNC)
                     | Some f \<Rightarrow> f (f_vfs s) (po_node t) buf (po_write_offset t));
          Some (put_pobj pnode (t\<lparr>po_write_offset := po_write_offset t + (if 0 < ret then word_of_int ret else 0)\<rparr>)
                  (s\<lparr>f_vfs := v\<rparr>), ret) }"

text \<open>Whether the loop goes round again: the file blocks and has nothing yet.\<close>

definition must_block :: "file_pobj \<Rightarrow> int \<Rightarrow> bool" where
  "must_block t ret \<longleftrightarrow> fn_flags (po_node t) AND FILE_NONBLOCK = 0 \<and> ret = - ERROR_TRY_AGAIN"

partial_function (option) vfs_read_loop ::
  "'d func_table \<Rightarrow> ('d files \<Rightarrow> 'd files option) \<Rightarrow> 'd files \<Rightarrow> int \<Rightarrow> u32 \<Rightarrow> ('d files \<times> int \<times> u8 list) option" where
  "vfs_read_loop tbl sched s pnode len =
     do { t \<leftarrow> dlist_lookup (f_pobjects s) (u32_of_int pnode);
          (s1, ret, bs) \<leftarrow> read_once tbl s pnode t len;
          if must_block t ret
          then do { s2 \<leftarrow> sched s1; vfs_read_loop tbl sched s2 pnode len }
          else Some (s1, ret, bs) }"

definition vfs_read ::
  "'d func_table \<Rightarrow> ('d files \<Rightarrow> 'd files option) \<Rightarrow> 'd files \<Rightarrow> int \<Rightarrow> u32 \<Rightarrow> ('d files \<times> int \<times> u8 list) option" where
  "vfs_read tbl sched s pnode len =
     (if len \<noteq> 0
      then do { (ret, obj) \<leftarrow> vfs_get_pobj s pnode;
                (case obj of None \<Rightarrow> Some (s, ret, []) | Some t \<Rightarrow> vfs_read_loop tbl sched s pnode len) }
      else Some (s, - ERROR_NOT_FILE, []))"

partial_function (option) vfs_write_loop ::
  "'d func_table \<Rightarrow> ('d files \<Rightarrow> 'd files option) \<Rightarrow> 'd files \<Rightarrow> int \<Rightarrow> u8 list \<Rightarrow> ('d files \<times> int) option" where
  "vfs_write_loop tbl sched s pnode buf =
     do { t \<leftarrow> dlist_lookup (f_pobjects s) (u32_of_int pnode);
          (s1, ret) \<leftarrow> write_once tbl s pnode t buf;
          if must_block t ret
          then do { s2 \<leftarrow> sched s1; vfs_write_loop tbl sched s2 pnode buf }
          else Some (s1, ret) }"

definition vfs_write ::
  "'d func_table \<Rightarrow> ('d files \<Rightarrow> 'd files option) \<Rightarrow> 'd files \<Rightarrow> int \<Rightarrow> u8 list \<Rightarrow> ('d files \<times> int) option" where
  "vfs_write tbl sched s pnode buf =
     (if buf \<noteq> []
      then do { (ret, obj) \<leftarrow> vfs_get_pobj s pnode;
                (case obj of None \<Rightarrow> Some (s, ret) | Some t \<Rightarrow> vfs_write_loop tbl sched s pnode buf) }
      else Some (s, - ERROR_NOT_FILE))"

definition vfs_readdir :: "'d func_table \<Rightarrow> 'd files \<Rightarrow> int \<Rightarrow> int \<Rightarrow> ('d files \<times> int \<times> dirent option) option" where
  "vfs_readdir tbl s pnode entry =
     do { (ret, obj) \<leftarrow> vfs_get_pobj s pnode;
          (case obj of
             None \<Rightarrow> Some (s, ret, None)
           | Some t \<Rightarrow> do {
               fn \<leftarrow> VFS_FUNCTION tbl ff_readdir (f_vfs s) (po_node t);
               (case fn of
                  None \<Rightarrow> Some (s, - ERROR_NO_FUNC, None)
                | Some f \<Rightarrow> do { (v, r, d) \<leftarrow> f (f_vfs s) (po_node t) entry; Some (s\<lparr>f_vfs := v\<rparr>, r, d) })
             }) }"

text \<open>The information block starts out as zeros.\<close>

definition zero_info :: file_info where
  "zero_info = \<lparr>fi_type = FILE_TYPE_NULL, fi_mask = 0, fi_inode = 0, fi_size = 0, fi_links = 0\<rparr>"

definition pobj_info :: "'d func_table \<Rightarrow> 'd files \<Rightarrow> file_pobj \<Rightarrow> ('d files \<times> int \<times> file_info) option" where
  "pobj_info tbl s t =
     do { fn \<leftarrow> VFS_FUNCTION tbl ff_get_info (f_vfs s) (po_node t);
          (case fn of
             None \<Rightarrow> Some (s, - ERROR_NO_FUNC, zero_info)
           | Some f \<Rightarrow> do { (v, r, i) \<leftarrow> f (f_vfs s) (po_node t);
                           Some (s\<lparr>f_vfs := v\<rparr>, r, case i of None \<Rightarrow> zero_info | Some i' \<Rightarrow> i') }) }"

text \<open>\<open>elfload\<close> is \<open>elfload_from_mem\<close> on the bytes read.\<close>

definition vfs_spawn ::
  "'d func_table \<Rightarrow> ('d files \<Rightarrow> 'd files option) \<Rightarrow> ('d files \<Rightarrow> u8 list \<Rightarrow> ('d files \<times> int) option) \<Rightarrow>
   'd files \<Rightarrow> int \<Rightarrow> ('d files \<times> int) option" where
  "vfs_spawn tbl sched elfload s pnode =
     do { (ret, obj) \<leftarrow> vfs_get_pobj s pnode;
          (case obj of
             None \<Rightarrow> Some (s, ret)
           | Some t \<Rightarrow> do {
               (s1, r, info) \<leftarrow> pobj_info tbl s t;
               if 0 \<le> r
               then do {
                 (s2, n, bs) \<leftarrow> vfs_read tbl sched s1 pnode (fi_size info);
                 if u32_of_int n = unat (fi_size info) then elfload s2 bs else Some (s2, n)
               }
               else Some (s1, r)
             }) }"

section \<open>chroot, chdir, lseek and fcntl\<close>

text \<open>The lookup writes into the node block in use, if the task has one, and a failed lookup frees
  that block although the task still refers to it.\<close>

definition vfs_chroot :: "'d func_table \<Rightarrow> 'd files \<Rightarrow> string option \<Rightarrow> ('d files \<times> int) option" where
  "vfs_chroot tbl s path =
     (let v0 = f_vfs s;
          (v1, temp) = (if vs_froot v0 \<noteq> 0 then (v0, vs_froot v0)
                        else let (v, a) = vfs_new v0 in (v\<lparr>vs_nodes := (vs_nodes v)(a \<mapsto> null_node)\<rparr>, a))
      in do { (v2, ret, n) \<leftarrow> file_lookup tbl v1 path 0;
              let v3 = (case n of None \<Rightarrow> v2 | Some n' \<Rightarrow> v2\<lparr>vs_nodes := (vs_nodes v2)(temp \<mapsto> n')\<rparr>);
              Some (s\<lparr>f_vfs := (if 0 \<le> ret then v3\<lparr>vs_froot := temp\<rparr>
                                else v3\<lparr>vs_nodes := (vs_nodes v3)(temp := None)\<rparr>)\<rparr>, ret) })"

definition vfs_chdir :: "'d func_table \<Rightarrow> 'd files \<Rightarrow> string option \<Rightarrow> ('d files \<times> int) option" where
  "vfs_chdir tbl s path =
     (let v0 = f_vfs s;
          (v1, temp) = (if vs_curdir v0 \<noteq> 0 then (v0, vs_curdir v0)
                        else let (v, a) = vfs_new v0 in (v\<lparr>vs_nodes := (vs_nodes v)(a \<mapsto> null_node)\<rparr>, a))
      in do { (v2, ret, n) \<leftarrow> file_lookup tbl v1 path 0;
              let v3 = (case n of None \<Rightarrow> v2 | Some n' \<Rightarrow> v2\<lparr>vs_nodes := (vs_nodes v2)(temp \<mapsto> n')\<rparr>);
              Some (s\<lparr>f_vfs := (if 0 \<le> ret then v3\<lparr>vs_curdir := temp\<rparr>
                                else v3\<lparr>vs_nodes := (vs_nodes v3)(temp := None)\<rparr>)\<rparr>, ret) })"

text \<open>The three ways to seek; comparisons and sums are unsigned.\<close>

definition seek_target :: "file_pobj \<Rightarrow> u32 \<Rightarrow> u32 \<Rightarrow> int \<Rightarrow> u32 option" where
  "seek_target t sz offset whence =
     (if whence = 0 then Some offset
      else if whence = 1 then Some (po_read_offset t + offset)
      else if whence = 2 then Some (sz + offset)
      else None)"

text \<open>When there is no such file, the message at the end reads through the unset object pointer.\<close>

definition vfs_lseek :: "'d func_table \<Rightarrow> 'd files \<Rightarrow> int \<Rightarrow> u32 \<Rightarrow> int \<Rightarrow> ('d files \<times> int) option" where
  "vfs_lseek tbl s fd offset whence =
     do { (ret, obj) \<leftarrow> vfs_get_pobj s fd;
          t \<leftarrow> obj;
          (s1, r, info) \<leftarrow> pobj_info tbl s t;
          if 0 \<le> r
          then Some (case seek_target t (fi_size info) offset whence of
                       None \<Rightarrow> (s1, - ERROR_INVALID_ARGUMENT)
                     | Some target \<Rightarrow>
                         if target \<le> fi_size info
                         then (put_pobj fd (t\<lparr>po_read_offset := target, po_write_offset := target\<rparr>) s1, sint target)
                         else (s1, - ERROR_INVALID_OFFSET))
          else Some (s1, r) }"

definition vfs_fcntl :: "'d files \<Rightarrow> int \<Rightarrow> int \<Rightarrow> u32 \<Rightarrow> ('d files \<times> int) option" where
  "vfs_fcntl s fd command arg =
     do { (ret, obj) \<leftarrow> vfs_get_pobj s fd;
          (case obj of
             None \<Rightarrow> Some (s, ret)
           | Some t \<Rightarrow>
               if command = 0 then Some (s, 0)
               else if command = 1 then Some (s, sint (fn_flags (po_node t)))
               else if command = 2
               then (let flags = (fn_flags (po_node t) AND NOT FILE_NONBLOCK) OR (arg AND FILE_NONBLOCK)
                     in Some (put_pobj fd (t\<lparr>po_node := (po_node t)\<lparr>fn_flags := flags\<rparr>\<rparr>) s, sint flags))
               else Some (s, - ERROR_INVALID_ARGUMENT)) }"

declare vfs_read_loop.simps [code] vfs_write_loop.simps [code]

section \<open>Descriptors\<close>

text \<open>The descriptor table is well formed and \<open>fd\<close> is a file in it.\<close>

definition fd_file :: "'d files \<Rightarrow> nat \<Rightarrow> file_pobj \<Rightarrow> bool" where
  "fd_file s fd t \<longleftrightarrow> dlist_inv (f_pobjects s) \<and> dlist_lookup (f_pobjects s) fd = Some t \<and> po_type t = FILE_POBJ"

lemma fd_file_less: "fd_file s fd t \<Longrightarrow> fd < 2 ^ 31"
  using dlist_lookup_in_range [of "f_pobjects s" fd] by (auto simp: fd_file_def dlist_inv_def)

lemma vfs_get_pobj_ok: "fd_file s fd t \<Longrightarrow> vfs_get_pobj s (int fd) = Some (0, Some t)"
  using fd_file_less [of s fd t] dlist_lookup_in_range [of "f_pobjects s" fd]
  by (auto simp: vfs_get_pobj_def fd_file_def dlist_inv_def dlist_allocated_def dlist_get_ok)

lemma vfs_get_pobj_bad:
  "dlist_inv (f_pobjects s) \<Longrightarrow> dlist_lookup (f_pobjects s) (u32_of_int fd) = None \<Longrightarrow>
   \<exists>e. vfs_get_pobj s fd = Some (e, None) \<and> e < 0"
  by (auto simp: vfs_get_pobj_def dlist_inv_def dlist_get_ok error_numbers)

lemma put_pobj_vfs [simp]: "f_vfs (put_pobj fd t s) = f_vfs s"
  by (simp add: put_pobj_def)

lemma put_pobj_lookup:
  assumes "dlist_inv (f_pobjects s)" "dlist_lookup (f_pobjects s) fd \<noteq> None"
  shows "dlist_lookup (f_pobjects (put_pobj (int fd) t s)) = (dlist_lookup (f_pobjects s))(fd := Some t)"
    "dlist_inv (f_pobjects (put_pobj (int fd) t s))"
proof -
  have "fd < dl_alloced (f_pobjects s)" "dl_alloced (f_pobjects s) < 2 ^ 31"
    using assms dlist_lookup_in_range by (auto simp: dlist_inv_def)
  then have "u32_of_int (int fd) = fd" by simp
  moreover have "fd < length (dl_entries (f_pobjects s))" using assms(2) by (auto simp: dlist_lookup_def split: if_splits)
  ultimately show "dlist_lookup (f_pobjects (put_pobj (int fd) t s)) = (dlist_lookup (f_pobjects s))(fd := Some t)"
    by (auto simp: put_pobj_def dlist_lookup_def fun_eq_iff)
  show "dlist_inv (f_pobjects (put_pobj (int fd) t s))"
    using assms(1) by (simp add: put_pobj_def dlist_inv_def dlist_wf_def)
qed

lemma put_pobj_fd_file:
  assumes "fd_file s fd t" "po_type t' = FILE_POBJ"
  shows "fd_file (put_pobj (int fd) t' s) fd t'"
  using put_pobj_lookup [of s fd t'] assms by (simp add: fd_file_def)

lemma fd_file_vfs [simp]: "fd_file (s\<lparr>f_vfs := v\<rparr>) fd t = fd_file s fd t"
  by (simp add: fd_file_def)

lemma add_pobj_ok:
  assumes "dlist_inv (f_pobjects s)" "dlist_room (f_pobjects s)" "po_type t = FILE_POBJ"
  shows "\<exists>s' fd. add_pobj s t = Some (s', int fd) \<and> fd_file s' fd t \<and> dlist_lookup (f_pobjects s) fd = None
    \<and> (\<forall>k < fd. dlist_lookup (f_pobjects s) k \<noteq> None) \<and> f_vfs s' = f_vfs s
    \<and> dlist_lookup (f_pobjects s') = (dlist_lookup (f_pobjects s))(fd := Some t)"
  using dl.add_ok [OF assms(1,2), of t] assms(3) by (auto simp: add_pobj_def fd_file_def)

section \<open>Blocking reads\<close>

lemma put_pobj_self:
  "dlist_lookup (f_pobjects s) (u32_of_int fd) \<noteq> None \<Longrightarrow> dlist_lookup (f_pobjects (put_pobj fd t s)) (u32_of_int fd) = Some t"
  by (auto simp: put_pobj_def dlist_lookup_def split: if_splits)

lemma read_once_put:
  assumes "read_once tbl s pnode t len = Some (s1, ret, bs)" "dlist_lookup (f_pobjects s) (u32_of_int pnode) = Some t"
  shows "\<exists>t'. dlist_lookup (f_pobjects s1) (u32_of_int pnode) = Some t' \<and> po_node t' = po_node t"
proof -
  obtain v t' where "s1 = put_pobj pnode t' (s\<lparr>f_vfs := v\<rparr>)" "po_node t' = po_node t"
    using assms(1) by (auto simp: read_once_def bind_eq_Some_conv)
  then show ?thesis using put_pobj_self [of "s\<lparr>f_vfs := v\<rparr>" pnode t'] assms(2) by simp
qed

lemma vfs_read_loop_try_again:
  assumes "vfs_read_loop tbl sched s pnode len = Some (s', - ERROR_TRY_AGAIN, bs)"
  shows "\<exists>t. dlist_lookup (f_pobjects s') (u32_of_int pnode) = Some t \<and> fn_flags (po_node t) AND FILE_NONBLOCK \<noteq> 0"
proof -
  have "\<forall>s' bs. y = (s', - ERROR_TRY_AGAIN, bs) \<longrightarrow>
      (\<exists>t. dlist_lookup (f_pobjects s') (u32_of_int pnode) = Some t \<and> fn_flags (po_node t) AND FILE_NONBLOCK \<noteq> 0)"
    if "vfs_read_loop tbl sched s pnode len = Some y" for y
    using that
  proof (induction rule: vfs_read_loop.raw_induct [rotated 1, consumes 1, case_names step])
    case (step f tbl sched s pnode len y)
    obtain t s1 ret bs where r: "dlist_lookup (f_pobjects s) (u32_of_int pnode) = Some t"
      "read_once tbl s pnode t len = Some (s1, ret, bs)"
      "(if must_block t ret then do { s2 \<leftarrow> sched s1; f tbl sched s2 pnode len } else Some (s1, ret, bs)) = Some y"
      using step.hyps by (auto simp: bind_eq_Some_conv)
    show ?case
    proof (cases "must_block t ret")
      case True
      then obtain s2 where "f tbl sched s2 pnode len = Some y" using r(3) by (auto simp: bind_eq_Some_conv)
      then show ?thesis by (rule step.IH)
    next
      case False
      then have "y = (s1, ret, bs)" using r(3) by simp
      then show ?thesis
        using False read_once_put [OF r(2,1)] by (auto simp: must_block_def)
    qed
  qed
  then show ?thesis using assms by blast
qed

section \<open>Opening and closing\<close>

lemma open_found_ok:
  assumes "open_found tbl s path node = Some (s', r)" "dlist_inv (f_pobjects s)" "dlist_room (f_pobjects s)"
  shows "0 \<le> r \<and> (\<exists>t. fd_file s' (nat r) t \<and> po_read_offset t = 0 \<and> po_write_offset t = 0
    \<and> dlist_lookup (f_pobjects s) (nat r) = None \<and> (\<forall>k < nat r. dlist_lookup (f_pobjects s) k \<noteq> None)
    \<and> dlist_lookup (f_pobjects s') = (dlist_lookup (f_pobjects s))(nat r := Some t))"
proof -
  obtain v t where t: "add_pobj (s\<lparr>f_vfs := v\<rparr>) t = Some (s', r)" "po_type t = FILE_POBJ"
    "po_read_offset t = 0" "po_write_offset t = 0"
    using assms(1) by (auto simp: open_found_def bind_eq_Some_conv new_pobj_def)
  with add_pobj_ok [of "s\<lparr>f_vfs := v\<rparr>" t] assms(2,3) show ?thesis by auto
qed

text \<open>A non-negative result of \<open>vfs_open\<close> comes from adding a descriptor.\<close>

lemma vfs_open_cases:
  assumes "vfs_open tbl s path flags = Some (s', r)" "0 \<le> r"
  shows "\<exists>v. (\<exists>n. open_found tbl (s\<lparr>f_vfs := v\<rparr>) path n = Some (s', r))
    \<or> (\<exists>n. add_pobj (s\<lparr>f_vfs := v\<rparr>) (new_pobj\<lparr>po_node := n\<rparr>) = Some (s', r))"
proof -
  have ne: "path \<noteq> []" using assms by (auto simp: vfs_open_def error_numbers)
  show ?thesis
  proof (cases "split_path path")
    case None
    then show ?thesis
      using assms ne by (auto simp: vfs_open_def bind_eq_Some_conv Let_def split: if_splits)
  next
    case (Some p)
    then show ?thesis
      using assms ne
      by (cases p) (auto simp: vfs_open_def bind_eq_Some_conv Let_def error_numbers split: if_splits)
  qed
qed

section \<open>Properties\<close>

text \<open>C30. A successful \<open>vfs_open\<close> returns the lowest unused descriptor, which then names a file with
  both offsets at 0, and leaves every other descriptor alone; closing it makes it unused again.\<close>

theorem vfs_open_descriptor:
  assumes "vfs_open tbl s path flags = Some (s', r)" "0 \<le> r" "dlist_inv (f_pobjects s)" "dlist_room (f_pobjects s)"
  shows "(\<exists>t. fd_file s' (nat r) t \<and> po_read_offset t = 0 \<and> po_write_offset t = 0
      \<and> dlist_lookup (f_pobjects s') = (dlist_lookup (f_pobjects s))(nat r := Some t))
    \<and> dlist_lookup (f_pobjects s) (nat r) = None \<and> (\<forall>k < nat r. dlist_lookup (f_pobjects s) k \<noteq> None)
    \<and> (\<forall>dtors s2 e. vfs_close tbl dtors s' r = Some (s2, e) \<longrightarrow> dlist_lookup (f_pobjects s2) = dlist_lookup (f_pobjects s))"
proof -
  have *: "\<exists>t. fd_file s' (nat r) t \<and> po_read_offset t = 0 \<and> po_write_offset t = 0
    \<and> dlist_lookup (f_pobjects s) (nat r) = None \<and> (\<forall>k < nat r. dlist_lookup (f_pobjects s) k \<noteq> None)
    \<and> dlist_lookup (f_pobjects s') = (dlist_lookup (f_pobjects s))(nat r := Some t)"
    using vfs_open_cases [OF assms(1,2)]
  proof (elim exE disjE)
    fix v n assume "open_found tbl (s\<lparr>f_vfs := v\<rparr>) path n = Some (s', r)"
    from open_found_ok [OF this] assms(3,4) show ?thesis by simp
  next
    fix v n assume a: "add_pobj (s\<lparr>f_vfs := v\<rparr>) (new_pobj\<lparr>po_node := n\<rparr>) = Some (s', r)"
    then show ?thesis
      using add_pobj_ok [of "s\<lparr>f_vfs := v\<rparr>" "new_pobj\<lparr>po_node := n\<rparr>"] assms(3,4) by (auto simp: new_pobj_def)
  qed
  then obtain t where t: "fd_file s' (nat r) t" "dlist_lookup (f_pobjects s) (nat r) = None"
    "dlist_lookup (f_pobjects s') = (dlist_lookup (f_pobjects s))(nat r := Some t)" by blast
  have "dlist_lookup (f_pobjects s2) = dlist_lookup (f_pobjects s)" if c: "vfs_close tbl dtors s' r = Some (s2, e)" for dtors s2 e
  proof -
    have "vfs_get_pobj s' r = Some (0, Some t)" using vfs_get_pobj_ok [OF t(1)] assms(2) by simp
    then obtain l where l: "dlist_remove (f_pobjects s') r = Some l" "f_pobjects s2 = l"
      using c by (auto simp: vfs_close_def bind_eq_Some_conv)
    have "u32_of_int r = nat r" using fd_file_less [OF t(1)] assms(2) u32_of_int_nat [of "nat r"] by simp
    then show ?thesis
      using dlist_remove_ok [of "f_pobjects s'" r] l t by (auto simp: fd_file_def dlist_inv_def fun_eq_iff)
  qed
  then show ?thesis using * by auto
qed

text \<open>A successful \<open>vfs_lseek\<close> returns the new position, which is within the file, and sets both
  offsets to it; an unsuccessful one changes no offset.\<close>

theorem vfs_lseek_bounds:
  assumes "fd_file s fd t" "vfs_lseek tbl s (int fd) offset whence = Some (s', r)" "pobj_info tbl s t = Some (s1, e, info)"
    "0 \<le> e"
  shows "(\<exists>p. seek_target t (fi_size info) offset whence = Some p \<and> p \<le> fi_size info \<and> r = sint p
      \<and> fd_file s' fd (t\<lparr>po_read_offset := p, po_write_offset := p\<rparr>))
    \<or> ((\<forall>p. seek_target t (fi_size info) offset whence = Some p \<longrightarrow> fi_size info < p) \<and> r < 0 \<and> fd_file s' fd t)"
proof -
  have s1: "\<exists>v. s1 = s\<lparr>f_vfs := v\<rparr>"
    using assms(3) by (auto simp: pobj_info_def bind_eq_Some_conv split: option.splits intro: exI [of _ "f_vfs s"])
  then have f1: "fd_file s1 fd t" using assms(1) by auto
  show ?thesis
  proof (cases "\<exists>p. seek_target t (fi_size info) offset whence = Some p \<and> p \<le> fi_size info")
    case True
    then obtain p where p: "seek_target t (fi_size info) offset whence = Some p" "p \<le> fi_size info" by blast
    have "s' = put_pobj (int fd) (t\<lparr>po_read_offset := p, po_write_offset := p\<rparr>) s1 \<and> r = sint p"
      using assms(2-4) vfs_get_pobj_ok [OF assms(1)] p by (simp add: vfs_lseek_def)
    then show ?thesis
      using p put_pobj_fd_file [OF f1, of "t\<lparr>po_read_offset := p, po_write_offset := p\<rparr>"] f1
      by (auto simp: fd_file_def)
  next
    case False
    then have "s' = s1 \<and> r < 0"
      using assms(2-4) vfs_get_pobj_ok [OF assms(1)] by (auto simp: vfs_lseek_def error_numbers split: option.splits)
    then show ?thesis using False f1 by (auto simp: not_le)
  qed
qed

text \<open>On a descriptor that is not a file \<open>vfs_lseek\<close> has no defined behaviour: its last message
  reads through an object pointer that was never set. Every other call reports an error.\<close>

theorem vfs_bad_descriptor:
  assumes "dlist_inv (f_pobjects s)" "dlist_lookup (f_pobjects s) (u32_of_int fd) = None"
  shows "vfs_lseek tbl s fd offset whence = None
    \<and> (\<exists>e < 0. vfs_close tbl dtors s fd = Some (s, e) \<and> vfs_read tbl sched s fd 1 = Some (s, e, [])
        \<and> vfs_readdir tbl s fd n = Some (s, e, None) \<and> vfs_fcntl s fd c a = Some (s, e))"
proof -
  obtain e where e: "vfs_get_pobj s fd = Some (e, None)" "e < 0" using vfs_get_pobj_bad [OF assms] by blast
  then show ?thesis
    by (intro conjI exI [of _ e])
      (simp_all add: vfs_lseek_def vfs_close_def vfs_read_def vfs_readdir_def vfs_fcntl_def)
qed

text \<open>A \<open>vfs_chroot\<close> that fails in a task that has a root of its own frees that root while the
  task keeps using it: every later lookup of an absolute path reads freed memory.\<close>

theorem vfs_chroot_failure_dangles:
  assumes "vs_froot (f_vfs s) \<noteq> 0" "vfs_chroot tbl s path = Some (s', e)" "e < 0"
    and "\<forall>v e n. file_lookup tbl (f_vfs s) path 0 = Some (v, e, n) \<longrightarrow> vs_froot v = vs_froot (f_vfs s)"
  shows "vs_froot (f_vfs s') = vs_froot (f_vfs s) \<and> vs_nodes (f_vfs s') (vs_froot (f_vfs s')) = None
    \<and> file_lookup tbl (f_vfs s') (Some (CHR ''/'' # p)) 0 = None"
proof -
  obtain v n where v: "file_lookup tbl (f_vfs s) path 0 = Some (v, e, n)"
    "s' = s\<lparr>f_vfs := (case n of None \<Rightarrow> v | Some n' \<Rightarrow> v\<lparr>vs_nodes := (vs_nodes v)(vs_froot (f_vfs s) \<mapsto> n')\<rparr>)
         \<lparr>vs_nodes := (vs_nodes (case n of None \<Rightarrow> v | Some n' \<Rightarrow> v\<lparr>vs_nodes := (vs_nodes v)(vs_froot (f_vfs s) \<mapsto> n')\<rparr>))
           (vs_froot (f_vfs s) := None)\<rparr>\<rparr>"
    using assms(1-3) by (auto simp: vfs_chroot_def bind_eq_Some_conv Let_def)
  have "vs_froot v = vs_froot (f_vfs s)" using assms(4) v(1) by blast
  then have "vs_froot (f_vfs s') = vs_froot (f_vfs s)" "vs_nodes (f_vfs s') (vs_froot (f_vfs s)) = None"
    using v(2) by (auto split: option.splits)
  then show ?thesis
    using assms(1) by (simp add: file_lookup_def file_lookup_relative_def get_local_vfs_root_def)
qed

text \<open>\<open>vfs_read\<close> waits until there is something to report: only a descriptor that was set to not
  block ever sees the result \<open>-ERROR_TRY_AGAIN\<close>.\<close>

theorem vfs_read_blocks:
  assumes "fd_file s fd t" "vfs_read tbl sched s (int fd) len = Some (s', - ERROR_TRY_AGAIN, bs)"
  shows "\<exists>t'. dlist_lookup (f_pobjects s') fd = Some t' \<and> fn_flags (po_node t') AND FILE_NONBLOCK \<noteq> 0"
proof -
  have "len \<noteq> 0" using assms(2) by (auto simp: vfs_read_def error_numbers)
  then have "vfs_read_loop tbl sched s (int fd) len = Some (s', - ERROR_TRY_AGAIN, bs)"
    using assms(2) vfs_get_pobj_ok [OF assms(1)] by (simp add: vfs_read_def)
  moreover have "u32_of_int (int fd) = fd" using fd_file_less [OF assms(1)] by simp
  ultimately show ?thesis using vfs_read_loop_try_again by fastforce
qed

text \<open>A system of one directory in which every name opens and the file has ten bytes; reads fail with
  \<open>-ERROR_TRY_AGAIN\<close>.\<close>

definition small_funcs :: "unit file_funcs" where
  "small_funcs = \<lparr>ff_read = Some (\<lambda>v n len off. Some (v, - ERROR_TRY_AGAIN, [])), ff_write = None, ff_mkdir = None,
     ff_mount = None, ff_readdir = None,
     ff_lookup = Some (\<lambda>v n buf name fl. if name = ''none'' then Some (v, - ERROR_NOT_FOUND, buf)
                          else Some (v, 0, buf\<lparr>fn_inode := 1, fn_fs := 1\<rparr>)),
     ff_open = Some (\<lambda>v n name fl. Some (v, 1)), ff_close = Some (\<lambda>v n fl. Some (v, 0)),
     ff_get_info = Some (\<lambda>v n. Some (v, 0, Some (zero_info\<lparr>fi_size := 10\<rparr>)))\<rparr>"

definition small_files :: "unit files" where
  "small_files = \<lparr>f_vfs = \<lparr>vs_nodes = [2 \<mapsto> null_node\<lparr>fn_fs := 1\<rparr>, 3 \<mapsto> null_node\<lparr>fn_fs := 1\<rparr>], vs_mounts = Map.empty,
      vs_fss = [1 \<mapsto> \<lparr>fs_root = 2, fs_functions = OtherFuncs 0, fs_references = 0, fs_devstruct = 0\<rparr>],
      vs_drivers = Map.empty, vs_driver_list = [0], vs_mount_list = [0], vs_root = 2, vs_froot = 3, vs_curdir = 0,
      vs_next = 4, vs_dev = ()\<rparr>, f_pobjects = dlist_create 0 0\<rparr>"

abbreviation small_tbl :: "unit func_table" where
  "small_tbl \<equiv> \<lambda>k. Some small_funcs"

definition small_pobj :: file_pobj where
  "small_pobj = new_pobj\<lparr>po_node := null_node\<lparr>fn_flags := FILE_NONBLOCK, fn_fs := 1\<rparr>\<rparr>"

definition small_opened :: "unit files" where
  "small_opened = small_files\<lparr>f_pobjects := (dlist_create 0 0)\<lparr>dl_entries := Some small_pobj # replicate 7 None, dl_used := 1\<rparr>\<rparr>"

lemma small_opened_fd: "fd_file small_opened 0 small_pobj"
  by (simp add: fd_file_def small_opened_def small_files_def small_pobj_def new_pobj_def dlist_inv_def dlist_wf_def
      dlist_lookup_def dlist_create_def DLIST_DEFAULT_BLOCKSIZE_def)

lemma small_open: "\<exists>s'. vfs_open small_tbl small_files ''f'' 0 = Some (s', 0)"
proof -
  have "map_option snd (vfs_open small_tbl small_files ''f'' 0) = Some 0" by code_simp
  then show ?thesis by auto
qed

lemma vfs_open_descriptor_witness:
  "\<exists>s' t. vfs_open small_tbl small_files ''f'' 0 = Some (s', 0) \<and> fd_file s' 0 t"
proof -
  have d: "dlist_inv (f_pobjects small_files)" "dlist_room (f_pobjects small_files)"
    by (simp_all add: small_files_def)
  obtain s' where s': "vfs_open small_tbl small_files ''f'' 0 = Some (s', 0)" using small_open by blast
  from vfs_open_descriptor [OF s' _ d] show ?thesis using s' by auto
qed

lemma small_info: "pobj_info small_tbl small_opened small_pobj = Some (small_opened, 0, zero_info\<lparr>fi_size := 10\<rparr>)"
  by (simp add: pobj_info_def VFS_FUNCTION_def small_opened_def small_files_def small_pobj_def new_pobj_def null_node_def
      small_funcs_def)

lemma vfs_lseek_bounds_witness:
  "\<exists>s'. vfs_lseek small_tbl small_opened (int 0) 7 0 = Some (s', 7)
    \<and> fd_file s' 0 (small_pobj\<lparr>po_read_offset := 7, po_write_offset := 7\<rparr>)"
proof -
  let ?s = "put_pobj (int 0) (small_pobj\<lparr>po_read_offset := 7, po_write_offset := 7\<rparr>) small_opened"
  have "vfs_lseek small_tbl small_opened (int 0) 7 0 = Some (?s, 7)"
    using vfs_get_pobj_ok [OF small_opened_fd] small_info by (simp add: vfs_lseek_def seek_target_def)
  from vfs_lseek_bounds [OF small_opened_fd this small_info] this show ?thesis
    by (auto simp: seek_target_def)
qed

lemma vfs_bad_descriptor_witness: "vfs_lseek small_tbl small_files 5 0 0 = None"
proof -
  have "dlist_inv (f_pobjects small_files)" "dlist_lookup (f_pobjects small_files) (u32_of_int 5) = None"
    by (simp_all add: small_files_def)
  then show ?thesis using vfs_bad_descriptor by blast
qed

lemma small_lookup_none: "file_lookup small_tbl (f_vfs small_files) (Some ''/none'') 0 = Some (f_vfs small_files, - ERROR_NOT_FOUND, None)"
  by (simp add: file_lookup_def file_lookup_relative_def get_local_vfs_root_def small_files_def null_node_def
      lookup_walk.simps path_component_def MAX_FILENAME_SIZE_def VFS_FUNCTION_def small_funcs_def error_numbers)

lemma vfs_chroot_failure_dangles_witness:
  "\<exists>s' e. vfs_chroot small_tbl small_files (Some ''/none'') = Some (s', e) \<and> e < 0
    \<and> file_lookup small_tbl (f_vfs s') (Some ''/f'') 0 = None"
proof -
  have fr: "vs_froot (f_vfs small_files) \<noteq> 0" by (simp add: small_files_def)
  then obtain s' where s': "vfs_chroot small_tbl small_files (Some ''/none'') = Some (s', - ERROR_NOT_FOUND)"
    using small_lookup_none by (auto simp: vfs_chroot_def Let_def)
  have neg: "- ERROR_NOT_FOUND < 0" by (simp add: error_numbers)
  have same: "\<forall>v e n. file_lookup small_tbl (f_vfs small_files) (Some ''/none'') 0 = Some (v, e, n) \<longrightarrow> vs_froot v = vs_froot (f_vfs small_files)"
    using small_lookup_none by auto
  from vfs_chroot_failure_dangles [OF fr s' neg same, of "''f''"] s' neg show ?thesis by auto
qed

lemma vfs_read_blocks_witness:
  "\<exists>s' t'. vfs_read small_tbl Some small_opened (int 0) 4 = Some (s', - ERROR_TRY_AGAIN, [])
    \<and> dlist_lookup (f_pobjects s') 0 = Some t' \<and> fn_flags (po_node t') AND FILE_NONBLOCK \<noteq> 0"
proof -
  have "dlist_lookup (f_pobjects small_opened) (u32_of_int (int 0)) = Some small_pobj"
    using small_opened_fd by (simp add: fd_file_def u32_of_int_def)
  then have "\<exists>s'. vfs_read small_tbl Some small_opened (int 0) 4 = Some (s', - ERROR_TRY_AGAIN, [])"
    using vfs_get_pobj_ok [OF small_opened_fd]
    by (simp add: vfs_read_def vfs_read_loop.simps read_once_def VFS_FUNCTION_def small_opened_def small_files_def
        small_pobj_def new_pobj_def null_node_def small_funcs_def must_block_def FILE_NONBLOCK_def)
  then show ?thesis using vfs_read_blocks [OF small_opened_fd] by blast
qed

end
