(* ===== verification/PipesIPC.thy ===== *)
theory PipesIPC
  imports VfsSyscalls RamFS Pipe Shared Semaphore
begin

text \<open>
  \<^verbatim>\<open>kernel/base/ipc/pipes.c\<close>: pipes as files. The two ends of a pipe are descriptors whose node
  refers to a shared handle of the pipe; the handle counts the ends, and the pipe is freed with
  the last of them. The driver state extends that of ramfs, so that both can be mounted in one
  system. \<open>fresh\<close> and \<open>junk\<close> are the contents of blocks that \<open>kmalloc\<close> does not clear.
\<close>

section \<open>State\<close>

definition PIPE_POBJ :: u32 where "PIPE_POBJ = 0xcafebeef"
definition PIPELINE_POBJ :: u32 where "PIPELINE_POBJ = 0xbeefcafe"

record pipedev = ramdev +
  pd_shared :: "nat shared_heap"
  pd_pipes :: "nat \<Rightarrow> pipe option"
  pd_fs :: nat

type_synonym 'x pipevfs = "'x pipedev_scheme vfs"

definition set_shared :: "nat shared_heap \<Rightarrow> 'x pipevfs \<Rightarrow> 'x pipevfs" where
  "set_shared h s = s\<lparr>vs_dev := (vs_dev s)\<lparr>pd_shared := h\<rparr>\<rparr>"

definition set_pipe :: "nat \<Rightarrow> pipe option \<Rightarrow> 'x pipevfs \<Rightarrow> 'x pipevfs" where
  "set_pipe a p s = s\<lparr>vs_dev := (vs_dev s)\<lparr>pd_pipes := (pd_pipes (vs_dev s))(a := p)\<rparr>\<rparr>"

text \<open>\<open>shared_get( node->data )\<close>; a null handle gives a null pipe, which the callers dereference.\<close>

definition node_pipe :: "'x pipevfs \<Rightarrow> file_node \<Rightarrow> (nat \<times> pipe) option" where
  "node_pipe s node =
     do { d \<leftarrow> shared_get (pd_shared (vs_dev s)) (fn_data node);
          a \<leftarrow> d;
          p \<leftarrow> pd_pipes (vs_dev s) a;
          Some (a, p) }"

section \<open>Objects\<close>

definition make_pipe_pobj ::
  "pipe \<Rightarrow> (nat \<Rightarrow> nat \<Rightarrow> u8) \<Rightarrow> 'x pipevfs \<Rightarrow> ('x pipevfs \<times> file_pobj) option" where
  "make_pipe_pobj fresh junk s =
     do { temp \<leftarrow> pipe_create fresh junk 1 256 0;
          let temp' = temp\<lparr>p_sem := init_semaphore 1\<rparr>;
          let (s1, a) = vfs_new s;
          let (s2, h) = vfs_new s1;
          let (sh, r) = shared_new (pd_shared (vs_dev s2)) h a True;
          Some (set_pipe a (Some temp') (set_shared sh s2),
                \<lparr>po_type = FILE_POBJ, po_size = 24, po_hooks = PipeHooks,
                 po_node = null_node\<lparr>fn_fs := pd_fs (vs_dev s), fn_data := r\<rparr>,
                 po_read_offset = 0, po_write_offset = 0, po_file_type = PIPE_POBJ\<rparr>) }"

definition pipe_obj_ctor :: "'x pipevfs \<Rightarrow> file_pobj \<Rightarrow> ('x pipevfs \<times> file_pobj) option" where
  "pipe_obj_ctor s oldpipe =
     do { (sh, d) \<leftarrow> shared_aquire (pd_shared (vs_dev s)) (fn_data (po_node oldpipe));
          let s1 = set_shared sh s;
          let newpipe = oldpipe\<lparr>po_node := (po_node oldpipe)\<lparr>fn_data := d\<rparr>, po_read_offset := 0, po_write_offset := 0\<rparr>;
          if po_file_type newpipe = PIPE_POBJ
          then do { (a, temp) \<leftarrow> node_pipe s1 (po_node newpipe);
                    Some (set_pipe a (Some (temp\<lparr>p_writers := p_writers temp + 1\<rparr>)) s1, newpipe) }
          else if po_file_type newpipe = PIPELINE_POBJ
          then do { (a, temp) \<leftarrow> node_pipe s1 (po_node newpipe);
                    Some (set_pipe a (Some (temp\<lparr>p_readers := p_readers temp + 1\<rparr>)) s1, newpipe) }
          else Some (s1, newpipe) }"

text \<open>Releasing the last handle runs its destructor, \<open>kfree\<close>, on the pipe.\<close>

definition release_pipe :: "'x pipevfs \<Rightarrow> nat \<Rightarrow> 'x pipevfs option" where
  "release_pipe s h =
     do { sh \<leftarrow> shared_release (pd_shared (vs_dev s)) h;
          let freed = drop (length (sh_dtor_calls (pd_shared (vs_dev s)))) (sh_dtor_calls sh);
          Some (fold (\<lambda>a s. set_pipe a None s) freed (set_shared sh s)) }"

definition pipe_obj_dtor :: "'x pipevfs \<Rightarrow> file_pobj \<Rightarrow> 'x pipevfs option" where
  "pipe_obj_dtor s pipeobj =
     do { s1 \<leftarrow> (if po_file_type pipeobj = PIPE_POBJ
                then do { (a, temp) \<leftarrow> node_pipe s (po_node pipeobj);
                          Some (set_pipe a (Some (temp\<lparr>p_writers := p_writers temp - 1\<rparr>)) s) }
                else if po_file_type pipeobj = PIPELINE_POBJ
                then do { (a, temp) \<leftarrow> node_pipe s (po_node pipeobj);
                          Some (set_pipe a (Some (temp\<lparr>p_readers := p_readers temp - 1\<rparr>)) s) }
                else Some s);
          release_pipe s1 (fn_data (po_node pipeobj)) }"

definition pipe_ctors :: "'x pipedev_scheme pobj_ctors" where
  "pipe_ctors h = (case h of NoHooks \<Rightarrow> None | PipeHooks \<Rightarrow> Some pipe_obj_ctor)"

definition pipe_dtors :: "'x pipedev_scheme pobj_dtors" where
  "pipe_dtors h = (case h of NoHooks \<Rightarrow> None | PipeHooks \<Rightarrow> Some pipe_obj_dtor)"

section \<open>File functions\<close>

definition pipe_vfs_read ::
  "'x pipevfs \<Rightarrow> file_node \<Rightarrow> u32 \<Rightarrow> u32 \<Rightarrow> ('x pipevfs \<times> int \<times> u8 list) option" where
  "pipe_vfs_read s node len offset =
     do { (a, temp) \<leftarrow> node_pipe s node;
          sem \<leftarrow> enter_semaphore (p_sem temp);
          line \<leftarrow> read_at (p_bufs temp) 0;
          (line', bs) \<leftarrow> pipeline_read line len;
          bufs \<leftarrow> write_at (p_bufs temp) 0 line';
          let s' = set_pipe a (Some (temp\<lparr>p_bufs := bufs, p_sem := leave_semaphore sem\<rparr>)) s;
          Some (s', if len \<noteq> 0 \<and> bs = [] \<and> 1 \<le> p_writers temp then - ERROR_TRY_AGAIN else int (length bs), bs) }"

definition pipe_vfs_write ::
  "'x pipevfs \<Rightarrow> file_node \<Rightarrow> u8 list \<Rightarrow> u32 \<Rightarrow> ('x pipevfs \<times> int) option" where
  "pipe_vfs_write s node buf offset =
     do { (a, temp) \<leftarrow> node_pipe s node;
          sem \<leftarrow> enter_semaphore (p_sem temp);
          (temp', ret) \<leftarrow> pipe_write temp buf;
          let s' = set_pipe a (Some (temp'\<lparr>p_sem := leave_semaphore sem\<rparr>)) s;
          Some (s', if buf \<noteq> [] \<and> ret = 0 \<and> 1 < p_readers temp' then - ERROR_TRY_AGAIN else sint ret) }"

definition pipe_vfs_close :: "'x pipevfs \<Rightarrow> file_node \<Rightarrow> u32 \<Rightarrow> ('x pipevfs \<times> int) option" where
  "pipe_vfs_close s node flags = Some (s, 0)"

definition pipe_vfs_funcs :: "'x pipedev_scheme file_funcs" where
  "pipe_vfs_funcs =
     \<lparr>ff_read = Some pipe_vfs_read, ff_write = Some pipe_vfs_write, ff_mkdir = None, ff_mount = None,
      ff_readdir = None, ff_lookup = None, ff_open = None, ff_close = Some pipe_vfs_close, ff_get_info = None\<rparr>"

text \<open>The function tables of the file systems built into the kernel.\<close>

definition base_tbl :: "(nat \<Rightarrow> u8) \<Rightarrow> 'x pipedev_scheme func_table" where
  "base_tbl junk k = (case k of RamfsFuncs \<Rightarrow> Some (ramfs_functions junk) | PipeFuncs \<Rightarrow> Some pipe_vfs_funcs | _ \<Rightarrow> None)"

definition make_pipes ::
  "pipe \<Rightarrow> (nat \<Rightarrow> nat \<Rightarrow> u8) \<Rightarrow> 'x pipedev_scheme files \<Rightarrow> ('x pipedev_scheme files \<times> int \<times> int) option" where
  "make_pipes fresh junk s =
     do { (v1, writeend) \<leftarrow> make_pipe_pobj fresh junk (f_vfs s);
          (v2, copy) \<leftarrow> pobj_copy pipe_ctors v1 writeend;
          let readend = copy\<lparr>po_file_type := PIPELINE_POBJ\<rparr>;
          (a, temp) \<leftarrow> node_pipe v2 (po_node writeend);
          let v3 = set_pipe a (Some (temp\<lparr>p_readers := 1, p_writers := 1\<rparr>)) v2;
          (s1, fd0) \<leftarrow> add_pobj (s\<lparr>f_vfs := v3\<rparr>) readend;
          (s2, fd1) \<leftarrow> add_pobj s1 writeend;
          Some (s2, fd0, fd1) }"

section \<open>A pipe behind a node\<close>

text \<open>The node refers to a live pipe with one open, non-blocking line that holds the bytes \<open>cs\<close>.\<close>

definition pipe_at :: "'x pipevfs \<Rightarrow> file_node \<Rightarrow> nat \<Rightarrow> pipe \<Rightarrow> pipeline \<Rightarrow> u8 list \<Rightarrow> bool" where
  "pipe_at s node a p l cs \<longleftrightarrow> node_pipe s node = Some (a, p) \<and> p_nbufs p = 1 \<and> p_bufs p = [l]
     \<and> pl_flags l AND PIPE_FLAG_OPEN \<noteq> 0 \<and> pipeline_queue l \<and> pl_contents l = cs \<and> 0 < p_sem p"

lemma node_pipe_set:
  "node_pipe s node = Some (a, p) \<Longrightarrow> node_pipe (set_pipe a (Some p') s) node = Some (a, p')"
  by (auto simp: node_pipe_def set_pipe_def bind_eq_Some_conv)

lemma pipe_write_at:
  assumes "pipe_at s node a p l cs" "length bs < 2 ^ 31" "bs \<noteq> []"
  shows "\<exists>s' p' l'. pipe_vfs_write s node bs off = Some (s', int (length bs))
    \<and> pipe_at s' node a p' l' (keep_last (pl_cap l) (cs @ bs)) \<and> pl_cap l' = pl_cap l
    \<and> p_writers p' = p_writers p \<and> p_readers p' = p_readers p"
proof -
  have p: "node_pipe s node = Some (a, p)" "p_nbufs p = 1" "p_bufs p = [l]" "pl_flags l AND PIPE_FLAG_OPEN \<noteq> 0"
    "pipeline_wf l" "pl_flags l AND PIPE_FLAG_BLOCK = 0" "pl_contents l = cs" "0 < p_sem p"
    using assms(1) by (auto simp: pipe_at_def pipeline_queue_def)
  obtain l' where l': "pipe_write_line l bs 0 = Some (l', of_nat (length bs))" "pipeline_wf l'"
    "pl_size l' = pl_size l" "pl_flags l' = pl_flags l" "pl_contents l' = keep_last (pl_cap l) (cs @ bs)"
    using pipe_write_line_ok [OF p(5,6), of bs 0] p(7) by auto
  let ?p = "p\<lparr>p_bufs := [l']\<rparr>"
  have w: "pipe_write p bs = Some (?p, of_nat (length bs))"
    using pipe_write_single [OF p(2-4)] l'(1) by simp
  have nz: "(of_nat (length bs) :: u32) \<noteq> 0"
  proof -
    have "unat (of_nat (length bs) :: u32) = length bs" using assms(2) by (simp add: unat_of_nat_small)
    then show ?thesis using assms(3) by (metis length_0_conv unat_0)
  qed
  let ?s = "set_pipe a (Some ?p) s"
  have "pipe_vfs_write s node bs off = Some (?s, int (length bs))"
    using p(1,8) w nz sint_of_nat_u32 [OF assms(2)] by (simp add: pipe_vfs_write_def)
  moreover have "pipe_at ?s node a ?p l' (keep_last (pl_cap l) (cs @ bs))"
    using p l' node_pipe_set [OF p(1)] by (simp add: pipe_at_def pipeline_queue_def)
  ultimately show ?thesis using l'(3) by (intro exI [of _ ?s] exI [of _ ?p] exI [of _ l']) (simp add: pl_cap_def)
qed

lemma pipe_read_at:
  assumes "pipe_at s node a p l cs"
  shows "\<exists>s' p' l'. pipe_vfs_read s node len off = Some (s',
      if len \<noteq> 0 \<and> cs = [] \<and> 1 \<le> p_writers p then - ERROR_TRY_AGAIN else int (length (take (unat len) cs)), take (unat len) cs)
    \<and> pipe_at s' node a p' l' (drop (unat len) cs) \<and> pl_cap l' = pl_cap l"
proof -
  have p: "node_pipe s node = Some (a, p)" "p_nbufs p = 1" "p_bufs p = [l]" "pl_flags l AND PIPE_FLAG_OPEN \<noteq> 0"
    "pipeline_wf l" "pl_flags l AND PIPE_FLAG_BLOCK = 0" "pl_contents l = cs" "0 < p_sem p"
    using assms(1) by (auto simp: pipe_at_def pipeline_queue_def)
  obtain l' where l': "pipeline_read l len = Some (l', take (unat len) cs)" "pipeline_wf l'"
    "pl_size l' = pl_size l" "pl_flags l' = pl_flags l" "pl_contents l' = drop (unat len) cs"
    using pipeline_read_from_ok [OF p(5), of 0 "unat len"] p(7) by (auto simp: pipeline_read_def)
  let ?p = "p\<lparr>p_bufs := [l']\<rparr>"
  let ?s = "set_pipe a (Some ?p) s"
  have e: "len \<noteq> 0 \<and> take (unat len) cs = [] \<longleftrightarrow> len \<noteq> 0 \<and> cs = []"
    by (cases cs) (auto simp: take_Cons' unat_eq_0)
  have "pipe_vfs_read s node len off = Some (?s,
      if len \<noteq> 0 \<and> cs = [] \<and> 1 \<le> p_writers p then - ERROR_TRY_AGAIN else int (length (take (unat len) cs)), take (unat len) cs)"
    using p l'(1) e by (auto simp: pipe_vfs_read_def unat_eq_0)
  moreover have "pipe_at ?s node a ?p l' (drop (unat len) cs)"
    using p l' node_pipe_set [OF p(1)] by (simp add: pipe_at_def pipeline_queue_def)
  ultimately show ?thesis using l'(3) by (intro exI [of _ ?s] exI [of _ ?p] exI [of _ l']) (simp add: pl_cap_def)
qed

lemma shared_release_cell:
  assumes "ptr \<noteq> 0" "sh_cells h ptr = Some c" "2 \<le> unat (sh_references c)"
  shows "\<exists>h'. shared_release h ptr = Some h' \<and> sh_cells h' ptr = Some (c\<lparr>sh_references := sh_references c - 1\<rparr>)
    \<and> sh_dtor_calls h' = sh_dtor_calls h"
proof -
  have "sh_references c \<noteq> 0" using assms(3) by auto
  moreover have "unat (sh_references c - 1) \<noteq> 0"
    using assms(3) unat_pred [of "sh_references c"] by simp
  then have "sh_references c - 1 \<noteq> 0" by (simp add: unat_eq_0)
  ultimately show ?thesis using assms(1,2) by (simp add: shared_release_def Let_def)
qed

section \<open>Properties\<close>

text \<open>C31. A pipe between descriptors is a bounded queue: what is written at one end comes out of the
  other in order, after what was there before, as long as it all fits.\<close>

theorem pipe_vfs_fifo:
  assumes "pipe_at s node a p l cs" "bs \<noteq> []" "length cs + length bs \<le> pl_cap l" "length bs < 2 ^ 31" "len \<noteq> 0"
  shows "\<exists>s1 s2. pipe_vfs_write s node bs off = Some (s1, int (length bs))
    \<and> pipe_vfs_read s1 node len off' = Some (s2, int (min (unat len) (length cs + length bs)), take (unat len) (cs @ bs))
    \<and> (\<exists>p' l'. pipe_at s2 node a p' l' (drop (unat len) (cs @ bs)))"
proof -
  obtain s1 p1 l1 where w: "pipe_vfs_write s node bs off = Some (s1, int (length bs))"
    "pipe_at s1 node a p1 l1 (keep_last (pl_cap l) (cs @ bs))"
    using pipe_write_at [OF assms(1,4,2)] by blast
  have k: "keep_last (pl_cap l) (cs @ bs) = cs @ bs" using assms(3) by simp
  have r: "\<exists>s' p' l'. pipe_vfs_read s1 node len off' = Some (s', int (length (take (unat len) (cs @ bs))), take (unat len) (cs @ bs))
    \<and> pipe_at s' node a p' l' (drop (unat len) (cs @ bs))"
    using pipe_read_at [of s1 node a p1 l1 "cs @ bs" len off'] w(2) k assms(2) by auto
  then obtain s2 p' l' where s2: "pipe_vfs_read s1 node len off' =
      Some (s2, int (length (take (unat len) (cs @ bs))), take (unat len) (cs @ bs))"
    "pipe_at s2 node a p' l' (drop (unat len) (cs @ bs))" by blast
  have n: "length (take (unat len) (cs @ bs)) = min (unat len) (length cs + length bs)"
    by (simp only: length_take length_append min.commute)
  show ?thesis using w(1) s2 unfolding n by blast
qed

text \<open>C32. End of file: reading an empty pipe asks to try again while a writer is left, and returns 0
  once the last writing end has been closed.\<close>

theorem pipe_vfs_eof:
  assumes "pipe_at s node a p l []" "len \<noteq> 0" "p_writers p = 1"
    and "po_file_type obj = PIPE_POBJ" "po_node obj = node"
    and "sh_cells (pd_shared (vs_dev s)) (fn_data node) = Some c" "2 \<le> unat (sh_references c)" "fn_data node \<noteq> 0"
  shows "\<exists>s1 s2. pipe_vfs_read s node len off = Some (s1, - ERROR_TRY_AGAIN, [])
    \<and> pipe_obj_dtor s obj = Some s2 \<and> (\<exists>s3. pipe_vfs_read s2 node len off = Some (s3, 0, []))"
proof -
  have p: "node_pipe s node = Some (a, p)" using assms(1) by (simp add: pipe_at_def)
  let ?p = "p\<lparr>p_writers := p_writers p - 1\<rparr>"
  let ?s = "set_pipe a (Some ?p) s"
  have sh: "pd_shared (vs_dev ?s) = pd_shared (vs_dev s)" by (simp add: set_pipe_def)
  obtain h' where h': "shared_release (pd_shared (vs_dev s)) (fn_data node) = Some h'"
    "sh_cells h' (fn_data node) = Some (c\<lparr>sh_references := sh_references c - 1\<rparr>)"
    "sh_dtor_calls h' = sh_dtor_calls (pd_shared (vs_dev s))"
    using shared_release_cell [OF assms(8,6,7)] by blast
  let ?s2 = "set_shared h' ?s"
  have d: "pipe_obj_dtor s obj = Some ?s2"
    using p assms(4,5) h' sh by (simp add: pipe_obj_dtor_def release_pipe_def)
  have np: "node_pipe ?s2 node = Some (a, ?p)"
    using p h'(2) assms(6,8)
    by (auto simp: node_pipe_def set_shared_def set_pipe_def shared_get_def bind_eq_Some_conv)
  then have "pipe_at ?s2 node a ?p l []" using assms(1) by (simp add: pipe_at_def)
  from pipe_read_at [OF this, of len off]
  have "\<exists>s3. pipe_vfs_read ?s2 node len off = Some (s3, 0, [])" using assms(3) by auto
  moreover have "\<exists>s1. pipe_vfs_read s node len off = Some (s1, - ERROR_TRY_AGAIN, [])"
    using pipe_read_at [OF assms(1), of len off] assms(2,3) by auto
  ultimately show ?thesis using d by blast
qed

text \<open>A pipe of four bytes behind the handle 5, shared by two ends.\<close>

definition small_pipe :: pipe where
  "small_pipe = \<lparr>p_nbufs = 1, p_buf_size = 4, p_used = 0, p_readers = 1, p_writers = 1, p_sem = 1,
     p_bufs = [new_pipeline 4 0 (\<lambda>_. 0)]\<rparr>"

definition small_pipevfs :: "pipedev vfs" where
  "small_pipevfs = \<lparr>vs_nodes = Map.empty, vs_mounts = Map.empty, vs_fss = Map.empty, vs_drivers = Map.empty,
     vs_driver_list = [0], vs_mount_list = [0], vs_root = 0, vs_froot = 0, vs_curdir = 0, vs_next = 9,
     vs_dev = \<lparr>rd_heads = Map.empty,
       pd_shared = \<lparr>sh_cells = [5 \<mapsto> \<lparr>sh_data = 4, sh_references = 2, sh_dtor = True\<rparr>], sh_dtor_calls = []\<rparr>,
       pd_pipes = [4 \<mapsto> small_pipe], pd_fs = 1\<rparr>\<rparr>"

lemma small_pipe_at: "pipe_at small_pipevfs (null_node\<lparr>fn_data := 5\<rparr>) 4 small_pipe (new_pipeline 4 0 (\<lambda>_. 0)) []"
  using new_pipeline_ok [of 4 0 "\<lambda>_. 0"] open_flag_set [of 0] open_flag_block
  by (simp add: pipe_at_def node_pipe_def small_pipevfs_def small_pipe_def shared_get_def pipeline_queue_def)
    (simp add: new_pipeline_def)

lemma pipe_vfs_fifo_witness:
  "\<exists>s1 s2. pipe_vfs_write small_pipevfs (null_node\<lparr>fn_data := 5\<rparr>) [7, 8] 0 = Some (s1, 2)
    \<and> pipe_vfs_read s1 (null_node\<lparr>fn_data := 5\<rparr>) 1 0 = Some (s2, 1, [7])"
proof -
  have "pl_cap (new_pipeline 4 0 (\<lambda>_. 0)) = 3" using new_pipeline_ok [of 4 0 "\<lambda>_. 0"] by simp
  then show ?thesis using pipe_vfs_fifo [OF small_pipe_at, of "[7, 8]" 1 0 0] by auto
qed

lemma pipe_vfs_eof_witness:
  "\<exists>s2 s3. pipe_obj_dtor small_pipevfs (new_pobj\<lparr>po_file_type := PIPE_POBJ, po_node := null_node\<lparr>fn_data := 5\<rparr>\<rparr>) = Some s2
    \<and> pipe_vfs_read s2 (null_node\<lparr>fn_data := 5\<rparr>) 1 0 = Some (s3, 0, [])"
  using pipe_vfs_eof [OF small_pipe_at, of 1 "new_pobj\<lparr>po_file_type := PIPE_POBJ, po_node := null_node\<lparr>fn_data := 5\<rparr>\<rparr>"
      "\<lparr>sh_data = 4, sh_references = 2, sh_dtor = True\<rparr>" 0]
  by (auto simp: small_pipe_def small_pipevfs_def)

end
