(* ===== verification/Sched.thy ===== *)
theory Sched
  imports VfsSyscalls Paging SHeap LinkedList Semaphore
begin

text \<open>
  \<^verbatim>\<open>kernel/base/tasking/rrsched.c\<close>, the parts of \<^verbatim>\<open>kernel/base/tasking/task.c\<close> it works with and the
  timer of \<^verbatim>\<open>kernel/base/arch/i586/pitimer.c\<close>: the task list, the registers that are saved and loaded
  at a switch, and the round robin search for the next task. A task is the address of a \<open>task_t\<close> in
  \<open>tk_tasks\<close>; the list nodes are those of \<open>LinkedList\<close>. Control continues where \<open>eip\<close> says; \<open>here\<close> is the
  address that \<open>get_instruct_ptr\<close> returns, and coming back to it ends the call.
\<close>

section \<open>State\<close>

datatype task_state =
  TASK_STATE_RUNNING | TASK_STATE_SLEEPING | TASK_STATE_WAITING | TASK_STATE_STOPPED | TASK_STATE_ENDED

record task =
  t_state :: task_state
  t_eip :: u32
  t_esp :: u32
  t_ebp :: u32
  t_pid :: u32
  t_group :: u32
  t_parent :: u32
  t_sleep :: u32
  t_stack :: u32
  t_pagedir :: u32
  t_memmaps :: nat
  t_sem :: nat
  t_mainmap :: nat
  t_waiting :: int
  t_end_status :: int
  t_pobjects :: "file_pobj dlist"
  t_froot :: nat
  t_curdir :: nat

record cpu =
  c_eip :: u32
  c_esp :: u32
  c_ebp :: u32

text \<open>\<open>tk_maps\<close> and \<open>tk_maplists\<close> are the memory maps and the lists of them, \<open>tk_sems\<close> the semaphores,
  \<open>tk_next\<close> the next address \<open>kmalloc\<close> has not returned yet.\<close>

record 'd tasking =
  tk_nodes :: "nat lheap"
  tk_tasks :: "nat \<Rightarrow> task option"
  tk_list :: nat
  tk_current :: nat
  tk_pidcount :: u32
  tk_initialized :: bool
  tk_blocked :: bool
  tk_tick :: u32
  tk_sems :: "nat \<Rightarrow> int option"
  tk_maps :: "nat \<Rightarrow> memmap option"
  tk_maplists :: "nat \<Rightarrow> nat list option"
  tk_cpu :: cpu
  tk_paging :: paging
  tk_vfs :: "'d vfs"
  tk_next :: nat

definition set_task :: "nat \<Rightarrow> task \<Rightarrow> 'd tasking \<Rightarrow> 'd tasking" where
  "set_task a t s = s\<lparr>tk_tasks := (tk_tasks s)(a \<mapsto> t)\<rparr>"

definition tk_kmalloc :: "'d tasking \<Rightarrow> 'd tasking \<times> nat" where
  "tk_kmalloc s = (s\<lparr>tk_next := Suc (tk_next s)\<rparr>, tk_next s)"

section \<open>The task list\<close>

definition get_task_list :: "'d tasking \<Rightarrow> nat" where
  "get_task_list s = tk_list s"

definition get_current_task_node :: "'d tasking \<Rightarrow> nat" where
  "get_current_task_node s = tk_current s"

text \<open>The task pointer of the current node; without a node it is null.\<close>

definition get_current_task :: "'d tasking \<Rightarrow> nat option" where
  "get_current_task s =
     (if get_current_task_node s \<noteq> 0 then map_option ln_data (tk_nodes s (get_current_task_node s)) else Some 0)"

definition current_task :: "'d tasking \<Rightarrow> (nat \<times> task) option" where
  "current_task s = do { a \<leftarrow> get_current_task s; t \<leftarrow> tk_tasks s a; Some (a, t) }"

definition get_current_pid :: "'d tasking \<Rightarrow> u32 option" where
  "get_current_pid s = map_option (t_pid \<circ> snd) (current_task s)"

definition set_current_task_node :: "nat \<Rightarrow> 'd tasking \<Rightarrow> 'd tasking" where
  "set_current_task_node node s = (if node \<noteq> 0 then s\<lparr>tk_current := node\<rparr> else s)"

text \<open>\<open>foreach_in_list\<close> from \<open>temp\<close>; the result 0 is the null node.\<close>

partial_function (option) find_pid_from :: "'d tasking \<Rightarrow> nat \<Rightarrow> u32 \<Rightarrow> nat option" where
  "find_pid_from s temp pid =
     (if temp = 0 then Some 0
      else do { n \<leftarrow> tk_nodes s temp;
                buf \<leftarrow> tk_tasks s (ln_data n);
                if t_pid buf = pid then Some temp else find_pid_from s (ln_next n) pid })"

definition get_task_node_by_pid :: "'d tasking \<Rightarrow> u32 \<Rightarrow> nat option" where
  "get_task_node_by_pid s pid = find_pid_from s (get_task_list s) pid"

text \<open>A new list node comes from the heap.\<close>

definition add_task :: "'d tasking \<Rightarrow> nat \<Rightarrow> ('d tasking \<times> nat) option" where
  "add_task s new_task =
     (if \<not> tk_initialized s then Some (s, 0)
      else (let (s1, temp) = tk_kmalloc s
            in do { (h, _) \<leftarrow> list_add_data_node (tk_nodes s1) temp (get_task_list s1) new_task;
                    Some (s1\<lparr>tk_nodes := h\<rparr>, new_task) }))"

definition block_tasks :: "'d tasking \<Rightarrow> 'd tasking" where
  "block_tasks s = s\<lparr>tk_blocked := True\<rparr>"

definition unblock_tasks :: "'d tasking \<Rightarrow> 'd tasking" where
  "unblock_tasks s = s\<lparr>tk_blocked := False\<rparr>"

section \<open>Switching\<close>

definition get_tick :: "'d tasking \<Rightarrow> u32" where
  "get_tick s = tk_tick s"

text \<open>The condition of the search loop: the task cannot run now. The semaphore of a waiting task is
  read through its pointer.\<close>

definition rr_skip :: "'d tasking \<Rightarrow> task \<Rightarrow> bool option" where
  "rr_skip s move =
     (if t_state move = TASK_STATE_SLEEPING \<and> get_tick s < t_sleep move then Some True
      else if t_state move = TASK_STATE_WAITING
      then do { v \<leftarrow> tk_sems s (t_sem move); Some (v = 0) }
      else Some (t_state move = TASK_STATE_ENDED \<and> t_waiting move \<noteq> 0))"

partial_function (option) rr_next :: "'d tasking \<Rightarrow> nat \<Rightarrow> (nat \<times> nat) option" where
  "rr_next s node =
     do { n \<leftarrow> tk_nodes s node;
          let next_node = (if ln_next n \<noteq> 0 then ln_next n else get_task_list s);
          m \<leftarrow> tk_nodes s next_node;
          move \<leftarrow> tk_tasks s (ln_data m);
          skip \<leftarrow> rr_skip s move;
          if skip then rr_next s next_node else Some (next_node, ln_data m) }"

definition rrschedule_call :: "u32 \<Rightarrow> 'd tasking \<Rightarrow> 'd tasking option" where
  "rrschedule_call here s =
     (if get_current_task_node s = 0 then Some s
      else do {
        cur \<leftarrow> get_current_task s;
        if cur = 0 then Some s
        else do {
          t \<leftarrow> tk_tasks s cur;
          let s1 = set_task cur (t\<lparr>t_eip := here, t_esp := c_esp (tk_cpu s), t_ebp := c_ebp (tk_cpu s),
                                   t_pagedir := pg_current_dir (tk_paging s)\<rparr>) s;
          (next_node, a) \<leftarrow> rr_next s1 (get_current_task_node s1);
          move \<leftarrow> tk_tasks s1 a;
          let s2 = set_current_task_node next_node (set_task a (move\<lparr>t_state := TASK_STATE_RUNNING\<rparr>) s1);
          pg \<leftarrow> (if t_pagedir move \<noteq> pg_current_dir (tk_paging s2)
                 then set_page_dir (tk_paging s2) (t_pagedir move) else Some (tk_paging s2));
          Some (s2\<lparr>tk_paging := pg, tk_cpu := \<lparr>c_eip = t_eip move, c_esp = t_esp move, c_ebp = t_ebp move\<rparr>\<rparr>)
        }
      })"

text \<open>The timer interrupt, with \<open>rrschedule_call\<close> registered as its call.\<close>

definition pitimer_stub :: "u32 \<Rightarrow> 'd tasking \<Rightarrow> 'd tasking option" where
  "pitimer_stub here s = rrschedule_call here (s\<lparr>tk_tick := tk_tick s + 1\<rparr>)"

definition usleep :: "u32 \<Rightarrow> u32 \<Rightarrow> 'd tasking \<Rightarrow> 'd tasking option" where
  "usleep useconds here s =
     do { (a, task) \<leftarrow> current_task s;
          rrschedule_call here (set_task a (task\<lparr>t_sleep := get_tick s + useconds * 100 div 1000,
                                                 t_state := TASK_STATE_SLEEPING\<rparr>) s) }"

definition semaphore_wait :: "nat \<Rightarrow> u32 \<Rightarrow> 'd tasking \<Rightarrow> 'd tasking option" where
  "semaphore_wait sem here s =
     do { (a, current) \<leftarrow> current_task s;
          rrschedule_call here (set_task a (current\<lparr>t_state := TASK_STATE_WAITING, t_sem := sem\<rparr>) s) }"

declare rr_next.simps [code] find_pid_from.simps [code]

section \<open>The ring of tasks\<close>

text \<open>The list holds the tasks \<open>xs\<close>, each a live structure with an address of its own.\<close>

definition task_ring :: "'d tasking \<Rightarrow> (nat \<times> int \<times> nat) list \<Rightarrow> bool" where
  "task_ring s xs \<longleftrightarrow> (\<exists>lst. dseg (tk_nodes s) (tk_list s) 0 xs 0 lst) \<and> distinct (addrs xs)
     \<and> distinct (map (snd \<circ> snd) xs) \<and> (\<forall>x \<in> set xs. snd (snd x) \<noteq> 0 \<and> tk_tasks s (snd (snd x)) \<noteq> None)"

definition ring_task :: "(nat \<times> int \<times> nat) list \<Rightarrow> nat \<Rightarrow> nat" where
  "ring_task xs i = snd (snd (xs ! (i mod length xs)))"

definition ring_node :: "(nat \<times> int \<times> nat) list \<Rightarrow> nat \<Rightarrow> nat" where
  "ring_node xs i = fst (xs ! (i mod length xs))"

text \<open>A task can run now; \<open>None\<close> when it waits for a semaphore that does not exist.\<close>

definition task_ready :: "'d tasking \<Rightarrow> nat \<Rightarrow> bool option" where
  "task_ready s a = do { t \<leftarrow> tk_tasks s a; skip \<leftarrow> rr_skip s t; Some (\<not> skip) }"

definition sems_ok :: "'d tasking \<Rightarrow> bool" where
  "sems_ok s \<longleftrightarrow> (\<forall>a t. tk_tasks s a = Some t \<longrightarrow> t_state t = TASK_STATE_WAITING \<longrightarrow> tk_sems s (t_sem t) \<noteq> None)"

lemma rr_skip_total: "sems_ok s \<Longrightarrow> tk_tasks s a = Some t \<Longrightarrow> rr_skip s t \<noteq> None"
  unfolding sems_ok_def rr_skip_def by (cases "tk_sems s (t_sem t)") fastforce+

lemma task_ready_total: "sems_ok s \<Longrightarrow> tk_tasks s a \<noteq> None \<Longrightarrow> task_ready s a \<noteq> None"
  using rr_skip_total [of s a] by (auto simp: task_ready_def)

lemma dseg_nth:
  "dseg h p prv xs 0 lst \<Longrightarrow> i < length xs \<Longrightarrow>
   \<exists>n. h (fst (xs ! i)) = Some n \<and> ln_data n = snd (snd (xs ! i)) \<and>
     ln_next n = (if Suc i < length xs then fst (xs ! Suc i) else 0) \<and> fst (xs ! i) \<noteq> 0"
proof (induction xs arbitrary: p prv i)
  case (Cons x xs)
  obtain a v d where x: "x = (a, v, d)" by (cases x)
  then obtain n where n: "h a = Some n" "ln_data n = d" "dseg h (ln_next n) a xs 0 lst" "a \<noteq> 0"
    using Cons.prems(1) by auto
  show ?case
  proof (cases i)
    case 0
    have "ln_next n = (if xs = [] then 0 else fst (xs ! 0))" using n(3) by (cases xs) auto
    then show ?thesis using 0 n x by auto
  next
    case (Suc j)
    then have "j < length xs" using Cons.prems(2) by simp
    from Cons.IH [OF n(3) this] obtain m where "h (fst (xs ! j)) = Some m" "ln_data m = snd (snd (xs ! j))"
      "ln_next m = (if Suc j < length xs then fst (xs ! Suc j) else 0)" "fst (xs ! j) \<noteq> 0" by blast
    then show ?thesis unfolding Suc by simp
  qed
qed simp

lemma ring_succ:
  assumes "task_ring s xs" "xs \<noteq> []"
  shows "\<exists>n. tk_nodes s (ring_node xs i) = Some n \<and> ln_data n = ring_task xs i
    \<and> (if ln_next n \<noteq> 0 then ln_next n else get_task_list s) = ring_node xs (Suc i)
    \<and> ring_node xs i \<noteq> 0"
proof -
  obtain lst where d: "dseg (tk_nodes s) (tk_list s) 0 xs 0 lst" using assms(1) by (auto simp: task_ring_def)
  let ?k = "i mod length xs"
  have k: "?k < length xs" using assms(2) by simp
  obtain n where n: "tk_nodes s (fst (xs ! ?k)) = Some n" "ln_data n = snd (snd (xs ! ?k))"
    "ln_next n = (if Suc ?k < length xs then fst (xs ! Suc ?k) else 0)" "fst (xs ! ?k) \<noteq> 0"
    using dseg_nth [OF d k] by blast
  have h: "tk_list s = fst (xs ! 0)" using d assms(2) by (cases xs) auto
  have "(if ln_next n \<noteq> 0 then ln_next n else get_task_list s) = ring_node xs (Suc i)"
  proof (cases "Suc ?k < length xs")
    case True
    then have "Suc i mod length xs = Suc ?k" by (simp add: mod_Suc)
    then show ?thesis using n(3) dseg_nth [OF d True] True by (auto simp: ring_node_def)
  next
    case False
    then have "Suc i mod length xs = 0" using k by (simp add: mod_Suc)
    then show ?thesis using n(3) False h by (simp add: ring_node_def get_task_list_def)
  qed
  then show ?thesis using n by (auto simp: ring_node_def ring_task_def)
qed

lemma ring_task_in: "xs \<noteq> [] \<Longrightarrow> \<exists>x \<in> set xs. ring_task xs i = snd (snd x)"
  unfolding ring_task_def by (intro bexI [of _ "xs ! (i mod length xs)"]) auto

lemma ring_task_live: "task_ring s xs \<Longrightarrow> xs \<noteq> [] \<Longrightarrow> ring_task xs i \<noteq> 0 \<and> tk_tasks s (ring_task xs i) \<noteq> None"
  using ring_task_in [of xs i] by (auto simp: task_ring_def)

text \<open>The search goes round the ring to the first task that can run.\<close>

lemma rr_next_step:
  assumes "task_ring s xs" "xs \<noteq> []" "task_ready s (ring_task xs (Suc i)) = Some r"
  shows "rr_next s (ring_node xs i) = (if r then Some (ring_node xs (Suc i), ring_task xs (Suc i))
                                       else rr_next s (ring_node xs (Suc i)))"
proof -
  obtain n where n: "tk_nodes s (ring_node xs i) = Some n"
    "(if ln_next n \<noteq> 0 then ln_next n else get_task_list s) = ring_node xs (Suc i)"
    using ring_succ [OF assms(1,2), of i] by blast
  obtain m where m: "tk_nodes s (ring_node xs (Suc i)) = Some m" "ln_data m = ring_task xs (Suc i)"
    using ring_succ [OF assms(1,2), of "Suc i"] by blast
  obtain t sk where t: "tk_tasks s (ring_task xs (Suc i)) = Some t" "rr_skip s t = Some sk" "r = (\<not> sk)"
    using assms(3) by (auto simp: task_ready_def bind_eq_Some_conv)
  show ?thesis using n m t by (subst rr_next.simps) (simp add: Let_def)
qed

lemma rr_next_finds:
  assumes "task_ring s xs" "xs \<noteq> []" "sems_ok s" "task_ready s (ring_task xs (i + Suc d)) = Some True"
  shows "\<exists>e \<le> d. rr_next s (ring_node xs i) = Some (ring_node xs (i + Suc e), ring_task xs (i + Suc e))
    \<and> task_ready s (ring_task xs (i + Suc e)) = Some True
    \<and> (\<forall>k < e. task_ready s (ring_task xs (i + Suc k)) = Some False)"
  using assms(4)
proof (induction d arbitrary: i)
  case 0
  then show ?case using rr_next_step [OF assms(1,2), of i True] by auto
next
  case (Suc d)
  obtain r where r: "task_ready s (ring_task xs (Suc i)) = Some r"
    using task_ready_total [OF assms(3)] ring_task_live [OF assms(1,2)] by blast
  show ?case
  proof (cases r)
    case True
    then show ?thesis using rr_next_step [OF assms(1,2) r] r by (intro exI [of _ 0]) simp
  next
    case False
    obtain e where e: "e \<le> d" "rr_next s (ring_node xs (Suc i)) = Some (ring_node xs (Suc i + Suc e), ring_task xs (Suc i + Suc e))"
      "task_ready s (ring_task xs (Suc i + Suc e)) = Some True"
      "\<forall>k < e. task_ready s (ring_task xs (Suc i + Suc k)) = Some False"
      using Suc.IH [of "Suc i"] Suc.prems by auto
    have "\<forall>k < Suc e. task_ready s (ring_task xs (i + Suc k)) = Some False"
      using e(4) r False by (auto simp: less_Suc_eq_0_disj)
    then show ?thesis using e rr_next_step [OF assms(1,2) r] False by (intro exI [of _ "Suc e"]) simp
  qed
qed

section \<open>Switching on the ring\<close>

text \<open>Every page directory of a task can be switched to from every other.\<close>

definition dirs_ok :: "'d tasking \<Rightarrow> bool" where
  "dirs_ok s \<longleftrightarrow> (let D = insert (pg_current_dir (tk_paging s)) {t_pagedir t |t. t \<in> ran (tk_tasks s)}
     in pg_enabled (tk_paging s) \<longrightarrow> (\<forall>d \<in> D. \<forall>d' \<in> D. get_page (tk_paging s) d d' \<noteq> None))"

lemma task_ring_set_task: "task_ring s xs \<Longrightarrow> task_ring (set_task a t s) xs"
  by (auto simp: task_ring_def set_task_def)

lemma set_task_simps [simp]:
  "tk_nodes (set_task a t s) = tk_nodes s" "tk_list (set_task a t s) = tk_list s"
  "tk_current (set_task a t s) = tk_current s" "tk_paging (set_task a t s) = tk_paging s"
  "tk_cpu (set_task a t s) = tk_cpu s" "tk_sems (set_task a t s) = tk_sems s"
  "tk_tick (set_task a t s) = tk_tick s" "tk_tasks (set_task a t s) = (tk_tasks s)(a \<mapsto> t)"
  "tk_vfs (set_task a t s) = tk_vfs s" "tk_next (set_task a t s) = tk_next s"
  "tk_pidcount (set_task a t s) = tk_pidcount s"
  by (simp_all add: set_task_def)

lemma task_ring_cong:
  "tk_nodes s' = tk_nodes s \<Longrightarrow> tk_list s' = tk_list s \<Longrightarrow> dom (tk_tasks s) \<subseteq> dom (tk_tasks s') \<Longrightarrow>
   task_ring s xs \<Longrightarrow> task_ring s' xs"
  unfolding task_ring_def by (metis domIff subsetD)

lemma rr_skip_cong:
  "tk_sems s' = tk_sems s \<Longrightarrow> tk_tick s' = tk_tick s \<Longrightarrow> t_state t' = t_state t \<Longrightarrow> t_sleep t' = t_sleep t \<Longrightarrow>
   t_sem t' = t_sem t \<Longrightarrow> t_waiting t' = t_waiting t \<Longrightarrow> rr_skip s' t' = rr_skip s t"
  by (simp add: rr_skip_def get_tick_def)

text \<open>The registers are stored in the task that gives up the processor.\<close>

abbreviation save_regs :: "u32 \<Rightarrow> 'd tasking \<Rightarrow> task \<Rightarrow> task" where
  "save_regs here s t \<equiv> t\<lparr>t_eip := here, t_esp := c_esp (tk_cpu s), t_ebp := c_ebp (tk_cpu s),
     t_pagedir := pg_current_dir (tk_paging s)\<rparr>"

lemma task_ready_save:
  assumes "tk_tasks s a = Some t"
  shows "task_ready (set_task a (save_regs here s t) s) b = task_ready s b"
proof -
  have "rr_skip (set_task a (save_regs here s t) s) t' = rr_skip s t'" for t'
    by (rule rr_skip_cong) simp_all
  moreover have "rr_skip s (save_regs here s t) = rr_skip s t"
    by (rule rr_skip_cong) simp_all
  ultimately show ?thesis using assms by (auto simp: task_ready_def)
qed

lemma sems_ok_save:
  "sems_ok s \<Longrightarrow> tk_tasks s a = Some t \<Longrightarrow> sems_ok (set_task a (save_regs here s t) s)"
  by (auto simp: sems_ok_def)

text \<open>The state after a switch to the task \<open>b\<close> at the node \<open>node\<close>.\<close>

definition switched :: "u32 \<Rightarrow> nat \<Rightarrow> nat \<Rightarrow> nat \<Rightarrow> 'd tasking \<Rightarrow> 'd tasking \<Rightarrow> bool" where
  "switched here a node b s s' \<longleftrightarrow> (\<exists>t move pg. tk_tasks s a = Some t
     \<and> ((tk_tasks s)(a \<mapsto> save_regs here s t)) b = Some move
     \<and> s' = s\<lparr>tk_tasks := (tk_tasks s)(a \<mapsto> save_regs here s t, b \<mapsto> move\<lparr>t_state := TASK_STATE_RUNNING\<rparr>),
              tk_current := node, tk_paging := pg,
              tk_cpu := \<lparr>c_eip = t_eip move, c_esp = t_esp move, c_ebp = t_ebp move\<rparr>\<rparr>
     \<and> pg_current_dir pg = t_pagedir move \<and> pg_tabs pg = pg_tabs (tk_paging s)
     \<and> pg_enabled pg = pg_enabled (tk_paging s))"

lemma switched_ring: "switched here a node b s s' \<Longrightarrow> task_ring s xs \<Longrightarrow> task_ring s' xs"
proof -
  assume "switched here a node b s s'"
  then obtain t move pg where "s' = s\<lparr>tk_tasks := (tk_tasks s)(a \<mapsto> save_regs here s t, b \<mapsto> move\<lparr>t_state := TASK_STATE_RUNNING\<rparr>),
              tk_current := node, tk_paging := pg,
              tk_cpu := \<lparr>c_eip = t_eip move, c_esp = t_esp move, c_ebp = t_ebp move\<rparr>\<rparr>"
    unfolding switched_def by blast
  then have "tk_nodes s' = tk_nodes s" "tk_list s' = tk_list s" "dom (tk_tasks s) \<subseteq> dom (tk_tasks s')"
    by auto
  then show "task_ring s xs \<Longrightarrow> task_ring s' xs" by (rule task_ring_cong)
qed

lemma switched_saved:
  "switched here a node b s s' \<Longrightarrow> b \<noteq> a \<Longrightarrow> tk_tasks s a = Some t \<Longrightarrow> tk_tasks s' a = Some (save_regs here s t)"
  unfolding switched_def by (elim exE conjE) simp

lemma switched_current: "switched here a node b s s' \<Longrightarrow> tk_current s' = node"
  unfolding switched_def by (elim exE conjE) simp

lemma set_page_dir_ok:
  "(pg_enabled pg \<Longrightarrow> get_page pg (pg_current_dir pg) d \<noteq> None) \<Longrightarrow>
   \<exists>pg'. set_page_dir pg d = Some pg' \<and> pg_current_dir pg' = d \<and> pg_tabs pg' = pg_tabs pg
     \<and> pg_enabled pg' = pg_enabled pg"
  by (auto simp: set_page_dir_def)

lemma rrschedule_eq:
  assumes "tk_current s \<noteq> 0" "tk_nodes s (tk_current s) = Some n" "ln_data n = a" "a \<noteq> 0" "tk_tasks s a = Some t"
    and "rr_next (set_task a (save_regs here s t) s) (tk_current s) = Some (nx, b)" "nx \<noteq> 0"
    and "tk_tasks (set_task a (save_regs here s t) s) b = Some move"
    and "(if t_pagedir move \<noteq> pg_current_dir (tk_paging s)
      then set_page_dir (tk_paging s) (t_pagedir move) else Some (tk_paging s)) = Some pg"
  shows "rrschedule_call here s =
    Some (s\<lparr>tk_tasks := (tk_tasks s)(a \<mapsto> save_regs here s t, b \<mapsto> move\<lparr>t_state := TASK_STATE_RUNNING\<rparr>),
            tk_current := nx, tk_paging := pg,
            tk_cpu := \<lparr>c_eip = t_eip move, c_esp = t_esp move, c_ebp = t_ebp move\<rparr>\<rparr>)"
proof -
  let ?s1 = "set_task a (save_regs here s t) s"
  let ?s2 = "set_current_task_node nx (set_task b (move\<lparr>t_state := TASK_STATE_RUNNING\<rparr>) ?s1)"
  have p: "tk_paging ?s2 = tk_paging s" using assms(7) by (simp add: set_current_task_node_def)
  have "rrschedule_call here s = do {
      pg \<leftarrow> (if t_pagedir move \<noteq> pg_current_dir (tk_paging ?s2)
             then set_page_dir (tk_paging ?s2) (t_pagedir move) else Some (tk_paging ?s2));
      Some (?s2\<lparr>tk_paging := pg, tk_cpu := \<lparr>c_eip = t_eip move, c_esp = t_esp move, c_ebp = t_ebp move\<rparr>\<rparr>) }"
    using assms(1-6,8)
    by (simp add: rrschedule_call_def get_current_task_def get_current_task_node_def Let_def del: set_task_simps(8))
  then show ?thesis unfolding p assms(9) using assms(7) by (simp add: set_current_task_node_def set_task_def)
qed

lemma rrschedule_ok:
  assumes r: "task_ring s xs" "xs \<noteq> []" "sems_ok s" "dirs_ok s" "tk_current s = ring_node xs i"
    and rd: "task_ready s (ring_task xs (i + Suc d)) = Some True"
  shows "\<exists>e \<le> d. \<exists>s'. rrschedule_call here s = Some s'
    \<and> switched here (ring_task xs i) (ring_node xs (i + Suc e)) (ring_task xs (i + Suc e)) s s'
    \<and> task_ready s (ring_task xs (i + Suc e)) = Some True
    \<and> (\<forall>k < e. task_ready s (ring_task xs (i + Suc k)) = Some False)"
proof -
  let ?a = "ring_task xs i"
  obtain n where n: "tk_nodes s (tk_current s) = Some n" "ln_data n = ?a" "tk_current s \<noteq> 0"
    using ring_succ [OF r(1,2), of i] r(5) by auto
  obtain t where t: "tk_tasks s ?a = Some t" "?a \<noteq> 0" using ring_task_live [OF r(1,2), of i] by auto
  let ?s1 = "set_task ?a (save_regs here s t) s"
  have s1: "task_ring ?s1 xs" "sems_ok ?s1" "task_ready ?s1 b = task_ready s b" for b
    using task_ring_set_task [OF r(1)] sems_ok_save [OF r(3) t(1)] task_ready_save [OF t(1)] by blast+
  obtain e where e: "e \<le> d" "rr_next ?s1 (ring_node xs i) = Some (ring_node xs (i + Suc e), ring_task xs (i + Suc e))"
    "task_ready s (ring_task xs (i + Suc e)) = Some True"
    "\<forall>k < e. task_ready s (ring_task xs (i + Suc k)) = Some False"
    using rr_next_finds [OF s1(1) r(2) s1(2), of i d] rd s1(3) by metis
  let ?b = "ring_task xs (i + Suc e)" and ?nx = "ring_node xs (i + Suc e)"
  obtain move where m: "tk_tasks ?s1 ?b = Some move" using ring_task_live [OF s1(1) r(2)] by blast
  have nx: "?nx \<noteq> 0" using ring_succ [OF r(1,2)] by blast
  have "\<exists>t' \<in> ran (tk_tasks s). t_pagedir move = t_pagedir t' \<or> t_pagedir move = pg_current_dir (tk_paging s)"
    using m t by (auto simp: ran_def split: if_splits)
  then have pd: "pg_enabled (tk_paging s) \<Longrightarrow> get_page (tk_paging s) (pg_current_dir (tk_paging s)) (t_pagedir move) \<noteq> None"
    using r(4) unfolding dirs_ok_def Let_def by blast
  obtain pg where pg: "(if t_pagedir move \<noteq> pg_current_dir (tk_paging s)
      then set_page_dir (tk_paging s) (t_pagedir move) else Some (tk_paging s)) = Some pg"
    "pg_current_dir pg = t_pagedir move" "pg_tabs pg = pg_tabs (tk_paging s)" "pg_enabled pg = pg_enabled (tk_paging s)"
    using set_page_dir_ok [OF pd] by (cases "t_pagedir move = pg_current_dir (tk_paging s)") auto
  let ?s' = "s\<lparr>tk_tasks := (tk_tasks s)(?a \<mapsto> save_regs here s t, ?b \<mapsto> move\<lparr>t_state := TASK_STATE_RUNNING\<rparr>),
              tk_current := ?nx, tk_paging := pg,
              tk_cpu := \<lparr>c_eip = t_eip move, c_esp = t_esp move, c_ebp = t_ebp move\<rparr>\<rparr>"
  have "rrschedule_call here s = Some ?s'"
    using rrschedule_eq [OF n(3,1,2) t(2,1) e(2) [folded r(5)] nx m pg(1)] by simp
  moreover have "switched here ?a ?nx ?b s ?s'"
    unfolding switched_def using t(1) m pg(2-4) by (intro exI [of _ t] exI [of _ move] exI [of _ pg]) simp
  ultimately show ?thesis using e(1,3,4) by blast
qed

section \<open>Fairness\<close>

text \<open>One round of a run: from \<open>s\<close>, where \<open>a\<close> can run, the scheduler is called; what the chosen task
  does until the next call leads to \<open>s''\<close>.\<close>

definition sched_round :: "(nat \<times> int \<times> nat) list \<Rightarrow> nat \<Rightarrow> u32 \<Rightarrow> 'd tasking \<Rightarrow> 'd tasking \<Rightarrow> bool" where
  "sched_round xs a here s s'' \<longleftrightarrow> task_ring s xs \<and> sems_ok s \<and> dirs_ok s \<and> task_ready s a = Some True
     \<and> (\<forall>s'. rrschedule_call here s = Some s' \<longrightarrow> tk_current s'' = tk_current s')"

lemma sched_round_step:
  assumes "sched_round xs (ring_task xs (i + Suc d)) here s s''" "xs \<noteq> []" "tk_current s = ring_node xs i"
  shows "\<exists>e \<le> d. tk_current s'' = ring_node xs (i + Suc e)"
proof -
  have a: "task_ring s xs" "sems_ok s" "dirs_ok s" "task_ready s (ring_task xs (i + Suc d)) = Some True"
    "\<And>s'. rrschedule_call here s = Some s' \<Longrightarrow> tk_current s'' = tk_current s'"
    using assms(1) by (auto simp: sched_round_def)
  obtain e s' where "e \<le> d" "rrschedule_call here s = Some s'"
    "switched here (ring_task xs i) (ring_node xs (i + Suc e)) (ring_task xs (i + Suc e)) s s'"
    using rrschedule_ok [OF a(1) assms(2) a(2,3) assms(3) a(4), where here = here] by blast
  then show ?thesis using a(5) by (auto simp: switched_def)
qed

lemma sched_fair_from:
  assumes "xs \<noteq> []" "tk_current (r 0) = ring_node xs i"
    and "\<forall>k \<le> d. sched_round xs (ring_task xs (i + Suc d)) (here k) (r k) (r (Suc k))"
  shows "\<exists>k \<le> d. tk_current (r (Suc k)) = ring_node xs (i + Suc d)"
  using assms(2,3)
proof (induction d arbitrary: i r here rule: less_induct)
  case (less d)
  obtain e where e: "e \<le> d" "tk_current (r (Suc 0)) = ring_node xs (i + Suc e)"
    using sched_round_step [of xs i d "here 0" "r 0" "r (Suc 0)"] less.prems assms(1) by auto
  show ?case
  proof (cases "e = d")
    case True
    then show ?thesis using e by blast
  next
    case False
    define d' where "d' = d - Suc e"
    have d': "d' < d" "i + Suc e + Suc d' = i + Suc d" using e(1) False by (auto simp: d'_def)
    have "\<forall>k \<le> d'. sched_round xs (ring_task xs (i + Suc e + Suc d')) (here (Suc k)) (r (Suc k)) (r (Suc (Suc k)))"
      unfolding d'(2) using less.prems(2) d'(1) by auto
    from less.IH [of d' "\<lambda>k. r (Suc k)" "i + Suc e" "\<lambda>k. here (Suc k)", OF d'(1) e(2) this]
    obtain k where "k \<le> d'" "tk_current (r (Suc (Suc k))) = ring_node xs (i + Suc d)" unfolding d'(2) by blast
    then show ?thesis using d'(1) by (intro exI [of _ "Suc k"]) simp
  qed
qed

section \<open>What a completed call did\<close>

lemma rr_next_data: "rr_next s node = Some r \<Longrightarrow> map_option ln_data (tk_nodes s (fst r)) = Some (snd r)"
proof (induction rule: rr_next.raw_induct [rotated 1, consumes 1, case_names step])
  case (step f s node r)
  let ?next = "\<lambda>n :: nat lnode. if ln_next n \<noteq> 0 then ln_next n else get_task_list s"
  from step.hyps obtain n m skip where n: "tk_nodes s (?next n) = Some m"
    "(if skip then f s (?next n) else Some (?next n, ln_data m)) = Some r"
    unfolding Let_def by (elim bind_SomeE) (rule that, assumption+)
  show ?case
  proof (cases skip)
    case True
    then have "f s (?next n) = Some r" using n(2) by simp
    then show ?thesis by (rule step.IH)
  next
    case False
    then have "r = (?next n, ln_data m)" using n(2) by simp
    then show ?thesis using n(1) by simp
  qed
qed

lemma rrschedule_full:
  assumes "rrschedule_call here s = Some s'" "get_current_task s = Some a" "tk_current s \<noteq> 0" "a \<noteq> 0" "tk_nodes s 0 = None"
  obtains t nx b move pg where "tk_tasks s a = Some t"
    "rr_next (set_task a (save_regs here s t) s) (tk_current s) = Some (nx, b)" "nx \<noteq> 0"
    "map_option ln_data (tk_nodes s nx) = Some b"
    "((tk_tasks s)(a \<mapsto> save_regs here s t)) b = Some move"
    "s' = s\<lparr>tk_tasks := (tk_tasks s)(a \<mapsto> save_regs here s t, b \<mapsto> move\<lparr>t_state := TASK_STATE_RUNNING\<rparr>),
            tk_current := nx, tk_paging := pg,
            tk_cpu := \<lparr>c_eip = t_eip move, c_esp = t_esp move, c_ebp = t_ebp move\<rparr>\<rparr>"
    "pg_current_dir pg = t_pagedir move"
proof -
  obtain t where t: "tk_tasks s a = Some t"
    using assms by (cases "tk_tasks s a") (auto simp: rrschedule_call_def get_current_task_node_def)
  obtain n where n: "tk_nodes s (tk_current s) = Some n" "ln_data n = a"
    using assms(2,3) by (auto simp: get_current_task_def get_current_task_node_def)
  let ?s1 = "set_task a (save_regs here s t) s"
  obtain nx b move pg where m: "rr_next ?s1 (tk_current s) = Some (nx, b)" "tk_tasks ?s1 b = Some move"
    "(if t_pagedir move \<noteq> pg_current_dir (tk_paging s) then set_page_dir (tk_paging s) (t_pagedir move)
      else Some (tk_paging s)) = Some pg"
  proof -
    have e: "rrschedule_call here s = do {
        (next_node, b) \<leftarrow> rr_next ?s1 (tk_current s);
        move \<leftarrow> tk_tasks ?s1 b;
        let s2 = set_current_task_node next_node (set_task b (move\<lparr>t_state := TASK_STATE_RUNNING\<rparr>) ?s1);
        pg \<leftarrow> (if t_pagedir move \<noteq> pg_current_dir (tk_paging s2)
               then set_page_dir (tk_paging s2) (t_pagedir move) else Some (tk_paging s2));
        Some (s2\<lparr>tk_paging := pg, tk_cpu := \<lparr>c_eip = t_eip move, c_esp = t_esp move, c_ebp = t_ebp move\<rparr>\<rparr>) }"
      using assms(2-4) t by (simp add: rrschedule_call_def get_current_task_node_def Let_def del: set_task_simps(8))
    have p: "tk_paging (set_current_task_node nd (set_task b mv ?s1)) = tk_paging s" for nd b mv
      by (simp add: set_current_task_node_def)
    from assms(1) obtain y where y: "rr_next ?s1 (tk_current s) = Some y"
      "(case y of (next_node, b) \<Rightarrow> do {
        move \<leftarrow> tk_tasks ?s1 b;
        pg \<leftarrow> (if t_pagedir move \<noteq> pg_current_dir (tk_paging s)
               then set_page_dir (tk_paging s) (t_pagedir move) else Some (tk_paging s));
        Some ((set_current_task_node next_node (set_task b (move\<lparr>t_state := TASK_STATE_RUNNING\<rparr>) ?s1))
          \<lparr>tk_paging := pg, tk_cpu := \<lparr>c_eip = t_eip move, c_esp = t_esp move, c_ebp = t_ebp move\<rparr>\<rparr>) }) = Some s'"
      unfolding e Let_def p by (elim bind_SomeE)
    show thesis
      using y(2) by (cases y, simp only: prod.case, elim bind_SomeE) (rule that, use y(1) in auto)
  qed
  have nx: "map_option ln_data (tk_nodes s nx) = Some b" using rr_next_data [OF m(1)] by simp
  then have nz: "nx \<noteq> 0" using assms(5) by (cases "nx = 0") auto
  have "s' = s\<lparr>tk_tasks := (tk_tasks s)(a \<mapsto> save_regs here s t, b \<mapsto> move\<lparr>t_state := TASK_STATE_RUNNING\<rparr>),
            tk_current := nx, tk_paging := pg,
            tk_cpu := \<lparr>c_eip = t_eip move, c_esp = t_esp move, c_ebp = t_ebp move\<rparr>\<rparr>"
    using rrschedule_eq [OF assms(3) n assms(4) t m(1) nz m(2,3)] assms(1) by simp
  moreover have "pg_current_dir pg = t_pagedir move"
    using m(3) by (auto simp: set_page_dir_def bind_eq_Some_conv split: if_splits)
  moreover have "((tk_tasks s)(a \<mapsto> save_regs here s t)) b = Some move" using m(2) by simp
  ultimately show thesis using that [OF t m(1) nz nx] by blast
qed

lemma rrschedule_inv:
  assumes "rrschedule_call here s = Some s'" "get_current_task s = Some a" "tk_current s \<noteq> 0" "a \<noteq> 0" "tk_nodes s 0 = None"
  obtains t b move where "tk_tasks s a = Some t" "((tk_tasks s)(a \<mapsto> save_regs here s t)) b = Some move"
    "tk_tasks s' = (tk_tasks s)(a \<mapsto> save_regs here s t, b \<mapsto> move\<lparr>t_state := TASK_STATE_RUNNING\<rparr>)"
    "get_current_task s' = Some b"
    "tk_cpu s' = \<lparr>c_eip = t_eip move, c_esp = t_esp move, c_ebp = t_ebp move\<rparr>"
    "pg_current_dir (tk_paging s') = t_pagedir move"
proof -
  obtain t nx b move pg where f: "tk_tasks s a = Some t" "nx \<noteq> 0" "map_option ln_data (tk_nodes s nx) = Some b"
    "((tk_tasks s)(a \<mapsto> save_regs here s t)) b = Some move"
    "s' = s\<lparr>tk_tasks := (tk_tasks s)(a \<mapsto> save_regs here s t, b \<mapsto> move\<lparr>t_state := TASK_STATE_RUNNING\<rparr>),
            tk_current := nx, tk_paging := pg,
            tk_cpu := \<lparr>c_eip = t_eip move, c_esp = t_esp move, c_ebp = t_ebp move\<rparr>\<rparr>"
    "pg_current_dir pg = t_pagedir move"
    using rrschedule_full [OF assms] by metis
  show thesis
    by (rule that [OF f(1,4)]) (use f in \<open>simp_all add: get_current_task_def get_current_task_node_def\<close>)
qed

section \<open>Properties\<close>

text \<open>C33. Round robin: when some task can run, the scheduler returns, and it has switched to the
  first task after the current one, in list order, that can run; the registers of the old task
  are saved and those of the new one are loaded.\<close>

theorem rrschedule_round_robin:
  assumes "task_ring s xs" "sems_ok s" "dirs_ok s" "i < length xs" "tk_current s = ring_node xs i"
    and "j < length xs" "task_ready s (ring_task xs j) = Some True"
  shows "\<exists>e s' t move. rrschedule_call here s = Some s' \<and> tk_current s' = ring_node xs (i + Suc e)
    \<and> task_ready s (ring_task xs (i + Suc e)) = Some True
    \<and> (\<forall>k < e. task_ready s (ring_task xs (i + Suc k)) = Some False)
    \<and> tk_tasks s (ring_task xs i) = Some t
    \<and> ((tk_tasks s)(ring_task xs i \<mapsto> save_regs here s t)) (ring_task xs (i + Suc e)) = Some move
    \<and> tk_tasks s' = (tk_tasks s)(ring_task xs i \<mapsto> save_regs here s t,
        ring_task xs (i + Suc e) \<mapsto> move\<lparr>t_state := TASK_STATE_RUNNING\<rparr>)
    \<and> tk_cpu s' = \<lparr>c_eip = t_eip move, c_esp = t_esp move, c_ebp = t_ebp move\<rparr>
    \<and> pg_current_dir (tk_paging s') = t_pagedir move"
proof -
  have ne: "xs \<noteq> []" using assms(4) by auto
  have "i + Suc (j + length xs - Suc i) = j + length xs" using assms(4) by simp
  then have "ring_task xs j = ring_task xs (i + Suc (j + length xs - Suc i))"
    unfolding ring_task_def by (simp only: mod_add_self2)
  then obtain e s' where e: "rrschedule_call here s = Some s'"
    "switched here (ring_task xs i) (ring_node xs (i + Suc e)) (ring_task xs (i + Suc e)) s s'"
    "task_ready s (ring_task xs (i + Suc e)) = Some True"
    "\<forall>k < e. task_ready s (ring_task xs (i + Suc k)) = Some False"
    using rrschedule_ok [OF assms(1) ne assms(2,3,5), where here = here] assms(7) by metis
  from e(2) obtain t move pg where sw: "tk_tasks s (ring_task xs i) = Some t"
    "((tk_tasks s)(ring_task xs i \<mapsto> save_regs here s t)) (ring_task xs (i + Suc e)) = Some move"
    "s' = s\<lparr>tk_tasks := (tk_tasks s)(ring_task xs i \<mapsto> save_regs here s t,
              ring_task xs (i + Suc e) \<mapsto> move\<lparr>t_state := TASK_STATE_RUNNING\<rparr>),
            tk_current := ring_node xs (i + Suc e), tk_paging := pg,
            tk_cpu := \<lparr>c_eip = t_eip move, c_esp = t_esp move, c_ebp = t_ebp move\<rparr>\<rparr>"
    "pg_current_dir pg = t_pagedir move"
    unfolding switched_def by blast
  have "tk_current s' = ring_node xs (i + Suc e)"
    "tk_tasks s' = (tk_tasks s)(ring_task xs i \<mapsto> save_regs here s t,
        ring_task xs (i + Suc e) \<mapsto> move\<lparr>t_state := TASK_STATE_RUNNING\<rparr>)"
    "tk_cpu s' = \<lparr>c_eip = t_eip move, c_esp = t_esp move, c_ebp = t_ebp move\<rparr>"
    "pg_current_dir (tk_paging s') = t_pagedir move"
    using sw(3,4) by simp_all
  then show ?thesis using e(1,3,4) sw(1,2) by blast
qed

text \<open>C34. Fairness: in a run in which the scheduler is called again and again, a task that can run
  throughout gets the processor within as many calls as there are tasks.\<close>

theorem sched_fair:
  assumes "i < length xs" "j < length xs" "tk_current (r 0) = ring_node xs i"
    and "\<forall>k < length xs. task_ring (r k) xs \<and> sems_ok (r k) \<and> dirs_ok (r k)
       \<and> task_ready (r k) (ring_task xs j) = Some True"
    and "\<forall>k < length xs. \<forall>s'. rrschedule_call (here k) (r k) = Some s' \<longrightarrow> tk_current (r (Suc k)) = tk_current s'"
  shows "\<exists>k < length xs. tk_current (r (Suc k)) = ring_node xs j"
proof -
  define d where "d = (if i < j then j - Suc i else j + length xs - Suc i)"
  have d: "ring_task xs (i + Suc d) = ring_task xs j" "ring_node xs (i + Suc d) = ring_node xs j" "d < length xs"
  proof -
    have "i + Suc d = j \<or> i + Suc d = j + length xs" using assms(1) by (auto simp: d_def)
    then show "ring_task xs (i + Suc d) = ring_task xs j" "ring_node xs (i + Suc d) = ring_node xs j"
      by (auto simp: ring_task_def ring_node_def)
    show "d < length xs" using assms(1,2) by (auto simp: d_def)
  qed
  have "xs \<noteq> []" using assms(1) by auto
  moreover have "\<forall>k \<le> d. sched_round xs (ring_task xs (i + Suc d)) (here k) (r k) (r (Suc k))"
    unfolding sched_round_def d(1) using assms(4,5) d(3) by auto
  ultimately have "\<exists>k \<le> d. tk_current (r (Suc k)) = ring_node xs (i + Suc d)"
    using assms(3) by (intro sched_fair_from) auto
  then show ?thesis using d(2,3) by (metis le_less_trans)
qed

text \<open>A switch is transparent: when a task that gave up the processor is chosen again, it goes
  on at the address it asked for with its stack and its address space.\<close>

theorem rrschedule_resumes:
  assumes "rrschedule_call here s = Some s1" "get_current_task s = Some a" "tk_current s \<noteq> 0" "a \<noteq> 0"
    and "get_current_task s1 = Some b" "b \<noteq> a"
    and "tk_tasks s2 a = tk_tasks s1 a" "get_current_task s2 = Some c" "c \<noteq> a" "c \<noteq> 0" "tk_current s2 \<noteq> 0"
    and "rrschedule_call here' s2 = Some s3" "get_current_task s3 = Some a" "tk_nodes s 0 = None" "tk_nodes s2 0 = None"
  shows "tk_cpu s3 = \<lparr>c_eip = here, c_esp = c_esp (tk_cpu s), c_ebp = c_ebp (tk_cpu s)\<rparr>
    \<and> pg_current_dir (tk_paging s3) = pg_current_dir (tk_paging s)"
proof -
  obtain t b' move where "tk_tasks s1 = (tk_tasks s)(a \<mapsto> save_regs here s t, b' \<mapsto> move\<lparr>t_state := TASK_STATE_RUNNING\<rparr>)"
    "get_current_task s1 = Some b'"
    using rrschedule_inv [OF assms(1-4,14)] by metis
  then have t: "tk_tasks s2 a = Some (save_regs here s t)" using assms(5-7) by simp
  obtain u d move' where "((tk_tasks s2)(c \<mapsto> save_regs here' s2 u)) d = Some move'" "get_current_task s3 = Some d"
    "tk_cpu s3 = \<lparr>c_eip = t_eip move', c_esp = t_esp move', c_ebp = t_ebp move'\<rparr>"
    "pg_current_dir (tk_paging s3) = t_pagedir move'"
    using rrschedule_inv [OF assms(12,8,11,10,15)] by metis
  then show ?thesis using t assms(9,13) by auto
qed

text \<open>Two tasks that can both run: 1 at the node 10 and 2 at the node 20.\<close>

definition idle_task_struct :: task where
  "idle_task_struct = \<lparr>t_state = TASK_STATE_RUNNING, t_eip = 0, t_esp = 0, t_ebp = 0, t_pid = 0, t_group = 0,
     t_parent = 0, t_sleep = 0, t_stack = 0, t_pagedir = 0, t_memmaps = 0, t_sem = 0, t_mainmap = 0, t_waiting = 0,
     t_end_status = 0, t_pobjects = dlist_create 0 0, t_froot = 0, t_curdir = 0\<rparr>"

definition small_paging :: paging where
  "small_paging = \<lparr>pg_tabs = Map.empty, pg_bitmap = None, pg_npages = 0, pg_last_free = 0, pg_nfree = 0, pg_early = 0,
     pg_kernel_end = 0, pg_current_dir = 0, pg_kernel_dir = 0, pg_enabled = False, pg_cr3 = 0\<rparr>"

definition empty_vfs :: "'d \<Rightarrow> 'd vfs" where
  "empty_vfs d = \<lparr>vs_nodes = Map.empty, vs_mounts = Map.empty, vs_fss = Map.empty, vs_drivers = Map.empty,
     vs_driver_list = [0], vs_mount_list = [0], vs_root = 0, vs_froot = 0, vs_curdir = 0, vs_next = 1, vs_dev = d\<rparr>"

definition two_tasks :: "unit tasking" where
  "two_tasks = \<lparr>tk_nodes = [10 \<mapsto> \<lparr>ln_next = 20, ln_prev = 0, ln_val = 0, ln_data = 1\<rparr>,
       20 \<mapsto> \<lparr>ln_next = 0, ln_prev = 10, ln_val = 0, ln_data = 2\<rparr>],
     tk_tasks = [1 \<mapsto> idle_task_struct, 2 \<mapsto> idle_task_struct\<lparr>t_pid := 1\<rparr>],
     tk_list = 10, tk_current = 10, tk_pidcount = 1, tk_initialized = True, tk_blocked = False, tk_tick = 0,
     tk_sems = Map.empty, tk_maps = Map.empty, tk_maplists = Map.empty,
     tk_cpu = \<lparr>c_eip = 0, c_esp = 5, c_ebp = 6\<rparr>, tk_paging = small_paging, tk_vfs = empty_vfs (), tk_next = 30\<rparr>"

definition two_ring :: "(nat \<times> int \<times> nat) list" where
  "two_ring = [(10, 0, 1), (20, 0, 2)]"

lemma two_ring_ok: "task_ring (two_tasks\<lparr>tk_current := c\<rparr>) two_ring"
  by (auto simp: task_ring_def two_tasks_def two_ring_def)

lemma two_sems_ok: "sems_ok (two_tasks\<lparr>tk_current := c\<rparr>)"
  by (auto simp: sems_ok_def two_tasks_def idle_task_struct_def split: if_splits)

lemma two_dirs_ok: "dirs_ok (two_tasks\<lparr>tk_current := c\<rparr>)"
  by (simp add: dirs_ok_def two_tasks_def small_paging_def)

lemma rrschedule_round_robin_witness:
  "\<exists>s'. rrschedule_call 7 (two_tasks\<lparr>tk_current := 10\<rparr>) = Some s'"
  using rrschedule_round_robin [OF two_ring_ok two_sems_ok two_dirs_ok, of 0 10 1 7]
  by (force simp: two_ring_def ring_node_def ring_task_def task_ready_def rr_skip_def two_tasks_def idle_task_struct_def)

definition alternating :: "nat \<Rightarrow> unit tasking" where
  "alternating k = two_tasks\<lparr>tk_current := if even k then 10 else 20\<rparr>"

lemma sched_fair_witness: "\<exists>k < 2. tk_current (alternating (Suc k)) = 20"
proof -
  have "map_option tk_current (rrschedule_call 7 (two_tasks\<lparr>tk_current := 10\<rparr>)) = Some 20"
    "map_option tk_current (rrschedule_call 7 (two_tasks\<lparr>tk_current := 20\<rparr>)) = Some 10"
    by code_simp+
  then have "sched_round two_ring (ring_task two_ring 1) 7 (alternating k) (alternating (Suc k))" for k
    using two_ring_ok two_sems_ok two_dirs_ok
    by (auto simp: alternating_def sched_round_def)
      (simp add: two_ring_def ring_task_def task_ready_def rr_skip_def two_tasks_def idle_task_struct_def)+
  then have "\<exists>k < length two_ring. tk_current (alternating (Suc k)) = ring_node two_ring 1"
    by (intro sched_fair [where i = 0 and here = "\<lambda>_. 7"])
      (auto simp: sched_round_def, simp_all add: two_ring_def alternating_def ring_node_def)
  moreover have "length two_ring = 2" "ring_node two_ring 1 = 20" by (simp_all add: two_ring_def ring_node_def)
  ultimately show ?thesis by simp
qed

lemma rrschedule_resumes_witness:
  "map_option (\<lambda>s. c_esp (tk_cpu s)) (do { s1 \<leftarrow> rrschedule_call 7 two_tasks; rrschedule_call 8 s1 }) = Some 5"
proof -
  have e: "map_option (\<lambda>s1. (get_current_task s1, map_option get_current_task (rrschedule_call 8 s1)))
      (rrschedule_call 7 two_tasks) = Some (Some 2, Some (Some 1))"
    "map_option (\<lambda>s1. tk_current s1) (rrschedule_call 7 two_tasks) = Some 20"
    "map_option (\<lambda>s1. tk_nodes s1 0 = None) (rrschedule_call 7 two_tasks) = Some True"
    "get_current_task two_tasks = Some 1" "tk_current two_tasks = 10" "c_esp (tk_cpu two_tasks) = 5"
    by code_simp+
  then obtain s1 s3 where s: "rrschedule_call 7 two_tasks = Some s1" "get_current_task s1 = Some 2"
    "rrschedule_call 8 s1 = Some s3" "get_current_task s3 = Some 1" "tk_current s1 = 20" by auto
  have n: "tk_nodes two_tasks 0 = None" "tk_nodes s1 0 = None"
    using e(3) s(1) by (simp_all add: two_tasks_def [THEN arg_cong, of tk_nodes])
  from rrschedule_resumes [OF s(1) e(4) _ _ s(2) _ refl s(2) _ _ _ s(3,4) n] s e(5,6) show ?thesis by simp
qed

end
