(* ===== verification/TaskStack.thy ===== *)
theory TaskStack
  imports CStrings
begin

text \<open>
  \<^verbatim>\<open>init_task_stack\<close> of \<^verbatim>\<open>kernel/base/tasking/task.c\<close>: the arguments and environment of a new
  process, copied from the parent's memory onto the stack of the child. Pointers are stored as four
  bytes, lowest first; \<open>argv\<close> and \<open>envp\<close> are addresses of arrays that end in a null pointer.
\<close>

section \<open>Words in memory\<close>

definition word_bytes :: "u32 \<Rightarrow> u8 list" where
  "word_bytes w = [ucast w, ucast (drop_bit 8 w), ucast (drop_bit 16 w), ucast (drop_bit 24 w)]"

fun bytes_word :: "u8 list \<Rightarrow> u32" where
  "bytes_word [] = 0"
| "bytes_word (b # bs) = ucast b OR push_bit 8 (bytes_word bs)"

definition load32 :: "memory \<Rightarrow> nat \<Rightarrow> u32 option" where
  "load32 m a = do { bs \<leftarrow> load_bytes m a 4; Some (bytes_word bs) }"

definition store32 :: "memory \<Rightarrow> nat \<Rightarrow> u32 \<Rightarrow> memory option" where
  "store32 m a w = store_bytes m a (word_bytes w)"

section \<open>The stack of a new process\<close>

text \<open>\<open>for ( n = 0; argv[n]; n++ )\<close>.\<close>

partial_function (option) count_args :: "memory \<Rightarrow> nat \<Rightarrow> nat \<Rightarrow> nat option" where
  "count_args m argv n =
     do { p \<leftarrow> load32 m (argv + 4 * n); if p \<noteq> 0 then count_args m argv (Suc n) else Some n }"

text \<open>The loop from \<open>i\<close> over the \<open>n\<close> strings that are left: each is copied below the stack pointer
  and its address is stored in the table.\<close>

fun copy_args :: "memory \<Rightarrow> u32 \<Rightarrow> nat \<Rightarrow> u32 \<Rightarrow> nat \<Rightarrow> nat \<Rightarrow> (memory \<times> u32) option" where
  "copy_args m esp argv args i 0 = Some (m, esp)"
| "copy_args m esp argv args i (Suc n) =
     do { p \<leftarrow> load32 m (argv + 4 * i);
          slen \<leftarrow> strlen m (unat p);
          let esp' = esp - of_nat (slen + 1);
          m1 \<leftarrow> store32 m (unat args + 4 * i) esp';
          p' \<leftarrow> load32 m1 (argv + 4 * i);
          m2 \<leftarrow> strncpy m1 (unat esp') (unat p') slen;
          copy_args m2 esp' argv args (Suc i) n }"

definition init_task_stack :: "memory \<Rightarrow> u32 \<Rightarrow> nat \<Rightarrow> nat \<Rightarrow> (memory \<times> u32) option" where
  "init_task_stack m esp argv envp =
     do { argc \<leftarrow> count_args m argv 0;
          envc \<leftarrow> count_args m envp 0;
          let args = esp - of_nat (4 * (argc + 1));
          let envs = args - of_nat (4 * (envc + 1));
          (m1, esp1) \<leftarrow> copy_args m envs argv args 0 argc;
          m2 \<leftarrow> store32 m1 (unat args + 4 * argc) 0;
          (m3, esp2) \<leftarrow> copy_args m2 esp1 envp envs 0 envc;
          m4 \<leftarrow> store32 m3 (unat envs + 4 * envc) 0;
          let esp3 = esp2 - 4;
          m5 \<leftarrow> store32 m4 (unat esp3) envs;
          let esp4 = esp3 - 4;
          m6 \<leftarrow> store32 m5 (unat esp4) args;
          let esp5 = esp4 - 4;
          m7 \<leftarrow> store32 m6 (unat esp5) (of_nat argc);
          Some (m7, esp5) }"

declare count_args.simps [code]

section \<open>Loads, stores and frames\<close>

lemma word_bytes_length [simp]: "length (word_bytes w) = 4"
  by (simp add: word_bytes_def)

lemma bytes_word_bytes [simp]: "bytes_word (word_bytes w) = w"
proof (rule bit_word_eqI)
  fix n
  assume "n < LENGTH(32)"
  then consider "n < 8" | "8 \<le> n" "n < 16" | "16 \<le> n" "n < 24" | "24 \<le> n" "n < 32" by fastforce
  then show "bit (bytes_word (word_bytes w)) n \<longleftrightarrow> bit w n"
    by cases (auto simp: word_bytes_def bit_simps)
qed

lemma load32_bytes: "bytes_at m a (word_bytes w) \<Longrightarrow> load32 m a = Some w"
  using load_bytes_ok [of m a "word_bytes w"] by (simp add: load32_def)

lemma store32_ok: "mapped m a 4 \<Longrightarrow> store32 m a w = Some (upd_bytes m a (word_bytes w))"
  by (simp add: store32_def store_bytes_ok)

lemma load_bytes_cong: "\<forall>i < n. m' (a + i) = m (a + i) \<Longrightarrow> load_bytes m' a n = load_bytes m a n"
proof (induction n arbitrary: a)
  case (Suc n)
  have "m' a = m a" using Suc.prems by force
  moreover have "load_bytes m' (Suc a) n = load_bytes m (Suc a) n"
    using Suc.prems by (intro Suc.IH) force
  ultimately show ?case by simp
qed simp

lemma load32_cong: "\<forall>x. a \<le> x \<and> x < a + 4 \<longrightarrow> m' x = m x \<Longrightarrow> load32 m' a = load32 m a"
  unfolding load32_def by (subst load_bytes_cong [of 4 m' a m]) auto

lemma cstr_cong: "\<forall>x. s \<le> x \<and> x \<le> s + length xs \<longrightarrow> m' x = m x \<Longrightarrow> cstr m s xs \<Longrightarrow> cstr m' s xs"
  by (auto simp: cstr_def bytes_at_def)

text \<open>\<open>m'\<close> differs from \<open>m\<close> only at addresses in \<open>S\<close>, and what was mapped still is.\<close>

definition changes_on :: "nat set \<Rightarrow> memory \<Rightarrow> memory \<Rightarrow> bool" where
  "changes_on S m m' \<longleftrightarrow> (\<forall>x. x \<notin> S \<longrightarrow> m' x = m x) \<and> (\<forall>x. m x \<noteq> None \<longrightarrow> m' x \<noteq> None)"

lemma changes_on_refl [simp]: "changes_on S m m"
  by (simp add: changes_on_def)

lemma changes_on_trans: "changes_on S m m1 \<Longrightarrow> changes_on T m1 m2 \<Longrightarrow> changes_on (S \<union> T) m m2"
  by (auto simp: changes_on_def)

lemma changes_on_mono: "changes_on S m m' \<Longrightarrow> S \<subseteq> T \<Longrightarrow> changes_on T m m'"
  by (auto simp: changes_on_def)

lemma changes_on_upd: "changes_on {a..<a + length bs} m (upd_bytes m a bs)"
  by (auto simp: changes_on_def upd_bytes_def)

lemma changes_on_mapped: "changes_on S m m' \<Longrightarrow> mapped m a n \<Longrightarrow> mapped m' a n"
  by (auto simp: changes_on_def mapped_def)

lemma changes_on_cstr:
  "changes_on S m m' \<Longrightarrow> {s..s + length xs} \<inter> S = {} \<Longrightarrow> cstr m s xs \<Longrightarrow> cstr m' s xs"
  by (erule cstr_cong [rotated]) (force simp: changes_on_def)

lemma changes_on_load32:
  "changes_on S m m' \<Longrightarrow> {a..<a + 4} \<inter> S = {} \<Longrightarrow> load32 m' a = load32 m a"
  by (rule load32_cong) (force simp: changes_on_def)

lemma store32_step:
  assumes "mapped m a 4"
  obtains m' where "store32 m a w = Some m'" "changes_on {a..<a + 4} m m'" "load32 m' a = Some w"
proof (rule that)
  show "store32 m a w = Some (upd_bytes m a (word_bytes w))" using assms by (rule store32_ok)
  show "changes_on {a..<a + 4} m (upd_bytes m a (word_bytes w))" using changes_on_upd [of a "word_bytes w" m] by simp
  show "load32 (upd_bytes m a (word_bytes w)) a = Some w" by (intro load32_bytes bytes_at_upd_bytes_same)
qed

section \<open>Argument tables\<close>

text \<open>At \<open>a\<close> there is a table of pointers to the strings \<open>ss\<close> with a null pointer at the end; neither
  the table nor the strings touch \<open>S\<close>.\<close>

definition arg_table :: "nat set \<Rightarrow> memory \<Rightarrow> nat \<Rightarrow> u8 list list \<Rightarrow> bool" where
  "arg_table S m a ss \<longleftrightarrow> (\<forall>i < length ss. \<exists>q. load32 m (a + 4 * i) = Some q \<and> q \<noteq> 0 \<and> cstr m (unat q) (ss ! i)
       \<and> {unat q..unat q + length (ss ! i)} \<inter> S = {})
     \<and> load32 m (a + 4 * length ss) = Some 0 \<and> {a..<a + 4 * length ss + 4} \<inter> S = {}"

lemma arg_table_changes:
  assumes "arg_table S m a ss" "changes_on T m m'" "T \<subseteq> S"
  shows "arg_table S m' a ss"
proof -
  have e: "load32 m' (a + 4 * i) = load32 m (a + 4 * i)" if "i \<le> length ss" for i
  proof (rule changes_on_load32 [OF assms(2)])
    have "{a + 4 * i..<a + 4 * i + 4} \<subseteq> {a..<a + 4 * length ss + 4}" using that by auto
    then show "{a + 4 * i..<a + 4 * i + 4} \<inter> T = {}" using assms(1,3) unfolding arg_table_def by blast
  qed
  have "\<exists>q. load32 m' (a + 4 * i) = Some q \<and> q \<noteq> 0 \<and> cstr m' (unat q) (ss ! i)
       \<and> {unat q..unat q + length (ss ! i)} \<inter> S = {}" if i: "i < length ss" for i
  proof -
    obtain q where q: "load32 m (a + 4 * i) = Some q" "q \<noteq> 0" "cstr m (unat q) (ss ! i)"
      "{unat q..unat q + length (ss ! i)} \<inter> S = {}"
      using assms(1) i unfolding arg_table_def by blast
    have "cstr m' (unat q) (ss ! i)" using q(4) assms(3) by (intro changes_on_cstr [OF assms(2) _ q(3)]) blast
    moreover have "load32 m' (a + 4 * i) = Some q" using q(1) e [of i] i by simp
    ultimately show ?thesis using q(2,4) by blast
  qed
  moreover have "load32 m' (a + 4 * length ss) = Some 0"
    using assms(1) e [of "length ss"] by (simp add: arg_table_def)
  ultimately show ?thesis using assms(1) unfolding arg_table_def by blast
qed

lemma arg_table_mono: "arg_table S m a ss \<Longrightarrow> T \<subseteq> S \<Longrightarrow> arg_table T m a ss"
  unfolding arg_table_def by (meson disjoint_iff subset_iff)

lemma count_args_from:
  "arg_table S m a ss \<Longrightarrow> n \<le> length ss \<Longrightarrow> count_args m a n = Some (length ss)"
proof (induction "length ss - n" arbitrary: n)
  case 0
  then show ?case by (subst count_args.simps) (simp add: arg_table_def)
next
  case (Suc k)
  then have n: "n < length ss" by simp
  then obtain q where "load32 m (a + 4 * n) = Some q" "q \<noteq> 0" using Suc.prems(1) by (auto simp: arg_table_def)
  moreover have "count_args m a (Suc n) = Some (length ss)" using Suc n by (intro Suc.hyps(1)) auto
  ultimately show ?case by (subst count_args.simps) simp
qed

definition strs_size :: "u8 list list \<Rightarrow> nat" where
  "strs_size ss = sum_list (map (\<lambda>s. length s + 1) ss)"

text \<open>The loop, from \<open>i\<close> on: the strings go right below the stack pointer, within \<open>S\<close>.\<close>

lemma copy_args_ok:
  assumes "arg_table S m argv ss" "n = length ss - i" "i \<le> length ss" "strs_size (drop i ss) \<le> unat esp"
    and "{unat esp - strs_size (drop i ss)..<unat esp} \<subseteq> S" "unat esp \<le> unat args"
    and "{unat args..<unat args + 4 * length ss} \<subseteq> S" "\<forall>x \<in> S. m x \<noteq> None"
  shows "\<exists>m' esp'. copy_args m esp argv args i n = Some (m', esp') \<and> unat esp' = unat esp - strs_size (drop i ss)
    \<and> changes_on ({unat esp'..<unat esp} \<union> {unat args + 4 * i..<unat args + 4 * length ss}) m m'
    \<and> (\<forall>j. i \<le> j \<longrightarrow> j < length ss \<longrightarrow> (\<exists>q. load32 m' (unat args + 4 * j) = Some q
        \<and> unat esp' \<le> unat q \<and> unat q + length (ss ! j) < unat esp \<and> cstr m' (unat q) (ss ! j)))"
  using assms
proof (induction n arbitrary: i m esp)
  case 0
  then show ?case by (simp add: strs_size_def)
next
  case (Suc n)
  let ?x = "ss ! i" and ?a = "unat args + 4 * i"
  have i: "i < length ss" using Suc.prems(2) by linarith
  have sz: "strs_size (drop i ss) = length ?x + 1 + strs_size (drop (Suc i) ss)"
    using i by (simp add: strs_size_def Cons_nth_drop_Suc [symmetric])
  obtain p where p: "load32 m (argv + 4 * i) = Some p" "p \<noteq> 0" "cstr m (unat p) ?x"
    "{unat p..unat p + length ?x} \<inter> S = {}" and sep: "{argv..<argv + 4 * length ss + 4} \<inter> S = {}"
    using Suc.prems(1) i unfolding arg_table_def by blast
  define esp' where "esp' = esp - of_nat (length ?x + 1)"
  have le: "length ?x + 1 \<le> unat esp" using Suc.prems(4) sz by simp
  have esp': "unat esp' = unat esp - (length ?x + 1)"
  proof -
    have "unat (of_nat (length ?x + 1) :: u32) = length ?x + 1"
      using le unat_u32_less [of esp] by (intro unat_of_nat_small) (rule le_less_trans)
    then show ?thesis using le unfolding esp'_def by (simp add: unat_sub word_le_nat_alt)
  qed
  have mp: "mapped m ?a 4" using Suc.prems(7,8) i by (auto simp: mapped_def subset_iff)
  obtain m1 where m1: "store32 m ?a esp' = Some m1" "changes_on {?a..<?a + 4} m m1" "load32 m1 ?a = Some esp'"
    using store32_step [OF mp] by blast
  have aS: "{?a..<?a + 4} \<subseteq> S" using Suc.prems(7) i by auto
  have t1: "arg_table S m1 argv ss" using arg_table_changes [OF Suc.prems(1) m1(2) aS] .
  have p1: "load32 m1 (argv + 4 * i) = Some p"
  proof -
    have "{argv + 4 * i..<argv + 4 * i + 4} \<subseteq> {argv..<argv + 4 * length ss + 4}" using i by auto
    then have "{argv + 4 * i..<argv + 4 * i + 4} \<inter> {?a..<?a + 4} = {}" using sep aS by blast
    then show ?thesis using changes_on_load32 [OF m1(2)] p(1) by simp
  qed
  have c1: "cstr m1 (unat p) ?x" using changes_on_cstr [OF m1(2) _ p(3)] p(4) aS by blast
  have dS: "{unat esp'..<unat esp} \<subseteq> S"
    by (rule subset_trans [OF _ Suc.prems(5)]) (use sz esp' in auto)
  have mp1: "mapped m1 (unat esp') (length ?x + 1)"
  proof (rule changes_on_mapped [OF m1(2)])
    have "unat esp' + k \<in> S" if "k < length ?x + 1" for k
      using that le esp' by (intro subsetD [OF dS]) auto
    then show "mapped m (unat esp') (length ?x + 1)" using Suc.prems(8) by (auto simp: mapped_def)
  qed
  have "unat esp' + length ?x < unat p \<or> unat p + length ?x < unat esp'"
  proof (rule ccontr)
    assume a: "\<not> ?thesis"
    then have "max (unat p) (unat esp') \<in> {unat p..unat p + length ?x} \<inter> {unat esp'..<unat esp}"
      using esp' le by (auto simp: max_def)
    then show False using p(4) dS by blast
  qed
  then have cp: "strncpy m1 (unat esp') (unat p) (length ?x) = Some (upd_bytes m1 (unat esp') (?x @ [0]))"
    unfolding strncpy_def using c1 mp1
    by (subst strncpy_from_ok [of m1 "unat p" 0 ?x 0]) (auto simp: cstr_def)
  define m2 where "m2 = upd_bytes m1 (unat esp') (?x @ [0])"
  have m2: "changes_on {unat esp'..<unat esp} m1 m2"
    using changes_on_upd [of "unat esp'" "?x @ [0]" m1] esp' le by (simp add: m2_def)
  have t2: "arg_table S m2 argv ss" using arg_table_changes [OF t1 m2 dS] .
  have c2: "cstr m2 (unat esp') ?x"
    using bytes_at_upd_bytes_same [of m1 "unat esp'" "?x @ [0]"] c1 by (simp add: m2_def cstr_def)
  have "\<exists>m' esp''. copy_args m2 esp' argv args (Suc i) n = Some (m', esp'') \<and> unat esp'' = unat esp' - strs_size (drop (Suc i) ss)
    \<and> changes_on ({unat esp''..<unat esp'} \<union> {unat args + 4 * Suc i..<unat args + 4 * length ss}) m2 m'
    \<and> (\<forall>j. Suc i \<le> j \<longrightarrow> j < length ss \<longrightarrow> (\<exists>q. load32 m' (unat args + 4 * j) = Some q
        \<and> unat esp'' \<le> unat q \<and> unat q + length (ss ! j) < unat esp' \<and> cstr m' (unat q) (ss ! j)))"
  proof (rule Suc.IH [OF t2])
    show "\<forall>x \<in> S. m2 x \<noteq> None" using Suc.prems(8) m1(2) m2 by (auto simp: changes_on_def)
    show "{unat esp' - strs_size (drop (Suc i) ss)..<unat esp'} \<subseteq> S"
      by (rule subset_trans [OF _ Suc.prems(5)]) (use sz esp' in auto)
  qed (use Suc.prems sz esp' i in auto)
  then obtain m' esp'' where r: "copy_args m2 esp' argv args (Suc i) n = Some (m', esp'')"
    "unat esp'' = unat esp' - strs_size (drop (Suc i) ss)"
    "changes_on ({unat esp''..<unat esp'} \<union> {unat args + 4 * Suc i..<unat args + 4 * length ss}) m2 m'"
    "\<forall>j. Suc i \<le> j \<longrightarrow> j < length ss \<longrightarrow> (\<exists>q. load32 m' (unat args + 4 * j) = Some q
        \<and> unat esp'' \<le> unat q \<and> unat q + length (ss ! j) < unat esp' \<and> cstr m' (unat q) (ss ! j))"
    by blast
  have ee: "esp - (1 + of_nat (length ?x)) = esp'" by (simp add: esp'_def)
  have eval: "copy_args m esp argv args i (Suc n) = Some (m', esp'')"
    using p(1) strlen_ok [OF p(3)] m1(1) p1 cp r(1) by (simp add: Let_def m2_def ee)
  have ch: "changes_on ({unat esp''..<unat esp} \<union> {?a..<unat args + 4 * length ss}) m m'"
    by (rule changes_on_mono [OF changes_on_trans [OF changes_on_trans [OF m1(2) m2] r(3)]]) (use r(2) esp' i in auto)
  have fr: "load32 m' ?a = Some esp'"
  proof -
    have "load32 m2 ?a = Some esp'" using changes_on_load32 [OF m2, of ?a] m1(3) Suc.prems(6) by fastforce
    moreover have "load32 m' ?a = load32 m2 ?a"
      using Suc.prems(6) esp' by (intro changes_on_load32 [OF r(3)]) auto
    ultimately show ?thesis by simp
  qed
  have cs: "cstr m' (unat esp') ?x"
    using Suc.prems(6) esp' le by (intro changes_on_cstr [OF r(3) _ c2]) auto
  have "\<exists>q. load32 m' (unat args + 4 * j) = Some q \<and> unat esp'' \<le> unat q \<and> unat q + length (ss ! j) < unat esp
    \<and> cstr m' (unat q) (ss ! j)" if j: "i \<le> j" "j < length ss" for j
  proof (cases "j = i")
    case True
    then show ?thesis using fr cs r(2) esp' le by (intro exI [of _ esp']) auto
  next
    case False
    then obtain q where "load32 m' (unat args + 4 * j) = Some q" "unat esp'' \<le> unat q"
      "unat q + length (ss ! j) < unat esp'" "cstr m' (unat q) (ss ! j)" using r(4) j by (metis Suc_leI le_neq_implies_less)
    then show ?thesis using esp' by (intro exI [of _ q]) auto
  qed
  moreover have "unat esp'' = unat esp - strs_size (drop i ss)" using r(2) esp' sz by simp
  ultimately show ?case using eval ch by blast
qed

lemma arg_table_of_entries:
  assumes "\<forall>j. 0 \<le> j \<longrightarrow> j < length ss \<longrightarrow> (\<exists>q. load32 m1 (a + 4 * j) = Some q \<and> lo \<le> unat q
      \<and> unat q + length (ss ! j) < hi \<and> cstr m1 (unat q) (ss ! j))"
    and "changes_on {a + 4 * length ss..<a + 4 * length ss + 4} m1 m" "load32 m (a + 4 * length ss) = Some 0"
    and "0 < lo" "hi \<le> a" "T \<inter> {lo..<hi} = {}" "T \<inter> {a..<a + 4 * length ss + 4} = {}"
  shows "arg_table T m a ss"
proof -
  have "\<exists>q. load32 m (a + 4 * i) = Some q \<and> q \<noteq> 0 \<and> cstr m (unat q) (ss ! i)
       \<and> {unat q..unat q + length (ss ! i)} \<inter> T = {}" if i: "i < length ss" for i
  proof -
    obtain q where q: "load32 m1 (a + 4 * i) = Some q" "lo \<le> unat q" "unat q + length (ss ! i) < hi"
      "cstr m1 (unat q) (ss ! i)" using assms(1) i by blast
    have "load32 m (a + 4 * i) = Some q" using changes_on_load32 [OF assms(2), of "a + 4 * i"] q(1) i by fastforce
    moreover have "cstr m (unat q) (ss ! i)"
      using q(3) assms(5) by (intro changes_on_cstr [OF assms(2) _ q(4)]) auto
    moreover have "{unat q..unat q + length (ss ! i)} \<subseteq> {lo..<hi}" using q(2,3) by auto
    then have "{unat q..unat q + length (ss ! i)} \<inter> T = {}" using assms(6) by blast
    moreover have "q \<noteq> 0" using q(2) assms(4) by auto
    ultimately show ?thesis by blast
  qed
  then show ?thesis using assms(3,7) by (simp add: arg_table_def inf_commute)
qed

lemma mapped_in: "{a..<a + n} \<subseteq> S \<Longrightarrow> \<forall>x \<in> S. m x \<noteq> None \<Longrightarrow> mapped m a n"
  by (auto simp: mapped_def subset_iff)

lemma changes_on_live: "changes_on T m m' \<Longrightarrow> \<forall>x \<in> S. m x \<noteq> None \<Longrightarrow> \<forall>x \<in> S. m' x \<noteq> None"
  by (auto simp: changes_on_def)

lemma store32_in:
  assumes "{a..<a + 4} \<subseteq> S" "\<forall>x \<in> S. m x \<noteq> None"
  shows "\<exists>m'. store32 m a w = Some m' \<and> changes_on {a..<a + 4} m m' \<and> changes_on S m m' \<and> load32 m' a = Some w
    \<and> (\<forall>x \<in> S. m' x \<noteq> None)"
proof -
  obtain m' where m': "store32 m a w = Some m'" "changes_on {a..<a + 4} m m'" "load32 m' a = Some w"
    by (rule store32_step [OF mapped_in [OF assms]])
  then show ?thesis using changes_on_mono [OF m'(2) assms(1)] changes_on_live [OF m'(2) assms(2)] by blast
qed

lemma unat_sub_of_nat: "n \<le> unat w \<Longrightarrow> unat (w - of_nat n :: u32) = unat w - n"
proof -
  assume n: "n \<le> unat w"
  then have "unat (of_nat n :: u32) = n" using unat_u32_less [of w] by (intro unat_of_nat_small) (rule le_less_trans)
  then show ?thesis using n by (simp add: unat_sub word_le_nat_alt)
qed

section \<open>Properties\<close>

definition stack_need :: "u8 list list \<Rightarrow> u8 list list \<Rightarrow> nat" where
  "stack_need as es = 4 * (length as + 1) + 4 * (length es + 1) + strs_size as + strs_size es + 12"

text \<open>C36. The stack a new process starts on: the number of arguments at the stack pointer, above it
  pointers to a table of the arguments and a table of the environment, equal to those of the parent;
  only the stack is written.\<close>

theorem init_task_stack_abi:
  assumes "S = {unat esp - stack_need as es..<unat esp}" "stack_need as es \<le> unat esp" "\<forall>x \<in> S. m x \<noteq> None"
    and "arg_table S m argv as" "arg_table S m envp es"
  shows "\<exists>m' esp' args envs. init_task_stack m esp argv envp = Some (m', esp')
    \<and> unat esp' = unat esp - stack_need as es \<and> changes_on S m m'
    \<and> load32 m' (unat esp') = Some (of_nat (length as))
    \<and> load32 m' (unat esp' + 4) = Some args \<and> arg_table {} m' (unat args) as
    \<and> load32 m' (unat esp' + 8) = Some envs \<and> arg_table {} m' (unat envs) es"
proof -
  let ?k = "length as" and ?l = "length es"
  define args where "args = esp - of_nat (4 * (?k + 1))"
  define envs where "envs = args - of_nat (4 * (?l + 1))"
  have need: "4 * (?k + 1) + 4 * (?l + 1) + strs_size as + strs_size es + 12 = stack_need as es"
    by (simp add: stack_need_def)
  have args: "unat args = unat esp - 4 * (?k + 1)"
    unfolding args_def using assms(2) need by (intro unat_sub_of_nat) linarith
  have envs: "unat envs = unat args - 4 * (?l + 1)"
    unfolding envs_def using assms(2) need args by (intro unat_sub_of_nat) linarith
  define lo where "lo = unat esp - stack_need as es"
  have lo: "unat envs = lo + 12 + strs_size es + strs_size as" "unat args = unat envs + 4 * ?l + 4"
    "unat esp = unat args + 4 * ?k + 4"
    using assms(2) need args envs by (simp_all add: lo_def)
  have S: "S = {lo..<unat args + 4 * ?k + 4}" using assms(1) lo(3) by (simp add: lo_def)
  obtain m1 esp1 where c1: "copy_args m envs argv args 0 ?k = Some (m1, esp1)" "unat esp1 = unat envs - strs_size as"
    "changes_on ({unat esp1..<unat envs} \<union> {unat args + 4 * 0..<unat args + 4 * ?k}) m m1"
    "\<forall>j. 0 \<le> j \<longrightarrow> j < ?k \<longrightarrow> (\<exists>q. load32 m1 (unat args + 4 * j) = Some q
        \<and> unat esp1 \<le> unat q \<and> unat q + length (as ! j) < unat envs \<and> cstr m1 (unat q) (as ! j))"
    using copy_args_ok [OF assms(4), of ?k 0 envs args] assms(3) lo S by auto
  have e1: "unat esp1 = lo + 12 + strs_size es" using c1(2) lo(1) by simp
  have s1: "changes_on S m m1" by (rule changes_on_mono [OF c1(3)]) (use S e1 lo in auto)
  obtain m2 where m2: "store32 m1 (unat args + 4 * ?k) 0 = Some m2"
    "changes_on {unat args + 4 * ?k..<unat args + 4 * ?k + 4} m1 m2" "load32 m2 (unat args + 4 * ?k) = Some 0"
    using store32_in [OF _ changes_on_live [OF s1 assms(3)], of "unat args + 4 * ?k" 0] S lo by auto
  have s2: "changes_on S m m2"
    by (rule changes_on_mono [OF changes_on_trans [OF s1 m2(2)]]) (use S lo in auto)
  have ta: "arg_table ({lo..<unat esp1} \<union> {unat envs..<unat args}) m2 (unat args) as"
    by (rule arg_table_of_entries [OF c1(4) m2(2,3)]) (use e1 lo in auto)
  have te: "arg_table S m2 envp es" using arg_table_changes [OF assms(5) s2] by simp
  obtain m3 esp2 where c2: "copy_args m2 esp1 envp envs 0 ?l = Some (m3, esp2)" "unat esp2 = unat esp1 - strs_size es"
    "changes_on ({unat esp2..<unat esp1} \<union> {unat envs + 4 * 0..<unat envs + 4 * ?l}) m2 m3"
    "\<forall>j. 0 \<le> j \<longrightarrow> j < ?l \<longrightarrow> (\<exists>q. load32 m3 (unat envs + 4 * j) = Some q
        \<and> unat esp2 \<le> unat q \<and> unat q + length (es ! j) < unat esp1 \<and> cstr m3 (unat q) (es ! j))"
    using copy_args_ok [OF te, of ?l 0 esp1 envs] changes_on_live [OF s2 assms(3)] lo e1 S by auto
  have e2: "unat esp2 = lo + 12" using c2(2) e1 by simp
  have s3: "changes_on S m m3"
    by (rule changes_on_mono [OF changes_on_trans [OF s2 c2(3)]]) (use S lo e1 e2 in auto)
  obtain m4 where m4: "store32 m3 (unat envs + 4 * ?l) 0 = Some m4"
    "changes_on {unat envs + 4 * ?l..<unat envs + 4 * ?l + 4} m3 m4" "load32 m4 (unat envs + 4 * ?l) = Some 0"
    using store32_in [OF _ changes_on_live [OF s3 assms(3)], of "unat envs + 4 * ?l" 0] S lo by auto
  have s4: "changes_on S m m4"
    by (rule changes_on_mono [OF changes_on_trans [OF s3 m4(2)]]) (use S lo in auto)
  have ten: "arg_table {lo..<lo + 12} m4 (unat envs) es"
    by (rule arg_table_of_entries [OF c2(4) m4(2,3)]) (use e1 e2 lo in auto)
  have ta4: "arg_table {lo..<lo + 12} m4 (unat args) as"
  proof (rule arg_table_mono)
    show "arg_table ({lo..<unat esp1} \<union> {unat envs..<unat args}) m4 (unat args) as"
      by (rule arg_table_changes [OF ta changes_on_trans [OF c2(3) m4(2)]]) (use e1 e2 lo in auto)
  qed (use e1 in auto)
  have live: "\<forall>x \<in> S. m4 x \<noteq> None" by (rule changes_on_live [OF s4 assms(3)])
  define esp3 where "esp3 = esp2 - 4"
  define esp4 where "esp4 = esp3 - 4"
  define esp5 where "esp5 = esp4 - 4"
  have u: "unat esp3 = lo + 8" "unat esp4 = lo + 4" "unat esp5 = lo"
    using e2 unat_sub_of_nat [of 4 esp2] unat_sub_of_nat [of 4 esp3] unat_sub_of_nat [of 4 esp4]
    by (simp_all add: esp3_def esp4_def esp5_def)
  have sub: "{lo..<lo + 4} \<subseteq> S" "{lo + 4..<lo + 4 + 4} \<subseteq> S" "{lo + 8..<lo + 8 + 4} \<subseteq> S" using S lo by auto
  obtain m5 where m5: "store32 m4 (lo + 8) envs = Some m5" "changes_on {lo + 8..<lo + 8 + 4} m4 m5"
    "load32 m5 (lo + 8) = Some envs" "\<forall>x \<in> S. m5 x \<noteq> None" using store32_in [OF sub(3) live] by blast
  obtain m6 where m6: "store32 m5 (lo + 4) args = Some m6" "changes_on {lo + 4..<lo + 4 + 4} m5 m6"
    "load32 m6 (lo + 4) = Some args" "\<forall>x \<in> S. m6 x \<noteq> None" using store32_in [OF sub(2) m5(4)] by blast
  obtain m7 where m7: "store32 m6 lo (of_nat ?k) = Some m7" "changes_on {lo..<lo + 4} m6 m7"
    "load32 m7 lo = Some (of_nat ?k)" using store32_in [OF sub(1) m6(4)] by blast
  have l: "load32 m7 (lo + 8) = Some envs" "load32 m7 (lo + 4) = Some args"
    using changes_on_load32 [OF m6(2), of "lo + 8"] changes_on_load32 [OF m7(2), of "lo + 8"]
      changes_on_load32 [OF m7(2), of "lo + 4"] m5(3) m6(3) by auto
  have c: "changes_on {lo..<lo + 12} m4 m7"
    by (rule changes_on_mono [OF changes_on_trans [OF changes_on_trans [OF m5(2) m6(2)] m7(2)]]) auto
  have "arg_table {} m7 (unat args) as" "arg_table {} m7 (unat envs) es"
    using arg_table_mono [OF arg_table_changes [OF ta4 c subset_refl]]
      arg_table_mono [OF arg_table_changes [OF ten c subset_refl]] by blast+
  moreover have "changes_on S m m7"
    by (rule changes_on_mono [OF changes_on_trans [OF s4 c]]) (use S lo in auto)
  moreover have "init_task_stack m esp argv envp = Some (m7, esp5)"
  proof -
    have "count_args m argv 0 = Some ?k" "count_args m envp 0 = Some ?l"
      using count_args_from [OF assms(4)] count_args_from [OF assms(5)] by auto
    then show ?thesis
      by (simp only: init_task_stack_def Option.bind.simps Let_def args_def [symmetric] envs_def [symmetric] prod.case
        c1(1) m2(1) c2(1) m4(1) esp3_def [symmetric] esp4_def [symmetric] esp5_def [symmetric] u m5(1) m6(1) m7(1))
  qed
  ultimately show ?thesis using l m7(3) u(3) by (intro exI [of _ m7] exI [of _ esp5] exI [of _ args] exI [of _ envs]) (simp add: lo_def)
qed

text \<open>A parent with the argument \<open>a\<close> and an empty environment.\<close>

definition parent_mem :: memory where
  "parent_mem x = (if x < 300 then Some (if x = 200 then 240 else if x = 240 then 97 else 0) else None)"

lemma init_task_stack_abi_witness:
  "\<exists>m' esp'. init_task_stack parent_mem 40 200 220 = Some (m', esp') \<and> load32 m' (unat esp') = Some 1"
proof -
  have l: "load32 parent_mem 200 = Some 240" "load32 parent_mem 204 = Some 0" "load32 parent_mem 220 = Some 0"
    by code_simp+
  have "arg_table {14..<40} parent_mem 200 [[97]]" "arg_table {14..<40} parent_mem 220 []"
    using l by (auto simp: arg_table_def) (simp add: parent_mem_def)+
  then show ?thesis
    using init_task_stack_abi [of "{14..<40}" 40 "[[97]]" "[]" parent_mem 200 220]
    by (auto simp: stack_need_def strs_size_def parent_mem_def)
qed

end
