(* ===== verification/Tasks.thy ===== *)
theory Tasks
  imports Sched TaskStack
begin

text \<open>
  \<^verbatim>\<open>kernel/base/tasking/task.c\<close> and \<^verbatim>\<open>kernel/base/sysinfo.c\<close>: creating and ending tasks, waiting for
  them, the heap break and the process information call. \<open>junk\<close> is what a new page table holds
  before it is written. \<open>sched\<close> is what other tasks do between giving up the processor and getting it
  back. Freeing a task takes it and its list node out of the heaps.
\<close>

section \<open>Creating tasks\<close>

text \<open>A task structure after \<open>memset\<close> has cleared it.\<close>

definition zero_dlist :: "'a dlist" where
  "zero_dlist = \<lparr>dl_entries = [], dl_used = 0, dl_alloced = 0, dl_block_size = 0, dl_blocks_alloced = 0\<rparr>"

definition zero_task :: task where
  "zero_task = \<lparr>t_state = TASK_STATE_RUNNING, t_eip = 0, t_esp = 0, t_ebp = 0, t_pid = 0, t_group = 0,
     t_parent = 0, t_sleep = 0, t_stack = 0, t_pagedir = 0, t_memmaps = 0, t_sem = 0, t_mainmap = 0, t_waiting = 0,
     t_end_status = 0, t_pobjects = zero_dlist, t_froot = 0, t_curdir = 0\<rparr>"

text \<open>The root and current directory: a node of its own with the parent's contents.\<close>

definition inherit_node :: "nat \<Rightarrow> 'd vfs \<Rightarrow> ('d vfs \<times> nat) option" where
  "inherit_node p v =
     (if p \<noteq> 0
      then do { n \<leftarrow> vs_nodes v p;
                let (v1, a) = vfs_new v;
                Some (v1\<lparr>vs_nodes := (vs_nodes v1)(a \<mapsto> n)\<rparr>, a) }
      else Some (v, 0))"

text \<open>\<open>fds[i]\<close>, or \<open>i\<close> when there is no such array.\<close>

definition fd_source :: "int list option \<Rightarrow> nat \<Rightarrow> int option" where
  "fd_source fds i = (case fds of Some l \<Rightarrow> read_at l i | None \<Rightarrow> Some (int i))"

fun inherit_fds ::
  "'d pobj_ctors \<Rightarrow> file_pobj dlist \<Rightarrow> int list option \<Rightarrow> nat list \<Rightarrow> 'd vfs \<Rightarrow> file_pobj dlist \<Rightarrow>
   ('d vfs \<times> file_pobj dlist) option" where
  "inherit_fds ctors objs fds [] v l = Some (v, l)"
| "inherit_fds ctors objs fds (i # is) v l =
     do { fd \<leftarrow> fd_source fds i;
          nfobj \<leftarrow> dlist_get objs fd;
          (case nfobj of
             None \<Rightarrow> Some (v, l)
           | Some obj \<Rightarrow> do { (v1, nftemp) \<leftarrow> pobj_copy ctors v obj;
                            (l1, _) \<leftarrow> dlist_add l (Some nftemp);
                            inherit_fds ctors objs fds is v1 l1 }) }"

definition task_stack_addr :: "u32 \<Rightarrow> u32" where
  "task_stack_addr pid = 0xa1000000 + pid * 0x1000"

definition init_task :: "'d pobj_ctors \<Rightarrow> u32 list \<Rightarrow> int list option \<Rightarrow> nat \<Rightarrow> 'd tasking \<Rightarrow> 'd tasking option" where
  "init_task ctors junk fds a s =
     do { (_, cur) \<leftarrow> current_task s;
          task \<leftarrow> tk_tasks s a;
          let pid = tk_pidcount s + 1;
          let dir = pg_current_dir (tk_paging s);
          (pg, _) \<leftarrow> map_page junk (tk_paging s) dir (task_stack_addr pid) (PAGE_PRESENT OR PAGE_WRITEABLE OR PAGE_USER);
          (v1, froot) \<leftarrow> inherit_node (t_froot cur) (tk_vfs s);
          (v2, curdir) \<leftarrow> inherit_node (t_curdir cur) v1;
          (v3, objs) \<leftarrow> inherit_fds ctors (t_pobjects cur) fds [0, 1, 2] v2 (dlist_create 0 0);
          Some (set_task a
            (task\<lparr>t_pid := pid, t_group := t_group cur, t_state := TASK_STATE_RUNNING, t_parent := t_pid cur,
                  t_pagedir := dir, t_stack := task_stack_addr pid, t_esp := task_stack_addr pid + 0x1000,
                  t_ebp := 0, t_pobjects := objs, t_froot := froot, t_curdir := curdir\<rparr>)
            (s\<lparr>tk_pidcount := pid, tk_paging := pg, tk_vfs := v3\<rparr>)) }"

definition new_task :: "'d tasking \<Rightarrow> 'd tasking \<times> nat" where
  "new_task s = (let (s1, a) = tk_kmalloc s in (set_task a zero_task s1, a))"

definition create_thread :: "'d pobj_ctors \<Rightarrow> u32 list \<Rightarrow> u32 \<Rightarrow> 'd tasking \<Rightarrow> ('d tasking \<times> u32) option" where
  "create_thread ctors junk start s =
     do { (_, cur) \<leftarrow> current_task s;
          let (s1, a) = new_task (block_tasks s);
          s2 \<leftarrow> init_task ctors junk None a s1;
          t \<leftarrow> tk_tasks s2 a;
          let t' = t\<lparr>t_memmaps := t_memmaps cur, t_mainmap := t_mainmap cur, t_eip := start\<rparr>;
          (s3, _) \<leftarrow> add_task (set_task a t' s2) a;
          Some (unblock_tasks s3, t_pid t') }"

text \<open>The new process refers to every map of its list, and its main map is the last of them.\<close>

definition take_map :: "nat \<Rightarrow> (nat \<Rightarrow> memmap option) \<Rightarrow> (nat \<Rightarrow> memmap option) option" where
  "take_map a maps = do { m \<leftarrow> maps a; Some (maps(a \<mapsto> m\<lparr>mm_references := mm_references m + 1\<rparr>)) }"

fun take_maps :: "nat list \<Rightarrow> (nat \<Rightarrow> memmap option) \<Rightarrow> (nat \<Rightarrow> memmap option) option" where
  "take_maps [] maps = Some maps"
| "take_maps (a # as) maps = do { maps' \<leftarrow> take_map a maps; take_maps as maps' }"

definition process_maps :: "nat \<Rightarrow> task \<Rightarrow> 'd tasking \<Rightarrow> ('d tasking \<times> task) option" where
  "process_maps mp t s =
     (if mp \<noteq> 0
      then do { as \<leftarrow> tk_maplists s mp;
                maps \<leftarrow> take_maps as (tk_maps s);
                if as = [] then None
                else Some (s\<lparr>tk_maps := maps\<rparr>, t\<lparr>t_memmaps := mp, t_mainmap := last as\<rparr>) }
      else (let (s1, l) = tk_kmalloc s
            in Some (s1\<lparr>tk_maplists := (tk_maplists s1)(l \<mapsto> [])\<rparr>, t\<lparr>t_memmaps := l\<rparr>)))"

text \<open>\<open>m\<close> is the memory of the address space that is switched to.\<close>

definition create_process ::
  "'d pobj_ctors \<Rightarrow> u32 list \<Rightarrow> u32 \<Rightarrow> nat \<Rightarrow> nat \<Rightarrow> nat \<Rightarrow> int list option \<Rightarrow> memory \<Rightarrow> 'd tasking \<Rightarrow>
   ('d tasking \<times> memory \<times> u32) option" where
  "create_process ctors junk start argv envp mp fds m s =
     (let (s1, a) = new_task (block_tasks s)
      in do { s2 \<leftarrow> init_task ctors junk fds a s1;
              t \<leftarrow> tk_tasks s2 a;
              (s3, t1) \<leftarrow> process_maps mp (t\<lparr>t_eip := start\<rparr>) s2;
              (m', esp) \<leftarrow> init_task_stack m (t_esp t1) argv envp;
              let t2 = t1\<lparr>t_eip := start, t_ebp := t_esp t1, t_esp := esp\<rparr>;
              (s4, _) \<leftarrow> add_task (set_task a t2 s3) a;
              Some (unblock_tasks s4, m', t_pid t2) })"

text \<open>\<open>stk\<close> is the block \<open>kmalloca( 4096 )\<close> returned, \<open>idle\<close> the address of \<open>idle_task\<close>.\<close>

definition init_tasking :: "'d pobj_ctors \<Rightarrow> u32 list \<Rightarrow> u32 \<Rightarrow> u32 \<Rightarrow> 'd tasking \<Rightarrow> 'd tasking option" where
  "init_tasking ctors junk stk idle s =
     (let (s1, a) = new_task s;
          (s2, temp) = tk_kmalloc s1
      in do { (h, node) \<leftarrow> list_add_data_node (tk_nodes s2) temp (tk_list s2) a;
              t \<leftarrow> tk_tasks s2 a;
              let t' = t\<lparr>t_pagedir := pg_current_dir (tk_paging s2), t_pobjects := dlist_create 0 0, t_memmaps := 0,
                         t_mainmap := 0, t_stack := stk + 0xffc\<rparr>;
              let s3 = set_task a t' (s2\<lparr>tk_nodes := h, tk_list := node, tk_current := node, tk_initialized := True\<rparr>);
              (s4, _) \<leftarrow> create_thread ctors junk idle s3;
              Some s4 })"

section \<open>Ending tasks\<close>

fun free_pobjs :: "'d pobj_dtors \<Rightarrow> file_pobj dlist \<Rightarrow> nat list \<Rightarrow> 'd vfs \<Rightarrow> 'd vfs option" where
  "free_pobjs dtors l [] v = Some v"
| "free_pobjs dtors l (i # is) v =
     do { objptr \<leftarrow> dlist_get l (int i);
          v' \<leftarrow> (case objptr of None \<Rightarrow> Some v | Some obj \<Rightarrow> pobj_free dtors v obj);
          free_pobjs dtors l is v' }"

text \<open>Up to and including the marking of the task; \<open>None\<close> inside is no such task.\<close>

definition mark_ended :: "u32 \<Rightarrow> 'd tasking \<Rightarrow> ('d tasking \<times> (nat \<times> nat \<times> task) option) option" where
  "mark_ended pid s =
     do { node \<leftarrow> get_task_node_by_pid s pid;
          if node = 0 then Some (s, None)
          else do { n \<leftarrow> tk_nodes s node;
                    task \<leftarrow> tk_tasks s (ln_data n);
                    let task' = task\<lparr>t_state := TASK_STATE_ENDED\<rparr>;
                    Some (set_task (ln_data n) task' s, Some (node, ln_data n, task')) } }"

text \<open>What is left once nobody waits: the node leaves the list, the objects and the task are freed.\<close>

definition reap_task :: "'d pobj_dtors \<Rightarrow> u32 \<Rightarrow> nat \<Rightarrow> nat \<Rightarrow> 'd tasking \<Rightarrow> ('d tasking \<times> int) option" where
  "reap_task dtors here node a s2 =
     (let s3 = block_tasks s2
      in do { (h, _) \<leftarrow> list_remove_node (tk_nodes s3) node;
              t \<leftarrow> tk_tasks s3 a;
              v \<leftarrow> free_pobjs dtors (t_pobjects t) [0..<dlist_allocated (t_pobjects t)] (tk_vfs s3);
              let s4 = unblock_tasks (s3\<lparr>tk_nodes := h, tk_vfs := v, tk_tasks := (tk_tasks s3)(a := None)\<rparr>);
              s5 \<leftarrow> rrschedule_call here s4;
              Some (s5, 0) })"

definition remove_task_by_pid ::
  "'d pobj_dtors \<Rightarrow> ('d tasking \<Rightarrow> 'd tasking option) \<Rightarrow> u32 \<Rightarrow> u32 \<Rightarrow> 'd tasking \<Rightarrow> ('d tasking \<times> int) option" where
  "remove_task_by_pid dtors sched here pid s =
     do { (s1, r) \<leftarrow> mark_ended pid s;
          (case r of
             None \<Rightarrow> Some (s1, - 1)
           | Some (node, a, task) \<Rightarrow> do {
               s2 \<leftarrow> (if t_waiting task \<noteq> 0 then do { s' \<leftarrow> rrschedule_call here s1; sched s' } else Some s1);
               reap_task dtors here node a s2
             }) }"

definition exit_process ::
  "'d pobj_dtors \<Rightarrow> ('d tasking \<Rightarrow> 'd tasking option) \<Rightarrow> u32 \<Rightarrow> int \<Rightarrow> 'd tasking \<Rightarrow> 'd tasking option" where
  "exit_process dtors sched here status s =
     do { (a, cur) \<leftarrow> current_task s;
          s1 \<leftarrow> (if t_pid cur \<noteq> 0
                then do { (s', _) \<leftarrow> remove_task_by_pid dtors sched here (t_pid cur)
                            (set_task a (cur\<lparr>t_end_status := status\<rparr>) s);
                          Some s' }
                else Some s);
          rrschedule_call here s1 }"

definition exit_thread ::
  "'d pobj_dtors \<Rightarrow> ('d tasking \<Rightarrow> 'd tasking option) \<Rightarrow> u32 \<Rightarrow> 'd tasking \<Rightarrow> 'd tasking option" where
  "exit_thread dtors sched here s =
     do { pid \<leftarrow> get_current_pid s;
          s1 \<leftarrow> (if pid \<noteq> 0
                then do { (s', _) \<leftarrow> remove_task_by_pid dtors sched here pid s; Some s' }
                else Some s);
          rrschedule_call here s1 }"

section \<open>Waiting for a task\<close>

definition waitpid_begin :: "u32 \<Rightarrow> 'd tasking \<Rightarrow> ('d tasking \<times> nat option) option" where
  "waitpid_begin pid s =
     do { node \<leftarrow> get_task_node_by_pid s pid;
          if node = 0 then Some (s, None)
          else do { n \<leftarrow> tk_nodes s node;
                    target \<leftarrow> tk_tasks s (ln_data n);
                    Some (set_task (ln_data n) (target\<lparr>t_waiting := t_waiting target + 1\<rparr>) s, Some (ln_data n)) } }"

text \<open>The loop: as long as the target has not ended, the scheduler is called. \<open>Some\<close> at its end is
  the status.\<close>

partial_function (option) waitpid_loop ::
  "('d tasking \<Rightarrow> 'd tasking option) \<Rightarrow> u32 \<Rightarrow> nat \<Rightarrow> 'd tasking \<Rightarrow> ('d tasking \<times> int) option" where
  "waitpid_loop sched here a s =
     do { target \<leftarrow> tk_tasks s a;
          if t_state target \<noteq> TASK_STATE_ENDED
          then do { s1 \<leftarrow> rrschedule_call here s; s2 \<leftarrow> sched s1; waitpid_loop sched here a s2 }
          else Some (set_task a (target\<lparr>t_waiting := t_waiting target - 1\<rparr>) s, t_end_status target) }"

text \<open>The result and the status, which is only written when there is such a task.\<close>

definition waitpid ::
  "('d tasking \<Rightarrow> 'd tasking option) \<Rightarrow> u32 \<Rightarrow> u32 \<Rightarrow> 'd tasking \<Rightarrow> ('d tasking \<times> u32 \<times> int option) option" where
  "waitpid sched here pid s =
     do { (s1, r) \<leftarrow> waitpid_begin pid s;
          (case r of
             None \<Rightarrow> Some (s1, - 1, None)
           | Some a \<Rightarrow> do { (s2, status) \<leftarrow> waitpid_loop sched here a s1; Some (s2, pid, Some status) }) }"

section \<open>Break and process information\<close>

definition sbrk :: "u32 \<Rightarrow> 'd tasking \<Rightarrow> ('d tasking \<times> u32) option" where
  "sbrk increment s =
     do { (_, cur) \<leftarrow> current_task s;
          m \<leftarrow> tk_maps s (t_mainmap cur);
          Some (s\<lparr>tk_maps := (tk_maps s)(t_mainmap cur \<mapsto> m\<lparr>mm_end := mm_end m + increment\<rparr>)\<rparr>, mm_end m) }"

record kinfo =
  ki_version :: u32
  ki_page_size :: u32
  ki_free_pages :: u32

definition get_kernel_info :: "'d tasking \<Rightarrow> kinfo" where
  "get_kernel_info s = \<lparr>ki_version = 1, ki_page_size = PAGE_SIZE, ki_free_pages = get_nfree_pages (tk_paging s)\<rparr>"

partial_function (option) nth_task_from :: "'d tasking \<Rightarrow> nat \<Rightarrow> nat \<Rightarrow> nat \<Rightarrow> (nat \<times> nat) option" where
  "nth_task_from s tasklist i key =
     (if tasklist \<noteq> 0 \<and> i < key
      then do { n \<leftarrow> tk_nodes s tasklist; nth_task_from s (ln_next n) (Suc i) key }
      else Some (tasklist, i))"

definition get_process_info :: "u32 \<Rightarrow> 'd tasking \<Rightarrow> (int \<times> (u32 \<times> task_state) option) option" where
  "get_process_info key s =
     do { (tasklist, i) \<leftarrow> nth_task_from s (get_task_list s) 0 (unat key);
          if i = unat key \<and> tasklist \<noteq> 0
          then do { n \<leftarrow> tk_nodes s tasklist;
                    t \<leftarrow> tk_tasks s (ln_data n);
                    Some (1, Some (t_pid t, t_state t)) }
          else Some (0, None) }"

datatype sysinfo_buf = NoInfo | KernelInfo kinfo | ProcessInfo u32 task_state

definition sysinfo :: "u32 \<Rightarrow> u32 \<Rightarrow> 'd tasking \<Rightarrow> (int \<times> sysinfo_buf) option" where
  "sysinfo type key s =
     (if type = 0 then Some (0, NoInfo)
      else if type = 1 then Some (1, KernelInfo (get_kernel_info s))
      else if type = 2
      then do { (r, b) \<leftarrow> get_process_info key s;
                Some (r, case b of None \<Rightarrow> NoInfo | Some (pid, st) \<Rightarrow> ProcessInfo pid st) }
      else Some (- 1, NoInfo))"

declare waitpid_loop.simps [code] nth_task_from.simps [code]

section \<open>Finding a task\<close>

definition ring_pid :: "'d tasking \<Rightarrow> (nat \<times> int \<times> nat) \<Rightarrow> u32 option" where
  "ring_pid s x = map_option t_pid (tk_tasks s (snd (snd x)))"

lemma find_pid_from_ok:
  "dseg (tk_nodes s) p prv xs 0 lst \<Longrightarrow> \<forall>x \<in> set xs. tk_tasks s (snd (snd x)) \<noteq> None \<Longrightarrow>
   find_pid_from s p pid = Some (case find (\<lambda>x. ring_pid s x = Some pid) xs of None \<Rightarrow> 0 | Some x \<Rightarrow> fst x)"
proof (induction xs arbitrary: p prv)
  case Nil
  then show ?case by (subst find_pid_from.simps) simp
next
  case (Cons x xs)
  obtain a w d where x: "x = (a, w, d)" by (cases x)
  then obtain n where n: "p = a" "a \<noteq> 0" "tk_nodes s a = Some n" "ln_data n = d" "dseg (tk_nodes s) (ln_next n) a xs 0 lst"
    using Cons.prems by auto
  obtain t where t: "tk_tasks s d = Some t" using Cons.prems(2) x by auto
  show ?case using Cons.IH [OF n(5)] Cons.prems(2) n t x
    by (subst find_pid_from.simps) (simp add: ring_pid_def)
qed

definition pids_distinct :: "'d tasking \<Rightarrow> (nat \<times> int \<times> nat) list \<Rightarrow> bool" where
  "pids_distinct s xs \<longleftrightarrow> distinct (map (ring_pid s) xs)"

lemma find_unique:
  "distinct (map f xs) \<Longrightarrow> x \<in> set xs \<Longrightarrow> find (\<lambda>y. f y = f x) xs = Some x"
  by (induction xs) auto

lemma get_task_node_by_pid_ok:
  assumes "task_ring s xs" "pids_distinct s xs" "x \<in> set xs" "ring_pid s x = Some pid"
  shows "get_task_node_by_pid s pid = Some (fst x)"
proof -
  obtain lst where "dseg (tk_nodes s) (tk_list s) 0 xs 0 lst" using assms(1) by (auto simp: task_ring_def)
  then have "get_task_node_by_pid s pid = Some (case find (\<lambda>x. ring_pid s x = Some pid) xs of None \<Rightarrow> 0 | Some x \<Rightarrow> fst x)"
    using find_pid_from_ok assms(1) unfolding get_task_node_by_pid_def get_task_list_def task_ring_def by blast
  moreover have "find (\<lambda>y. ring_pid s y = Some pid) xs = Some x"
    using find_unique [of "ring_pid s" xs x] assms(2-4) by (simp add: pids_distinct_def)
  ultimately show ?thesis by simp
qed

lemma ring_in: "xs \<noteq> [] \<Longrightarrow> \<exists>v. (ring_node xs i, v, ring_task xs i) \<in> set xs"
  unfolding ring_node_def ring_task_def
  by (intro exI [of _ "fst (snd (xs ! (i mod length xs)))"]) (metis mod_less_divisor length_greater_0_conv nth_mem prod.collapse)

lemma pids_distinct_set_task:
  "tk_tasks s a = Some t \<Longrightarrow> t_pid t' = t_pid t \<Longrightarrow> ring_pid (set_task a t' s) = ring_pid s"
  by (auto simp: ring_pid_def fun_eq_iff)

text \<open>Marking the task with the given pid.\<close>

lemma mark_ended_ok:
  assumes "task_ring s xs" "pids_distinct s xs" "(node, v, a) \<in> set xs" "tk_tasks s a = Some t"
  shows "mark_ended (t_pid t) s = Some (set_task a (t\<lparr>t_state := TASK_STATE_ENDED\<rparr>) s,
    Some (node, a, t\<lparr>t_state := TASK_STATE_ENDED\<rparr>))"
proof -
  have g: "get_task_node_by_pid s (t_pid t) = Some node"
    using get_task_node_by_pid_ok [OF assms(1-3)] assms(4) by (simp add: ring_pid_def)
  obtain lst where d: "dseg (tk_nodes s) (tk_list s) 0 xs 0 lst" using assms(1) by (auto simp: task_ring_def)
  obtain k where "k < length xs" "xs ! k = (node, v, a)" using assms(3) by (auto simp: in_set_conv_nth)
  then obtain n where "tk_nodes s node = Some n" "ln_data n = a" "node \<noteq> 0" using dseg_nth [OF d, of k] by auto
  then show ?thesis using g assms(4) by (simp add: mark_ended_def Let_def)
qed

lemma list_remove_node_freed: "list_remove_node h node = Some (h', r) \<Longrightarrow> node \<noteq> 0 \<Longrightarrow> h' node = None"
  unfolding list_remove_node_def if_P by (elim bind_SomeE case_prod_SomeE) fastforce

lemma ring_current:
  assumes "task_ring s xs" "xs \<noteq> []" "tk_current s = ring_node xs i" "tk_tasks s (ring_task xs i) = Some t"
  shows "current_task s = Some (ring_task xs i, t)"
proof -
  obtain n where "tk_nodes s (tk_current s) = Some n" "ln_data n = ring_task xs i" "tk_current s \<noteq> 0"
    using ring_succ [OF assms(1,2), of i] unfolding assms(3) by blast
  then show ?thesis using assms(4) by (simp add: current_task_def get_current_task_def get_current_task_node_def)
qed

text \<open>Changing a task in ways that do not matter to the scheduler, or that end it.\<close>

lemma sems_ok_set_task: "sems_ok s \<Longrightarrow> t_state t' \<noteq> TASK_STATE_WAITING \<Longrightarrow> sems_ok (set_task a t' s)"
  by (auto simp: sems_ok_def)

lemma ball_ball_subset: "P \<longrightarrow> (\<forall>d \<in> D. \<forall>e \<in> D. Q d e) \<Longrightarrow> E \<subseteq> D \<Longrightarrow> P \<longrightarrow> (\<forall>d \<in> E. \<forall>e \<in> E. Q d e)"
  by blast

lemma dirs_ok_set_task:
  "dirs_ok s \<Longrightarrow> tk_tasks s a = Some t \<Longrightarrow> t_pagedir t' = t_pagedir t \<Longrightarrow> dirs_ok (set_task a t' s)"
proof -
  assume s: "dirs_ok s" "tk_tasks s a = Some t" "t_pagedir t' = t_pagedir t"
  have "{t_pagedir u |u. u \<in> ran (tk_tasks (set_task a t' s))} \<subseteq> {t_pagedir u |u. u \<in> ran (tk_tasks s)}"
  proof safe
    fix u
    assume "u \<in> ran (tk_tasks (set_task a t' s))"
    then have "u = t' \<or> u \<in> ran (tk_tasks s)" by (auto simp: ran_def split: if_splits)
    moreover have "t \<in> ran (tk_tasks s)" using s(2) by (rule ranI)
    ultimately show "\<exists>w. t_pagedir u = t_pagedir w \<and> w \<in> ran (tk_tasks s)" using s(3) by blast
  qed
  then have "insert (pg_current_dir (tk_paging s)) {t_pagedir u |u. u \<in> ran (tk_tasks (set_task a t' s))}
      \<subseteq> insert (pg_current_dir (tk_paging s)) {t_pagedir u |u. u \<in> ran (tk_tasks s)}" by blast
  from ball_ball_subset [OF s(1) [unfolded dirs_ok_def Let_def] this]
  show "dirs_ok (set_task a t' s)" by (simp only: dirs_ok_def Let_def set_task_simps)
qed

lemma task_ready_set_task_other: "b \<noteq> a \<Longrightarrow> task_ready (set_task a t s) b = task_ready s b"
proof -
  have "rr_skip (set_task a t s) u = rr_skip s u" for u by (rule rr_skip_cong) simp_all
  then show "b \<noteq> a \<Longrightarrow> ?thesis" by (simp add: task_ready_def)
qed

lemma task_ready_ended:
  "tk_tasks s a = Some t \<Longrightarrow> t_state t = TASK_STATE_ENDED \<Longrightarrow> t_waiting t \<noteq> 0 \<Longrightarrow> task_ready s a = Some False"
  by (simp add: task_ready_def rr_skip_def)

section \<open>Properties\<close>

text \<open>C37. A task that ends while nobody waits for it frees the list node it is running on and then
  calls the scheduler, which starts from that node: the call reads freed memory.\<close>

theorem exit_process_reads_freed:
  assumes "task_ring s xs" "pids_distinct s xs" "i < length xs" "tk_current s = ring_node xs i"
    and "tk_tasks s (ring_task xs i) = Some t" "t_pid t \<noteq> 0" "t_waiting t = 0"
  shows "exit_process dtors sched here status s = None"
proof -
  have ne: "xs \<noteq> []" using assms(3) by auto
  let ?a = "ring_task xs i" and ?n = "ring_node xs i"
  let ?t = "t\<lparr>t_end_status := status\<rparr>"
  let ?s = "set_task ?a ?t s"
  obtain v where v: "(?n, v, ?a) \<in> set xs" using ring_in [OF ne] by blast
  have c: "current_task s = Some (?a, t)" using ring_current [OF assms(1) ne assms(4,5)] .
  have "pids_distinct ?s xs" using assms(2) pids_distinct_set_task [OF assms(5), of ?t] by (simp add: pids_distinct_def)
  then have m: "mark_ended (t_pid t) ?s = Some (set_task ?a (?t\<lparr>t_state := TASK_STATE_ENDED\<rparr>) ?s,
    Some (?n, ?a, ?t\<lparr>t_state := TASK_STATE_ENDED\<rparr>))"
    using mark_ended_ok [OF task_ring_set_task [OF assms(1)] _ v, of ?a ?t ?t] by simp
  have nz: "?n \<noteq> 0" using ring_succ [OF assms(1) ne] by blast
  have dead: "rrschedule_call here s' = None" if "tk_current s' = ?n" "tk_nodes s' ?n = None" for s' :: "'a tasking"
    using that nz by (simp add: rrschedule_call_def get_current_task_node_def get_current_task_def)
  have "remove_task_by_pid dtors sched here (t_pid t) ?s = None"
  proof (cases "list_remove_node (tk_nodes s) ?n")
    case None
    then show ?thesis using m assms(7) by (simp add: remove_task_by_pid_def reap_task_def block_tasks_def)
  next
    case (Some r)
    obtain h r' where r: "r = (h, r')" by (cases r)
    then have "h ?n = None" using list_remove_node_freed Some nz by blast
    then show ?thesis using m assms(4,7) Some r dead
      by (auto simp: remove_task_by_pid_def reap_task_def block_tasks_def unblock_tasks_def Let_def bind_eq_None_conv)
  qed
  then show ?thesis using c assms(6) by (simp add: exit_process_def)
qed

lemma exit_process_reads_freed_witness:
  "exit_process (\<lambda>_. None) Some 0 5 (two_tasks\<lparr>tk_current := 20\<rparr>) = None"
  by (rule exit_process_reads_freed [where xs = two_ring and i = 1 and t = "idle_task_struct\<lparr>t_pid := 1\<rparr>"])
    (use two_ring_ok in \<open>auto simp: two_ring_def ring_node_def ring_task_def pids_distinct_def ring_pid_def
      two_tasks_def idle_task_struct_def\<close>)

text \<open>C38. Exit and wait: a task that ends while others wait for it stays in the system, marked as
  ended with its status, and gives up the processor; it does not run again while a waiter is left,
  and a waiter's call returns that status.\<close>

theorem exit_process_waits:
  assumes "task_ring (s :: 'd tasking) xs" "pids_distinct s xs" "sems_ok s" "dirs_ok s" "i < length xs" "tk_current s = ring_node xs i"
    and "tk_tasks s (ring_task xs i) = Some t" "t_pid t \<noteq> 0" "t_waiting t \<noteq> 0"
    and "j < length xs" "ring_task xs j \<noteq> ring_task xs i" "task_ready s (ring_task xs j) = Some True"
  shows "\<exists>s1 rest t1. (\<forall>sched. exit_process dtors sched here status s = do { s' \<leftarrow> sched s1; rest s' })
    \<and> task_ring s1 xs \<and> get_current_task s1 \<noteq> Some (ring_task xs i)
    \<and> tk_tasks s1 (ring_task xs i) = Some t1 \<and> t_waiting t1 = t_waiting t
    \<and> (\<forall>s2 :: 'd tasking. tk_tasks s2 (ring_task xs i) = Some t1 \<longrightarrow> task_ready s2 (ring_task xs i) = Some False
         \<and> (\<forall>sched here'. waitpid_loop sched here' (ring_task xs i) s2
              = Some (set_task (ring_task xs i) (t1\<lparr>t_waiting := t_waiting t1 - 1\<rparr>) s2, status)))"
proof -
  have ne: "xs \<noteq> []" using assms(5) by auto
  let ?a = "ring_task xs i" and ?n = "ring_node xs i"
  let ?t = "t\<lparr>t_end_status := status\<rparr>"
  let ?e = "?t\<lparr>t_state := TASK_STATE_ENDED\<rparr>"
  let ?s = "set_task ?a ?t s"
  let ?sE = "set_task ?a ?e ?s"
  obtain v where v: "(?n, v, ?a) \<in> set xs" using ring_in [OF ne] by blast
  have c: "current_task s = Some (?a, t)" using ring_current [OF assms(1) ne assms(6,7)] .
  have pd: "pids_distinct ?s xs" using assms(2) pids_distinct_set_task [OF assms(7), of ?t] by (simp add: pids_distinct_def)
  have m: "mark_ended (t_pid t) ?s = Some (?sE, Some (?n, ?a, ?e))"
    using mark_ended_ok [OF task_ring_set_task [OF assms(1)] pd v, of ?t] by simp
  have eq: "?sE = set_task ?a ?e s" by (simp add: set_task_def)
  have s0: "task_ring ?sE xs" "sems_ok ?sE" "dirs_ok ?sE"
    unfolding eq using assms(1,3,4,7)
    by (auto intro!: task_ring_set_task sems_ok_set_task dirs_ok_set_task [of s ?a t])
  have rj: "task_ready ?sE (ring_task xs j) = Some True"
    unfolding eq using assms(11,12) by (simp add: task_ready_set_task_other)
  have ra: "task_ready ?sE ?a = Some False" using assms(9) by (intro task_ready_ended [of _ _ ?e]) simp_all
  have "i + Suc (j + length xs - Suc i) = j + length xs" using assms(5) by simp
  then have "ring_task xs (i + Suc (j + length xs - Suc i)) = ring_task xs j"
    unfolding ring_task_def by (simp only: mod_add_self2)
  then obtain k s1 where k: "rrschedule_call here ?sE = Some s1"
    "switched here ?a (ring_node xs (i + Suc k)) (ring_task xs (i + Suc k)) ?sE s1"
    "task_ready ?sE (ring_task xs (i + Suc k)) = Some True"
    using rrschedule_ok [OF s0(1) ne s0(2,3), of i "j + length xs - Suc i" here] rj assms(6) by auto
  have b: "ring_task xs (i + Suc k) \<noteq> ?a" using k(3) ra by auto
  define t1 where "t1 = save_regs here ?sE ?e"
  have s1: "tk_tasks s1 ?a = Some t1" "task_ring s1 xs" "tk_current s1 = ring_node xs (i + Suc k)"
    using switched_saved [OF k(2) b, of ?e] switched_ring [OF k(2) s0(1)] switched_current [OF k(2)]
    by (simp_all add: t1_def)
  have cur: "get_current_task s1 \<noteq> Some ?a"
  proof -
    obtain n where "tk_nodes s1 (tk_current s1) = Some n" "ln_data n = ring_task xs (i + Suc k)" "tk_current s1 \<noteq> 0"
      using ring_succ [OF s1(2) ne, of "i + Suc k"] unfolding s1(3) by blast
    then show ?thesis using b by (simp add: get_current_task_def get_current_task_node_def)
  qed
  have t1: "t_state t1 = TASK_STATE_ENDED" "t_waiting t1 = t_waiting t" "t_end_status t1 = status"
    by (simp_all add: t1_def)
  have later: "\<forall>s2 :: 'd tasking. tk_tasks s2 ?a = Some t1 \<longrightarrow> task_ready s2 ?a = Some False
      \<and> (\<forall>sched here'. waitpid_loop sched here' ?a s2 = Some (set_task ?a (t1\<lparr>t_waiting := t_waiting t1 - 1\<rparr>) s2, status))"
  proof (intro allI impI)
    fix s2 :: "'d tasking"
    assume "tk_tasks s2 ?a = Some t1"
    then show "task_ready s2 ?a = Some False
      \<and> (\<forall>sched here'. waitpid_loop sched here' ?a s2 = Some (set_task ?a (t1\<lparr>t_waiting := t_waiting t1 - 1\<rparr>) s2, status))"
      using t1 assms(9) task_ready_ended [of s2 ?a t1] by (simp add: waitpid_loop.simps [of _ _ _ s2])
  qed
  have "exit_process dtors sched here status s
      = do { s' \<leftarrow> sched s1; (s'', _) \<leftarrow> reap_task dtors here ?n ?a s'; rrschedule_call here s'' }" for sched
    using c assms(8,9) m k(1) by (simp add: exit_process_def remove_task_by_pid_def case_prod_unfold)
  then have r: "\<forall>sched. exit_process dtors sched here status s
      = sched s1 \<bind> (\<lambda>s'. do { (s'', _) \<leftarrow> reap_task dtors here ?n ?a s'; rrschedule_call here s'' })" by simp
  show ?thesis
    using r s1(2) cur s1(1) t1(2) later by (intro exI [of _ s1] exI [of _ t1] exI conjI)
qed

lemma exit_process_waits_witness:
  "\<exists>s1 rest. \<forall>sched. exit_process (\<lambda>_. None) sched 0 5
      (set_task 2 (idle_task_struct\<lparr>t_pid := 1, t_waiting := 1\<rparr>) (two_tasks\<lparr>tk_current := 20\<rparr>)) = do { s' \<leftarrow> sched s1; rest s' }"
proof -
  let ?s = "set_task 2 (idle_task_struct\<lparr>t_pid := 1, t_waiting := 1\<rparr>) (two_tasks\<lparr>tk_current := 20\<rparr>)"
  have "task_ring ?s two_ring" "sems_ok ?s" "dirs_ok ?s"
    using two_ring_ok two_sems_ok two_dirs_ok
    by (auto intro!: task_ring_set_task sems_ok_set_task dirs_ok_set_task simp: idle_task_struct_def two_tasks_def)
  then show ?thesis
    using exit_process_waits [of ?s two_ring 1 _ 0 "\<lambda>_. None" 0 5]
    by (fastforce simp: two_ring_def ring_node_def ring_task_def pids_distinct_def ring_pid_def
      two_tasks_def idle_task_struct_def task_ready_def rr_skip_def)
qed

end
