(* ===== verification/TaskInv.thy ===== *)
theory TaskInv
  imports Tasks
begin

text \<open>
  The tasking system as a whole: the invariant of the task list, its preservation by every
  operation, and the step relation of a running system, from \<open>init_tasking\<close> on.
\<close>

section \<open>The invariant\<close>

definition below_next :: "'d tasking \<Rightarrow> bool" where
  "below_next s \<longleftrightarrow> (\<forall>a. tk_nodes s a \<noteq> None \<or> tk_tasks s a \<noteq> None \<longrightarrow> 0 < a \<and> a < tk_next s)"

definition pids_ok :: "'d tasking \<Rightarrow> (nat \<times> int \<times> nat) list \<Rightarrow> bool" where
  "pids_ok s xs \<longleftrightarrow> pids_distinct s xs \<and> (\<forall>x \<in> set xs. \<forall>p. ring_pid s x = Some p \<longrightarrow> p \<le> tk_pidcount s)"

text \<open>The second task of the list is the idle task.\<close>

definition idle_of :: "(nat \<times> int \<times> nat) list \<Rightarrow> nat" where
  "idle_of xs = snd (snd (xs ! 1))"

definition idle_ok :: "'d tasking \<Rightarrow> (nat \<times> int \<times> nat) list \<Rightarrow> bool" where
  "idle_ok s xs \<longleftrightarrow> 2 \<le> length xs \<and> (\<exists>t. tk_tasks s (idle_of xs) = Some t \<and> t_state t = TASK_STATE_RUNNING)"

definition tasks_inv :: "'d tasking \<Rightarrow> (nat \<times> int \<times> nat) list \<Rightarrow> bool" where
  "tasks_inv s xs \<longleftrightarrow> task_ring s xs \<and> tk_current s \<in> set (addrs xs) \<and> sems_ok s \<and> below_next s \<and> pids_ok s xs
     \<and> tk_initialized s"

lemma tasks_invD:
  assumes "tasks_inv s xs"
  shows "task_ring s xs" "tk_current s \<in> set (addrs xs)" "sems_ok s" "below_next s" "pids_ok s xs" "tk_initialized s"
    "xs \<noteq> []"
  using assms by (auto simp: tasks_inv_def)

lemma tasks_inv_index:
  assumes "tasks_inv s xs"
  obtains i where "i < length xs" "tk_current s = ring_node xs i"
  using tasks_invD(2) [OF assms] by (auto simp: in_set_conv_nth ring_node_def)

lemma idle_ready: "idle_ok s xs \<Longrightarrow> task_ready s (ring_task xs 1) = Some True"
  by (auto simp: idle_ok_def idle_of_def ring_task_def task_ready_def rr_skip_def)

lemma null_node: "below_next s \<Longrightarrow> tk_nodes s 0 = None"
  by (auto simp: below_next_def)

section \<open>Operations on one task\<close>

lemma tasks_inv_set_task:
  assumes "tasks_inv s xs" "tk_tasks s a = Some t" "t_pid t' = t_pid t"
    and "t_state t' = TASK_STATE_WAITING \<Longrightarrow> tk_sems s (t_sem t') \<noteq> None"
  shows "tasks_inv (set_task a t' s) xs"
proof -
  note inv = tasks_invD [OF assms(1)]
  have "sems_ok (set_task a t' s)" using inv(3) assms(4) by (auto simp: sems_ok_def)
  moreover have "below_next (set_task a t' s)" using inv(4) assms(2) by (auto simp: below_next_def)
  moreover have "pids_ok (set_task a t' s) xs"
    using inv(5) pids_distinct_set_task [OF assms(2,3)] by (simp add: pids_ok_def pids_distinct_def)
  moreover have "tk_initialized (set_task a t' s)" using inv(6) by (simp add: set_task_def)
  ultimately show ?thesis using inv(1,2) task_ring_set_task by (simp add: tasks_inv_def)
qed

lemma idle_ok_set_task:
  "idle_ok s xs \<Longrightarrow> a \<noteq> idle_of xs \<or> t_state t = TASK_STATE_RUNNING \<Longrightarrow> idle_ok (set_task a t s) xs"
  by (auto simp: idle_ok_def)

text \<open>What does not touch the list or the tasks.\<close>

lemma tasks_inv_cong:
  assumes "tasks_inv s xs" "tk_nodes s' = tk_nodes s" "tk_list s' = tk_list s" "tk_tasks s' = tk_tasks s"
    "tk_current s' = tk_current s" "tk_initialized s' = tk_initialized s" "tk_next s \<le> tk_next s'"
    "tk_pidcount s' = tk_pidcount s" "dom (tk_sems s) \<subseteq> dom (tk_sems s')"
  shows "tasks_inv s' xs"
proof -
  note inv = tasks_invD [OF assms(1)]
  have "task_ring s' xs" using inv(1) assms by (intro task_ring_cong [of s' s]) simp_all
  moreover have "sems_ok s'" using inv(3) assms(4,9) by (force simp: sems_ok_def)
  moreover have "below_next s'" using inv(4) assms(2,4,7) by (fastforce simp: below_next_def)
  moreover have "ring_pid s' = ring_pid s" using assms(4) by (simp add: ring_pid_def fun_eq_iff)
  then have "pids_ok s' xs" using inv(5) assms(8) by (simp add: pids_ok_def pids_distinct_def)
  ultimately show ?thesis using inv(2,6) assms(5,6) by (simp add: tasks_inv_def)
qed

lemma idle_ok_cong: "tk_tasks s' = tk_tasks s \<Longrightarrow> idle_ok s xs \<Longrightarrow> idle_ok s' xs"
  by (simp add: idle_ok_def)

lemma tasks_inv_current:
  assumes "tasks_inv s xs"
  obtains a t where "get_current_task s = Some a" "current_task s = Some (a, t)" "tk_tasks s a = Some t" "a \<noteq> 0"
    "tk_current s \<noteq> 0" "a \<in> set (map (snd \<circ> snd) xs)"
proof -
  note inv = tasks_invD [OF assms]
  obtain i where i: "i < length xs" "tk_current s = ring_node xs i" using tasks_inv_index [OF assms] .
  obtain t where t: "tk_tasks s (ring_task xs i) = Some t" "ring_task xs i \<noteq> 0"
    using ring_task_live [OF inv(1,7)] by blast
  have c: "current_task s = Some (ring_task xs i, t)" using ring_current [OF inv(1,7) i(2) t(1)] .
  then have "get_current_task s = Some (ring_task xs i)" by (auto simp: current_task_def bind_eq_Some_conv)
  moreover have "tk_current s \<noteq> 0" using ring_succ [OF inv(1,7), of i] unfolding i(2) by blast
  moreover have "ring_task xs i \<in> set (map (snd \<circ> snd) xs)" using ring_task_in [OF inv(7), of i] by auto
  ultimately show thesis using that c t by blast
qed

section \<open>Switching\<close>

lemma rrschedule_inv_ok:
  assumes "tasks_inv s xs" "idle_ok s xs" "rrschedule_call here s = Some s'"
  shows "tasks_inv s' xs \<and> idle_ok s' xs"
proof -
  note inv = tasks_invD [OF assms(1)]
  obtain i where i: "i < length xs" "tk_current s = ring_node xs i" using tasks_inv_index [OF assms(1)] .
  obtain a t0 where a: "get_current_task s = Some a" "current_task s = Some (a, t0)" "tk_tasks s a = Some t0" "a \<noteq> 0"
    "tk_current s \<noteq> 0" using tasks_inv_current [OF assms(1)] by metis
  obtain t nx b move pg where f: "tk_tasks s a = Some t"
    "rr_next (set_task a (save_regs here s t) s) (tk_current s) = Some (nx, b)"
    "((tk_tasks s)(a \<mapsto> save_regs here s t)) b = Some move"
    "s' = s\<lparr>tk_tasks := (tk_tasks s)(a \<mapsto> save_regs here s t, b \<mapsto> move\<lparr>t_state := TASK_STATE_RUNNING\<rparr>),
            tk_current := nx, tk_paging := pg,
            tk_cpu := \<lparr>c_eip = t_eip move, c_esp = t_esp move, c_ebp = t_ebp move\<rparr>\<rparr>"
    using rrschedule_full [OF assms(3) a(1,5,4) null_node [OF inv(4)]] by metis
  let ?s1 = "set_task a (save_regs here s t) s"
  have s1: "tasks_inv ?s1 xs"
    by (rule tasks_inv_set_task [OF assms(1) f(1)]) (use inv(3) f(1) in \<open>simp_all add: sems_ok_def\<close>)
  have i1: "idle_ok ?s1 xs" using assms(2) f(1) by (auto simp: idle_ok_def)
  have "task_ready ?s1 (ring_task xs (i + Suc (length xs - i))) = Some True"
  proof -
    have "i + Suc (length xs - i) = 1 + length xs" using i(1) by simp
    then have "ring_task xs (i + Suc (length xs - i)) = ring_task xs 1"
      unfolding ring_task_def by (simp only: mod_add_self2)
    then show ?thesis using idle_ready [OF i1] by simp
  qed
  then obtain e where e: "rr_next ?s1 (ring_node xs i) = Some (ring_node xs (i + Suc e), ring_task xs (i + Suc e))"
    using rr_next_finds [OF tasks_invD(1) [OF s1] inv(7) tasks_invD(3) [OF s1]] by blast
  then have nx: "nx \<in> set (addrs xs)" using f(2) i(2) ring_in [OF inv(7), of "i + Suc e"] by force
  let ?s2 = "set_task b (move\<lparr>t_state := TASK_STATE_RUNNING\<rparr>) ?s1"
  have "tasks_inv ?s2 xs" using tasks_inv_set_task [OF s1, of b move "move\<lparr>t_state := TASK_STATE_RUNNING\<rparr>"] f(3) by simp
  moreover have "idle_ok ?s2 xs" using idle_ok_set_task [OF i1] by simp
  moreover have "s' = ?s2\<lparr>tk_current := nx, tk_paging := pg,
            tk_cpu := \<lparr>c_eip = t_eip move, c_esp = t_esp move, c_ebp = t_ebp move\<rparr>\<rparr>"
    using f(4) by (simp add: set_task_def)
  moreover have "tasks_inv (u\<lparr>tk_current := nx, tk_paging := pg, tk_cpu := c\<rparr>) xs" if "tasks_inv u xs" for u :: "'a tasking" and c
  proof -
    have "tasks_inv (u\<lparr>tk_current := nx\<rparr>) xs"
      using that nx by (simp add: tasks_inv_def task_ring_def sems_ok_def below_next_def pids_ok_def pids_distinct_def ring_pid_def [abs_def])
    then show ?thesis by (rule tasks_inv_cong) simp_all
  qed
  ultimately show ?thesis using idle_ok_cong [of s' ?s2] by simp
qed

section \<open>Creating a thread\<close>

lemma list_find_end_ok: "dseg h p prv xs 0 lst \<Longrightarrow> xs \<noteq> [] \<Longrightarrow> list_find_end h p = Some lst"
proof (induction xs arbitrary: p prv)
  case (Cons x xs)
  obtain a v d where x: "x = (a, v, d)" by (cases x)
  then obtain n where n: "p = a" "h a = Some n" "dseg h (ln_next n) a xs 0 lst" using Cons.prems(1) by auto
  show ?case
  proof (cases "xs = []")
    case True
    then show ?thesis using n by (subst list_find_end.simps) simp
  next
    case False
    then have "ln_next n \<noteq> 0" using dseg_start [OF n(3)] by simp
    then show ?thesis using Cons.IH [OF n(3) False] n by (subst list_find_end.simps) simp
  qed
qed simp

text \<open>Adding from the head of the list is adding behind its last node.\<close>

lemma list_add_from_head:
  assumes "dseg h p 0 xs 0 lst" "xs \<noteq> []" "distinct (addrs xs)" "h temp = None" "temp \<noteq> 0"
  shows "\<exists>h' lst'. list_add_data_node h temp p d = Some (h', temp) \<and> dseg h' p 0 (xs @ [(temp, 0, d)]) 0 lst'
    \<and> (\<forall>a. a \<noteq> temp \<and> a \<notin> set (addrs xs) \<longrightarrow> h' a = h a)"
proof -
  let ?l = "\<lparr>lh_base = p, lh_last = lst, lh_length = 0, lh_flags = 0\<rparr>"
  have r: "list_repr h ?l xs" using assms(1,3) by (simp add: list_repr_def)
  have p: "p \<noteq> 0" using dseg_start [OF assms(1)] assms(2) by simp
  have tn: "temp \<notin> set (addrs xs)" using dseg_in_heap [OF assms(1), of temp] assms(4) by auto
  let ?h1 = "h(temp \<mapsto> \<lparr>ln_next = 0, ln_prev = 0, ln_val = 0, ln_data = d\<rparr>)"
  have d1: "dseg ?h1 p 0 xs 0 lst" using assms(1) tn by (simp del: fun_upd_apply)
  have lst: "lst \<noteq> 0" "list_find_end ?h1 lst = Some lst"
  proof -
    obtain ys y where ys: "xs = ys @ [y]" using assms(2) by (cases xs rule: rev_cases) auto
    obtain a v e where y: "y = (a, v, e)" by (cases y)
    obtain n where "lst = a" "a \<noteq> 0" "?h1 a = Some n" "ln_next n = 0"
      using d1 ys y by (auto simp: dseg_snoc simp del: fun_upd_apply)
    then show "lst \<noteq> 0" "list_find_end ?h1 lst = Some lst" by (simp_all add: list_find_end.simps)
  qed
  then have "list_add_node h temp p 0 d = list_add_node h temp lst 0 d"
    using list_find_end_ok [OF d1 assms(2)] p by (simp add: list_add_node_def)
  then show ?thesis
    using list_add_last_ok [OF r assms(4,5), of 0 d] p by (auto simp: list_add_data_node_def list_repr_def)
qed

lemma init_task_ok:
  assumes "init_task ctors junk fds a s = Some s'" "current_task s = Some (c, cur)" "tk_tasks s a = Some t"
  obtains pg v objs fr cd where "s' = set_task a
      (t\<lparr>t_pid := tk_pidcount s + 1, t_group := t_group cur, t_state := TASK_STATE_RUNNING, t_parent := t_pid cur,
         t_pagedir := pg_current_dir (tk_paging s), t_stack := task_stack_addr (tk_pidcount s + 1),
         t_esp := task_stack_addr (tk_pidcount s + 1) + 0x1000, t_ebp := 0, t_pobjects := objs, t_froot := fr,
         t_curdir := cd\<rparr>)
      (s\<lparr>tk_pidcount := tk_pidcount s + 1, tk_paging := pg, tk_vfs := v\<rparr>)"
  using assms(1) unfolding init_task_def Let_def assms(2,3) Option.bind.simps prod.case
  by (elim bind_SomeE case_prod_SomeE) (rule that, erule option.inject [THEN iffD1, THEN sym])

lemma create_thread_result:
  assumes "create_thread ctors junk start s = Some (s', pid)" "current_task s = Some (c, cur)" "tk_initialized s"
    and "tk_next s \<noteq> c"
  obtains T pg v h where "pid = tk_pidcount s + 1" "t_pid T = pid" "t_state T = TASK_STATE_RUNNING" "t_parent T = t_pid cur"
    "t_group T = t_group cur" "t_eip T = start" "t_memmaps T = t_memmaps cur" "t_mainmap T = t_mainmap cur"
    "list_add_data_node (tk_nodes s) (Suc (tk_next s)) (tk_list s) (tk_next s) = Some (h, Suc (tk_next s))"
    "s' = s\<lparr>tk_nodes := h, tk_tasks := (tk_tasks s)(tk_next s \<mapsto> T), tk_pidcount := pid, tk_blocked := False,
      tk_paging := pg, tk_vfs := v, tk_next := Suc (Suc (tk_next s))\<rparr>"
proof -
  let ?a = "tk_next s"
  let ?s1 = "set_task ?a zero_task (block_tasks s\<lparr>tk_next := Suc ?a\<rparr>)"
  have c1: "current_task ?s1 = Some (c, cur)"
    using assms(2,4) by (auto simp: current_task_def get_current_task_def get_current_task_node_def block_tasks_def
      bind_eq_Some_conv)
  have a1: "tk_tasks ?s1 ?a = Some zero_task" by simp
  have nt: "new_task (block_tasks s) = (?s1, ?a)"
    by (simp add: new_task_def tk_kmalloc_def Let_def block_tasks_def)
  obtain s2 where s2: "init_task ctors junk None ?a ?s1 = Some s2"
    "do { t \<leftarrow> tk_tasks s2 ?a;
          let t' = t\<lparr>t_memmaps := t_memmaps cur, t_mainmap := t_mainmap cur, t_eip := start\<rparr>;
          (s3, _) \<leftarrow> add_task (set_task ?a t' s2) ?a;
          Some (unblock_tasks s3, t_pid t') } = Some (s', pid)"
    using assms(1) unfolding create_thread_def assms(2) Option.bind.simps prod.case nt Let_def
    by (erule bind_SomeE)
  let ?pid = "tk_pidcount s + 1"
  obtain pg v objs fr cd where e: "s2 = set_task ?a
      (zero_task\<lparr>t_pid := ?pid, t_group := t_group cur, t_state := TASK_STATE_RUNNING, t_parent := t_pid cur,
         t_pagedir := pg_current_dir (tk_paging s), t_stack := task_stack_addr ?pid,
         t_esp := task_stack_addr ?pid + 0x1000, t_ebp := 0, t_pobjects := objs, t_froot := fr, t_curdir := cd\<rparr>)
      (?s1\<lparr>tk_pidcount := ?pid, tk_paging := pg, tk_vfs := v\<rparr>)"
    using init_task_ok [OF s2(1) c1 a1] by (simp add: block_tasks_def) metis
  let ?T = "zero_task\<lparr>t_pid := ?pid, t_group := t_group cur, t_state := TASK_STATE_RUNNING, t_parent := t_pid cur,
         t_pagedir := pg_current_dir (tk_paging s), t_stack := task_stack_addr ?pid,
         t_esp := task_stack_addr ?pid + 0x1000, t_ebp := 0, t_pobjects := objs, t_froot := fr, t_curdir := cd,
         t_memmaps := t_memmaps cur, t_mainmap := t_mainmap cur, t_eip := start\<rparr>"
  let ?s3 = "s\<lparr>tk_tasks := (tk_tasks s)(?a \<mapsto> ?T), tk_pidcount := ?pid, tk_blocked := True,
      tk_paging := pg, tk_vfs := v, tk_next := Suc ?a\<rparr>"
  define X where "X h = unblock_tasks (?s3\<lparr>tk_next := Suc (Suc ?a), tk_nodes := h\<rparr>)" for h
  have "set_task ?a ?T s2 = ?s3" unfolding e by (simp add: set_task_def block_tasks_def)
  then have "do { (s3, _) \<leftarrow> add_task ?s3 ?a; Some (unblock_tasks s3, ?pid) } = Some (s', pid)"
    using s2(2) unfolding e by simp
  moreover have "add_task ?s3 ?a = do { (h, _) \<leftarrow> list_add_data_node (tk_nodes s) (Suc ?a) (tk_list s) ?a;
      Some (?s3\<lparr>tk_next := Suc (Suc ?a), tk_nodes := h\<rparr>, ?a) }"
    using assms(3) by (simp add: add_task_def tk_kmalloc_def get_task_list_def)
  ultimately have r: "do { (h, _) \<leftarrow> list_add_data_node (tk_nodes s) (Suc ?a) (tk_list s) ?a;
      Some (X h, ?pid) } = Some (s', pid)"
    by (simp add: case_prod_unfold X_def)
  obtain h node where h: "list_add_data_node (tk_nodes s) (Suc ?a) (tk_list s) ?a = Some (h, node)"
    using r by (elim bind_SomeE case_prod_SomeE) simp
  have "pid = ?pid" "s' = X h" using r h by simp_all
  moreover have "node = Suc ?a"
    using h by (auto simp: list_add_data_node_def list_add_node_def Let_def bind_eq_Some_conv split: if_splits)
  ultimately show thesis
    using h by (intro that [where T = ?T and h = h and pg = pg and v = v]) (simp_all add: unblock_tasks_def X_def)
qed

lemma create_thread_inv:
  assumes inv: "tasks_inv s xs" and cur: "current_task s = Some (c, cur)"
    and ct: "create_thread ctors junk start s = Some (s', pid)" and wrap: "tk_pidcount s + 1 \<noteq> 0"
  shows "\<exists>T. tasks_inv s' (xs @ [(Suc (tk_next s), 0, tk_next s)]) \<and> pid = tk_pidcount s + 1
    \<and> (\<forall>x \<in> set xs. ring_pid s x \<noteq> Some pid)
    \<and> tk_tasks s' = (tk_tasks s)(tk_next s \<mapsto> T) \<and> t_state T = TASK_STATE_RUNNING \<and> t_pid T = pid
    \<and> t_parent T = t_pid cur \<and> t_group T = t_group cur \<and> t_eip T = start \<and> t_memmaps T = t_memmaps cur
    \<and> tk_tasks s (tk_next s) = None \<and> tk_current s' = tk_current s"
proof -
  let ?a = "tk_next s"
  note i = tasks_invD [OF inv]
  have bn: "x < ?a" if "tk_nodes s x \<noteq> None \<or> tk_tasks s x \<noteq> None" for x
    using i(4) that unfolding below_next_def by blast
  obtain x t where "tk_tasks s x = Some t" using tasks_inv_current [OF inv] by metis
  then have fresh: "tk_tasks s ?a = None" "tk_nodes s (Suc ?a) = None" "0 < ?a"
    using bn [of ?a] bn [of "Suc ?a"] bn [of x] by fastforce+
  have "tk_tasks s c \<noteq> None" using cur by (auto simp: current_task_def bind_eq_Some_conv)
  then have "tk_next s \<noteq> c" using fresh(1) by auto
  then obtain T pg v h where r: "pid = tk_pidcount s + 1" "t_pid T = pid" "t_state T = TASK_STATE_RUNNING" "t_parent T = t_pid cur"
    "t_group T = t_group cur" "t_eip T = start" "t_memmaps T = t_memmaps cur"
    "list_add_data_node (tk_nodes s) (Suc ?a) (tk_list s) ?a = Some (h, Suc ?a)"
    "s' = s\<lparr>tk_nodes := h, tk_tasks := (tk_tasks s)(?a \<mapsto> T), tk_pidcount := pid, tk_blocked := False,
      tk_paging := pg, tk_vfs := v, tk_next := Suc (Suc ?a)\<rparr>"
    using create_thread_result [OF ct cur i(6)] by metis
  let ?ys = "xs @ [(Suc ?a, 0, ?a)]"
  obtain lst where ds: "dseg (tk_nodes s) (tk_list s) 0 xs 0 lst" "distinct (addrs xs)" using i(1) by (auto simp: task_ring_def)
  have "Suc ?a \<noteq> 0" by simp
  from list_add_from_head [where temp = "Suc ?a", OF ds(1) i(7) ds(2) fresh(2) this, of ?a] r(8) obtain lst' where d: "dseg h (tk_list s) 0 ?ys 0 lst'"
    "\<forall>x. x \<noteq> Suc ?a \<and> x \<notin> set (addrs xs) \<longrightarrow> h x = tk_nodes s x"
    by auto
  have lt: "a < ?a" if "a \<in> set (addrs xs) \<or> a \<in> set (map (snd \<circ> snd) xs)" for a
  proof -
    have "tk_nodes s a \<noteq> None \<or> tk_tasks s a \<noteq> None"
      using that i(1) dseg_in_heap [of "tk_nodes s" "tk_list s" 0 xs 0 _ a] by (auto simp: task_ring_def)
    then show ?thesis using i(4) by (auto simp: below_next_def)
  qed
  have ring: "task_ring s' ?ys"
    using i(1) d(1) lt [of "Suc ?a"] lt [of ?a] fresh(3) unfolding task_ring_def r(9) by auto
  have sems: "sems_ok s'" using i(3) r(3) by (auto simp: sems_ok_def r(9))
  have below: "below_next s'"
  proof -
    have nodes: "0 < x \<and> x < Suc (Suc ?a)" if hx: "h x \<noteq> None" for x
    proof (cases "x = Suc ?a \<or> x \<in> set (addrs xs)")
      case True
      then have "x \<in> set (addrs ?ys)" by auto
      then have "x \<noteq> 0" using dseg_in_heap [OF d(1)] by blast
      moreover have "x < Suc (Suc ?a)"
        using True lt [of x] by (elim disjE) (simp_all only: lessI, fastforce)
      ultimately show ?thesis by simp
    next
      case False
      then have "tk_nodes s x \<noteq> None" using hx d(2) by auto
      then have "0 < x \<and> x < ?a" using i(4) unfolding below_next_def by blast
      then show ?thesis by simp
    qed
    have tasks: "0 < x \<and> x < Suc (Suc ?a)" if "((tk_tasks s)(?a \<mapsto> T)) x \<noteq> None" for x
    proof (cases "x = ?a")
      case False
      then have "0 < x \<and> x < ?a" using that i(4) unfolding below_next_def by auto
      then show ?thesis by simp
    qed (use fresh(3) in simp)
    show ?thesis unfolding below_next_def r(9) using nodes tasks by auto
  qed
  have rp: "ring_pid s' x = (if x = (Suc ?a, 0, ?a) then Some pid else ring_pid s x)" if "x \<in> set ?ys" for x
  proof (cases "x \<in> set xs")
    case True
    then have "snd (snd x) \<in> set (map (snd \<circ> snd) xs)" by force
    then have "snd (snd x) < ?a" using lt by blast
    then show ?thesis by (auto simp: ring_pid_def r(9))
  next
    case False
    then have "x = (Suc ?a, 0, ?a)" using that by simp
    then show ?thesis using r(2) by (simp add: ring_pid_def r(9))
  qed
  have old: "ring_pid s x \<noteq> Some pid" "ring_pid s x = Some p \<Longrightarrow> p \<le> pid" if "x \<in> set xs" for x p
  proof -
    have le: "p \<le> tk_pidcount s" if "ring_pid s x = Some p" for p
      using i(5) that \<open>x \<in> set xs\<close> by (auto simp: pids_ok_def)
    have "unat pid = Suc (unat (tk_pidcount s))" using wrap r(1) unatSuc [of "tk_pidcount s"] by (simp add: add.commute)
    then have lt: "tk_pidcount s < pid" by (simp add: word_less_nat_alt)
    show "ring_pid s x \<noteq> Some pid" using le lt by fastforce
    show "ring_pid s x = Some p \<Longrightarrow> p \<le> pid" using le lt by fastforce
  qed
  have new: "(Suc ?a, 0, ?a) \<notin> set xs" using lt [of "Suc ?a"] by force
  have "map (ring_pid s') ?ys = map (ring_pid s) xs @ [Some pid]" using rp new by (auto intro!: map_cong)
  moreover have "distinct (map (ring_pid s) xs @ [Some pid])"
    using i(5) old(1) by (fastforce simp: pids_ok_def pids_distinct_def)
  ultimately have "pids_distinct s' ?ys" by (simp only: pids_distinct_def)
  moreover have "\<forall>x \<in> set ?ys. \<forall>p. ring_pid s' x = Some p \<longrightarrow> p \<le> tk_pidcount s'"
    using rp old(2) by (auto simp: r(9))
  ultimately have "pids_ok s' ?ys" by (simp add: pids_ok_def)
  then have "tasks_inv s' ?ys" using ring sems below i(2,6) by (simp add: tasks_inv_def r(9))
  moreover have "tk_tasks s' = (tk_tasks s)(?a \<mapsto> T)" "tk_current s' = tk_current s" by (simp_all add: r(9))
  ultimately show ?thesis using r(1-7) old(1) fresh(1) by blast
qed

section \<open>The running system\<close>

definition boot_state :: "'d tasking \<Rightarrow> bool" where
  "boot_state s \<longleftrightarrow> tk_nodes s = Map.empty \<and> tk_tasks s = Map.empty \<and> tk_list s = 0 \<and> tk_current s = 0
     \<and> tk_pidcount s = 0 \<and> 0 < tk_next s"

lemma init_tasking_inv:
  assumes "boot_state s" "init_tasking ctors junk stk idle s = Some s0"
  shows "\<exists>xs. tasks_inv s0 xs \<and> idle_ok s0 xs \<and> idle_of xs = tk_next s + 2"
proof -
  let ?n = "tk_next s"
  have b: "tk_nodes s = Map.empty" "tk_tasks s = Map.empty" "tk_list s = 0" "tk_pidcount s = 0" "0 < ?n"
    using assms(1) by (simp_all add: boot_state_def)
  let ?t = "zero_task\<lparr>t_pagedir := pg_current_dir (tk_paging s), t_pobjects := dlist_create 0 0, t_memmaps := 0,
    t_mainmap := 0, t_stack := stk + 0xffc\<rparr>"
  define s3 where "s3 = s\<lparr>tk_next := Suc (Suc ?n), tk_nodes := [Suc ?n \<mapsto> \<lparr>ln_next = 0, ln_prev = 0, ln_val = 0, ln_data = ?n\<rparr>],
    tk_list := Suc ?n, tk_current := Suc ?n, tk_initialized := True, tk_tasks := [?n \<mapsto> ?t]\<rparr>"
  obtain pid where ct: "create_thread ctors junk idle s3 = Some (s0, pid)"
  proof -
    have "init_tasking ctors junk stk idle s = do { (s4, _) \<leftarrow> create_thread ctors junk idle s3; Some s4 }"
      using b by (simp add: init_tasking_def new_task_def tk_kmalloc_def list_add_data_node_def list_add_node_def Let_def
        set_task_def s3_def)
    then show thesis using that assms(2) by (cases "create_thread ctors junk idle s3") auto
  qed
  have "tasks_inv s3 [(Suc ?n, 0, ?n)]"
    using b by (auto simp: tasks_inv_def task_ring_def s3_def sems_ok_def below_next_def pids_ok_def pids_distinct_def
      ring_pid_def zero_task_def)
  moreover have "current_task s3 = Some (?n, ?t)"
    by (simp add: s3_def current_task_def get_current_task_def get_current_task_node_def)
  moreover have "tk_pidcount s3 + 1 \<noteq> 0" using b by (simp add: s3_def)
  ultimately obtain T where T: "tasks_inv s0 ([(Suc ?n, 0, ?n)] @ [(Suc (tk_next s3), 0, tk_next s3)])"
    "tk_tasks s0 = (tk_tasks s3)(tk_next s3 \<mapsto> T)" "t_state T = TASK_STATE_RUNNING"
    using create_thread_inv [OF _ _ ct] by blast
  moreover have n3: "tk_next s3 = ?n + 2" by (simp add: s3_def)
  ultimately have "tasks_inv s0 [(Suc ?n, 0, ?n), (?n + 3, 0, ?n + 2)]" "idle_ok s0 [(Suc ?n, 0, ?n), (?n + 3, 0, ?n + 2)]"
    by (simp_all add: idle_ok_def idle_of_def numeral_3_eq_3)
  then show ?thesis by (auto simp: idle_of_def)
qed

text \<open>What can happen while the system runs. The idle task only calls the scheduler; every other task
  may sleep, wait, end while it is waited for, create threads or wait for a task. Pids do not wrap.\<close>

inductive task_step :: "'d pobj_ctors \<Rightarrow> u32 list \<Rightarrow> nat \<Rightarrow> 'd tasking \<Rightarrow> 'd tasking \<Rightarrow> bool"
  for ctors junk idle where
  timer: "pitimer_stub here s = Some s' \<Longrightarrow> task_step ctors junk idle s s'"
| yield: "rrschedule_call here s = Some s' \<Longrightarrow> task_step ctors junk idle s s'"
| sleep: "get_current_task s \<noteq> Some idle \<Longrightarrow> usleep us here s = Some s' \<Longrightarrow> task_step ctors junk idle s s'"
| wait: "get_current_task s \<noteq> Some idle \<Longrightarrow> tk_sems s sem = Some 0 \<Longrightarrow> semaphore_wait sem here s = Some s' \<Longrightarrow>
         task_step ctors junk idle s s'"
| enter: "tk_sems s sem = Some v \<Longrightarrow> enter_semaphore v = Some v' \<Longrightarrow>
          task_step ctors junk idle s (s\<lparr>tk_sems := (tk_sems s)(sem \<mapsto> v')\<rparr>)"
| leave: "tk_sems s sem = Some v \<Longrightarrow>
          task_step ctors junk idle s (s\<lparr>tk_sems := (tk_sems s)(sem \<mapsto> leave_semaphore v)\<rparr>)"
| thread: "create_thread ctors junk start s = Some (s', pid) \<Longrightarrow> tk_pidcount s + 1 \<noteq> 0 \<Longrightarrow> task_step ctors junk idle s s'"
| wait_for: "waitpid_begin pid s = Some (s', r) \<Longrightarrow> task_step ctors junk idle s s'"
| collect: "tk_tasks s a = Some t \<Longrightarrow> t_state t = TASK_STATE_ENDED \<Longrightarrow>
            task_step ctors junk idle s (set_task a (t\<lparr>t_waiting := t_waiting t - 1\<rparr>) s)"
| ended: "current_task s = Some (a, t) \<Longrightarrow> a \<noteq> idle \<Longrightarrow> t_waiting t \<noteq> 0 \<Longrightarrow>
          rrschedule_call here (set_task a (t\<lparr>t_end_status := status, t_state := TASK_STATE_ENDED\<rparr>) s) = Some s' \<Longrightarrow>
          task_step ctors junk idle s s'"
| break: "sbrk increment s = Some (s', r) \<Longrightarrow> task_step ctors junk idle s s'"

inductive_cases task_stepE: "task_step ctors junk idle s s'"

lemma idle_ok_append: "idle_ok s xs \<Longrightarrow> tk_tasks s' (idle_of xs) = tk_tasks s (idle_of xs) \<Longrightarrow>
    idle_ok s' (xs @ ys) \<and> idle_of (xs @ ys) = idle_of xs"
  by (auto simp: idle_ok_def idle_of_def nth_append)

lemma current_task_get: "current_task s = Some (a, t) \<Longrightarrow> get_current_task s = Some a \<and> tk_tasks s a = Some t"
  by (auto simp: current_task_def bind_eq_Some_conv)

text \<open>Changing the current task and then calling the scheduler.\<close>

lemma change_and_schedule:
  assumes "tasks_inv s xs" "idle_ok s xs" "tk_tasks s a = Some t" "t_pid t' = t_pid t" "a \<noteq> idle_of xs"
    and "t_state t' = TASK_STATE_WAITING \<Longrightarrow> tk_sems s (t_sem t') \<noteq> None"
    and "rrschedule_call here (set_task a t' s) = Some s'"
  shows "tasks_inv s' xs \<and> idle_ok s' xs"
  using rrschedule_inv_ok [OF tasks_inv_set_task [OF assms(1,3,4,6)] idle_ok_set_task [OF assms(2)] assms(7)] assms(5)
  by blast

lemma task_step_inv:
  assumes "task_step ctors junk idle s s'" "tasks_inv s xs" "idle_ok s xs" "idle_of xs = idle"
  shows "\<exists>ys. tasks_inv s' ys \<and> idle_ok s' ys \<and> idle_of ys = idle"
  using assms(1)
proof cases
  case (timer here)
  have "tasks_inv (s\<lparr>tk_tick := tk_tick s + 1\<rparr>) xs" by (rule tasks_inv_cong [OF assms(2)]) simp_all
  moreover have "idle_ok (s\<lparr>tk_tick := tk_tick s + 1\<rparr>) xs" by (rule idle_ok_cong [OF _ assms(3)]) simp
  ultimately show ?thesis using rrschedule_inv_ok timer assms(4) unfolding pitimer_stub_def by blast
next
  case (yield here)
  then show ?thesis using rrschedule_inv_ok [OF assms(2,3)] assms(4) by blast
next
  case (sleep us here)
  obtain a t where c: "current_task s = Some (a, t)" using sleep(2) by (cases "current_task s") (auto simp: usleep_def)
  then have "tk_tasks s a = Some t" "a \<noteq> idle_of xs" using current_task_get [OF c] sleep(1) assms(4) by auto
  then show ?thesis
    using change_and_schedule [OF assms(2,3), of a t "t\<lparr>t_sleep := get_tick s + us * 100 div 1000, t_state := TASK_STATE_SLEEPING\<rparr>"]
      sleep(2) c assms(4) by (auto simp: usleep_def)
next
  case (wait sem here)
  obtain a t where c: "current_task s = Some (a, t)" using wait(3) by (cases "current_task s") (auto simp: semaphore_wait_def)
  then have "tk_tasks s a = Some t" "a \<noteq> idle_of xs" using current_task_get [OF c] wait(1) assms(4) by auto
  then show ?thesis
    using change_and_schedule [OF assms(2,3), of a t "t\<lparr>t_state := TASK_STATE_WAITING, t_sem := sem\<rparr>"]
      wait(2,3) c assms(4) by (auto simp: semaphore_wait_def)
next
  case (enter sem v v')
  have "tasks_inv s' xs" by (rule tasks_inv_cong [OF assms(2)]) (auto simp: enter(1))
  moreover have "idle_ok s' xs" by (rule idle_ok_cong [OF _ assms(3)]) (simp add: enter(1))
  ultimately show ?thesis using assms(4) by blast
next
  case (leave sem v)
  have "tasks_inv s' xs" by (rule tasks_inv_cong [OF assms(2)]) (auto simp: leave(1))
  moreover have "idle_ok s' xs" by (rule idle_ok_cong [OF _ assms(3)]) (simp add: leave(1))
  ultimately show ?thesis using assms(4) by blast
next
  case (thread start pid)
  obtain c cur where c: "current_task s = Some (c, cur)" using tasks_inv_current [OF assms(2)] by metis
  obtain T where T: "tasks_inv s' (xs @ [(Suc (tk_next s), 0, tk_next s)])" "tk_tasks s' = (tk_tasks s)(tk_next s \<mapsto> T)"
    "tk_tasks s (tk_next s) = None"
    using create_thread_inv [OF assms(2) c thread(1,2)] by blast
  then have "tk_tasks s' (idle_of xs) = tk_tasks s (idle_of xs)" using assms(3) by (auto simp: idle_ok_def)
  then show ?thesis using idle_ok_append [OF assms(3)] T(1) assms(4) by blast
next
  case (wait_for pid r)
  obtain node where g: "get_task_node_by_pid s pid = Some node"
    using wait_for by (cases "get_task_node_by_pid s pid") (auto simp: waitpid_begin_def)
  show ?thesis
  proof (cases "node = 0")
    case True
    then show ?thesis using wait_for g assms(2-4) by (auto simp: waitpid_begin_def)
  next
    case False
    then obtain b t where n: "tk_tasks s b = Some t" "s' = set_task b (t\<lparr>t_waiting := t_waiting t + 1\<rparr>) s"
      using wait_for g unfolding waitpid_begin_def by (auto elim!: bind_SomeE)
    have "tasks_inv s' xs" unfolding n(2)
      by (rule tasks_inv_set_task [OF assms(2) n(1)]) (use tasks_invD(3) [OF assms(2)] n(1) in \<open>simp_all add: sems_ok_def\<close>)
    moreover have "idle_ok s' xs" using assms(3) n by (auto simp: idle_ok_def)
    ultimately show ?thesis using assms(4) by blast
  qed
next
  case (collect a t)
  have "tasks_inv s' xs" unfolding collect(1)
    by (rule tasks_inv_set_task [OF assms(2) collect(2)]) (use collect in simp_all)
  moreover have "idle_ok s' xs" using assms(3) collect by (auto simp: idle_ok_def)
  ultimately show ?thesis using assms(4) by blast
next
  case (ended a t here status)
  then show ?thesis
    using change_and_schedule [OF assms(2,3), of a t "t\<lparr>t_end_status := status, t_state := TASK_STATE_ENDED\<rparr>"]
      current_task_get [OF ended(1)] assms(4) by auto
next
  case (break increment r)
  then obtain mm where "s' = s\<lparr>tk_maps := mm\<rparr>"
    unfolding sbrk_def by (auto elim!: bind_SomeE)
  then have "tasks_inv s' xs" "idle_ok s' xs"
    using tasks_inv_cong [OF assms(2), of s'] idle_ok_cong [OF _ assms(3), of s'] by simp_all
  then show ?thesis using assms(4) by blast
qed

section \<open>Properties\<close>

text \<open>C39. A new thread gets a pid that no task has, goes to the end of the list ready to run at its
  start address with its creator as parent, shares the creator's memory maps, and leaves every other
  task and the invariant of the task list as they were.\<close>

theorem create_thread_new_task:
  assumes "tasks_inv s xs" "current_task s = Some (c, cur)" "tk_pidcount s + 1 \<noteq> 0"
    and "create_thread ctors junk start s = Some (s', pid)"
  shows "\<exists>node a T. tasks_inv s' (xs @ [(node, 0, a)]) \<and> (\<forall>x \<in> set xs. ring_pid s x \<noteq> Some pid)
    \<and> tk_tasks s a = None \<and> tk_tasks s' = (tk_tasks s)(a \<mapsto> T) \<and> task_ready s' a = Some True
    \<and> t_pid T = pid \<and> t_parent T = t_pid cur \<and> t_group T = t_group cur \<and> t_eip T = start
    \<and> t_memmaps T = t_memmaps cur \<and> tk_current s' = tk_current s"
proof -
  obtain T where T: "tasks_inv s' (xs @ [(Suc (tk_next s), 0, tk_next s)])" "\<forall>x \<in> set xs. ring_pid s x \<noteq> Some pid"
    "tk_tasks s' = (tk_tasks s)(tk_next s \<mapsto> T)" "t_state T = TASK_STATE_RUNNING" "t_pid T = pid"
    "t_parent T = t_pid cur" "t_group T = t_group cur" "t_eip T = start" "t_memmaps T = t_memmaps cur"
    "tk_tasks s (tk_next s) = None" "tk_current s' = tk_current s"
    using create_thread_inv [OF assms(1,2,4,3)] by blast
  moreover have "task_ready s' (tk_next s) = Some True" using T(3,4) by (simp add: task_ready_def rr_skip_def)
  ultimately show ?thesis by blast
qed


text \<open>A machine at boot, with paging still off.\<close>

definition small_boot :: "unit tasking" where
  "small_boot = two_tasks\<lparr>tk_nodes := Map.empty, tk_tasks := Map.empty, tk_list := 0, tk_current := 0, tk_pidcount := 0,
     tk_initialized := False, tk_next := 1\<rparr>"

lemma small_boot_init:
  obtains s0 where "init_tasking (\<lambda>_. None) [] 0 7 small_boot = Some s0" "\<not> pg_enabled (tk_paging s0)" "tk_pidcount s0 = 1"
proof -
  have "map_option (\<lambda>s. (pg_enabled (tk_paging s), tk_pidcount s)) (init_tasking (\<lambda>_. None) [] 0 7 small_boot) = Some (False, 1)"
    by code_simp
  then show thesis using that by (cases "init_tasking (\<lambda>_. None) [] 0 7 small_boot") auto
qed

lemma small_boot_ok: "boot_state small_boot" "tk_next small_boot = 1"
  by (simp_all add: boot_state_def small_boot_def)


lemma create_thread_new_task_witness:
  "\<exists>s0 s1 xs. init_tasking (\<lambda>_. None) [] 0 7 small_boot = Some s0 \<and> create_thread (\<lambda>_. None) [] 8 s0 = Some (s1, 2)
     \<and> tasks_inv s1 xs"
proof (rule small_boot_init)
  fix s0
  assume s0: "init_tasking (\<lambda>_. None) [] 0 7 small_boot = Some s0" "tk_pidcount s0 = 1"
  obtain xs where xs: "tasks_inv s0 xs" using init_tasking_inv [OF small_boot_ok(1) s0(1)] by blast
  obtain c cur where c: "current_task s0 = Some (c, cur)" using tasks_inv_current [OF xs] by metis
  have "map_option (map_option snd \<circ> create_thread (\<lambda>_. None) [] 8) (init_tasking (\<lambda>_. None) [] 0 7 small_boot) = Some (Some 2)"
    by code_simp
  then obtain s1 where "create_thread (\<lambda>_. None) [] 8 s0 = Some (s1, 2)" using s0(1) by auto
  then show ?thesis using create_thread_new_task [OF xs c, of "\<lambda>_. None" "[]" 8 s1 2] s0 by auto
qed

end
