(* ===== verification/Logger.thy ===== *)
theory Logger
  imports CStrings
begin

text \<open>
  \<^verbatim>\<open>kernel/base/logger.c\<close>: the messages of the kernel. The serial line is the list of the bytes
  that \<open>write_serial\<close> was given. The variable arguments of \<open>kvprintf\<close> are machine words, strings
  among them as addresses; taking one more than there are is undefined. The local buffers of the
  number printers are lists of 32 bytes of unknown contents (\<open>junk\<close>).
\<close>

section \<open>Strings and numbers\<close>

definition logputs :: "memory \<Rightarrow> nat \<Rightarrow> u8 list \<Rightarrow> u8 list option" where
  "logputs m str out = do { i \<leftarrow> strlen m str; bs \<leftarrow> load_bytes m str i; Some (out @ bs) }"

text \<open>\<open>for ( i = 0, a = input; a; a = a / base ) buf[i++] = digit( a % base )\<close>.\<close>

function num_fill :: "u32 \<Rightarrow> (u32 \<Rightarrow> u8) \<Rightarrow> u8 list \<Rightarrow> nat \<Rightarrow> u32 \<Rightarrow> (u8 list \<times> nat) option" where
  "num_fill base digit buf i a =
     (if a = 0 \<or> base < 2 then Some (buf, i)
      else do { buf' \<leftarrow> write_at buf i (digit (a mod base)); num_fill base digit buf' (Suc i) (a div base) })"
  by pat_completeness auto
termination
proof (relation "measure (\<lambda>(base, digit, buf, i, a). unat a)")
  fix base :: u32 and digit :: "u32 \<Rightarrow> u8" and buf buf' :: "u8 list" and i and a :: u32
  assume "\<not> (a = 0 \<or> base < 2)"
  then have "0 < unat a" "1 < unat base" by (simp_all add: unat_gt_0 word_less_nat_alt)
  then show "((base, digit, buf', Suc i, a div base), (base, digit, buf, i, a)) \<in> measure (\<lambda>(base, digit, buf, i, a). unat a)"
    by (simp add: unat_div_distrib)
qed simp

declare num_fill.simps [simp del]

text \<open>\<open>while ( i-- ) write_serial( &buf[i], 1 )\<close>.\<close>

fun num_write :: "u8 list \<Rightarrow> nat \<Rightarrow> u8 list \<Rightarrow> u8 list option" where
  "num_write buf 0 out = Some out"
| "num_write buf (Suc i) out = do { b \<leftarrow> read_at buf i; num_write buf i (out @ [b]) }"

definition dec_digit :: "u32 \<Rightarrow> u8" where
  "dec_digit a = ucast a + 0x30"

definition print_num :: "u8 list \<Rightarrow> u32 \<Rightarrow> u8 list \<Rightarrow> u8 list option" where
  "print_num junk input out =
     (if input = 0 then Some (out @ [0x30])
      else do { (buf, i) \<leftarrow> num_fill 10 dec_digit junk 0 input; num_write buf i out })"

definition hextab :: "u8 list" where
  "hextab = [0x30, 0x31, 0x32, 0x33, 0x34, 0x35, 0x36, 0x37, 0x38, 0x39, 0x61, 0x62, 0x63, 0x64, 0x65, 0x66]"

definition print_hex :: "u8 list \<Rightarrow> u32 \<Rightarrow> u8 list \<Rightarrow> u8 list option" where
  "print_hex junk input out =
     (if input = 0 then Some (out @ [0x30])
      else do { (buf, i) \<leftarrow> num_fill 16 (\<lambda>a. hextab ! unat a) junk 0 input; num_write buf i out })"

definition int_ok :: "int \<Rightarrow> bool" where
  "int_ok i \<longleftrightarrow> - (2 ^ 31) \<le> i \<and> i < 2 ^ 31"

text \<open>\<open>char\<close> is signed; a result outside \<open>int\<close> is undefined.\<close>

partial_function (option) atoi_from :: "memory \<Rightarrow> nat \<Rightarrow> int \<Rightarrow> int option" where
  "atoi_from m n ret =
     do { c \<leftarrow> m n;
          if c = 0 then Some ret
          else if \<not> int_ok (ret * 10) \<or> \<not> int_ok (ret * 10 + (sint c - 0x30)) then None
          else atoi_from m (Suc n) (ret * 10 + (sint c - 0x30)) }"

definition atoi :: "memory \<Rightarrow> nat \<Rightarrow> int option" where
  "atoi m n = atoi_from m n 0"

declare atoi_from.simps [code]

section \<open>Formatted output\<close>

text \<open>One directive: the arguments that are left and what was written. Directives other than the
  six print nothing and take no argument.\<close>

definition kvprintf_directive :: "memory \<Rightarrow> u8 list \<Rightarrow> u8 \<Rightarrow> u32 list \<Rightarrow> u8 list \<Rightarrow> (u32 list \<times> u8 list) option" where
  "kvprintf_directive m junk c args out =
     (if c = 0x25 then Some (args, out @ [0x25])
      else if c \<in> {0x63, 0x73, 0x64, 0x75, 0x78}
      then (case args of
              [] \<Rightarrow> None
            | a # rest \<Rightarrow>
                do { out' \<leftarrow> (if c = 0x63 then Some (out @ [ucast a])
                             else if c = 0x73 then logputs m (unat a) out
                             else if c = 0x78 then print_hex junk a out
                             else print_num junk a out);
                     Some (rest, out') })
      else Some (args, out))"

function kvprintf_from ::
  "memory \<Rightarrow> u8 list \<Rightarrow> nat \<Rightarrow> nat \<Rightarrow> nat \<Rightarrow> u32 list \<Rightarrow> u8 list \<Rightarrow> (nat \<times> u8 list) option" where
  "kvprintf_from m junk format slen i args out =
     (if i < slen
      then do {
        c \<leftarrow> m (format + i);
        if c = 0x25
        then do { d \<leftarrow> m (format + Suc i);
                  (args', out') \<leftarrow> kvprintf_directive m junk d args out;
                  kvprintf_from m junk format slen (Suc (Suc i)) args' out' }
        else kvprintf_from m junk format slen (Suc i) args (out @ [c])
      }
      else Some (i, out))"
  by pat_completeness auto
termination
  by (relation "measure (\<lambda>(m, junk, format, slen, i, args, out). slen - i)") auto

declare kvprintf_from.simps [simp del]

definition kvprintf :: "memory \<Rightarrow> u8 list \<Rightarrow> nat \<Rightarrow> u32 list \<Rightarrow> u8 list \<Rightarrow> (nat \<times> u8 list) option" where
  "kvprintf m junk format args out = do { slen \<leftarrow> strlen m format; kvprintf_from m junk format slen 0 args out }"

definition kprintf :: "memory \<Rightarrow> u8 list \<Rightarrow> nat \<Rightarrow> u32 list \<Rightarrow> u8 list \<Rightarrow> (nat \<times> u8 list) option" where
  "kprintf m junk format args out = kvprintf m junk format args out"

section \<open>Correctness\<close>

text \<open>The digits of a number, the least significant first.\<close>

fun digits :: "nat \<Rightarrow> nat \<Rightarrow> nat list" where
  "digits b n = (if n = 0 \<or> b < 2 then [] else n mod b # digits b (n div b))"

declare digits.simps [simp del]

lemma digits_0 [simp]: "digits b 0 = []"
  by (simp add: digits.simps)

lemma digits_pos: "0 < n \<Longrightarrow> 2 \<le> b \<Longrightarrow> digits b n = n mod b # digits b (n div b)"
  by (subst digits.simps) auto

lemma digits_length: "2 \<le> b \<Longrightarrow> n < b ^ k \<Longrightarrow> length (digits b n) \<le> k"
proof (induction k arbitrary: n)
  case (Suc k)
  then have "n div b < b ^ k" by (simp add: less_mult_imp_div_less mult.commute)
  then show ?case using Suc by (cases "n = 0") (simp_all add: digits_pos)
qed simp

lemma digits_value: "2 \<le> b \<Longrightarrow> foldr (\<lambda>d v. d + b * v) (digits b n) 0 = n"
proof (induction b n rule: digits.induct)
  case (1 b n)
  show ?case
  proof (cases "n = 0")
    case False
    then show ?thesis using 1 by (simp add: digits_pos)
  qed simp
qed

lemma digits_less: "2 \<le> b \<Longrightarrow> d \<in> set (digits b n) \<Longrightarrow> d < b"
proof (induction b n rule: digits.induct)
  case (1 b n)
  then show ?case by (cases "n = 0") (auto simp: digits_pos)
qed

lemma num_fill_ok:
  assumes "2 \<le> unat base" "i + length (digits (unat base) (unat a)) \<le> length buf"
  shows "num_fill base digit buf i a = Some (take i buf @ map (\<lambda>d. digit (of_nat d)) (digits (unat base) (unat a))
    @ drop (i + length (digits (unat base) (unat a))) buf, i + length (digits (unat base) (unat a)))"
  using assms
proof (induction base digit buf i a rule: num_fill.induct)
  case (1 base digit buf i a)
  let ?b = "unat base"
  have b2: "\<not> base < 2" using "1.prems"(1) by (simp add: word_less_nat_alt)
  show ?case
  proof (cases "a = 0")
    case True
    then show ?thesis using "1.prems" by (subst num_fill.simps) simp
  next
    case False
    then have ds: "digits ?b (unat a) = unat a mod ?b # digits ?b (unat (a div base))"
      using "1.prems"(1) by (simp add: digits_pos unat_div_distrib unat_gt_0)
    then have i: "i < length buf" using "1.prems"(2) by simp
    let ?buf = "buf[i := digit (a mod base)]"
    have c: "\<not> (a = 0 \<or> base < 2)" using False b2 by simp
    have "num_fill base digit buf i a = num_fill base digit ?buf (Suc i) (a div base)"
      using c i by (subst num_fill.simps) simp
    also have "\<dots> = Some (take (Suc i) ?buf @ map (\<lambda>d. digit (of_nat d)) (digits ?b (unat (a div base)))
        @ drop (Suc i + length (digits ?b (unat (a div base)))) ?buf, Suc i + length (digits ?b (unat (a div base))))"
      by (rule "1.IH" [OF c]) (use i ds "1.prems" in simp_all)
    also have "take (Suc i) ?buf = take i buf @ [digit (a mod base)]" using i by (simp add: take_Suc_conv_app_nth)
    finally show ?thesis using ds by (simp flip: unat_mod_distrib)
  qed
qed

lemma num_write_ok: "i \<le> length buf \<Longrightarrow> num_write buf i out = Some (out @ rev (take i buf))"
  by (induction i arbitrary: out) (simp_all add: take_Suc_conv_app_nth)

text \<open>The decimal and hexadecimal text of a number.\<close>

definition num_text :: "nat \<Rightarrow> (nat \<Rightarrow> u8) \<Rightarrow> nat \<Rightarrow> u8 list" where
  "num_text b digit n = (if n = 0 then [0x30] else rev (map digit (digits b n)))"

lemma digits_u32_length: "2 \<le> b \<Longrightarrow> length (digits b (unat (a :: u32))) \<le> 32"
proof -
  assume b: "2 \<le> b"
  have "(2 :: nat) ^ 32 \<le> b ^ 32" using b by (rule power_mono) simp
  then have "unat a < b ^ 32" using unat_u32_less [of a] by (rule less_le_trans [rotated])
  then show ?thesis by (rule digits_length [OF b])
qed

lemma print_num_text: "length junk = 32 \<Longrightarrow> print_num junk n out = Some (out @ num_text 10 (\<lambda>d. dec_digit (of_nat d)) (unat n))"
  using num_fill_ok [of 10 0 n junk dec_digit] digits_u32_length [of 10 n]
  by (auto simp: print_num_def num_text_def num_write_ok unat_eq_0)

lemma print_hex_text: "length junk = 32 \<Longrightarrow> print_hex junk n out = Some (out @ num_text 16 (\<lambda>d. hextab ! unat (of_nat d :: u32)) (unat n))"
  using num_fill_ok [of 16 0 n junk "\<lambda>a. hextab ! unat a"] digits_u32_length [of 16 n]
  by (auto simp: print_hex_def num_text_def num_write_ok unat_eq_0)

text \<open>Reading the text of a number back.\<close>

abbreviation dec_text :: "nat \<Rightarrow> u8 list" where
  "dec_text \<equiv> num_text 10 (\<lambda>d. dec_digit (of_nat d))"

lemma dec_digit_val: "d < 10 \<Longrightarrow> sint (dec_digit (of_nat d)) = int d + 0x30 \<and> dec_digit (of_nat d) \<noteq> 0"
proof -
  assume "d < 10"
  then have "d \<in> {0, 1, 2, 3, 4, 5, 6, 7, 8, 9}" by auto
  then show ?thesis by (auto simp: dec_digit_def)
qed

abbreviation dec_value :: "int \<Rightarrow> nat list \<Rightarrow> int" where
  "dec_value \<equiv> foldl (\<lambda>v d. v * 10 + int d)"

lemma dec_value_mono: "0 \<le> r \<Longrightarrow> r \<le> dec_value r ds"
proof (induction ds arbitrary: r)
  case (Cons d ds)
  then have "r * 10 + int d \<le> dec_value (r * 10 + int d) ds" by simp
  then show ?case using Cons.prems by simp
qed simp

lemma atoi_from_ok:
  "cstr m s (map (\<lambda>d. dec_digit (of_nat d)) ds) \<Longrightarrow> \<forall>d \<in> set ds. d < 10 \<Longrightarrow> 0 \<le> r \<Longrightarrow> dec_value r ds < 2 ^ 31 \<Longrightarrow>
     atoi_from m s r = Some (dec_value r ds)"
proof (induction ds arbitrary: s r)
  case Nil
  then show ?case by (subst atoi_from.simps) simp
next
  case (Cons d ds)
  have v: "sint (dec_digit (of_nat d)) = int d + 0x30" "dec_digit (of_nat d) \<noteq> 0"
    using dec_digit_val [of d] Cons.prems(2) by simp_all
  have "r * 10 + int d \<le> dec_value (r * 10 + int d) ds" using Cons.prems(3) by (intro dec_value_mono) simp
  then have b: "r * 10 + int d < 2 ^ 31" using Cons.prems(4) by simp
  have "atoi_from m (Suc s) (r * 10 + int d) = Some (dec_value (r * 10 + int d) ds)"
    by (rule Cons.IH) (use Cons.prems in simp_all)
  then show ?case using Cons.prems(1,3) v b by (subst atoi_from.simps) (simp add: int_ok_def)
qed

lemma dec_value_digits: "dec_value 0 (rev (digits 10 n)) = int n"
proof -
  have "foldr (\<lambda>d v. v * 10 + int d) ds 0 = int (foldr (\<lambda>d v. d + 10 * v) ds 0)" for ds
    by (induction ds) simp_all
  then show ?thesis using digits_value [of 10 n] by (simp add: foldl_conv_foldr)
qed

lemma atoi_text:
  assumes "cstr m s (dec_text n)" "n < 2 ^ 31"
  shows "atoi m s = Some (int n)"
proof -
  define ds where "ds = (if n = 0 then [0] else rev (digits 10 n))"
  have "dec_text n = map (\<lambda>d. dec_digit (of_nat d)) ds" by (simp add: num_text_def ds_def rev_map dec_digit_def)
  moreover have "dec_value 0 ds = int n" using dec_value_digits [of n] by (simp add: ds_def)
  moreover have "\<forall>d \<in> set ds. d < 10" using digits_less [of 10 _ n] by (auto simp: ds_def)
  ultimately show ?thesis using atoi_from_ok [of m s ds 0] assms by (simp add: atoi_def)
qed

lemma kprintf_verbatim_from:
  "cstr m (format + i) bs \<Longrightarrow> 0x25 \<notin> set bs \<Longrightarrow>
     kvprintf_from m junk format (i + length bs) i args out = Some (i + length bs, out @ bs)"
proof (induction bs arbitrary: i out)
  case Nil
  then show ?case by (subst kvprintf_from.simps) simp
next
  case (Cons b bs)
  have "kvprintf_from m junk format (Suc i + length bs) (Suc i) args (out @ [b]) = Some (Suc i + length bs, (out @ [b]) @ bs)"
    by (rule Cons.IH) (use Cons.prems in simp_all)
  then show ?case using Cons.prems by (subst kvprintf_from.simps) simp
qed

lemma kprintf_verbatim:
  "cstr m format bs \<Longrightarrow> 0x25 \<notin> set bs \<Longrightarrow> kprintf m junk format args out = Some (length bs, out @ bs)"
  using kprintf_verbatim_from [of m format 0 bs] by (simp add: kprintf_def kvprintf_def strlen_ok)

text \<open>\<open>%d\<close> prints its argument as an unsigned number.\<close>

lemma kprintf_d_unsigned:
  assumes "cstr m format [0x25, 0x64]" "length junk = 32"
  shows "kprintf m junk format [a] out = Some (2, out @ dec_text (unat a))"
proof -
  have s: "strlen m format = Some (Suc (Suc 0))" using strlen_ok [OF assms(1)] by simp
  have "kvprintf_from m junk format (Suc (Suc 0)) (Suc (Suc 0)) [] (out @ dec_text (unat a)) = Some (Suc (Suc 0), out @ dec_text (unat a))"
    by (subst kvprintf_from.simps) simp
  then have "kprintf m junk format [a] out = Some (Suc (Suc 0), out @ dec_text (unat a))" using assms
    by (subst kprintf_def, subst kvprintf_def, subst kvprintf_from.simps)
      (simp add: s kvprintf_directive_def print_num_text)
  then show ?thesis by (simp add: numeral_2_eq_2)
qed

section \<open>Properties\<close>



end
