(* ===== verification/CmdLine.thy ===== *)
theory CmdLine
  imports SHeap
begin

text \<open>
  \<^verbatim>\<open>kernel/base/cmdline.c\<close>: the options on the boot command line. The line is the list of its
  bytes before the terminator. \<open>knew( sizeof( .. ))\<close> asks for the size of a size, four bytes, so
  every block here is of the smallest class of the kernel heap: what lies behind its first four
  bytes is not cleared (\<open>Junk\<close>), and a write behind the block is undefined.
\<close>

section \<open>Blocks and pointers\<close>

text \<open>The bytes that a request really gets: the block of its size class.\<close>

definition kcalloc_room :: "u32 \<Rightarrow> nat" where
  "kcalloc_room sz = unat (sheap_bits sz * (PAGE_SIZE div SLAB_MAX_BITS))"

definition sizeof_size_t :: u32 where "sizeof_size_t = 4"

definition knew_room :: nat where "knew_room = kcalloc_room sizeof_size_t"

datatype cell = Junk | Null | Str "u8 list"

record cmdline_opt =
  co_key :: cell
  co_value :: cell

definition junk_opt :: cmdline_opt where
  "junk_opt = \<lparr>co_key = Junk, co_value = Junk\<rparr>"

text \<open>An option takes eight bytes; the four bytes that are cleared are the first key.\<close>

definition new_opts :: "cmdline_opt list" where
  "new_opts = junk_opt\<lparr>co_key := Null\<rparr> # replicate (knew_room div 8 - 1) junk_opt"

definition set_key :: "nat \<Rightarrow> u8 list \<Rightarrow> cmdline_opt list \<Rightarrow> cmdline_opt list option" where
  "set_key k s opts = do { o1 \<leftarrow> read_at opts k; write_at opts k (o1\<lparr>co_key := Str s\<rparr>) }"

definition set_value :: "nat \<Rightarrow> u8 list \<Rightarrow> cmdline_opt list \<Rightarrow> cmdline_opt list option" where
  "set_value k s opts = do { o1 \<leftarrow> read_at opts k; write_at opts k (o1\<lparr>co_value := Str s\<rparr>) }"

section \<open>Parsing\<close>

text \<open>\<open>strncpy( knew( .. ), cmdline + pos, len )\<close> and the terminator at \<open>len\<close>.\<close>

definition copy_part :: "u8 list \<Rightarrow> nat \<Rightarrow> nat \<Rightarrow> u8 list option" where
  "copy_part cmdline pos len = (if len < knew_room then Some (take len (drop pos cmdline)) else None)"

definition TRUE_STR :: "u8 list" where
  "TRUE_STR = [0x74, 0x72, 0x75, 0x65]"

definition end_option :: "u8 list \<Rightarrow> nat \<Rightarrow> nat \<Rightarrow> nat \<Rightarrow> bool \<Rightarrow> cmdline_opt list \<Rightarrow> cmdline_opt list option" where
  "end_option cmdline i k pos has_val opts =
     do { s \<leftarrow> copy_part cmdline pos (i - pos);
          if \<not> has_val
          then do { opts1 \<leftarrow> set_key k s opts; set_value k TRUE_STR opts1 }
          else set_value k s opts }"

function parse_from :: "u8 list \<Rightarrow> nat \<Rightarrow> nat \<Rightarrow> nat \<Rightarrow> bool \<Rightarrow> cmdline_opt list \<Rightarrow> cmdline_opt list option" where
  "parse_from cmdline i k pos has_val opts =
     (if length cmdline \<le> i then end_option cmdline i k pos has_val opts
      else if cmdline ! i = 0x3d
      then do { s \<leftarrow> copy_part cmdline pos (i - pos);
                opts1 \<leftarrow> set_key k s opts;
                parse_from cmdline (Suc i) k (Suc i) True opts1 }
      else if cmdline ! i = 0x20
      then do { opts1 \<leftarrow> end_option cmdline i k pos has_val opts;
                parse_from cmdline (Suc i) (Suc k) (Suc i) False opts1 }
      else parse_from cmdline (Suc i) k pos has_val opts)"
  by pat_completeness auto
termination
  by (relation "measure (\<lambda>(cmdline, i, k, pos, has_val, opts). length cmdline - i)") auto

declare parse_from.simps [simp del]

definition parse_command_line :: "u8 list option \<Rightarrow> cmdline_opt list option option" where
  "parse_command_line cmdline =
     (case cmdline of
        None \<Rightarrow> Some None
      | Some line \<Rightarrow> do { opts \<leftarrow> parse_from line 0 0 0 False new_opts; Some (Some opts) })"

section \<open>Lookup\<close>

text \<open>Reading a cell that was never written is undefined.\<close>

function find_key :: "cmdline_opt list \<Rightarrow> u8 list \<Rightarrow> nat \<Rightarrow> nat option option" where
  "find_key opts key i =
     (if i < length opts
      then (case co_key (opts ! i) of
              Junk \<Rightarrow> None
            | Null \<Rightarrow> Some None
            | Str s \<Rightarrow> if s = key then Some (Some i) else find_key opts key (Suc i))
      else None)"
  by pat_completeness auto
termination
  by (relation "measure (\<lambda>(opts, key, i). length opts - i)") auto

declare find_key.simps [simp del]

definition opt_value :: "cmdline_opt list \<Rightarrow> nat option \<Rightarrow> cell" where
  "opt_value os r = (case r of None \<Rightarrow> Null | Some i \<Rightarrow> co_value (os ! i))"

definition cmdline_get :: "cmdline_opt list option \<Rightarrow> u8 list \<Rightarrow> cell option" where
  "cmdline_get opts key =
     (case opts of
        None \<Rightarrow> Some Null
      | Some os \<Rightarrow> do { r \<leftarrow> find_key os key 0;
                        Some (opt_value os r) })"

definition cmdline_has :: "cmdline_opt list option \<Rightarrow> u8 list \<Rightarrow> bool option" where
  "cmdline_has opts key =
     (case opts of None \<Rightarrow> Some False | Some os \<Rightarrow> map_option (\<lambda>r. r \<noteq> None) (find_key os key 0))"

section \<open>The options a line stands for\<close>

text \<open>Words are separated by spaces; \<open>key=value\<close> sets a value, a word without \<open>=\<close> is the value
  \<open>true\<close> of its key.\<close>

definition word_option :: "u8 list \<Rightarrow> u8 list \<times> u8 list" where
  "word_option w =
     (let ps = splits (\<lambda>x. x = 0x3d) w in
      if length ps = 1 then (w, TRUE_STR) else (ps ! (length ps - 2), last ps))"

definition line_options :: "u8 list \<Rightarrow> (u8 list \<times> u8 list) list" where
  "line_options line = map word_option (splits (\<lambda>x. x = 0x20) line)"

lemma knew_room_64 [simp]: "knew_room = 64"
  by code_simp

section \<open>The parser computes the options\<close>

text \<open>One option after the other, with the part read so far and the key that is pending.\<close>

definition finish :: "u8 list option \<Rightarrow> u8 list \<Rightarrow> u8 list \<times> u8 list" where
  "finish key cur = (case key of None \<Rightarrow> (cur, TRUE_STR) | Some k \<Rightarrow> (k, cur))"

fun scan :: "u8 list option \<Rightarrow> u8 list \<Rightarrow> u8 list \<Rightarrow> (u8 list \<times> u8 list) list" where
  "scan key cur [] = [finish key cur]"
| "scan key cur (x # xs) =
     (if x = 0x3d then scan (Some cur) [] xs
      else if x = 0x20 then finish key cur # scan None [] xs
      else scan key (cur @ [x]) xs)"

lemma scan_word_aux:
  assumes "\<forall>x \<in> set w. x \<noteq> 0x20" "\<forall>x \<in> set cur. x \<noteq> 0x3d"
  shows "scan key cur (w @ rest) =
    (let ps = splits (\<lambda>x. x = 0x3d) (cur @ w);
         key' = (if length ps = 1 then key else Some (ps ! (length ps - 2)))
     in scan key' (last ps) rest)"
  using assms
proof (induction w arbitrary: key cur)
  case Nil
  then show ?case by (simp add: splits_end)
next
  case (Cons x w)
  show ?case
  proof (cases "x = 0x3d")
    case True
    have sp: "splits (\<lambda>x. x = 0x3d) (cur @ x # w) = cur # splits (\<lambda>x. x = 0x3d) w"
      using Cons.prems(2) True by (intro splits_sep) simp_all
    obtain p ps where ps: "splits (\<lambda>x. x = 0x3d) w = p # ps" by (cases "splits (\<lambda>x. x = 0x3d) w") simp_all
    have "scan key cur ((x # w) @ rest) = scan (Some cur) [] (w @ rest)" using True by simp
    also have "\<dots> = (let ps = splits (\<lambda>x. x = 0x3d) ([] @ w);
         key' = (if length ps = 1 then Some cur else Some (ps ! (length ps - 2))) in scan key' (last ps) rest)"
      by (rule Cons.IH) (use Cons.prems in simp_all)
    finally show ?thesis unfolding sp by (cases ps) (simp_all add: ps Let_def nth_Cons')
  next
    case False
    then have "scan key cur ((x # w) @ rest) = scan key (cur @ [x]) (w @ rest)" using Cons.prems(1) by simp
    also have "\<dots> = (let ps = splits (\<lambda>x. x = 0x3d) ((cur @ [x]) @ w);
         key' = (if length ps = 1 then key else Some (ps ! (length ps - 2))) in scan key' (last ps) rest)"
      by (rule Cons.IH) (use Cons.prems False in simp_all)
    finally show ?thesis by simp
  qed
qed

lemma finish_word: "(let ps = splits (\<lambda>x. x = 0x3d) w;
    key' = (if length ps = 1 then None else Some (ps ! (length ps - 2))) in finish key' (last ps)) = word_option w"
proof (cases "\<forall>x \<in> set w. x \<noteq> 0x3d")
  case True
  then show ?thesis by (simp add: splits_end word_option_def finish_def)
next
  case False
  then have "0x3d \<in> set w" by auto
  then obtain u v where u: "w = u @ 0x3d # v" "0x3d \<notin> set u" by (meson split_list_first)
  then have "\<forall>x \<in> set u. x \<noteq> 0x3d" by auto
  then have "splits (\<lambda>x. x = 0x3d) w = u # splits (\<lambda>x. x = 0x3d) v" using u(1) by (simp add: splits_sep)
  then show ?thesis by (simp add: word_option_def finish_def Let_def)
qed

lemma scan_line: "scan None [] line = line_options line"
proof (induction "length line" arbitrary: line rule: less_induct)
  case less
  show ?case
  proof (cases "\<forall>x \<in> set line. x \<noteq> 0x20")
    case True
    then have "scan None [] line = [word_option line]"
      using scan_word_aux [where w = line and cur = "[]" and key = None and rest = "[]"] True finish_word [of line] by (simp add: Let_def)
    then show ?thesis using True by (simp add: line_options_def splits_end)
  next
    case False
    then have "0x20 \<in> set line" by auto
    then obtain w rest where wr: "line = w @ 0x20 # rest" "0x20 \<notin> set w" by (meson split_list_first)
    then have w: "line = w @ 0x20 # rest" "\<forall>x \<in> set w. x \<noteq> 0x20" by auto
    have "scan None [] line = word_option w # scan None [] rest"
      using scan_word_aux [where cur = "[]" and key = None and rest = "0x20 # rest", OF w(2)] finish_word [of w] w(1) by (simp add: Let_def)
    moreover have "scan None [] rest = line_options rest" using less w(1) by simp
    ultimately show ?thesis using w by (simp add: line_options_def splits_sep)
  qed
qed

text \<open>The table while the option at \<open>length os\<close> is pending.\<close>

definition str_opt :: "u8 list \<times> u8 list \<Rightarrow> cmdline_opt" where
  "str_opt o1 = \<lparr>co_key = Str (fst o1), co_value = Str (snd o1)\<rparr>"

lemma str_opt_simps [simp]: "co_key (str_opt o1) = Str (fst o1)" "co_value (str_opt o1) = Str (snd o1)"
  by (simp_all add: str_opt_def)

definition table :: "cmdline_opt list \<Rightarrow> u8 list option \<Rightarrow> cmdline_opt list" where
  "table os key = (case key of
     None \<Rightarrow> os @ drop (length os) new_opts
   | Some s \<Rightarrow> os @ (new_opts ! length os)\<lparr>co_key := Str s\<rparr> # drop (Suc (length os)) new_opts)"

lemma new_opts_length [simp]: "length new_opts = 8"
  by (simp add: new_opts_def)

lemma table_length [simp]: "length os < 8 \<Longrightarrow> length (table os key) = 8"
  by (cases key) (simp_all add: table_def)

lemma table_nth: "length os < 8 \<Longrightarrow> table os key ! length os =
    (case key of None \<Rightarrow> new_opts ! length os | Some s \<Rightarrow> (new_opts ! length os)\<lparr>co_key := Str s\<rparr>)"
  by (cases key) (simp_all add: table_def nth_append)

lemma table_update: "length os < 8 \<Longrightarrow> (table os key)[length os := v] = os @ v # drop (Suc (length os)) new_opts"
  by (cases key) (simp_all add: table_def list_update_append Cons_nth_drop_Suc [symmetric])

lemma set_key_table: "length os < 8 \<Longrightarrow> set_key (length os) s (table os key) = Some (table os (Some s))"
  by (cases key) (simp_all add: set_key_def table_nth table_update, simp_all add: table_def)

lemma finish_table:
  assumes "length os < 8"
  shows "do { opts1 \<leftarrow> set_key (length os) cur (table os None); set_value (length os) TRUE_STR opts1 }
      = Some (table (os @ [str_opt (cur, TRUE_STR)]) None)"
    and "set_value (length os) cur (table os (Some k)) = Some (table (os @ [str_opt (k, cur)]) None)"
proof -
  have v: "set_value (length os) s (table os (Some q)) = Some (table (os @ [str_opt (q, s)]) None)" for s q
    using assms by (simp add: set_value_def table_nth table_update) (simp add: table_def str_opt_def)
  show "do { opts1 \<leftarrow> set_key (length os) cur (table os None); set_value (length os) TRUE_STR opts1 }
      = Some (table (os @ [str_opt (cur, TRUE_STR)]) None)"
    using assms v by (simp add: set_key_table)
  show "set_value (length os) cur (table os (Some k)) = Some (table (os @ [str_opt (k, cur)]) None)" by (rule v)
qed

abbreviation is_sep :: "u8 \<Rightarrow> bool" where
  "is_sep x \<equiv> x = 0x20 \<or> x = 0x3d"

lemma end_option_table:
  assumes "length os < 8" "pos \<le> i" "take (i - pos) (drop pos cmd) = cur" "i - pos < 64"
  shows "end_option cmd i (length os) pos (key \<noteq> None) (table os key) = Some (table (os @ [str_opt (finish key cur)]) None)"
  using assms finish_table [OF assms(1)] by (cases key) (simp_all add: end_option_def copy_part_def finish_def)

lemma take_part_Suc: "pos \<le> i \<Longrightarrow> i < length cmd \<Longrightarrow> take (Suc i - pos) (drop pos cmd) = take (i - pos) (drop pos cmd) @ [cmd ! i]"
  by (simp add: Suc_diff_le take_Suc_conv_app_nth)

lemma parse_from_scan:
  assumes "pos \<le> i" "i \<le> length cmd" "take (i - pos) (drop pos cmd) = cur" "\<forall>x \<in> set cur. \<not> is_sep x"
    and "length os + length (splits (\<lambda>x. x = 0x20) (drop i cmd)) \<le> 8"
    and "\<forall>p \<in> set (splits is_sep (cur @ drop i cmd)). length p < 64"
  shows "parse_from cmd i (length os) pos (key \<noteq> None) (table os key) = Some (table (os @ map str_opt (scan key cur (drop i cmd))) None)"
  using assms
proof (induction "length cmd - i" arbitrary: i pos cur os key)
  case 0
  then have e: "i = length cmd" and c: "length cur = i - pos" by auto
  have "length cur < 64" using "0.prems"(4,6) e by (simp add: splits_end)
  then show ?case using 0 e c end_option_table [of os pos i cmd cur key] by (subst parse_from.simps) simp
next
  case (Suc n)
  then have i: "i < length cmd" and dr: "drop i cmd = cmd ! i # drop (Suc i) cmd" by (simp_all add: Cons_nth_drop_Suc)
  have c: "length cur = i - pos" using Suc.prems(1-3) by auto
  have os: "length os < 8" using Suc.prems(5) splits_not_Nil [of "\<lambda>x. x = 0x20" "drop i cmd"]
    by (cases "splits (\<lambda>x. x = 0x20) (drop i cmd)") simp_all
  have n: "n = length cmd - Suc i" using Suc.hyps(2) by simp
  consider (eq) "cmd ! i = 0x3d" | (sp) "cmd ! i = 0x20" | (other) "\<not> is_sep (cmd ! i)" by blast
  then show ?case
  proof cases
    case eq
    have sp: "splits is_sep (cur @ drop i cmd) = cur # splits is_sep (drop (Suc i) cmd)"
      unfolding dr by (rule splits_sep) (use Suc.prems(4) eq in simp_all)
    then have l: "length cur < 64" "\<forall>p \<in> set (splits is_sep (drop (Suc i) cmd)). length p < 64" using Suc.prems(6) by simp_all
    have "parse_from cmd (Suc i) (length os) (Suc i) (Some cur \<noteq> None) (table os (Some cur))
        = Some (table (os @ map str_opt (scan (Some cur) [] (drop (Suc i) cmd))) None)"
      by (rule Suc.hyps(1) [OF n]) (use i l(2) Suc.prems(5) dr eq in simp_all)
    then show ?thesis using i eq l(1) c Suc.prems(3) os
      by (subst parse_from.simps) (simp add: copy_part_def set_key_table dr)
  next
    case sp
    have s: "splits is_sep (cur @ drop i cmd) = cur # splits is_sep (drop (Suc i) cmd)"
      unfolding dr by (rule splits_sep) (use Suc.prems(4) sp in simp_all)
    then have l: "length cur < 64" "\<forall>p \<in> set (splits is_sep (drop (Suc i) cmd)). length p < 64" using Suc.prems(6) by simp_all
    let ?os = "os @ [str_opt (finish key cur)]"
    have "parse_from cmd (Suc i) (length ?os) (Suc i) (None \<noteq> (None :: u8 list option)) (table ?os None)
        = Some (table (?os @ map str_opt (scan None [] (drop (Suc i) cmd))) None)"
      by (rule Suc.hyps(1) [OF n]) (use i l(2) Suc.prems(5) dr sp in simp_all)
    moreover have "end_option cmd i (length os) pos (key \<noteq> None) (table os key) = Some (table ?os None)"
      by (rule end_option_table [OF os Suc.prems(1,3)]) (use l(1) c in simp)
    ultimately show ?thesis using i sp by (subst parse_from.simps) (simp add: dr)
  next
    case other
    have "parse_from cmd (Suc i) (length os) pos (key \<noteq> None) (table os key)
        = Some (table (os @ map str_opt (scan key (cur @ [cmd ! i]) (drop (Suc i) cmd))) None)"
    proof (rule Suc.hyps(1) [OF n])
      show "take (Suc i - pos) (drop pos cmd) = cur @ [cmd ! i]" using take_part_Suc [OF Suc.prems(1) i] Suc.prems(3) by simp
    qed (use Suc.prems i dr other in simp_all)
    then show ?thesis using i other by (subst parse_from.simps) (simp add: dr)
  qed
qed

lemma parse_command_line_table:
  assumes "length (splits (\<lambda>x. x = 0x20) line) \<le> 8" "\<forall>p \<in> set (splits is_sep line). length p < 64"
  shows "parse_command_line (Some line) = Some (Some (table (map str_opt (line_options line)) None))"
  using parse_from_scan [of 0 0 line "[]" "[]" None] assms
  by (simp add: parse_command_line_def scan_line) (simp add: table_def)

section \<open>Properties\<close>

lemma find_key_ok:
  assumes "\<forall>o1 \<in> set rest. co_key o1 = Junk"
  shows "do { r \<leftarrow> find_key (pre @ map str_opt os @ rest) key (length pre);
              Some (opt_value (pre @ map str_opt os @ rest) r) }
    = map_option Str (map_of os key)"
proof (induction os arbitrary: pre)
  case Nil
  then show ?case using assms by (subst find_key.simps) (cases rest; simp add: nth_append)
next
  case (Cons o1 os)
  have "pre @ map str_opt (o1 # os) @ rest = (pre @ [str_opt o1]) @ map str_opt os @ rest" by simp
  then show ?case using Cons.IH [of "pre @ [str_opt o1]"]
    by (subst find_key.simps) (cases o1; simp add: nth_append opt_value_def)
qed

lemma new_opts_junk: "0 < n \<Longrightarrow> \<forall>o1 \<in> set (drop n new_opts). co_key o1 = Junk"
  by (cases n) (auto simp: new_opts_def junk_opt_def dest: in_set_dropD)

text \<open>C5. Parsing a command line of at most eight words, each key and value shorter than 64
  characters, and looking a key up gives the value of the first word with this key, as if the
  line had been cut at the spaces and at the equal signs. The result is undefined (None) exactly
  for the keys that are not on the line: the table is not terminated.\<close>

theorem cmdline_get_equiv:
  assumes "length (splits (\<lambda>x. x = 0x20) line) \<le> 8"
    and "\<forall>p \<in> set (splits (\<lambda>x. x = 0x20 \<or> x = 0x3d) line). length p < 64"
  shows "do { opts \<leftarrow> parse_command_line (Some line); cmdline_get opts key }
    = map_option Str (map_of (line_options line) key)"
proof -
  have "0 < length (line_options line)" by (simp add: line_options_def)
  from find_key_ok [OF new_opts_junk [OF this], of "[]" "line_options line" key] show ?thesis
    using parse_command_line_table [OF assms] by (simp add: cmdline_get_def table_def)
qed

text \<open>The line \<open>root=a b\<close>.\<close>

definition sample_line :: "u8 list" where
  "sample_line = [0x72, 0x6f, 0x6f, 0x74, 0x3d, 0x61, 0x20, 0x62]"

lemma cmdline_get_equiv_witness:
  "do { opts \<leftarrow> parse_command_line (Some sample_line); cmdline_get opts [0x72, 0x6f, 0x6f, 0x74] } = Some (Str [0x61])
    \<and> do { opts \<leftarrow> parse_command_line (Some sample_line); cmdline_get opts [0x62] } = Some (Str TRUE_STR)
    \<and> do { opts \<leftarrow> parse_command_line (Some sample_line); cmdline_get opts [0x61] } = None"
  using cmdline_get_equiv [of sample_line "[0x72, 0x6f, 0x6f, 0x74]"] cmdline_get_equiv [of sample_line "[0x62]"]
    cmdline_get_equiv [of sample_line "[0x61]"]
  by (simp add: sample_line_def line_options_def word_option_def)

end
