(* ===== verification/Initrd.thy ===== *)
theory Initrd
  imports Logger DList
begin

text \<open>
  \<^verbatim>\<open>kernel/base/initrd.c\<close>: the initial RAM disk, a tar archive in memory. A header takes 512 bytes
  and is known by its address; the file name is at its start and the size, an octal number in
  text, 124 bytes behind it. \<open>headers\<close> is the table of the addresses of the headers.
\<close>

section \<open>Model\<close>

definition TAR_HEADER :: nat where "TAR_HEADER = 512"
definition TAR_SIZE_FIELD :: nat where "TAR_SIZE_FIELD = 124"

record initrd =
  ird_firsthead :: nat
  ird_headers :: "nat dlist"

text \<open>\<open>for ( ret = 0, i = 1, k = oct; k; k /= 10, i *= 8 ) ret += ( k % 10 ) * i\<close>.\<close>

fun octal_loop :: "nat \<Rightarrow> u32 \<Rightarrow> u32 \<Rightarrow> u32" where
  "octal_loop k i ret = (if k = 0 then ret else octal_loop (k div 10) (i * 8) (ret + of_nat (k mod 10) * i))"

declare octal_loop.simps [simp del]

definition octal_to_dec :: "int \<Rightarrow> u32" where
  "octal_to_dec oct = octal_loop (u32_of_int oct) 1 0"

definition initrd_get_size :: "memory \<Rightarrow> nat \<Rightarrow> u32 option" where
  "initrd_get_size m header = map_option octal_to_dec (atoi m (header + TAR_SIZE_FIELD))"

definition tar_next :: "nat \<Rightarrow> u32 \<Rightarrow> nat" where
  "tar_next move sz = move + TAR_HEADER * (unat sz div TAR_HEADER + 1) + (if 1 < unat sz mod TAR_HEADER then TAR_HEADER else 0)"

partial_function (option) initrd_walk :: "memory \<Rightarrow> nat \<Rightarrow> nat dlist \<Rightarrow> nat dlist option" where
  "initrd_walk m move headers =
     do { c \<leftarrow> m move;
          if c = 0 then Some headers
          else do { sz \<leftarrow> initrd_get_size m move;
                    (headers', meh) \<leftarrow> dlist_add headers (Some move);
                    initrd_walk m (tar_next move sz) headers' } }"

declare initrd_walk.simps [code]

definition init_initrd :: "memory \<Rightarrow> nat \<Rightarrow> initrd option option" where
  "init_initrd m header =
     (if header = 0 then Some None
      else do { hs \<leftarrow> initrd_walk m header (dlist_create 0 0);
                Some (Some \<lparr>ird_firsthead = header, ird_headers = hs\<rparr>) })"

definition initrd_get :: "initrd \<Rightarrow> int \<Rightarrow> nat option option" where
  "initrd_get rd index = dlist_get (ird_headers rd) index"

text \<open>The name of the null header is read at address 0.\<close>

function initrd_find :: "memory \<Rightarrow> initrd \<Rightarrow> nat \<Rightarrow> nat \<Rightarrow> nat option option" where
  "initrd_find m rd name i =
     (if i < dlist_allocated (ird_headers rd)
      then do { h \<leftarrow> initrd_get rd (int i);
                let move = (case h of None \<Rightarrow> 0 | Some a \<Rightarrow> a);
                r \<leftarrow> strcmp m move name;
                if r = 0 then Some (Some move) else initrd_find m rd name (Suc i) }
      else Some None)"
  by pat_completeness auto
termination
  by (relation "measure (\<lambda>(m, rd, name, i). dlist_allocated (ird_headers rd) - i)") auto

declare initrd_find.simps [simp del]

definition initrd_get_file :: "memory \<Rightarrow> initrd \<Rightarrow> nat \<Rightarrow> nat option option" where
  "initrd_get_file m rd name = initrd_find m rd name 0"

section \<open>Octal numbers in text\<close>

abbreviation oct_value :: "nat list \<Rightarrow> nat" where
  "oct_value \<equiv> foldl (\<lambda>v d. v * 8 + d) 0"

abbreviation dec_nat :: "nat list \<Rightarrow> nat" where
  "dec_nat \<equiv> foldl (\<lambda>v d. v * 10 + d) 0"

lemma oct_dec_bound: "\<forall>d \<in> set ds. d < 8 \<Longrightarrow> oct_value ds < 8 ^ k \<Longrightarrow> dec_nat ds < 10 ^ k"
proof (induction ds arbitrary: k rule: rev_induct)
  case (snoc d ds)
  show ?case
  proof (cases k)
    case 0
    then have "oct_value ds < 8 ^ 0" "d = 0" using snoc.prems(2) by simp_all
    then have "dec_nat ds < 10 ^ 0" using snoc.IH [of 0] snoc.prems(1) by simp
    then show ?thesis using 0 \<open>d = 0\<close> by simp
  next
    case (Suc j)
    then have "oct_value ds < 8 ^ j" using snoc.prems(2) by simp
    then have "dec_nat ds < 10 ^ j" using snoc.IH [of j] snoc.prems(1) by simp
    then show ?thesis using Suc snoc.prems(1) by simp
  qed
qed simp

lemma dec_nat_0: "dec_nat ds = 0 \<Longrightarrow> oct_value ds = 0"
  by (induction ds rule: rev_induct) simp_all

lemma octal_loop_ok: "\<forall>d \<in> set ds. d < 8 \<Longrightarrow> octal_loop (dec_nat ds) i ret = ret + of_nat (oct_value ds) * i"
  for i ret :: u32
proof (induction ds arbitrary: i ret rule: rev_induct)
  case Nil
  then show ?case by (simp add: octal_loop.simps)
next
  case (snoc d ds)
  have d: "d < 8" "\<forall>d \<in> set ds. d < 8" using snoc.prems by simp_all
  show ?case
  proof (cases "dec_nat (ds @ [d]) = 0")
    case True
    then show ?thesis using dec_nat_0 [of ds] by (simp add: octal_loop.simps)
  next
    case False
    have "octal_loop (dec_nat (ds @ [d])) i ret = octal_loop (dec_nat ds) (i * 8) (ret + of_nat d * i)"
    proof -
      have "dec_nat (ds @ [d]) div 10 = dec_nat ds" "dec_nat (ds @ [d]) mod 10 = d" using d(1) by simp_all
      then show ?thesis using False by (subst octal_loop.simps) (simp only: if_False)
    qed
    then show ?thesis using snoc.IH [OF d(2)] by (simp add: algebra_simps)
  qed
qed

lemma dec_value_nat: "dec_value 0 ds = int (dec_nat ds)"
proof -
  have "dec_value (int v) ds = int (foldl (\<lambda>v d. v * 10 + d) v ds)" for v
  proof (induction ds arbitrary: v)
    case (Cons d ds)
    have "int v * 10 + int d = int (v * 10 + d)" by simp
    then show ?case using Cons.IH [of "v * 10 + d"] by (simp only: foldl_Cons)
  qed simp
  from this [of 0] show ?thesis by simp
qed

lemma octal_field:
  assumes "cstr m a (map (\<lambda>d. dec_digit (of_nat d)) ds)" "\<forall>d \<in> set ds. d < 8" "oct_value ds < 8 ^ 9"
  shows "map_option octal_to_dec (atoi m a) = Some (of_nat (oct_value ds))"
proof -
  have b: "dec_nat ds < 10 ^ 9" by (rule oct_dec_bound [OF assms(2,3)])
  have "atoi m a = Some (int (dec_nat ds))"
    unfolding atoi_def dec_value_nat [symmetric]
    by (rule atoi_from_ok [OF assms(1)]) (use assms(2) b dec_value_nat in auto)
  moreover have "u32_of_int (int (dec_nat ds)) = dec_nat ds" using b by simp
  ultimately show ?thesis using octal_loop_ok [OF assms(2), of 1 0] by (simp add: octal_to_dec_def)
qed

section \<open>Archives in memory\<close>

text \<open>\<open>tar_at m a files\<close>: at \<open>a\<close> lie the headers and contents of \<open>files\<close>, each content padded to
  whole blocks, then an empty name.\<close>

fun tar_at :: "memory \<Rightarrow> nat \<Rightarrow> (u8 list \<times> u8 list) list \<Rightarrow> bool" where
  "tar_at m a [] \<longleftrightarrow> m a = Some 0"
| "tar_at m a ((name, data) # files) \<longleftrightarrow>
     name \<noteq> [] \<and> cstr m a name \<and> bytes_at m (a + 512) data
     \<and> (\<exists>ds. (\<forall>d \<in> set ds. d < 8) \<and> oct_value ds = length data \<and> cstr m (a + 124) (map (\<lambda>d. dec_digit (of_nat d)) ds))
     \<and> length data < 8 ^ 9
     \<and> tar_at m (a + 512 + 512 * ((length data + 511) div 512)) files"

fun tar_addrs :: "nat \<Rightarrow> (u8 list \<times> u8 list) list \<Rightarrow> nat list" where
  "tar_addrs a [] = []"
| "tar_addrs a ((name, data) # files) = a # tar_addrs (a + 512 + 512 * ((length data + 511) div 512)) files"

lemma tar_next_ok:
  assumes "n < 8 ^ 9" "n mod 512 \<noteq> 1"
  shows "tar_next a (of_nat n) = a + 512 + 512 * ((n + 511) div 512)"
proof -
  have u: "unat (of_nat n :: u32) = n" using assms(1) by (intro unat_of_nat_small) simp
  define q where "q = n div 512"
  define r where "r = n mod 512"
  have n: "n = 512 * q + r" "r < 512" by (simp_all add: q_def r_def)
  have "(512 * q + r + 511) div 512 = q + (r + 511) div 512" by simp
  moreover have "(r + 511) div 512 = (if r = 0 then 0 else 1)" using n(2) by (auto simp: div_eq_dividend_iff)
  moreover have "tar_next a (of_nat n) = a + 512 * (q + 1) + (if 1 < r then 512 else 0)"
    by (simp only: tar_next_def u TAR_HEADER_def q_def r_def)
  ultimately show ?thesis using n assms(2) by (simp add: r_def [symmetric])
qed

text \<open>A size of one above a whole number of blocks is taken for a whole number: the next header is
  looked for in the last block of the content.\<close>

lemma tar_next_one_short:
  assumes "n < 8 ^ 9" "n mod 512 = 1"
  shows "tar_next a (of_nat n) = a + 512 * ((n + 511) div 512)"
proof -
  have u: "unat (of_nat n :: u32) = n" using assms(1) by (intro unat_of_nat_small) simp
  define q where "q = n div 512"
  have n: "n = 512 * q + 1" using assms(2) unfolding q_def by (metis div_mult_mod_eq mult.commute)
  have "tar_next a (of_nat n) = a + 512 * (q + 1) + (if 1 < n mod 512 then 512 else 0)"
    by (simp only: tar_next_def u TAR_HEADER_def q_def)
  then show ?thesis using assms(2) n by simp
qed

section \<open>The table of headers\<close>

definition header_table :: "nat dlist \<Rightarrow> nat list \<Rightarrow> bool" where
  "header_table hs as \<longleftrightarrow> dlist_wf hs \<and> dl_block_size hs = 8 \<and> dl_alloced hs \<le> 8 * (length as + 1)
     \<and> length as < dl_alloced hs
     \<and> (\<forall>i. dlist_lookup hs i = (if i < length as then Some (as ! i) else None))"

lemma dlist_add_spare:
  assumes "dlist_wf l" "2 \<le> dl_block_size l" "dlist_add l d = Some (l', i)"
  shows "Suc i < dl_alloced l'"
proof -
  have len: "length (dl_entries l) = dl_alloced l" "0 < dl_alloced l"
    using assms(1) dlist_wf_alloced_pos by (auto simp: dlist_wf_def)
  obtain k where k: "dlist_find_free (dl_entries l) (dl_alloced l) 0 = Some k" "k \<le> dl_alloced l"
    using dlist_find_free_ok [OF len(1), of 0] by auto
  show ?thesis
    using assms(2,3) k len(2) by (auto simp: dlist_add_def Let_def split: if_splits elim!: bind_SomeE)
qed

lemma header_table_add:
  assumes "header_table hs as"
  shows "\<exists>hs' i. dlist_add hs (Some a) = Some (hs', i) \<and> header_table hs' (as @ [a])"
proof -
  have h: "dlist_wf hs" "dl_block_size hs = 8" "dl_alloced hs \<le> 8 * (length as + 1)"
    "\<And>i. dlist_lookup hs i = (if i < length as then Some (as ! i) else None)"
    using assms by (simp_all add: header_table_def)
  from dlist_add_ok [OF h(1), of "Some a"] obtain hs' i where d: "dlist_add hs (Some a) = Some (hs', i)" "dlist_wf hs'"
    "dlist_lookup hs i = None" "\<forall>k < i. dlist_lookup hs k \<noteq> None" "dlist_lookup hs' = (dlist_lookup hs)(i := Some a)"
    "dl_alloced hs' \<le> dl_alloced hs + dl_block_size hs" "dl_block_size hs' = dl_block_size hs" by blast
  have "\<not> i < length as" using d(3) h(4) by auto
  moreover have "\<not> length as < i" using d(4) h(4) by auto
  ultimately have i: "i = length as" by simp
  have "length (as @ [a]) < dl_alloced hs'" using dlist_add_spare [OF h(1) _ d(1)] h(2) i by simp
  moreover have "dlist_lookup hs' j = (if j < length (as @ [a]) then Some ((as @ [a]) ! j) else None)" for j
    using d(5) h(4) i by (auto simp: nth_append)
  ultimately have "header_table hs' (as @ [a])" using d(2,6,7) h(2,3) by (simp add: header_table_def)
  then show ?thesis using d(1) by blast
qed

lemma header_table_create: "header_table (dlist_create 0 0) []"
  by (simp add: header_table_def)

lemma tar_size:
  assumes "tar_at m a ((name, data) # files)"
  shows "initrd_get_size m a = Some (of_nat (length data))"
proof -
  obtain ds where ds: "\<forall>d \<in> set ds. d < 8" "oct_value ds = length data" "cstr m (a + 124) (map (\<lambda>d. dec_digit (of_nat d)) ds)"
    and l: "length data < 8 ^ 9" using assms by auto
  have "oct_value ds < 8 ^ 9" using ds(2) l by simp
  from octal_field [OF ds(3,1) this] ds(2) show ?thesis by (simp add: initrd_get_size_def TAR_SIZE_FIELD_def)
qed

lemma initrd_walk_ok:
  assumes "tar_at m a files" "\<forall>f \<in> set files. length (snd f) mod 512 \<noteq> 1" "header_table hs as"
  shows "\<exists>hs'. initrd_walk m a hs = Some hs' \<and> header_table hs' (as @ tar_addrs a files)"
  using assms
proof (induction m a files arbitrary: hs as rule: tar_at.induct)
  case (1 m a)
  then show ?case by (subst initrd_walk.simps) simp
next
  case (2 m a name data files)
  let ?n = "a + 512 + 512 * ((length data + 511) div 512)"
  obtain hs' i where h: "dlist_add hs (Some a) = Some (hs', i)" "header_table hs' (as @ [a])"
    using header_table_add [OF "2.prems"(3)] by blast
  have "tar_at m ?n files" "\<forall>f \<in> set files. length (snd f) mod 512 \<noteq> 1" using "2.prems"(1,2) by simp_all
  from "2.IH" [OF this h(2)] obtain hs2 where hs2: "initrd_walk m ?n hs' = Some hs2"
    "header_table hs2 ((as @ [a]) @ tar_addrs ?n files)" by blast
  obtain c where c: "m a = Some c" "c \<noteq> 0" using "2.prems"(1) by (cases name) auto
  have "tar_next a (of_nat (length data)) = ?n" using "2.prems"(1,2) by (intro tar_next_ok) simp_all
  then have "initrd_walk m a hs = Some hs2"
    using c h(1) hs2(1) tar_size [OF "2.prems"(1)] by (subst initrd_walk.simps) simp
  then show ?case using hs2(2) by simp
qed

section \<open>Properties\<close>

fun tar_lookup :: "nat \<Rightarrow> (u8 list \<times> u8 list) list \<Rightarrow> u8 list \<Rightarrow> nat option" where
  "tar_lookup a [] name = None"
| "tar_lookup a ((n, data) # files) name =
     (if n = name then Some a else tar_lookup (a + 512 + 512 * ((length data + 511) div 512)) files name)"

lemma tar_addrs_length [simp]: "length (tar_addrs a files) = length files"
  by (induction a files rule: tar_addrs.induct) simp_all

lemma header_table_get:
  assumes "header_table (ird_headers rd) as" "i \<le> length as" "length as < 2 ^ 26"
  shows "initrd_get rd (int i) = Some (if i < length as then Some (as ! i) else None)" "i < dlist_allocated (ird_headers rd)"
  using assms dlist_get_nat [of "ird_headers rd" i] by (simp_all add: header_table_def initrd_get_def dlist_allocated_def)

lemma initrd_find_ok:
  "cstr m p name \<Longrightarrow> m 0 = None \<Longrightarrow> tar_at m a files \<Longrightarrow> header_table (ird_headers rd) (pre @ tar_addrs a files) \<Longrightarrow> length pre + length files < 2 ^ 26 \<Longrightarrow>
    initrd_find m rd p (length pre) = map_option Some (tar_lookup a files name)"
proof (induction m a files arbitrary: pre rule: tar_at.induct)
  case (1 m a)
  have "strcmp m 0 p = None" using "1.prems"(2) by (simp add: strcmp_def strcmp_from.simps)
  then show ?case using header_table_get [OF "1.prems"(4), of "length pre"] "1.prems"(5)
    by (subst initrd_find.simps) simp
next
  case (2 m a n data files)
  have g: "initrd_get rd (int (length pre)) = Some (Some a)" "length pre < dlist_allocated (ird_headers rd)"
    using header_table_get [OF "2.prems"(4), of "length pre"] "2.prems"(5) by (simp_all add: nth_append)
  have "cstr m a n" using "2.prems"(3) by simp
  from strcmp_ok [OF this] have c: "strcmp m a p = Some (diff_count n name)" using "2.prems"(1) by simp
  let ?n = "a + 512 + 512 * ((length data + 511) div 512)"
  have "initrd_find m rd p (length (pre @ [a])) = map_option Some (tar_lookup ?n files name)"
    by (rule "2.IH") (use "2.prems" in simp_all)
  then show ?case using g c by (subst initrd_find.simps) (simp add: diff_count_0_iff)
qed

lemma tar_lookup_ok:
  assumes "tar_at m a files" "tar_lookup a files name = Some h"
  shows "\<exists>data. map_of files name = Some data \<and> bytes_at m (h + 512) data \<and> initrd_get_size m h = Some (of_nat (length data))"
  using assms
proof (induction m a files rule: tar_at.induct)
  case (2 m a n data files)
  show ?case
  proof (cases "n = name")
    case True
    then show ?thesis using "2.prems" tar_size [OF "2.prems"(1)] by auto
  next
    case False
    then show ?thesis using "2.IH" "2.prems" by auto
  qed
qed simp

lemma tar_lookup_None: "tar_lookup a files name = None \<longleftrightarrow> map_of files name = None"
  by (induction a files name rule: tar_lookup.induct) auto

text \<open>C6. Of an archive whose file sizes are not one above a whole number of blocks,
  \<open>init_initrd\<close> builds a table with which \<open>initrd_get_file\<close> returns the header of the first
  file of a name, in front of its content and with its size. For a name that is not in the
  archive it reads through a null header, which is undefined.\<close>

theorem initrd_finds_files:
  assumes "tar_at m a files" "\<forall>f \<in> set files. length (snd f) mod 512 \<noteq> 1" "a \<noteq> 0" "length files < 2 ^ 26"
    and "cstr m p name" "m 0 = None"
  shows "\<exists>rd. init_initrd m a = Some (Some rd) \<and>
    (case map_of files name of
       None \<Rightarrow> initrd_get_file m rd p = None
     | Some data \<Rightarrow> \<exists>h. initrd_get_file m rd p = Some (Some h) \<and> bytes_at m (h + 512) data
                      \<and> initrd_get_size m h = Some (of_nat (length data)))"
proof -
  obtain hs where hs: "initrd_walk m a (dlist_create 0 0) = Some hs" "header_table hs (tar_addrs a files)"
    using initrd_walk_ok [OF assms(1,2) header_table_create] by auto
  let ?rd = "\<lparr>ird_firsthead = a, ird_headers = hs\<rparr>"
  have f: "initrd_get_file m ?rd p = map_option Some (tar_lookup a files name)"
    using initrd_find_ok [OF assms(5,6,1), of ?rd "[]"] hs(2) assms(4) by (simp add: initrd_get_file_def)
  have i: "init_initrd m a = Some (Some ?rd)" using hs(1) assms(3) by (simp add: init_initrd_def)
  show ?thesis
  proof (cases "tar_lookup a files name")
    case None
    then show ?thesis using f i tar_lookup_None [of a files name] by simp
  next
    case (Some h)
    then show ?thesis using f i tar_lookup_ok [OF assms(1) Some] by auto
  qed
qed

text \<open>An archive at address 4096 with the file \<open>a\<close> of two bytes.\<close>

definition sample_tar :: memory where
  "sample_tar = (\<lambda>_. Some 0)(0 := None, 4096 := Some 0x61, 4220 := Some 0x32, 4608 := Some 1, 4609 := Some 2, 9000 := Some 0x61)"

lemma initrd_finds_files_witness:
  "\<exists>rd h. init_initrd sample_tar 4096 = Some (Some rd) \<and> initrd_get_file sample_tar rd 9000 = Some (Some h)
    \<and> bytes_at sample_tar (h + 512) [1, 2] \<and> initrd_get_size sample_tar h = Some 2"
proof -
  have "\<exists>ds. (\<forall>d \<in> set ds. d < 8) \<and> oct_value ds = 2 \<and> cstr sample_tar 4220 (map (\<lambda>d. dec_digit (of_nat d)) ds)"
    by (rule exI [of _ "[2]"]) (simp add: sample_tar_def dec_digit_def)
  then have t: "tar_at sample_tar 4096 [([0x61], [1, 2])]"
    by (simp add: numeral_2_eq_2 [symmetric]) (simp add: sample_tar_def)
  have "cstr sample_tar 9000 [0x61]" "sample_tar 0 = None" by (simp_all add: sample_tar_def)
  from initrd_finds_files [OF t _ _ _ this] show ?thesis by auto
qed

end
