(* ===== verification/FatFS.thy ===== *)
theory FatFS
  imports VFS HashMap
begin

text \<open>
  \<^verbatim>\<open>kernel/modules/fatfs\<close>: the FAT file system driver. The boot sector, directory entries and
  the allocation table are read from the bytes that the device's own \<open>read\<close> function delivers,
  which is found through the table of functions as every other file's is. A buffer is the list of
  its bytes, cleared when it is allocated; an access behind it is \<open>None\<close>. The inodes in use are a
  hash map from the first sector of a file to the address of its cached directory entry.
\<close>

section \<open>Bytes\<close>

definition string_bytes :: "string \<Rightarrow> u8 list" where
  "string_bytes s = map of_char s"

definition bytes_string :: "u8 list \<Rightarrow> string" where
  "bytes_string bs = map (\<lambda>b. char_of (unat b)) bs"

section \<open>Types\<close>

datatype fat_type = FAT_TYPE_NULL | FAT_TYPE_12 | FAT_TYPE_16 | FAT_TYPE_32

definition FAT_ATTR_LONGNAME :: u8 where "FAT_ATTR_LONGNAME = 0x0f"
definition FAT_ATTR_DIRECTORY :: u8 where "FAT_ATTR_DIRECTORY = 0x10"
definition FAT_ATTR_ARCHIVE :: u8 where "FAT_ATTR_ARCHIVE = 0x20"
definition FAT12_CLUSTER_BAD :: u32 where "FAT12_CLUSTER_BAD = 0xff7"
definition FAT16_CLUSTER_BAD :: u32 where "FAT16_CLUSTER_BAD = 0xfff7"
definition FAT32_CLUSTER_BAD :: u32 where "FAT32_CLUSTER_BAD = 0x0ffffff7"

text \<open>The boot sector: the fields of \<open>fatfs_bpb_t\<close> that the driver uses and those behind it that
  only FAT32 has, at their offsets in the packed structure.\<close>

record fatfs_bpb =
  bpb_bytes_per_sect :: u16
  bpb_sect_per_clus :: u8
  bpb_reserved_sects :: u16
  bpb_fats :: u8
  bpb_dirents :: u16
  bpb_sectors :: u16
  bpb_sects_per_fat :: u16
  ebr_sects_per_fat :: u32
  ebr_root_clus :: u32

definition read_bpb :: "u8 list \<Rightarrow> fatfs_bpb option" where
  "read_bpb bs =
     do { bps \<leftarrow> le16 bs 11; spc \<leftarrow> read_at bs 13; res \<leftarrow> le16 bs 14; fats \<leftarrow> read_at bs 16;
          dirents \<leftarrow> le16 bs 17; sects \<leftarrow> le16 bs 19; spf \<leftarrow> le16 bs 22; spf32 \<leftarrow> le32 bs 36; root \<leftarrow> le32 bs 44;
          Some \<lparr>bpb_bytes_per_sect = bps, bpb_sect_per_clus = spc, bpb_reserved_sects = res, bpb_fats = fats,
                bpb_dirents = dirents, bpb_sectors = sects, bpb_sects_per_fat = spf,
                ebr_sects_per_fat = spf32, ebr_root_clus = root\<rparr> }"

record fatfs_dirent =
  fde_name :: "u8 list"
  fde_attributes :: u8
  fde_cluster_high :: u16
  fde_cluster_low :: u16
  fde_size :: u32

definition read_dirent :: "u8 list \<Rightarrow> nat \<Rightarrow> fatfs_dirent option" where
  "read_dirent bs i =
     (let e = take 32 (drop (32 * i) bs) in
      if length e < 32 then None
      else do { attr \<leftarrow> read_at e 11; hi \<leftarrow> le16 e 20; lo \<leftarrow> le16 e 26; sz \<leftarrow> le32 e 28;
                Some \<lparr>fde_name = take 11 e, fde_attributes = attr, fde_cluster_high = hi,
                      fde_cluster_low = lo, fde_size = sz\<rparr> })"

record fatfs_dircache =
  dc_dir :: fatfs_dirent
  dc_references :: u32

record fatfs_device =
  fat_device_node :: file_node
  fat_type :: fat_type
  fat_inode_map :: hashmap
  fat_bpb :: fatfs_bpb

record fatdev =
  fv_devs :: "nat \<Rightarrow> fatfs_device option"
  fv_heap :: "nat lheap"
  fv_caches :: "nat \<Rightarrow> fatfs_dircache option"

type_synonym 'x fatvfs = "'x fatdev_scheme vfs"

section \<open>The device\<close>

text \<open>\<open>VFS_FUNCTION(( &dev->device_node ), read, buf, n, offset )\<close> into a cleared buffer of \<open>n\<close> bytes.\<close>

definition device_read ::
  "'x fatdev_scheme func_table \<Rightarrow> 'x fatvfs \<Rightarrow> file_node \<Rightarrow> nat \<Rightarrow> u32 \<Rightarrow> ('x fatvfs \<times> u8 list) option" where
  "device_read tbl s node n offset =
     do { f \<leftarrow> VFS_FUNCTION tbl ff_read s node;
          (case f of
             None \<Rightarrow> Some (s, replicate n 0)
           | Some g \<Rightarrow> do { (s', r, bs) \<leftarrow> g s node (of_nat n) offset;
                           if n < length bs then None else Some (s', bs @ replicate (n - length bs) 0) }) }"

section \<open>Clusters and sectors\<close>

definition cluster_size :: "fatfs_device \<Rightarrow> u32" where
  "cluster_size dev = ucast (bpb_bytes_per_sect (fat_bpb dev)) * ucast (bpb_sect_per_clus (fat_bpb dev))"

definition fatfs_relclus_to_sect_fat32 :: "fatfs_device \<Rightarrow> u32 \<Rightarrow> u32" where
  "fatfs_relclus_to_sect_fat32 dev cluster =
     (let b = fat_bpb dev;
          first_sect = ucast (bpb_reserved_sects b) + ucast (bpb_fats b) * ebr_sects_per_fat b
      in (cluster - ebr_root_clus b) * ucast (bpb_sect_per_clus b) + first_sect)"

definition fatfs_relclus_to_sect_fat12_16 :: "fatfs_device \<Rightarrow> u32 \<Rightarrow> u32 option" where
  "fatfs_relclus_to_sect_fat12_16 dev cluster =
     (let b = fat_bpb dev;
          first_data_sector = ucast (bpb_reserved_sects b) + ucast (bpb_fats b) * ucast (bpb_sects_per_fat b)
      in if 2 < cluster
         then if bpb_bytes_per_sect b = 0 then None
              else Some ((cluster - 2) * ucast (bpb_sect_per_clus b) + first_data_sector
                         + ucast (bpb_dirents b) * 32 div ucast (bpb_bytes_per_sect b))
         else Some first_data_sector)"

definition fatfs_relclus_to_sect :: "fatfs_device \<Rightarrow> u32 \<Rightarrow> u32 option" where
  "fatfs_relclus_to_sect dev cluster =
     (case fat_type dev of
        FAT_TYPE_32 \<Rightarrow> Some (fatfs_relclus_to_sect_fat32 dev cluster)
      | _ \<Rightarrow> fatfs_relclus_to_sect_fat12_16 dev cluster)"

text \<open>The table entry at byte \<open>fat_offset\<close> of the allocation table, read with \<open>load\<close>.\<close>

definition fat_entry ::
  "'x fatdev_scheme func_table \<Rightarrow> 'x fatvfs \<Rightarrow> fatfs_device \<Rightarrow> (u8 list \<Rightarrow> nat \<Rightarrow> 'w option) \<Rightarrow> u32 \<Rightarrow> ('x fatvfs \<times> 'w) option" where
  "fat_entry tbl s dev load fat_offset =
     (let cs = cluster_size dev in
      if cs = 0 then None
      else do {
        let fat_sector = ucast (bpb_reserved_sects (fat_bpb dev)) + fat_offset div cs;
        let ent_offset = fat_offset mod cs;
        (s', fat_table) \<leftarrow> device_read tbl s (fat_device_node dev) (unat cs)
                            (fat_sector * ucast (bpb_bytes_per_sect (fat_bpb dev)));
        v \<leftarrow> load fat_table (unat ent_offset);
        Some (s', v)
      })"

definition fatfs_get_next_cluster_fat12 ::
  "'x fatdev_scheme func_table \<Rightarrow> 'x fatvfs \<Rightarrow> fatfs_device \<Rightarrow> u32 \<Rightarrow> ('x fatvfs \<times> u32) option" where
  "fatfs_get_next_cluster_fat12 tbl s dev cluster =
     do { (s', table_value) \<leftarrow> fat_entry tbl s dev le16 (cluster + cluster div 2);
          Some (s', if cluster AND 1 \<noteq> 0 then ucast (drop_bit 4 table_value) else ucast (table_value AND 0xfff)) }"

definition fatfs_get_next_cluster_fat16 ::
  "'x fatdev_scheme func_table \<Rightarrow> 'x fatvfs \<Rightarrow> fatfs_device \<Rightarrow> u32 \<Rightarrow> ('x fatvfs \<times> u32) option" where
  "fatfs_get_next_cluster_fat16 tbl s dev cluster =
     do { (s', table_value) \<leftarrow> fat_entry tbl s dev le16 (cluster * 2); Some (s', ucast table_value) }"

text \<open>\<open>table_value\<close> has 16 bits: the 28 bits of the entry are cut.\<close>

definition fatfs_get_next_cluster_fat32 ::
  "'x fatdev_scheme func_table \<Rightarrow> 'x fatvfs \<Rightarrow> fatfs_device \<Rightarrow> u32 \<Rightarrow> ('x fatvfs \<times> u32) option" where
  "fatfs_get_next_cluster_fat32 tbl s dev cluster =
     do { (s', v) \<leftarrow> fat_entry tbl s dev le32 (cluster * 4);
          let table_value = (ucast (v AND 0x0fffffff) :: u16);
          Some (s', ucast table_value) }"

definition fatfs_get_next_cluster ::
  "'x fatdev_scheme func_table \<Rightarrow> 'x fatvfs \<Rightarrow> fatfs_device \<Rightarrow> u32 \<Rightarrow> ('x fatvfs \<times> u32) option" where
  "fatfs_get_next_cluster tbl s dev cluster =
     (case fat_type dev of
        FAT_TYPE_12 \<Rightarrow> fatfs_get_next_cluster_fat12 tbl s dev cluster
      | FAT_TYPE_16 \<Rightarrow> fatfs_get_next_cluster_fat16 tbl s dev cluster
      | FAT_TYPE_32 \<Rightarrow> fatfs_get_next_cluster_fat32 tbl s dev cluster
      | FAT_TYPE_NULL \<Rightarrow> Some (s, 0xffffffff))"

definition is_last_cluster :: "fatfs_device \<Rightarrow> u32 \<Rightarrow> bool" where
  "is_last_cluster dev cluster =
     (case fat_type dev of
        FAT_TYPE_12 \<Rightarrow> FAT12_CLUSTER_BAD \<le> cluster
      | FAT_TYPE_16 \<Rightarrow> FAT16_CLUSTER_BAD \<le> cluster
      | FAT_TYPE_32 \<Rightarrow> FAT32_CLUSTER_BAD \<le> cluster
      | FAT_TYPE_NULL \<Rightarrow> True)"

section \<open>Nodes and cached entries\<close>

definition fatfs_dev_of :: "'x fatvfs \<Rightarrow> file_node \<Rightarrow> (nat \<times> fatfs_device) option" where
  "fatfs_dev_of s node =
     do { fs \<leftarrow> vs_fss s (fn_fs node);
          d \<leftarrow> fv_devs (vs_dev s) (fs_devstruct fs);
          Some (fs_devstruct fs, d) }"

text \<open>\<open>hashmap_get( dev->inode_map, inode )\<close>: the address and the entry, or none.\<close>

definition fatfs_get_cache :: "'x fatvfs \<Rightarrow> fatfs_device \<Rightarrow> u32 \<Rightarrow> (nat \<times> fatfs_dircache) option option" where
  "fatfs_get_cache s dev inode =
     do { r \<leftarrow> hashmap_get (fv_heap (vs_dev s)) (fat_inode_map dev) inode;
          (case r of
             None \<Rightarrow> Some None
           | Some a \<Rightarrow> do { c \<leftarrow> fv_caches (vs_dev s) a; Some (Some (a, c)) }) }"

definition fatfs_put_cache :: "'x fatvfs \<Rightarrow> nat \<Rightarrow> fatfs_dircache \<Rightarrow> 'x fatvfs" where
  "fatfs_put_cache s a c = s\<lparr>vs_dev := (vs_dev s)\<lparr>fv_caches := (fv_caches (vs_dev s))(a \<mapsto> c)\<rparr>\<rparr>"

definition is_dir :: "fatfs_dircache \<Rightarrow> bool" where
  "is_dir c \<longleftrightarrow> fde_attributes (dc_dir c) AND FAT_ATTR_DIRECTORY \<noteq> 0"

definition is_archive :: "fatfs_dircache \<Rightarrow> bool" where
  "is_archive c \<longleftrightarrow> fde_attributes (dc_dir c) AND FAT_ATTR_ARCHIVE \<noteq> 0"

section \<open>Reading\<close>

text \<open>\<open>for ( ; i; i-- ) cluster = fatfs_get_next_cluster( dev, cluster )\<close>.\<close>

fun skip_clusters ::
  "'x fatdev_scheme func_table \<Rightarrow> fatfs_device \<Rightarrow> nat \<Rightarrow> 'x fatvfs \<Rightarrow> u32 \<Rightarrow> ('x fatvfs \<times> u32) option" where
  "skip_clusters tbl dev 0 s cluster = Some (s, cluster)"
| "skip_clusters tbl dev (Suc i) s cluster =
     do { (s', c) \<leftarrow> fatfs_get_next_cluster tbl s dev cluster; skip_clusters tbl dev i s' c }"

definition read_cluster ::
  "'x fatdev_scheme func_table \<Rightarrow> 'x fatvfs \<Rightarrow> fatfs_device \<Rightarrow> u32 \<Rightarrow> ('x fatvfs \<times> u8 list) option" where
  "read_cluster tbl s dev cluster =
     do { sect \<leftarrow> fatfs_relclus_to_sect dev cluster;
          device_read tbl s (fat_device_node dev) (unat (cluster_size dev))
            (sect * ucast (bpb_bytes_per_sect (fat_bpb dev))) }"

text \<open>\<open>for ( k = 0; k < length && k < cache->dir.size; k++, i++ )\<close>; \<open>n\<close> is the smaller of the two
  bounds, the result the number \<open>k\<close> at the end and the buffer.\<close>

function read_loop ::
  "'x fatdev_scheme func_table \<Rightarrow> fatfs_device \<Rightarrow> nat \<Rightarrow> nat \<Rightarrow> nat \<Rightarrow> 'x fatvfs \<Rightarrow> u32 \<Rightarrow> u8 list \<Rightarrow> u8 list
     \<Rightarrow> ('x fatvfs \<times> nat \<times> u8 list) option" where
  "read_loop tbl dev n k i s cluster clusbuf outbuf =
     (if k < n
      then do {
        b \<leftarrow> read_at clusbuf (i mod unat (cluster_size dev));
        outbuf' \<leftarrow> write_at outbuf k b;
        if Suc i mod unat (cluster_size dev) = 0
        then do {
          (s1, c) \<leftarrow> fatfs_get_next_cluster tbl s dev cluster;
          if is_last_cluster dev c then Some (s1, k, outbuf')
          else do { (s2, buf) \<leftarrow> read_cluster tbl s1 dev c; read_loop tbl dev n (Suc k) (Suc i) s2 c buf outbuf' }
        }
        else read_loop tbl dev n (Suc k) (Suc i) s cluster clusbuf outbuf'
      }
      else Some (s, k, outbuf))"
  by pat_completeness auto
termination
  by (relation "measure (\<lambda>(tbl, dev, n, k, i, s, cluster, clusbuf, outbuf). n - k)") auto

declare read_loop.simps [simp del]

definition dirent_cluster :: "fatfs_dirent \<Rightarrow> u32" where
  "dirent_cluster d = ucast (fde_cluster_low d) OR push_bit 16 (ucast (fde_cluster_high d))"

definition fatfs_vfs_read ::
  "'x fatdev_scheme func_table \<Rightarrow> 'x fatvfs \<Rightarrow> file_node \<Rightarrow> u32 \<Rightarrow> u32 \<Rightarrow> ('x fatvfs \<times> int \<times> u8 list) option" where
  "fatfs_vfs_read tbl s node len offset =
     do { (a, dev) \<leftarrow> fatfs_dev_of s node;
          cache \<leftarrow> fatfs_get_cache s dev (fn_inode node);
          let buf = replicate (unat len) 0;
          (case cache of
             None \<Rightarrow> Some (s, - ERROR_NOT_FOUND, buf)
           | Some (ca, c) \<Rightarrow>
               if \<not> is_archive c then Some (s, - ERROR_IS_DIRECTORY, buf)
               else if cluster_size dev = 0 then None
               else if offset < fde_size (dc_dir c)
               then do {
                 (s1, cluster) \<leftarrow> skip_clusters tbl dev (unat (offset div cluster_size dev)) s (dirent_cluster (dc_dir c));
                 if is_last_cluster dev cluster then Some (s1, 0, buf)
                 else do {
                   (s2, clusbuf) \<leftarrow> read_cluster tbl s1 dev cluster;
                   (s3, k, out) \<leftarrow> read_loop tbl dev (min (unat len) (unat (fde_size (dc_dir c)))) 0
                                    (unat (offset mod cluster_size dev)) s2 cluster clusbuf buf;
                   Some (s3, int k, out)
                 }
               }
               else Some (s, 0, buf)) }"

section \<open>Directories\<close>

text \<open>Long names come in pieces of 13 characters; the piece with the number 0 would be written in
  front of the buffer.\<close>

fun put_chars :: "u8 list \<Rightarrow> nat \<Rightarrow> u8 list \<Rightarrow> nat \<Rightarrow> nat \<Rightarrow> u8 list option" where
  "put_chars e from namebuf at 0 = Some namebuf"
| "put_chars e from namebuf at (Suc n) =
     do { w \<leftarrow> le16 e from; nb \<leftarrow> write_at namebuf at (ucast w); put_chars e (from + 2) nb (Suc at) n }"

definition fatfs_apply_longname :: "u8 list \<Rightarrow> u8 list \<Rightarrow> nat \<Rightarrow> u8 list option" where
  "fatfs_apply_longname e namebuf maxlen =
     do { ni \<leftarrow> read_at e 0;
          let number = unat (ni AND 0x0f);
          if maxlen < number - 1 + 13 then Some namebuf
          else if number = 0 then None
          else do { let index = (number - 1) * 13;
                    nb1 \<leftarrow> put_chars e 1 namebuf index 5;
                    nb2 \<leftarrow> put_chars e 14 nb1 (index + 5) 6;
                    put_chars e 28 nb2 (index + 11) 2 } }"

text \<open>A step of the loops over a directory: the end, an entry to pass over, a piece of a long name or
  a regular entry. The test for a deleted entry compares a signed character with \<open>0xe5\<close>, which
  never holds.\<close>

datatype dir_item = DirEnd | DirLong "u8 list" | DirEntry fatfs_dirent

definition dir_item :: "u8 list \<Rightarrow> nat \<Rightarrow> u8 list \<Rightarrow> dir_item option" where
  "dir_item buf i namebuf =
     do { d \<leftarrow> read_dirent buf i;
          c \<leftarrow> read_at (fde_name d) 0;
          if c = 0 then Some DirEnd
          else if fde_attributes d = FAT_ATTR_LONGNAME
          then do { nb \<leftarrow> fatfs_apply_longname (take 32 (drop (32 * i) buf)) namebuf 256; Some (DirLong nb) }
          else Some (DirEntry d) }"

definition c_string :: "u8 list \<Rightarrow> u8 list" where
  "c_string buf = takeWhile (\<lambda>b. b \<noteq> 0) buf"

text \<open>\<open>strcmp\<close> with the long name, or \<open>strncmp\<close> of \<open>strlen( name ) % 12\<close> characters with the short one.\<close>

definition name_matches :: "u8 list \<Rightarrow> bool \<Rightarrow> u8 list \<Rightarrow> fatfs_dirent \<Rightarrow> bool" where
  "name_matches name has_longname namebuf d \<longleftrightarrow>
     (has_longname \<and> name = c_string namebuf)
     \<or> take (length name mod 12) name = take (length name mod 12) (fde_name d)"

function dir_find :: "u8 list \<Rightarrow> nat \<Rightarrow> u8 list \<Rightarrow> nat \<Rightarrow> bool \<Rightarrow> u8 list \<Rightarrow> fatfs_dirent option option" where
  "dir_find buf dirents name i has_longname namebuf =
     (if i < dirents
      then do {
        it \<leftarrow> dir_item buf i namebuf;
        (case it of
           DirEnd \<Rightarrow> Some None
         | DirLong nb \<Rightarrow> dir_find buf dirents name (Suc i) True nb
         | DirEntry d \<Rightarrow>
             if name_matches name has_longname namebuf d then Some (Some d)
             else dir_find buf dirents name (Suc i) False (namebuf[0 := 0]))
      }
      else Some None)"
  by pat_completeness auto
termination
  by (relation "measure (\<lambda>(buf, dirents, name, i, has_longname, namebuf). dirents - i)") auto

declare dir_find.simps [simp del]

text \<open>The cluster of the directory starts at its inode, which is a sector.\<close>

definition read_directory ::
  "'x fatdev_scheme func_table \<Rightarrow> 'x fatvfs \<Rightarrow> fatfs_device \<Rightarrow> file_node \<Rightarrow> ('x fatvfs \<times> u8 list) option" where
  "read_directory tbl s dev node =
     device_read tbl s (fat_device_node dev) (unat (cluster_size dev))
       (ucast (bpb_bytes_per_sect (fat_bpb dev)) * fn_inode node)"

definition fatfs_add_cache :: "'x fatvfs \<Rightarrow> nat \<Rightarrow> fatfs_device \<Rightarrow> u32 \<Rightarrow> nat \<Rightarrow> 'x fatvfs option" where
  "fatfs_add_cache s a dev inode ca =
     (let (s1, t) = vfs_new s in
      do { (h, m, v) \<leftarrow> hashmap_add (fv_heap (vs_dev s1)) t (fat_inode_map dev) inode ca;
           Some (s1\<lparr>vs_dev := (vs_dev s1)\<lparr>fv_heap := h,
                   fv_devs := (fv_devs (vs_dev s1))(a \<mapsto> dev\<lparr>fat_inode_map := m\<rparr>)\<rparr>\<rparr>) })"

definition fatfs_vfs_lookup ::
  "'x fatdev_scheme func_table \<Rightarrow> 'x fatvfs \<Rightarrow> file_node \<Rightarrow> file_node \<Rightarrow> string \<Rightarrow> u32 \<Rightarrow> ('x fatvfs \<times> int \<times> file_node) option" where
  "fatfs_vfs_lookup tbl s node buf name flags =
     do { (a, dev) \<leftarrow> fatfs_dev_of s node;
          dircache \<leftarrow> fatfs_get_cache s dev (fn_inode node);
          (case dircache of
             None \<Rightarrow> Some (s, - ERROR_NOT_FOUND, buf)
           | Some (ca, c) \<Rightarrow>
               if \<not> is_dir c then Some (s, - ERROR_NOT_DIRECTORY, buf)
               else do {
                 (s1, sectbuf) \<leftarrow> read_directory tbl s dev node;
                 r \<leftarrow> dir_find sectbuf (unat (bpb_dirents (fat_bpb dev))) (string_bytes name) 0 False (replicate 256 0);
                 (case r of
                    None \<Rightarrow> Some (s1, - ERROR_NOT_FOUND, buf)
                  | Some d \<Rightarrow> do {
                      let (s2, new) = vfs_new s1;
                      let s3 = fatfs_put_cache s2 new \<lparr>dc_dir = d, dc_references = 0\<rparr>;
                      inode \<leftarrow> fatfs_relclus_to_sect dev (ucast (fde_cluster_low d));
                      let buf' = buf\<lparr>fn_inode := inode, fn_fs := fn_fs node, fn_mount := 0\<rparr>;
                      old \<leftarrow> hashmap_get (fv_heap (vs_dev s3)) (fat_inode_map dev) inode;
                      s4 \<leftarrow> (if old = None then fatfs_add_cache s3 a dev inode new else Some s3);
                      Some (s4, 0, buf')
                    })
               }) }"

function dir_nth ::
  "u8 list \<Rightarrow> nat \<Rightarrow> int \<Rightarrow> nat \<Rightarrow> nat \<Rightarrow> bool \<Rightarrow> u8 list \<Rightarrow> (fatfs_dirent \<times> u8 list) option option" where
  "dir_nth buf dirents entry count i has_longname namebuf =
     (if i < dirents
      then do {
        it \<leftarrow> dir_item buf i namebuf;
        (case it of
           DirEnd \<Rightarrow> Some None
         | DirLong nb \<Rightarrow> dir_nth buf dirents entry count (Suc i) True nb
         | DirEntry d \<Rightarrow>
             if count = u32_of_int entry
             then Some (Some (d, if has_longname then c_string namebuf else c_string (fde_name d)))
             else dir_nth buf dirents entry (Suc count) (Suc i) False namebuf)
      }
      else Some None)"
  by pat_completeness auto
termination
  by (relation "measure (\<lambda>(buf, dirents, entry, count, i, has_longname, namebuf). dirents - i)") auto

declare dir_nth.simps [simp del]

text \<open>The directory is read before the cached entry is looked at, with the offset and length fields
  of the result left as they were.\<close>

definition fatfs_vfs_readdir ::
  "'x fatdev_scheme func_table \<Rightarrow> 'x fatvfs \<Rightarrow> file_node \<Rightarrow> int \<Rightarrow> ('x fatvfs \<times> int \<times> dirent option) option" where
  "fatfs_vfs_readdir tbl s node entry =
     do { (a, dev) \<leftarrow> fatfs_dev_of s node;
          cache \<leftarrow> fatfs_get_cache s dev (fn_inode node);
          (s1, sectbuf) \<leftarrow> read_directory tbl s dev node;
          (case cache of
             None \<Rightarrow> Some (s1, - ERROR_NOT_FOUND, None)
           | Some (ca, c) \<Rightarrow>
               if \<not> is_dir c then Some (s1, - ERROR_NOT_DIRECTORY, None)
               else do {
                 r \<leftarrow> dir_nth sectbuf (unat (bpb_dirents (fat_bpb dev))) entry 0 0 False (replicate 256 0);
                 (case r of
                    None \<Rightarrow> Some (s1, 0, None)
                  | Some (d, name) \<Rightarrow> do {
                      inode \<leftarrow> fatfs_relclus_to_sect dev (ucast (fde_cluster_low d));
                      Some (s1, 1, Some \<lparr>de_inode = inode, de_offset = 0, de_length = 0, de_name = bytes_string name\<rparr>)
                    })
               }) }"

section \<open>Opening and closing\<close>

definition fatfs_vfs_open ::
  "'x fatdev_scheme func_table \<Rightarrow> 'x fatvfs \<Rightarrow> file_node \<Rightarrow> string \<Rightarrow> u32 \<Rightarrow> ('x fatvfs \<times> int) option" where
  "fatfs_vfs_open tbl s node path flags =
     do { (a, dev) \<leftarrow> fatfs_dev_of s node;
          cache \<leftarrow> fatfs_get_cache s dev (fn_inode node);
          (case cache of
             None \<Rightarrow> Some (s, - ERROR_NOT_FOUND)
           | Some (ca, c) \<Rightarrow>
               if \<not> is_dir c then Some (s, - ERROR_NOT_DIRECTORY)
               else do {
                 (s1, lookup, nodebuf) \<leftarrow> lookup_walk tbl path s node 0;
                 if lookup \<noteq> 0 then Some (s1, lookup)
                 else do {
                   (a1, dev1) \<leftarrow> fatfs_dev_of s1 node;
                   cache1 \<leftarrow> fatfs_get_cache s1 dev1 (fn_inode nodebuf);
                   (ca1, c1) \<leftarrow> cache1;
                   Some (fatfs_put_cache s1 ca1 (c1\<lparr>dc_references := dc_references c1 + 1\<rparr>), sint (fn_inode nodebuf))
                 }
               }) }"

definition fatfs_vfs_close :: "'x fatvfs \<Rightarrow> file_node \<Rightarrow> u32 \<Rightarrow> ('x fatvfs \<times> int) option" where
  "fatfs_vfs_close s node flags =
     do { (a, dev) \<leftarrow> fatfs_dev_of s node;
          cache \<leftarrow> fatfs_get_cache s dev (fn_inode node);
          (case cache of
             None \<Rightarrow> Some (s, - ERROR_NOT_FOUND)
           | Some (ca, c) \<Rightarrow>
               let refs = (if dc_references c \<noteq> 0 then dc_references c - 1 else 0);
                   s1 = fatfs_put_cache s ca (c\<lparr>dc_references := refs\<rparr>)
               in if refs = 0
                  then do { h \<leftarrow> hashmap_remove (fv_heap (vs_dev s1)) (fat_inode_map dev) (fn_inode node);
                            Some (s1\<lparr>vs_dev := (vs_dev s1)\<lparr>fv_heap := h\<rparr>\<rparr>, 0) }
                  else Some (s1, 0)) }"

definition fatfs_vfs_get_info :: "'x fatvfs \<Rightarrow> file_node \<Rightarrow> ('x fatvfs \<times> int \<times> file_info option) option" where
  "fatfs_vfs_get_info s node =
     do { (a, dev) \<leftarrow> fatfs_dev_of s node;
          cache \<leftarrow> fatfs_get_cache s dev (fn_inode node);
          (case cache of
             None \<Rightarrow> Some (s, - ERROR_NOT_FOUND, None)
           | Some (ca, c) \<Rightarrow>
               Some (s, 0, Some \<lparr>fi_type = (if is_dir c then FILE_TYPE_DIR else FILE_TYPE_REG), fi_mask = 365,
                                fi_inode = fn_inode node, fi_size = fde_size (dc_dir c), fi_links = 1\<rparr>)) }"

section \<open>The file system\<close>

definition fatfs_functions :: "'x fatdev_scheme func_table \<Rightarrow> 'x fatdev_scheme file_funcs" where
  "fatfs_functions tbl =
     \<lparr>ff_read = Some (fatfs_vfs_read tbl), ff_write = None, ff_mkdir = None, ff_mount = None,
      ff_readdir = Some (fatfs_vfs_readdir tbl), ff_lookup = Some (fatfs_vfs_lookup tbl),
      ff_open = Some (fatfs_vfs_open tbl), ff_close = Some fatfs_vfs_close, ff_get_info = Some fatfs_vfs_get_info\<rparr>"

text \<open>\<open>bytes_per_sect\<close> is an \<open>int\<close> in the first division, the rest is unsigned.\<close>

definition fatfs_get_type :: "fatfs_bpb \<Rightarrow> fat_type option" where
  "fatfs_get_type b =
     (if bpb_bytes_per_sect b = 0 \<or> bpb_sect_per_clus b = 0 then None
      else let rootdir_size = (unat (bpb_dirents b) * 32 + unat (bpb_bytes_per_sect b) - 1) div unat (bpb_bytes_per_sect b);
               data_sectors = ucast (bpb_sectors b) - ucast (bpb_fats b) * ucast (bpb_sects_per_fat b)
                 - ucast (bpb_reserved_sects b) - of_nat rootdir_size :: u32;
               total_clusters = data_sectors div ucast (bpb_sect_per_clus b)
           in Some (if total_clusters < 4085 then FAT_TYPE_12
                    else if total_clusters < 65525 then FAT_TYPE_16 else FAT_TYPE_32))"

definition fatfs_first_data_sector :: "fat_type \<Rightarrow> fatfs_bpb \<Rightarrow> u32" where
  "fatfs_first_data_sector t b =
     (if t = FAT_TYPE_32
      then (ebr_root_clus b - 2) * ucast (bpb_sect_per_clus b)
           + (ucast (bpb_reserved_sects b) + ucast (bpb_fats b) * ebr_sects_per_fat b)
      else ucast (bpb_reserved_sects b) + ucast (bpb_fats b) * ucast (bpb_sects_per_fat b))"

definition fatfs_default_dirents :: "fatfs_bpb \<Rightarrow> fatfs_bpb" where
  "fatfs_default_dirents b =
     (if bpb_dirents b = 0
      then b\<lparr>bpb_dirents := ucast (ucast (bpb_bytes_per_sect b) * ucast (bpb_sect_per_clus b) div 32 :: u32)\<rparr>
      else b)"

text \<open>The dump of the root directory: the first 512 bytes of it, at most 16 entries. What it prints
  goes to the log; what it reads, the table of clusters included, it reads from the device.\<close>

fun dump_entries ::
  "'x fatdev_scheme func_table \<Rightarrow> 'x fatvfs \<Rightarrow> fatfs_device \<Rightarrow> u8 list \<Rightarrow> nat \<Rightarrow> nat \<Rightarrow> u8 list \<Rightarrow> 'x fatvfs option" where
  "dump_entries tbl s dev buf i 0 namebuf = Some s"
| "dump_entries tbl s dev buf i (Suc n) namebuf =
     do { it \<leftarrow> dir_item buf i namebuf;
          (case it of
             DirEnd \<Rightarrow> dump_entries tbl s dev buf (Suc i) n namebuf
           | DirLong nb \<Rightarrow> dump_entries tbl s dev buf (Suc i) n nb
           | DirEntry d \<Rightarrow> do {
               _ \<leftarrow> fatfs_relclus_to_sect dev (ucast (fde_cluster_low d));
               (s1, _) \<leftarrow> fatfs_get_next_cluster tbl s dev (ucast (fde_cluster_low d));
               dump_entries tbl s1 dev buf (Suc i) n (namebuf[0 := 0])
             }) }"

definition dump_root_entries ::
  "'x fatdev_scheme func_table \<Rightarrow> 'x fatvfs \<Rightarrow> fatfs_device \<Rightarrow> 'x fatvfs option" where
  "dump_root_entries tbl s dev =
     do { (s1, sectbuf) \<leftarrow> device_read tbl s (fat_device_node dev) 512
            (ucast (bpb_bytes_per_sect (fat_bpb dev)) * fatfs_first_data_sector (fat_type dev) (fat_bpb dev));
          dump_entries tbl s1 dev sectbuf 0 (min (unat (bpb_dirents (fat_bpb dev))) 16) (replicate 256 0) }"

text \<open>\<open>kind\<close> names the table \<open>fatfs_functions\<close>.\<close>

definition fatfs_create ::
  "'x fatdev_scheme func_table \<Rightarrow> fs_kind \<Rightarrow> 'x fatvfs \<Rightarrow> string \<Rightarrow> u32 \<Rightarrow> ('x fatvfs \<times> nat) option" where
  "fatfs_create tbl kind s path flags =
     (let (s1, ret) = vfs_new s; (s2, devp) = vfs_new s1 in
      do { (s3, r, dnode) \<leftarrow> file_lookup_absolute tbl s2 path 0;
           if r < 0 then Some (s3, 0)
           else do {
             device_node \<leftarrow> dnode;
             let (s4, root) = vfs_new s3;
             let (s5, root_cache) = vfs_new s4;
             (s6, sect) \<leftarrow> device_read tbl s5 device_node 512 0;
             bpb \<leftarrow> read_bpb sect;
             t \<leftarrow> fatfs_get_type bpb;
             let inode = fatfs_first_data_sector t bpb;
             let dir = \<lparr>fde_name = replicate 11 0, fde_attributes = FAT_ATTR_DIRECTORY, fde_cluster_high = 0,
                        fde_cluster_low = 2, fde_size = 0\<rparr>;
             let s7 = fatfs_put_cache s6 root_cache \<lparr>dc_dir = dir, dc_references = 1\<rparr>;
             s8 \<leftarrow> fatfs_add_cache s7 devp
                    \<lparr>fat_device_node = device_node, fat_type = t, fat_inode_map = hashmap_create 32,
                     fat_bpb = fatfs_default_dirents bpb\<rparr> inode root_cache;
             dev \<leftarrow> fv_devs (vs_dev s8) devp;
             s9 \<leftarrow> dump_root_entries tbl s8 dev;
             Some (s9\<lparr>vs_fss := (vs_fss s9)(ret \<mapsto> \<lparr>fs_root = root, fs_functions = kind, fs_references = 0, fs_devstruct = devp\<rparr>),
                      vs_nodes := (vs_nodes s9)(root \<mapsto> null_node\<lparr>fn_fs := ret, fn_inode := inode, fn_references := 1\<rparr>)\<rparr>, ret)
           } })"

section \<open>Start of the module\<close>

text \<open>\<open>lookup\<close> is a variable that is never set, and so is the node that is read when it happens to be 0.\<close>

definition fatfs_test ::
  "'d func_table \<Rightarrow> (fs_kind \<Rightarrow> 'd vfs \<Rightarrow> string option \<Rightarrow> u32 \<Rightarrow> ('d vfs \<times> nat) option) \<Rightarrow> int \<Rightarrow> 'd vfs \<Rightarrow> ('d vfs \<times> int) option" where
  "fatfs_test tbl create lookup s =
     do { (s1, _) \<leftarrow> file_mount_filesystem tbl create s ''/test/userroot'' (Some ''/test/devices/ata0p1'') ''fatfs'' 0;
          if lookup = 0 then None else Some (s1, 0) }"

definition fatfs_init ::
  "fs_kind \<Rightarrow> 'd func_table \<Rightarrow> (fs_kind \<Rightarrow> 'd vfs \<Rightarrow> string option \<Rightarrow> u32 \<Rightarrow> ('d vfs \<times> nat) option) \<Rightarrow> int \<Rightarrow>
   'd vfs \<Rightarrow> ('d vfs \<times> int) option" where
  "fatfs_init kind tbl create lookup s =
     (let (s1, drv) = vfs_new s;
          s2 = s1\<lparr>vs_drivers := (vs_drivers s1)(drv \<mapsto> \<lparr>fd_references = 0, fd_flags = 0, fd_name = ''fatfs'', fd_kind = kind\<rparr>)\<rparr>
      in do { (s3, _) \<leftarrow> file_register_driver s2 drv;
              (s4, _) \<leftarrow> fatfs_test tbl create lookup s3;
              Some (s4, 0) })"

end
