(* ===== verification/FatRead.thy ===== *)
theory FatRead
  imports FatFS
begin

text \<open>
  What reading a file of a FAT file system delivers: the bytes of its chain of clusters from the
  offset on. The chain is the one that the allocation table describes, its contents those that the
  device delivers.
\<close>

section \<open>Chains\<close>

text \<open>From \<open>cluster\<close> on, the table links clusters with the contents \<open>ds\<close>, then an end mark.\<close>

fun fat_chain :: "'x fatdev_scheme func_table \<Rightarrow> 'x fatvfs \<Rightarrow> fatfs_device \<Rightarrow> u32 \<Rightarrow> u8 list list \<Rightarrow> bool" where
  "fat_chain tbl s dev cluster [] \<longleftrightarrow> is_last_cluster dev cluster"
| "fat_chain tbl s dev cluster (d # ds) \<longleftrightarrow>
     \<not> is_last_cluster dev cluster \<and> length d = unat (cluster_size dev)
     \<and> read_cluster tbl s dev cluster = Some (s, d)
     \<and> (\<exists>c. fatfs_get_next_cluster tbl s dev cluster = Some (s, c) \<and> fat_chain tbl s dev c ds)"

lemma skip_clusters_ok:
  "fat_chain tbl s dev cluster ds \<Longrightarrow> j \<le> length ds \<Longrightarrow>
     \<exists>c. skip_clusters tbl dev j s cluster = Some (s, c) \<and> fat_chain tbl s dev c (drop j ds)"
proof (induction j arbitrary: cluster ds)
  case (Suc j)
  then show ?case by (cases ds) auto
qed simp

lemma fat_chain_lengths: "fat_chain tbl s dev cluster ds \<Longrightarrow> d \<in> set ds \<Longrightarrow> length d = unat (cluster_size dev)"
  by (induction ds arbitrary: cluster) auto

lemma drop_concat:
  "\<forall>d \<in> set ds. length d = n \<Longrightarrow> 0 < n \<Longrightarrow> k < n * length ds \<Longrightarrow>
     drop k (concat ds) = drop (k mod n) (ds ! (k div n)) @ concat (drop (Suc (k div n)) ds)"
proof (induction ds arbitrary: k)
  case (Cons d ds)
  show ?case
  proof (cases "k < n")
    case False
    then have "drop (k - n) (concat ds) = drop ((k - n) mod n) (ds ! ((k - n) div n)) @ concat (drop (Suc ((k - n) div n)) ds)"
      using Cons by simp
    moreover have "k div n = Suc ((k - n) div n)" "k mod n = (k - n) mod n"
      using False Cons.prems(2) by (simp_all add: le_div_geq le_mod_geq)
    ultimately show ?thesis using Cons.prems(1) False by simp
  qed (use Cons.prems in simp)
qed simp

section \<open>The copy loop\<close>

text \<open>\<open>bs\<close> are the bytes left of the chain. When the last of them is copied, the loop leaves before
  its counter is raised.\<close>

lemma read_loop_ok:
  assumes "fat_chain tbl s dev cluster (d # ds)" "k \<le> n" "n \<le> length out" "0 < unat (cluster_size dev)"
    and "bs = drop (i mod unat (cluster_size dev)) d @ concat ds"
  shows "read_loop tbl dev n k i s cluster d out =
    Some (s, if n - k < length bs then n else k + length bs - 1,
      take k out @ take (n - k) bs @ drop (k + min (n - k) (length bs)) out)"
  using assms
proof (induction "n - k" arbitrary: k i cluster d ds out bs)
  case 0
  then have "i mod unat (cluster_size dev) < length d" by simp
  then show ?case using 0 by (subst read_loop.simps) auto
next
  case (Suc m)
  let ?cs = "unat (cluster_size dev)"
  let ?p = "i mod ?cs"
  have kn: "k < n" "m = n - Suc k" using Suc.hyps(2) by simp_all
  have p: "?p < ?cs" "length d = ?cs" using Suc.prems(1,4) by simp_all
  let ?out = "out[k := d ! ?p]"
  have w: "write_at out k (d ! ?p) = Some ?out" "read_at d ?p = Some (d ! ?p)" using kn Suc.prems(3) p by simp_all
  have t: "take (Suc k) ?out = take k out @ [d ! ?p]" using kn Suc.prems(3) by (simp add: take_Suc_conv_app_nth)
  obtain c where c: "fatfs_get_next_cluster tbl s dev cluster = Some (s, c)" "fat_chain tbl s dev c ds" using Suc.prems(1) by auto
  have bs: "bs = d ! ?p # drop (Suc ?p) d @ concat ds" using Suc.prems(5) p by (simp add: Cons_nth_drop_Suc)
  have step: "read_loop tbl dev n k i s cluster d out = Some (s, if n - k < length bs then n else k + length bs - 1,
      take k out @ take (n - k) bs @ drop (k + min (n - k) (length bs)) out)"
    if r: "read_loop tbl dev n k i s cluster d out = read_loop tbl dev n (Suc k) (Suc i) s c' d' ?out"
      and ch: "fat_chain tbl s dev c' (d' # ds')" and b: "drop (Suc i mod ?cs) d' @ concat ds' = drop (Suc ?p) d @ concat ds" for c' d' ds'
  proof -
    let ?bs = "drop (Suc ?p) d @ concat ds"
    have "read_loop tbl dev n (Suc k) (Suc i) s c' d' ?out =
      Some (s, if n - Suc k < length ?bs then n else Suc k + length ?bs - 1,
        take (Suc k) ?out @ take (n - Suc k) ?bs @ drop (Suc k + min (n - Suc k) (length ?bs)) ?out)"
      by (rule Suc.hyps(1) [OF kn(2) ch]) (use kn Suc.prems(3,4) b in simp_all)
    moreover have "take (n - k) bs = d ! ?p # take (n - Suc k) ?bs" "length bs = Suc (length ?bs)"
      using kn(1) unfolding bs by (simp_all add: Suc_diff_Suc [symmetric] del: length_append)
    moreover have "drop (Suc k + j) ?out = drop (Suc k + j) out" for j by simp
    moreover have "k + min (n - k) (Suc l) = Suc k + min (n - Suc k) l" for l using kn(1) by auto
    moreover have "(n - k < Suc l) = (n - Suc k < l)" for l using kn(1) by auto
    ultimately show ?thesis using r t by simp
  qed
  show ?case
  proof (cases "Suc ?p = ?cs")
    case True
    then have z: "Suc i mod ?cs = 0" by (simp add: mod_Suc)
    show ?thesis
    proof (cases ds)
      case Nil
      then have "is_last_cluster dev c" "bs = [d ! ?p]" using c(2) bs True p by simp_all
      moreover have "read_loop tbl dev n k i s cluster d out = Some (s, k, ?out)"
        using kn w z c(1) calculation(1) by (subst read_loop.simps) simp
      moreover have "take (n - k) [d ! ?p] = [d ! ?p]" "min (n - k) 1 = 1" using kn(1) by simp_all
      moreover have "?out = take k out @ d ! ?p # drop (Suc k) out" using kn Suc.prems(3) by (simp add: upd_conv_take_nth_drop)
      ultimately show ?thesis using kn(1) by simp
    next
      case (Cons e es)
      then have e: "\<not> is_last_cluster dev c" "read_cluster tbl s dev c = Some (s, e)" using c(2) by simp_all
      have "read_loop tbl dev n k i s cluster d out = read_loop tbl dev n (Suc k) (Suc i) s c e ?out"
        using kn w z c(1) e by (subst read_loop.simps) simp
      then show ?thesis by (rule step [of c e es]) (use c(2) Cons z True p in simp_all)
    qed
  next
    case False
    then have z: "Suc i mod ?cs = Suc ?p" by (simp add: mod_Suc)
    have "read_loop tbl dev n k i s cluster d out = read_loop tbl dev n (Suc k) (Suc i) s cluster d ?out"
      using kn w z by (subst read_loop.simps) simp
    then show ?thesis by (rule step [of cluster d ds]) (use Suc.prems(1) z in simp_all)
  qed
qed

section \<open>Properties\<close>


text \<open>A FAT16 system with sectors of 16 bytes, one per cluster: the boot sector, one sector of the
  table, one of the directory and the data. The file starts at cluster 3 and is 16 bytes long.\<close>

definition sample_disk :: "nat \<Rightarrow> u8" where
  "sample_disk k = (if k = 22 then 0xf8 else if k = 23 then 0xff else if 80 \<le> k then of_nat k else 0)"

definition sample_tbl :: "fatdev func_table" where
  "sample_tbl k =
     (if k = OtherFuncs 0
      then Some \<lparr>ff_read = Some (\<lambda>s node n off. Some (s, int (unat n), map (\<lambda>i. sample_disk (unat off + i)) [0..<unat n])),
        ff_write = None, ff_mkdir = None, ff_mount = None, ff_readdir = None, ff_lookup = None, ff_open = None,
        ff_close = None, ff_get_info = None\<rparr>
      else None)"

definition sample_entry :: fatfs_dircache where
  "sample_entry = \<lparr>dc_dir = \<lparr>fde_name = replicate 11 0x41, fde_attributes = FAT_ATTR_ARCHIVE, fde_cluster_high = 0,
     fde_cluster_low = 3, fde_size = 16\<rparr>, dc_references = 1\<rparr>"

definition sample_disk_node :: file_node where
  "sample_disk_node = null_node\<lparr>fn_fs := 1\<rparr>"

definition sample_dev :: fatfs_device where
  "sample_dev = \<lparr>fat_device_node = sample_disk_node, fat_type = FAT_TYPE_16,
     fat_inode_map = \<lparr>hm_buckets = [\<lparr>lh_base = 1, lh_last = 1, lh_length = 1, lh_flags = 0\<rparr>], hm_nbuckets = 1\<rparr>,
     fat_bpb = \<lparr>bpb_bytes_per_sect = 16, bpb_sect_per_clus = 1, bpb_reserved_sects = 1, bpb_fats = 1, bpb_dirents = 1,
       bpb_sectors = 8, bpb_sects_per_fat = 1, ebr_sects_per_fat = 0, ebr_root_clus = 0\<rparr>\<rparr>"

definition sample_fat :: "fatdev vfs" where
  "sample_fat = \<lparr>vs_nodes = (\<lambda>_. None), vs_mounts = (\<lambda>_. None),
     vs_fss = [1 \<mapsto> \<lparr>fs_root = 0, fs_functions = OtherFuncs 0, fs_references = 1, fs_devstruct = 0\<rparr>,
               2 \<mapsto> \<lparr>fs_root = 0, fs_functions = OtherFuncs 1, fs_references = 1, fs_devstruct = 9\<rparr>],
     vs_drivers = (\<lambda>_. None), vs_driver_list = [0], vs_mount_list = [0], vs_root = 0, vs_froot = 0, vs_curdir = 0,
     vs_next = 10, vs_dev = \<lparr>fv_devs = [9 \<mapsto> sample_dev],
       fv_heap = [1 \<mapsto> \<lparr>ln_next = 0, ln_prev = 0, ln_val = 7, ln_data = 5\<rparr>], fv_caches = [5 \<mapsto> sample_entry]\<rparr>\<rparr>"

abbreviation sample_file :: file_node where
  "sample_file \<equiv> null_node\<lparr>fn_inode := 7, fn_fs := 2\<rparr>"

lemma sample_fat_read:
  "device_read sample_tbl sample_fat sample_disk_node 16 off = Some (sample_fat, map (\<lambda>i. sample_disk (unat off + i)) [0..<16])"
  by (simp add: device_read_def VFS_FUNCTION_def sample_fat_def sample_tbl_def null_node_def sample_disk_node_def)

lemma sample_cluster: "map_option snd (read_cluster sample_tbl sample_fat sample_dev 3) = Some (map of_nat [80..<96])"
  by code_simp

lemma sample_next: "map_option snd (fatfs_get_next_cluster sample_tbl sample_fat sample_dev 3) = Some 0xfff8"
  by code_simp

lemma sample_size: "unat (cluster_size sample_dev) = 16" "fat_device_node sample_dev = sample_disk_node"
    "fat_type sample_dev = FAT_TYPE_16"
  by code_simp+

lemma sample_chain: "fat_chain sample_tbl sample_fat sample_dev 3 [map of_nat [80..<96]]"
proof -
  have "fst ` set_option (read_cluster sample_tbl sample_fat sample_dev 3) \<subseteq> {sample_fat}"
    by (auto simp: read_cluster_def sample_size sample_fat_read bind_eq_Some_conv)
  with sample_cluster have "read_cluster sample_tbl sample_fat sample_dev 3 = Some (sample_fat, map of_nat [80..<96])" by auto
  moreover have "fst ` set_option (fatfs_get_next_cluster sample_tbl sample_fat sample_dev 3) \<subseteq> {sample_fat}"
    by (auto simp: fatfs_get_next_cluster_def fatfs_get_next_cluster_fat16_def fat_entry_def Let_def sample_size sample_fat_read
      bind_eq_Some_conv split: if_splits)
  with sample_next have "fatfs_get_next_cluster sample_tbl sample_fat sample_dev 3 = Some (sample_fat, 0xfff8)" by auto
  ultimately show ?thesis using sample_size by (simp add: is_last_cluster_def FAT16_CLUSTER_BAD_def)
qed

lemma sample_lookup: "fatfs_dev_of sample_fat sample_file = Some (9, sample_dev)"
  "fatfs_get_cache sample_fat sample_dev 7 = Some (Some (5, sample_entry))"
proof -
  show "fatfs_dev_of sample_fat sample_file = Some (9, sample_dev)" by (simp add: fatfs_dev_of_def sample_fat_def)
  have "hashmap_get (fv_heap (vs_dev sample_fat)) (fat_inode_map sample_dev) 7 = Some (Some 5)" by code_simp
  then show "fatfs_get_cache sample_fat sample_dev 7 = Some (Some (5, sample_entry))"
    by (simp add: fatfs_get_cache_def) (simp add: sample_fat_def)
qed


end
