(* ===== verification/Elf.thy ===== *)
theory Elf
  imports TaskStack
begin

text \<open>
  \<^verbatim>\<open>kernel/include/base/elf.h\<close> and \<^verbatim>\<open>kernel/base/elf.c\<close>: the headers, section headers, program
  headers, symbols and relocations of an ELF image in memory, and the look up of sections and
  symbols by their names. Pointers are 32-bit words, a structure behind a null pointer is not
  readable, and numbers in memory have their lowest byte first. Names that the code passes as
  pointers to constant strings are the lists of their bytes.
\<close>

section \<open>The structures\<close>

definition ET_EXEC :: u16 where "ET_EXEC = 2"
definition ET_DYN :: u16 where "ET_DYN = 3"
definition SHN_UNDEF :: u16 where "SHN_UNDEF = 0"
definition PT_LOAD :: u32 where "PT_LOAD = 1"
definition PF_W :: u32 where "PF_W = 2"
definition R_386_32 :: u8 where "R_386_32 = 1"
definition R_386_PC32 :: u8 where "R_386_PC32 = 2"
definition R_386_RELATIVE :: u8 where "R_386_RELATIVE = 8"

definition ELF32_R_SYM :: "u32 \<Rightarrow> u32" where "ELF32_R_SYM i = drop_bit 8 i"
definition ELF32_R_TYPE :: "u32 \<Rightarrow> u8" where "ELF32_R_TYPE i = ucast i"

record elf32_ehdr =
  e_ident :: "u8 list"
  e_type :: u16
  e_machine :: u16
  e_version :: u32
  e_entry :: u32
  e_phoff :: u32
  e_shoff :: u32
  e_flags :: u32
  e_ehsize :: u16
  e_phentsize :: u16
  e_phnum :: u16
  e_shentsize :: u16
  e_shnum :: u16
  e_shstrndx :: u16

record elf32_shdr =
  sh_name :: u32
  sh_type :: u32
  sh_flags :: u32
  sh_addr :: u32
  sh_offset :: u32
  sh_size :: u32
  sh_link :: u32
  sh_info :: u32
  sh_addralign :: u32
  sh_entsize :: u32

record elf32_phdr =
  p_type :: u32
  p_offset :: u32
  p_vaddr :: u32
  p_paddr :: u32
  p_filesz :: u32
  p_memsz :: u32
  p_flags :: u32
  p_align :: u32

record elf32_sym =
  st_name :: u32
  st_value :: u32
  st_size :: u32
  st_info :: u8
  st_other :: u8
  st_shndx :: u16

record elf32_rel =
  r_offset :: u32
  r_info :: u32

section \<open>Reading the structures\<close>

text \<open>The fields at their offsets in the bytes of a structure.\<close>

definition half_at :: "u8 list \<Rightarrow> nat \<Rightarrow> u16" where
  "half_at bs i = ucast (bs ! i) OR push_bit 8 (ucast (bs ! (i + 1)))"

definition word_at :: "u8 list \<Rightarrow> nat \<Rightarrow> u32" where
  "word_at bs i = bytes_word (take 4 (drop i bs))"

definition decode_ehdr :: "u8 list \<Rightarrow> elf32_ehdr" where
  "decode_ehdr bs =
     \<lparr>e_ident = take 16 bs, e_type = half_at bs 16, e_machine = half_at bs 18, e_version =
         word_at bs 20, e_entry = word_at bs 24, e_phoff = word_at bs 28, e_shoff = word_at bs
         32, e_flags = word_at bs 36, e_ehsize = half_at bs 40, e_phentsize = half_at bs 42,
         e_phnum = half_at bs 44, e_shentsize = half_at bs 46, e_shnum = half_at bs 48,
         e_shstrndx = half_at bs 50\<rparr>"

definition read_ehdr :: "memory \<Rightarrow> u32 \<Rightarrow> elf32_ehdr option" where
  "read_ehdr m p = (if p = 0 then None else map_option decode_ehdr (load_bytes m (unat p) 52))"

definition decode_shdr :: "u8 list \<Rightarrow> elf32_shdr" where
  "decode_shdr bs =
     \<lparr>sh_name = word_at bs 0, sh_type = word_at bs 4, sh_flags = word_at bs 8, sh_addr =
         word_at bs 12, sh_offset = word_at bs 16, sh_size = word_at bs 20, sh_link = word_at bs
         24, sh_info = word_at bs 28, sh_addralign = word_at bs 32, sh_entsize = word_at bs 36\<rparr>"

definition read_shdr :: "memory \<Rightarrow> u32 \<Rightarrow> elf32_shdr option" where
  "read_shdr m p = (if p = 0 then None else map_option decode_shdr (load_bytes m (unat p) 40))"

definition decode_phdr :: "u8 list \<Rightarrow> elf32_phdr" where
  "decode_phdr bs =
     \<lparr>p_type = word_at bs 0, p_offset = word_at bs 4, p_vaddr = word_at bs 8, p_paddr =
         word_at bs 12, p_filesz = word_at bs 16, p_memsz = word_at bs 20, p_flags = word_at bs
         24, p_align = word_at bs 28\<rparr>"

definition read_phdr :: "memory \<Rightarrow> u32 \<Rightarrow> elf32_phdr option" where
  "read_phdr m p = (if p = 0 then None else map_option decode_phdr (load_bytes m (unat p) 32))"

definition decode_sym :: "u8 list \<Rightarrow> elf32_sym" where
  "decode_sym bs =
     \<lparr>st_name = word_at bs 0, st_value = word_at bs 4, st_size = word_at bs 8, st_info = bs !
         12, st_other = bs ! 13, st_shndx = half_at bs 14\<rparr>"

definition read_sym :: "memory \<Rightarrow> u32 \<Rightarrow> elf32_sym option" where
  "read_sym m p = (if p = 0 then None else map_option decode_sym (load_bytes m (unat p) 16))"

definition decode_rel :: "u8 list \<Rightarrow> elf32_rel" where
  "decode_rel bs =
     \<lparr>r_offset = word_at bs 0, r_info = word_at bs 4\<rparr>"

definition read_rel :: "memory \<Rightarrow> u32 \<Rightarrow> elf32_rel option" where
  "read_rel m p = (if p = 0 then None else map_option decode_rel (load_bytes m (unat p) 8))"

text \<open>\<open>strcmp( str, name ) == 0\<close> for a string in memory.\<close>

definition c_str :: "memory \<Rightarrow> u32 \<Rightarrow> u8 list option" where
  "c_str m p = do { n \<leftarrow> strlen m (unat p); load_bytes m (unat p) n }"

definition str_eq :: "memory \<Rightarrow> u32 \<Rightarrow> u8 list \<Rightarrow> bool option" where
  "str_eq m p name = do { s \<leftarrow> c_str m p; Some (s = name) }"

section \<open>Headers by number and by name\<close>

text \<open>The bound lets the number \<open>e_shnum\<close> itself pass.\<close>

definition get_elf_shdr :: "memory \<Rightarrow> u32 \<Rightarrow> u32 \<Rightarrow> u32 option" where
  "get_elf_shdr m ehdr n =
     do { h \<leftarrow> read_ehdr m ehdr;
          Some (if ucast (e_shnum h) < n then 0 else ehdr + e_shoff h + ucast (e_shentsize h) * n) }"

definition get_elf_phdr :: "memory \<Rightarrow> u32 \<Rightarrow> u32 \<Rightarrow> u32 option" where
  "get_elf_phdr m ehdr n =
     do { h \<leftarrow> read_ehdr m ehdr;
          Some (if n < ucast (e_phnum h) then ehdr + e_phoff h + ucast (e_phentsize h) * n else 0) }"

text \<open>Where the contents of a section are: in the image, or where the linker put them. For other
  types the pointer is not set.\<close>

definition section_start :: "elf32_ehdr \<Rightarrow> u32 \<Rightarrow> elf32_shdr \<Rightarrow> u32 option" where
  "section_start h ehdr sh =
     (if e_type h = ET_DYN then Some (ehdr + sh_offset sh)
      else if e_type h = ET_EXEC then Some (sh_addr sh)
      else None)"

text \<open>\<open>n\<close> section headers from number \<open>i\<close> on.\<close>

fun find_shdr :: "memory \<Rightarrow> u32 \<Rightarrow> u32 \<Rightarrow> u8 list \<Rightarrow> u32 \<Rightarrow> nat \<Rightarrow> u32 option" where
  "find_shdr m ehdr shstrtab name i 0 = Some 0"
| "find_shdr m ehdr shstrtab name i (Suc n) =
     do { move \<leftarrow> get_elf_shdr m ehdr i;
          sh \<leftarrow> read_shdr m move;
          eq \<leftarrow> str_eq m (shstrtab + sh_name sh) name;
          if eq then Some move else find_shdr m ehdr shstrtab name (i + 1) n }"

definition get_elf_shdr_byname :: "memory \<Rightarrow> u32 \<Rightarrow> u8 list \<Rightarrow> u32 option" where
  "get_elf_shdr_byname m ehdr name =
     do { h \<leftarrow> read_ehdr m ehdr;
          temp \<leftarrow> get_elf_shdr m ehdr (ucast (e_shstrndx h));
          if temp = 0 then Some 0
          else do { sh \<leftarrow> read_shdr m temp;
                    shstrtab \<leftarrow> section_start h ehdr sh;
                    find_shdr m ehdr shstrtab name 0 (unat (e_shnum h)) } }"

section \<open>Symbols\<close>

definition get_elf_sym :: "memory \<Rightarrow> u32 \<Rightarrow> u32 \<Rightarrow> u8 list \<Rightarrow> u32 option" where
  "get_elf_sym m ehdr n section =
     do { h \<leftarrow> read_ehdr m ehdr;
          p \<leftarrow> get_elf_shdr_byname m ehdr section;
          shead \<leftarrow> read_shdr m p;
          symtab \<leftarrow> section_start h ehdr shead;
          if sh_size shead = 0 \<or> sh_entsize shead = 0 then Some 0
          else if n < sh_size shead div sh_entsize shead then Some (symtab + n * sh_entsize shead)
          else Some 0 }"

text \<open>The name of the string table: the first \<open>sym\<close> becomes \<open>str\<close>. With fewer than two characters
  the unsigned bound wraps and the search leaves the buffer.\<close>

fun sym_to_str :: "u8 list \<Rightarrow> u8 list" where
  "sym_to_str (a # b # c # cs) =
     (if a = 0x73 \<and> b = 0x79 \<and> c = 0x6d then a # 0x74 # 0x72 # cs else a # sym_to_str (b # c # cs))"
| "sym_to_str cs = cs"

definition strtab_name :: "u8 list \<Rightarrow> u8 list option" where
  "strtab_name section = (if length section < 2 then None else Some (sym_to_str section))"

definition get_elf_sym_name :: "memory \<Rightarrow> u32 \<Rightarrow> u32 \<Rightarrow> u8 list \<Rightarrow> u32 option" where
  "get_elf_sym_name m ehdr y section =
     do { tname \<leftarrow> strtab_name section;
          p \<leftarrow> get_elf_shdr_byname m ehdr tname;
          h \<leftarrow> read_ehdr m ehdr;
          shead \<leftarrow> read_shdr m p;
          strtab \<leftarrow> section_start h ehdr shead;
          sh \<leftarrow> read_sym m y;
          Some (strtab + st_name sh) }"

partial_function (option) find_sym :: "memory \<Rightarrow> u32 \<Rightarrow> u8 list \<Rightarrow> u8 list \<Rightarrow> u32 \<Rightarrow> u32 option" where
  "find_sym m ehdr name section i =
     do { y \<leftarrow> get_elf_sym m ehdr i section;
          if y = 0 then Some 0
          else do { buf \<leftarrow> get_elf_sym_name m ehdr y section;
                    eq \<leftarrow> (if buf = 0 then Some False else str_eq m buf name);
                    if eq then Some y else find_sym m ehdr name section (i + 1) } }"

definition get_elf_sym_byname :: "memory \<Rightarrow> u32 \<Rightarrow> u8 list \<Rightarrow> u8 list \<Rightarrow> u32 option" where
  "get_elf_sym_byname m ehdr name section = find_sym m ehdr name section 0"

declare find_sym.simps [code]

section \<open>New pages\<close>

text \<open>The bytes that \<open>map_pages( dir, start, end, .. )\<close> makes readable: it maps the page of
  \<open>start\<close>, of \<open>start + PAGE_SIZE\<close> and so on below \<open>end\<close>, each on a frame of its own.\<close>

definition page_covered :: "u32 \<Rightarrow> u32 \<Rightarrow> nat \<Rightarrow> bool" where
  "page_covered start end a \<longleftrightarrow>
     (let p = unat start div 4096 in p \<le> a div 4096 \<and> unat start + 4096 * (a div 4096 - p) < unat end)"

definition fresh_pages :: "(nat \<Rightarrow> u8) \<Rightarrow> u32 \<Rightarrow> u32 \<Rightarrow> memory \<Rightarrow> memory" where
  "fresh_pages fresh start end m = (\<lambda>a. if page_covered start end a then Some (fresh a) else m a)"

section \<open>The tables of an image\<close>

text \<open>The reference: the sections as a table from names to headers, the symbols of a section as a
  table from names to their addresses. Both are read as a whole.\<close>

fun read_shdrs :: "memory \<Rightarrow> u32 \<Rightarrow> u32 \<Rightarrow> u32 \<Rightarrow> u32 \<Rightarrow> nat \<Rightarrow> (u8 list \<times> u32 \<times> elf32_shdr) list option" where
  "read_shdrs m base ent strs i 0 = Some []"
| "read_shdrs m base ent strs i (Suc n) =
     do { sh \<leftarrow> read_shdr m (base + ent * i);
          name \<leftarrow> c_str m (strs + sh_name sh);
          rest \<leftarrow> read_shdrs m base ent strs (i + 1) n;
          Some ((name, base + ent * i, sh) # rest) }"

definition elf_sections :: "memory \<Rightarrow> u32 \<Rightarrow> (u8 list \<times> u32 \<times> elf32_shdr) list option" where
  "elf_sections m ehdr =
     do { h \<leftarrow> read_ehdr m ehdr;
          let base = ehdr + e_shoff h;
          let ent = ucast (e_shentsize h);
          if e_shnum h < e_shstrndx h then None
          else do { sh \<leftarrow> read_shdr m (base + ent * ucast (e_shstrndx h));
                    strs \<leftarrow> section_start h ehdr sh;
                    read_shdrs m base ent strs 0 (unat (e_shnum h)) } }"

fun read_syms :: "memory \<Rightarrow> u32 \<Rightarrow> u32 \<Rightarrow> u32 \<Rightarrow> u32 \<Rightarrow> nat \<Rightarrow> (u8 list \<times> u32) list option" where
  "read_syms m tab ent strs i 0 = Some []"
| "read_syms m tab ent strs i (Suc n) =
     do { y \<leftarrow> read_sym m (tab + i * ent);
          name \<leftarrow> (if strs + st_name y = 0 then None else c_str m (strs + st_name y));
          rest \<leftarrow> read_syms m tab ent strs (i + 1) n;
          Some ((name, tab + i * ent) # rest) }"

definition elf_symbols :: "memory \<Rightarrow> u32 \<Rightarrow> u8 list \<Rightarrow> (u8 list \<times> u32) list option" where
  "elf_symbols m ehdr section =
     do { h \<leftarrow> read_ehdr m ehdr;
          ss \<leftarrow> elf_sections m ehdr;
          (_, sh) \<leftarrow> map_of ss section;
          tab \<leftarrow> section_start h ehdr sh;
          if sh_size sh = 0 \<or> sh_entsize sh = 0 then Some []
          else do { tname \<leftarrow> strtab_name section;
                    (_, st) \<leftarrow> map_of ss tname;
                    strs \<leftarrow> section_start h ehdr st;
                    read_syms m tab (sh_entsize sh) strs 0 (unat (sh_size sh div sh_entsize sh)) } }"

lemma unat_half_less: "unat w < 65536" for w :: u16
  using unsigned_less [of w] by simp

lemma unat_half [simp]: "unat (ucast w :: u32) = unat w" for w :: u16
  using unat_half_less [of w] by (simp add: unsigned_ucast_eq take_bit_nat_eq_self)

lemma read_nonnull: "read_shdr m p = Some sh \<Longrightarrow> p \<noteq> 0" "read_sym m p = Some y \<Longrightarrow> p \<noteq> 0"
  by (auto simp: read_shdr_def read_sym_def split: if_splits)

lemma find_shdr_ok:
  "read_ehdr m ehdr = Some h \<Longrightarrow> read_shdrs m (ehdr + e_shoff h) (ucast (e_shentsize h)) strs i n = Some ss \<Longrightarrow>
   unat i + n \<le> unat (e_shnum h) \<Longrightarrow>
   find_shdr m ehdr strs name i n = Some (case map_of ss name of None \<Rightarrow> 0 | Some (p, sh) \<Rightarrow> p)"
proof (induction n arbitrary: i ss)
  case (Suc n)
  then obtain sh nm rest where
    r: "read_shdr m (ehdr + e_shoff h + ucast (e_shentsize h) * i) = Some sh" "c_str m (strs + sh_name sh) = Some nm"
      "read_shdrs m (ehdr + e_shoff h) (ucast (e_shentsize h)) strs (i + 1) n = Some rest"
      "ss = (nm, ehdr + e_shoff h + ucast (e_shentsize h) * i, sh) # rest"
    by (auto simp: bind_eq_Some_conv)
  have b: "unat (e_shnum h) < 65536" by (rule unat_half_less)
  then have "unat i + 1 < 2 ^ 32" using Suc.prems(3) by simp
  then have "unat (i + 1) = unat i + 1" by (simp add: unat_succ)
  with Suc.IH [OF Suc.prems(1) r(3)] Suc.prems(3)
  have ih: "find_shdr m ehdr strs name (i + 1) n = Some (case map_of rest name of None \<Rightarrow> 0 | Some (p, sh) \<Rightarrow> p)" by simp
  have "i \<le> ucast (e_shnum h)" using Suc.prems(3) by (simp add: word_le_nat_alt)
  then have "get_elf_shdr m ehdr i = Some (ehdr + e_shoff h + ucast (e_shentsize h) * i)"
    using Suc.prems(1) by (auto simp: get_elf_shdr_def)
  then show ?case using r ih by (simp add: str_eq_def)
qed simp

lemma get_elf_shdr_byname_ok:
  assumes "elf_sections m ehdr = Some ss"
  shows "get_elf_shdr_byname m ehdr name = Some (case map_of ss name of None \<Rightarrow> 0 | Some (p, sh) \<Rightarrow> p)"
proof -
  obtain h sh strs where h: "read_ehdr m ehdr = Some h" "\<not> e_shnum h < e_shstrndx h"
      "read_shdr m (ehdr + e_shoff h + ucast (e_shentsize h) * ucast (e_shstrndx h)) = Some sh"
      "section_start h ehdr sh = Some strs"
      "read_shdrs m (ehdr + e_shoff h) (ucast (e_shentsize h)) strs 0 (unat (e_shnum h)) = Some ss"
    using assms by (auto simp: elf_sections_def bind_eq_Some_conv Let_def split: if_splits)
  have "\<not> (ucast (e_shnum h) :: u32) < ucast (e_shstrndx h)"
    using h(2) by (simp add: word_less_nat_alt)
  then have "get_elf_shdr m ehdr (ucast (e_shstrndx h)) = Some (ehdr + e_shoff h + ucast (e_shentsize h) * ucast (e_shstrndx h))"
    using h(1) by (simp add: get_elf_shdr_def)
  then show ?thesis
    using h find_shdr_ok [OF h(1,5)] read_nonnull(1) [OF h(3)] by (simp add: get_elf_shdr_byname_def)
qed

lemma find_sym_ok:
  assumes get: "\<And>k. get_elf_sym m ehdr k section = Some (if k < cnt then tab + k * ent else 0)"
    and name: "\<And>p y. read_sym m p = Some y \<Longrightarrow> get_elf_sym_name m ehdr p section = Some (strs + st_name y)"
  shows "read_syms m tab ent strs i n = Some syms \<Longrightarrow> unat i + n = unat cnt \<Longrightarrow>
    find_sym m ehdr nm section i = Some (case map_of syms nm of None \<Rightarrow> 0 | Some p \<Rightarrow> p)"
proof (induction n arbitrary: i syms)
  case 0
  then have "\<not> i < cnt" by (simp add: word_less_nat_alt)
  then show ?case using 0 by (subst find_sym.simps) (simp add: get)
next
  case (Suc n)
  then obtain y s rest where
    r: "read_sym m (tab + i * ent) = Some y" "strs + st_name y \<noteq> 0" "c_str m (strs + st_name y) = Some s"
      "read_syms m tab ent strs (i + 1) n = Some rest" "syms = (s, tab + i * ent) # rest"
    by (auto simp: bind_eq_Some_conv split: if_splits)
  have lt: "i < cnt" using Suc.prems(2) by (simp add: word_less_nat_alt)
  then have "unat (i + 1) = Suc (unat i)"
    using unat_u32_less [of cnt] by (intro unat_succ) (auto simp: word_less_nat_alt)
  then have ih: "find_sym m ehdr nm section (i + 1) = Some (case map_of rest nm of None \<Rightarrow> 0 | Some p \<Rightarrow> p)"
    using Suc.prems(2) by (intro Suc.IH [OF r(4)]) simp
  show ?case
    using r(2,3,5) lt name [OF r(1)] read_nonnull(2) [OF r(1)] ih
    by (subst find_sym.simps) (simp add: get str_eq_def)
qed

lemma strtab_name_Some: "strtab_name s = Some t \<Longrightarrow> t = sym_to_str s"
  by (simp add: strtab_name_def split: if_splits)

lemma read_shdrs_entries:
  "read_shdrs m base ent strs i n = Some ss \<Longrightarrow> (name, p, sh) \<in> set ss \<Longrightarrow> read_shdr m p = Some sh"
  by (induction n arbitrary: i ss) (auto simp: bind_eq_Some_conv)

lemma read_sections:
  assumes "elf_sections m ehdr = Some ss" "map_of ss name = Some (p, sh)"
  shows "read_shdr m p = Some sh"
  using assms(1) map_of_SomeD [OF assms(2)]
  by (auto simp: elf_sections_def bind_eq_Some_conv Let_def intro: read_shdrs_entries split: if_splits)

lemma get_elf_sym_byname_ok:
  assumes "elf_symbols m ehdr section = Some syms"
  shows "get_elf_sym_byname m ehdr name section = Some (case map_of syms name of None \<Rightarrow> 0 | Some p \<Rightarrow> p)"
proof -
  obtain h ss p sh tab where h: "read_ehdr m ehdr = Some h" "elf_sections m ehdr = Some ss"
      "map_of ss section = Some (p, sh)" "section_start h ehdr sh = Some tab"
    and r: "(if sh_size sh = 0 \<or> sh_entsize sh = 0 then Some []
          else do { tname \<leftarrow> strtab_name section;
                    (_, st) \<leftarrow> map_of ss tname;
                    strs \<leftarrow> section_start h ehdr st;
                    read_syms m tab (sh_entsize sh) strs 0 (unat (sh_size sh div sh_entsize sh)) }) = Some syms"
    using assms by (auto simp: elf_symbols_def elim!: bind_SomeE case_prod_SomeE)
  have sec: "get_elf_shdr_byname m ehdr nm = Some (case map_of ss nm of None \<Rightarrow> 0 | Some (p, sh) \<Rightarrow> p)" for nm
    by (rule get_elf_shdr_byname_ok [OF h(2)])
  show ?thesis
  proof (cases "sh_size sh = 0 \<or> sh_entsize sh = 0")
    case True
    then show ?thesis
      using r h sec read_sections [OF h(2,3)] by (auto simp: get_elf_sym_byname_def find_sym.simps get_elf_sym_def)
  next
    case False
    then obtain tname q st strs where t: "strtab_name section = Some tname" "map_of ss tname = Some (q, st)"
        "section_start h ehdr st = Some strs"
        "read_syms m tab (sh_entsize sh) strs 0 (unat (sh_size sh div sh_entsize sh)) = Some syms"
      using r by (auto elim!: bind_SomeE case_prod_SomeE)
    have "get_elf_sym m ehdr k section = Some (if k < sh_size sh div sh_entsize sh then tab + k * sh_entsize sh else 0)" for k
      using h sec [of "section"] read_sections [OF h(2,3)] False by (simp add: get_elf_sym_def)
    moreover have "get_elf_sym_name m ehdr p section = Some (strs + st_name y)" if "read_sym m p = Some y" for p y
      using h(1) t sec [of tname] read_sections [OF h(2) t(2)] that by (simp add: get_elf_sym_name_def)
    ultimately show ?thesis
      unfolding get_elf_sym_byname_def by (rule find_sym_ok) (use t(4) in simp_all)
  qed
qed

lemma read_syms_nonnull: "read_syms m tab ent strs i n = Some syms \<Longrightarrow> (name, p) \<in> set syms \<Longrightarrow> p \<noteq> 0"
proof (induction n arbitrary: i syms)
  case (Suc n)
  then obtain y s rest where r: "read_sym m (tab + i * ent) = Some y"
      "read_syms m tab ent strs (i + 1) n = Some rest" "syms = (s, tab + i * ent) # rest"
    by (auto simp: bind_eq_Some_conv split: if_splits)
  then show ?case using Suc.IH [OF r(2)] Suc.prems(2) read_nonnull(2) [OF r(1)] by auto
qed simp

lemma elf_symbols_nonnull:
  assumes "elf_symbols m ehdr section = Some syms" "map_of syms name = Some p"
  shows "p \<noteq> 0"
  using assms(1) map_of_SomeD [OF assms(2)]
  by (auto simp: elf_symbols_def dest: read_syms_nonnull split: if_splits elim!: bind_SomeE case_prod_SomeE)

section \<open>Properties\<close>

text \<open>C19. The search for a symbol has no bound of its own. On an image whose tables can be read it
  comes to an end, with the address of the first symbol of the table that has the name; the result is
  null exactly when no symbol has it.\<close>

theorem get_elf_sym_byname_total:
  assumes "elf_symbols m ehdr section = Some syms"
  shows "\<exists>p. get_elf_sym_byname m ehdr name section = Some p
    \<and> (p = 0 \<longleftrightarrow> name \<notin> fst ` set syms) \<and> (p \<noteq> 0 \<longrightarrow> map_of syms name = Some p)"
  using get_elf_sym_byname_ok [OF assms, of name] elf_symbols_nonnull [OF assms, of name]
  by (cases "map_of syms name") (auto simp: map_of_eq_None_iff dest: map_of_SomeD intro: rev_image_eqI)

text \<open>An image of 236 bytes at address 4096: three sections, and two symbols in \<^verbatim>\<open>.dynsym\<close>, the null
  symbol and \<^verbatim>\<open>init\<close>.\<close>

definition sample_elf_bytes :: "u8 list" where
  "sample_elf_bytes =
    [127, 69, 76, 70, 0, 0, 0, 0, 0, 0, 0, 0, 0, 0, 0, 0, 3, 0, 3, 0,
     1, 0, 0, 0, 0, 0, 0, 0, 0, 0, 0, 0, 52, 0, 0, 0, 0, 0, 0, 0,
     52, 0, 0, 0, 0, 0, 40, 0, 3, 0, 2, 0, 0, 0, 0, 0, 0, 0, 0, 0,
     0, 0, 0, 0, 0, 0, 0, 0, 204, 0, 0, 0, 32, 0, 0, 0, 0, 0, 0, 0,
     0, 0, 0, 0, 0, 0, 0, 0, 16, 0, 0, 0, 8, 0, 0, 0, 0, 0, 0, 0,
     0, 0, 0, 0, 0, 0, 0, 0, 198, 0, 0, 0, 6, 0, 0, 0, 0, 0, 0, 0,
     0, 0, 0, 0, 0, 0, 0, 0, 0, 0, 0, 0, 16, 0, 0, 0, 0, 0, 0, 0,
     0, 0, 0, 0, 0, 0, 0, 0, 172, 0, 0, 0, 26, 0, 0, 0, 0, 0, 0, 0,
     0, 0, 0, 0, 0, 0, 0, 0, 0, 0, 0, 0, 46, 100, 121, 110, 115, 121, 109, 0,
     46, 100, 121, 110, 115, 116, 114, 0, 46, 115, 104, 115, 116, 114, 116, 97, 98, 0, 0, 105,
     110, 105, 116, 0, 0, 0, 0, 0, 0, 0, 0, 0, 0, 0, 0, 0, 0, 0, 0, 0,
     1, 0, 0, 0, 32, 0, 0, 0, 0, 0, 0, 0, 0, 0, 1, 0]"

definition sample_elf :: memory where
  "sample_elf a = (if 4096 \<le> a \<and> a < 4332 then Some (sample_elf_bytes ! (a - 4096)) else None)"

text \<open>The bytes of \<^verbatim>\<open>.dynsym\<close> and \<^verbatim>\<open>init\<close>.\<close>

abbreviation dynsym_str :: "u8 list" where
  "dynsym_str \<equiv> [0x2e, 0x64, 0x79, 0x6e, 0x73, 0x79, 0x6d]"

abbreviation init_str :: "u8 list" where
  "init_str \<equiv> [0x69, 0x6e, 0x69, 0x74]"

lemma sample_length: "length sample_elf_bytes = 236"
  by (simp add: sample_elf_bytes_def)

lemma sample_load:
  "4096 \<le> a \<Longrightarrow> a + n \<le> 4332 \<Longrightarrow> load_bytes sample_elf a n = Some (take n (drop (a - 4096) sample_elf_bytes))"
proof -
  assume a: "4096 \<le> a" "a + n \<le> 4332"
  then have "length (take n (drop (a - 4096) sample_elf_bytes)) = n" by (simp add: sample_length)
  moreover have "bytes_at sample_elf a (take n (drop (a - 4096) sample_elf_bytes))"
    using a by (auto simp: bytes_at_def sample_elf_def sample_length add.commute)
  ultimately show ?thesis using load_bytes_ok [of sample_elf a "take n (drop (a - 4096) sample_elf_bytes)"] by simp
qed

lemmas sample_decode = sample_load sample_elf_bytes_def word_at_def half_at_def

lemma sample_ehdr:
  "read_ehdr sample_elf 4096 =
     Some \<lparr>e_ident = [0x7f, 0x45, 0x4c, 0x46, 0, 0, 0, 0, 0, 0, 0, 0, 0, 0, 0, 0], e_type = 3, e_machine = 3, e_version = 1,
       e_entry = 0, e_phoff = 0, e_shoff = 52, e_flags = 0, e_ehsize = 52, e_phentsize = 0, e_phnum = 0, e_shentsize = 40,
       e_shnum = 3, e_shstrndx = 2\<rparr>"
  by (simp add: read_ehdr_def decode_ehdr_def sample_decode)

lemma sample_shdr:
  "read_shdr sample_elf 4148 = Some \<lparr>sh_name = 0, sh_type = 0, sh_flags = 0, sh_addr = 0, sh_offset = 204, sh_size = 32,
     sh_link = 0, sh_info = 0, sh_addralign = 0, sh_entsize = 16\<rparr>"
  "read_shdr sample_elf 4188 = Some \<lparr>sh_name = 8, sh_type = 0, sh_flags = 0, sh_addr = 0, sh_offset = 198, sh_size = 6,
     sh_link = 0, sh_info = 0, sh_addralign = 0, sh_entsize = 0\<rparr>"
  "read_shdr sample_elf 4228 = Some \<lparr>sh_name = 16, sh_type = 0, sh_flags = 0, sh_addr = 0, sh_offset = 172, sh_size = 26,
     sh_link = 0, sh_info = 0, sh_addralign = 0, sh_entsize = 0\<rparr>"
  by (simp_all add: read_shdr_def decode_shdr_def sample_decode)

lemma sample_syms:
  "map_option st_name (read_sym sample_elf 4300) = Some 0" "map_option st_name (read_sym sample_elf 4316) = Some 1"
  by (simp_all add: read_sym_def decode_sym_def sample_decode)

lemma c_str_ok: "cstr m (unat p) xs \<Longrightarrow> c_str m p = Some xs"
  by (auto simp: c_str_def strlen_ok cstr_def load_bytes_ok)

lemma sample_strings:
  "c_str sample_elf 4268 = Some dynsym_str" "c_str sample_elf 4276 = Some [0x2e, 0x64, 0x79, 0x6e, 0x73, 0x74, 0x72]"
  "c_str sample_elf 4284 = Some [0x2e, 0x73, 0x68, 0x73, 0x74, 0x72, 0x74, 0x61, 0x62]"
  "c_str sample_elf 4294 = Some []" "c_str sample_elf 4295 = Some init_str"
  by (rule c_str_ok, simp add: sample_elf_def sample_elf_bytes_def)+

lemma sample_symbols: "elf_symbols sample_elf 4096 dynsym_str = Some [([], 4300), (init_str, 4316)]"
proof -
  have "read_shdrs sample_elf 4148 40 4268 0 (Suc (Suc (Suc 0))) = Some
     [(dynsym_str, 4148, the (read_shdr sample_elf 4148)),
      ([0x2e, 0x64, 0x79, 0x6e, 0x73, 0x74, 0x72], 4188, the (read_shdr sample_elf 4188)),
      ([0x2e, 0x73, 0x68, 0x73, 0x74, 0x72, 0x74, 0x61, 0x62], 4228, the (read_shdr sample_elf 4228))]"
    by (simp add: sample_shdr sample_strings)
  then have ss: "elf_sections sample_elf 4096 = Some
     [(dynsym_str, 4148, the (read_shdr sample_elf 4148)),
      ([0x2e, 0x64, 0x79, 0x6e, 0x73, 0x74, 0x72], 4188, the (read_shdr sample_elf 4188)),
      ([0x2e, 0x73, 0x68, 0x73, 0x74, 0x72, 0x74, 0x61, 0x62], 4228, the (read_shdr sample_elf 4228))]"
    by (simp add: elf_sections_def sample_ehdr sample_shdr section_start_def ET_DYN_def Let_def numeral_3_eq_3 [symmetric])
  have "read_syms sample_elf 4300 16 4294 0 (Suc (Suc 0)) = Some [([], 4300), (init_str, 4316)]"
    using sample_syms by (auto simp: sample_strings)
  then show ?thesis
    using ss by (simp add: elf_symbols_def sample_ehdr sample_shdr section_start_def ET_DYN_def strtab_name_def
      numeral_2_eq_2 [symmetric])
qed

lemma find_sample:
  "get_elf_sym_byname sample_elf 4096 name dynsym_str = Some (if name = [] then 4300 else if name = init_str then 4316 else 0)"
  by (simp add: get_elf_sym_byname_ok [OF sample_symbols])

lemma get_elf_sym_byname_total_witness:
  "get_elf_sym_byname sample_elf 4096 init_str dynsym_str = Some 4316
    \<and> get_elf_sym_byname sample_elf 4096 [0x78] dynsym_str = Some 0"
  using get_elf_sym_byname_total [OF sample_symbols, of init_str] get_elf_sym_byname_total [OF sample_symbols, of "[0x78]"]
  by auto

end
