(* ===== verification/Module.thy ===== *)
theory Module
  imports Elf Initrd HashMap Paging
begin

text \<open>
  \<^verbatim>\<open>kernel/base/module.c\<close>: loading dynamic ELF objects into the kernel, resolving their symbols in
  the modules they depend on and relocating them. A module is known by its address. The list of
  modules is a linked list of these addresses; the cache of symbols is a hash map from the hash of
  a name to the address of the symbol. \<open>junk\<close> is what a new page table holds, \<open>fresh\<close> what the
  bytes of a newly mapped page hold, and \<open>run\<close> what the code of a module's \<open>init\<close> does.
\<close>

section \<open>State\<close>

record kmodule =
  md_name :: u32
  md_elf_head :: u32
  md_address :: u32
  md_pages :: u32
  md_def_symtab :: "u8 list"
  md_depends :: "nat dlist"
  md_links :: "nat dlist"
  md_symcache :: hashmap

text \<open>\<open>ms_heap\<close> holds the nodes of the list of modules, \<open>ms_syms\<close> those of the symbol caches.\<close>

record modsys =
  ms_mem :: memory
  ms_paging :: paging
  ms_modules :: "nat \<Rightarrow> kmodule option"
  ms_heap :: "nat lheap"
  ms_syms :: "u32 lheap"
  ms_list :: "list_head option"
  ms_address :: u32
  ms_inited :: bool
  ms_next :: nat

definition ms_kmalloc :: "modsys \<Rightarrow> modsys \<times> nat" where
  "ms_kmalloc s = (s\<lparr>ms_next := Suc (ms_next s)\<rparr>, ms_next s)"

definition ms_set :: "nat \<Rightarrow> kmodule \<Rightarrow> modsys \<Rightarrow> modsys" where
  "ms_set a md s = s\<lparr>ms_modules := (ms_modules s)(a \<mapsto> md)\<rparr>"

section \<open>Hashing names\<close>

text \<open>Characters are signed.\<close>

fun hash_from :: "u32 \<Rightarrow> u32 \<Rightarrow> u8 list \<Rightarrow> u32" where
  "hash_from ret i [] = ret"
| "hash_from ret i (c # cs) = hash_from ((ret XOR scast c * (i + 1)) * scast c) (i + 1) cs"

definition hash_string :: "u8 list \<Rightarrow> u32" where
  "hash_string str = hash_from 0 0 str"

section \<open>Finding modules and symbols\<close>

partial_function (option) get_module_from :: "modsys \<Rightarrow> u8 list \<Rightarrow> nat \<Rightarrow> nat option" where
  "get_module_from s name move =
     (if move = 0 then Some 0
      else do { n \<leftarrow> ms_heap s move;
                md \<leftarrow> ms_modules s (ln_data n);
                eq \<leftarrow> str_eq (ms_mem s) (md_name md) name;
                if eq then Some (ln_data n) else get_module_from s name (ln_next n) })"

declare get_module_from.simps [code]

definition get_module :: "modsys \<Rightarrow> u8 list \<Rightarrow> nat option" where
  "get_module s name = do { l \<leftarrow> ms_list s; get_module_from s name (lh_base l) }"

text \<open>The cache is asked first, by the hash alone.\<close>

definition cache_symbol :: "nat \<Rightarrow> u32 \<Rightarrow> u32 \<Rightarrow> modsys \<Rightarrow> modsys option" where
  "cache_symbol a nhash p s =
     do { md \<leftarrow> ms_modules s a;
          let (s1, t) = ms_kmalloc s;
          (h, c, _) \<leftarrow> hashmap_add (ms_syms s1) t (md_symcache md) nhash p;
          Some (ms_set a (md\<lparr>md_symcache := c\<rparr>) (s1\<lparr>ms_syms := h\<rparr>)) }"

definition get_real_symbol_address :: "nat \<Rightarrow> u8 list \<Rightarrow> modsys \<Rightarrow> (modsys \<times> u32) option" where
  "get_real_symbol_address a name s =
     (if a = 0 then Some (s, 0)
      else do {
        md \<leftarrow> ms_modules s a;
        if md_elf_head md = 0 then Some (s, 0)
        else do {
          r \<leftarrow> hashmap_get (ms_syms s) (md_symcache md) (hash_string name);
          if r \<noteq> None \<and> r \<noteq> Some 0 then Some (s, the r)
          else do {
            p \<leftarrow> get_elf_sym_byname (ms_mem s) (md_elf_head md) name (md_def_symtab md);
            if p = 0 then Some (s, 0)
            else do {
              y \<leftarrow> read_sym (ms_mem s) p;
              if st_shndx y = SHN_UNDEF then Some (s, 0)
              else do { let ret = md_address md + st_value y;
                        s' \<leftarrow> cache_symbol a (hash_string name) ret s;
                        Some (s', ret) }
            }
          }
        }
      })"

section \<open>Dependencies\<close>

text \<open>\<open>depends\<close> is an array of pointers to names that ends with a null pointer.\<close>

definition add_depend :: "nat \<Rightarrow> nat \<Rightarrow> modsys \<Rightarrow> modsys option" where
  "add_depend a d s =
     do { md \<leftarrow> ms_modules s a;
          (l, _) \<leftarrow> dlist_add (md_depends md) (Some d);
          Some (ms_set a (md\<lparr>md_depends := l\<rparr>) s) }"

partial_function (option) load_depends_from :: "nat \<Rightarrow> u32 \<Rightarrow> nat \<Rightarrow> modsys \<Rightarrow> (modsys \<times> bool) option" where
  "load_depends_from a depends i s =
     do { p \<leftarrow> load32 (ms_mem s) (unat depends + 4 * i);
          if p = 0 then Some (s, True)
          else do { name \<leftarrow> c_str (ms_mem s) p;
                    d \<leftarrow> get_module s name;
                    if d = 0 then Some (s, False)
                    else do { s' \<leftarrow> add_depend a d s; load_depends_from a depends (Suc i) s' } } }"

declare load_depends_from.simps [code]

definition module_load_depends :: "nat \<Rightarrow> u32 \<Rightarrow> modsys \<Rightarrow> (modsys \<times> bool) option" where
  "module_load_depends a depends s = load_depends_from a depends 0 s"

definition add_link :: "nat \<Rightarrow> nat \<Rightarrow> modsys \<Rightarrow> modsys option" where
  "add_link d a s =
     do { dm \<leftarrow> ms_modules s d;
          (l, _) \<leftarrow> dlist_add (md_links dm) (Some a);
          Some (ms_set d (dm\<lparr>md_links := l\<rparr>) s) }"

fun link_depends_from :: "nat \<Rightarrow> nat list \<Rightarrow> modsys \<Rightarrow> modsys option" where
  "link_depends_from a [] s = Some s"
| "link_depends_from a (i # is) s =
     do { md \<leftarrow> ms_modules s a;
          d \<leftarrow> dlist_get (md_depends md) (int i);
          s' \<leftarrow> (case d of Some dep \<Rightarrow> add_link dep a s | None \<Rightarrow> Some s);
          link_depends_from a is s' }"

definition module_link_depends :: "nat \<Rightarrow> modsys \<Rightarrow> modsys option" where
  "module_link_depends a s =
     do { md \<leftarrow> ms_modules s a; link_depends_from a [0..<dlist_allocated (md_depends md)] s }"

section \<open>Relocation\<close>

text \<open>A symbol the module does not define itself is searched in what it depends on, in order.\<close>

fun search_depends :: "nat \<Rightarrow> u8 list \<Rightarrow> nat list \<Rightarrow> modsys \<Rightarrow> (modsys \<times> u32) option" where
  "search_depends a name [] s = Some (s, 0)"
| "search_depends a name (i # is) s =
     do { md \<leftarrow> ms_modules s a;
          d \<leftarrow> dlist_get (md_depends md) (int i);
          (s', addr) \<leftarrow> (case d of Some dep \<Rightarrow> get_real_symbol_address dep name s | None \<Rightarrow> Some (s, 0));
          if addr \<noteq> 0 then Some (s', addr) else search_depends a name is s' }"

definition relocate :: "u32 \<Rightarrow> elf32_rel \<Rightarrow> u32 \<Rightarrow> memory \<Rightarrow> memory option" where
  "relocate address rel addr m =
     (let calc = unat (address + r_offset rel) in
      if ELF32_R_TYPE (r_info rel) = R_386_32 then store32 m calc addr
      else if ELF32_R_TYPE (r_info rel) = R_386_PC32
      then do { v \<leftarrow> load32 m calc; store32 m calc ((addr - address) + v - r_offset rel) }
      else Some m)"

definition module_link_symbol :: "nat \<Rightarrow> u8 list \<Rightarrow> elf32_rel \<Rightarrow> modsys \<Rightarrow> (modsys \<times> bool) option" where
  "module_link_symbol a name rel s =
     do { (s1, addr1) \<leftarrow> get_real_symbol_address a name s;
          (s2, addr) \<leftarrow> (if addr1 = 0
                        then do { md \<leftarrow> ms_modules s1 a;
                                  search_depends a name [0..<dlist_allocated (md_depends md)] s1 }
                        else Some (s1, addr1));
          if addr \<noteq> 0
          then do { md \<leftarrow> ms_modules s2 a;
                    m \<leftarrow> relocate (md_address md) rel addr (ms_mem s2);
                    Some (s2\<lparr>ms_mem := m\<rparr>, True) }
          else Some (s2, False) }"

section \<open>Loading a module\<close>

definition segment_end :: "elf32_phdr \<Rightarrow> u32" where
  "segment_end ph =
     (let e = p_vaddr ph + p_memsz ph in e + (PAGE_SIZE - e) mod PAGE_SIZE mod PAGE_SIZE)"

definition load_segment :: "u32 list \<Rightarrow> (nat \<Rightarrow> u8) \<Rightarrow> u32 \<Rightarrow> u32 \<Rightarrow> elf32_phdr \<Rightarrow> modsys \<Rightarrow> modsys option" where
  "load_segment junk fresh elf_obj address ph s =
     do { let end_addr = segment_end ph;
          let flags = (if p_flags ph AND PF_W \<noteq> 0 then PAGE_WRITEABLE else 0) OR PAGE_PRESENT;
          let start = address + (p_vaddr ph AND NOT (PAGE_SIZE - 1));
          (pg, _) \<leftarrow> map_pages junk (ms_paging s) (pg_kernel_dir (ms_paging s)) start (address + end_addr) flags;
          m \<leftarrow> memcpy (fresh_pages fresh start (address + end_addr) (ms_mem s))
                 (unat (address + p_vaddr ph)) (unat (elf_obj + p_offset ph)) (unat (p_filesz ph));
          Some (s\<lparr>ms_paging := pg, ms_mem := m, ms_address := address + end_addr\<rparr>) }"

text \<open>The \<open>n\<close> program headers from number \<open>i\<close> on.\<close>

fun load_segments :: "u32 list \<Rightarrow> (nat \<Rightarrow> u8) \<Rightarrow> u32 \<Rightarrow> u32 \<Rightarrow> u32 \<Rightarrow> nat \<Rightarrow> modsys \<Rightarrow> modsys option" where
  "load_segments junk fresh elf_obj address i 0 s = Some s"
| "load_segments junk fresh elf_obj address i (Suc n) s =
     do { p \<leftarrow> get_elf_phdr (ms_mem s) elf_obj i;
          s' \<leftarrow> (if p = 0 then Some s
                 else do { ph \<leftarrow> read_phdr (ms_mem s) p;
                           if p_type ph = PT_LOAD then load_segment junk fresh elf_obj address ph s else Some s });
          load_segments junk fresh elf_obj address (i + 1) n s' }"

text \<open>The number of entries of the relocation section; without one there are none.\<close>

definition rel_count :: "memory \<Rightarrow> u32 \<Rightarrow> nat option" where
  "rel_count m shdr =
     (if shdr = 0 then Some 0
      else do { sh \<leftarrow> read_shdr m shdr;
                if sh_entsize sh = 0 then None else Some (unat (sh_size sh div sh_entsize sh)) })"

definition rel_entry :: "memory \<Rightarrow> u32 \<Rightarrow> u32 \<Rightarrow> nat \<Rightarrow> elf32_rel option" where
  "rel_entry m elf_obj shdr i =
     do { sh \<leftarrow> read_shdr m shdr; read_rel m (elf_obj + sh_offset sh + sh_entsize sh * of_nat i) }"

fun relative_relocs :: "u32 \<Rightarrow> u32 \<Rightarrow> u32 \<Rightarrow> nat list \<Rightarrow> memory \<Rightarrow> memory option" where
  "relative_relocs elf_obj shdr address [] m = Some m"
| "relative_relocs elf_obj shdr address (i # is) m =
     do { rel \<leftarrow> rel_entry m elf_obj shdr i;
          m' \<leftarrow> (if ELF32_R_TYPE (r_info rel) = R_386_RELATIVE
                 then do { let calc = unat (address + r_offset rel);
                           v \<leftarrow> load32 m calc;
                           store32 m calc (v + address) }
                 else Some m);
          relative_relocs elf_obj shdr address is m' }"

text \<open>\<open>cur\<close> is the variable \<open>sym\<close>, not set at first; it keeps its value when an entry has the symbol 0.\<close>

fun symbol_relocs :: "nat \<Rightarrow> u32 \<Rightarrow> u32 \<Rightarrow> nat list \<Rightarrow> u32 option \<Rightarrow> modsys \<Rightarrow> (modsys \<times> bool) option" where
  "symbol_relocs a elf_obj shdr [] cur s = Some (s, True)"
| "symbol_relocs a elf_obj shdr (i # is) cur s =
     do { rel \<leftarrow> rel_entry (ms_mem s) elf_obj shdr i;
          if ELF32_R_TYPE (r_info rel) = R_386_32 \<or> ELF32_R_TYPE (r_info rel) = R_386_PC32
          then do {
            md \<leftarrow> ms_modules s a;
            let j = ELF32_R_SYM (r_info rel);
            cur' \<leftarrow> (if j \<noteq> 0 then map_option Some (get_elf_sym (ms_mem s) elf_obj j (md_def_symtab md)) else Some cur);
            y \<leftarrow> cur';
            temp \<leftarrow> get_elf_sym_name (ms_mem s) elf_obj y (md_def_symtab md);
            name \<leftarrow> c_str (ms_mem s) temp;
            (s', ok) \<leftarrow> module_link_symbol a name rel s;
            if ok then symbol_relocs a elf_obj shdr is cur' s' else Some (s', False)
          }
          else symbol_relocs a elf_obj shdr is cur s }"

definition new_module :: "u32 \<Rightarrow> modsys \<Rightarrow> modsys \<times> nat" where
  "new_module elf_obj s =
     (let (s1, a) = ms_kmalloc s in
      (ms_set a \<lparr>md_name = 0, md_elf_head = elf_obj, md_address = ms_address s1, md_pages = 0,
         md_def_symtab = [0x2e, 0x64, 0x79, 0x6e, 0x73, 0x79, 0x6d], md_depends = dlist_create 0 0,
         md_links = dlist_create 0 0, md_symcache = hashmap_create 32\<rparr> s1, a))"

text \<open>\<open>error_free\<close>: the structure is freed; the pages stay mapped and \<open>mod_address\<close> stays advanced.\<close>

definition free_module :: "nat \<Rightarrow> modsys \<Rightarrow> (modsys \<times> int) option" where
  "free_module a s = Some (s\<lparr>ms_modules := (ms_modules s)(a := None)\<rparr>, - 1)"

abbreviation provides_str :: "u8 list" where
  "provides_str \<equiv> [0x70, 0x72, 0x6f, 0x76, 0x69, 0x64, 0x65, 0x73]"

abbreviation depends_str :: "u8 list" where
  "depends_str \<equiv> [0x64, 0x65, 0x70, 0x65, 0x6e, 0x64, 0x73]"

abbreviation init_name :: "u8 list" where
  "init_name \<equiv> [0x69, 0x6e, 0x69, 0x74]"

abbreviation rel_dyn_str :: "u8 list" where
  "rel_dyn_str \<equiv> [0x2e, 0x72, 0x65, 0x6c, 0x2e, 0x64, 0x79, 0x6e]"

text \<open>From the symbol \<open>provides\<close> on: the name, the dependencies, the relocations, \<open>init\<close> and the lists.\<close>

definition finish_module :: "(u32 \<Rightarrow> modsys \<Rightarrow> modsys option) \<Rightarrow> nat \<Rightarrow> modsys \<Rightarrow> (modsys \<times> int) option" where
  "finish_module run a s =
     do { (s1, mod_init) \<leftarrow> get_real_symbol_address a init_name s;
          if mod_init = 0 then free_module a s1
          else do {
            s2 \<leftarrow> run mod_init s1;
            s3 \<leftarrow> module_link_depends a s2;
            l \<leftarrow> ms_list s3;
            let (s4, t) = ms_kmalloc s3;
            (h, l', _) \<leftarrow> list_add_data (ms_heap s4) t l a;
            Some (s4\<lparr>ms_heap := h, ms_list := Some l'\<rparr>, 0)
          } }"

definition link_module ::
  "(u32 \<Rightarrow> modsys \<Rightarrow> modsys option) \<Rightarrow> nat \<Rightarrow> u32 \<Rightarrow> u32 \<Rightarrow> modsys \<Rightarrow> (modsys \<times> int) option" where
  "link_module run a elf_obj shdr s =
     do { (s1, provides) \<leftarrow> get_real_symbol_address a provides_str s;
          if provides = 0 then free_module a s1
          else do {
            nm \<leftarrow> load32 (ms_mem s1) (unat provides);
            md \<leftarrow> ms_modules s1 a;
            (s2, depends) \<leftarrow> get_real_symbol_address a depends_str (ms_set a (md\<lparr>md_name := nm\<rparr>) s1);
            if depends = 0 then free_module a s2
            else do {
              (s3, found) \<leftarrow> module_load_depends a depends s2;
              if \<not> found then free_module a s3
              else do {
                n \<leftarrow> rel_count (ms_mem s3) shdr;
                (s4, ok) \<leftarrow> symbol_relocs a elf_obj shdr [0..<n] None s3;
                if ok then finish_module run a s4 else free_module a s4
              }
            }
          } }"

definition load_module ::
  "u32 list \<Rightarrow> (nat \<Rightarrow> u8) \<Rightarrow> (u32 \<Rightarrow> modsys \<Rightarrow> modsys option) \<Rightarrow> u32 \<Rightarrow> modsys \<Rightarrow> (modsys \<times> int) option" where
  "load_module junk fresh run elf_obj s =
     do { h \<leftarrow> read_ehdr (ms_mem s) elf_obj;
          if take 4 (e_ident h) \<noteq> [0x7f, 0x45, 0x4c, 0x46] then Some (s, - 1)
          else if e_type h \<noteq> ET_DYN then Some (s, - 1)
          else do {
            let (s1, a) = new_module elf_obj s;
            s2 \<leftarrow> load_segments junk fresh elf_obj (ms_address s) 0 (unat (e_phnum h)) s1;
            shdr \<leftarrow> get_elf_shdr_byname (ms_mem s2) elf_obj rel_dyn_str;
            n \<leftarrow> rel_count (ms_mem s2) shdr;
            m \<leftarrow> relative_relocs elf_obj shdr (ms_address s) [0..<n] (ms_mem s2);
            link_module run a elf_obj shdr (s2\<lparr>ms_mem := m\<rparr>)
          } }"

section \<open>The module system\<close>

definition store16 :: "memory \<Rightarrow> nat \<Rightarrow> u16 \<Rightarrow> memory option" where
  "store16 m a w = store_bytes m a [ucast w, ucast (drop_bit 8 w)]"

text \<open>What the boot loader says of the kernel's own section headers.\<close>

record multiboot_elf =
  mb_num :: u32
  mb_size :: u32
  mb_addr :: u32
  mb_shndx :: u32

text \<open>\<open>buf\<close> is the block for the header and a copy of the section headers, \<open>name\<close> the copy of the
  name \<open>base\<close>. The message for each section is left out.\<close>

definition base_header :: "u32 \<Rightarrow> multiboot_elf \<Rightarrow> memory \<Rightarrow> memory option" where
  "base_header buf info m0 =
     do { let a = unat buf;
          m1 \<leftarrow> memset m0 a 0 52;
          m2 \<leftarrow> memcpy m1 (a + 52) (unat (mb_addr info)) (unat (mb_size info * mb_num info));
          m3 \<leftarrow> store16 m2 (a + 16) ET_EXEC;
          m4 \<leftarrow> store32 m3 (a + 28) 0;
          m5 \<leftarrow> store32 m4 (a + 32) 52;
          m6 \<leftarrow> store16 m5 (a + 40) 52;
          m7 \<leftarrow> store16 m6 (a + 42) 0;
          m8 \<leftarrow> store16 m7 (a + 44) 0;
          m9 \<leftarrow> store16 m8 (a + 46) (ucast (mb_size info));
          m10 \<leftarrow> store16 m9 (a + 48) (ucast (mb_num info));
          store16 m10 (a + 50) (ucast (mb_shndx info)) }"

definition init_module_system :: "u32 \<Rightarrow> u32 \<Rightarrow> multiboot_elf option \<Rightarrow> modsys \<Rightarrow> modsys option" where
  "init_module_system buf name elfinfo s =
     (case elfinfo of
        Some info \<Rightarrow>
          if ms_inited s then Some (s\<lparr>ms_inited := True\<rparr>)
          else do {
            m \<leftarrow> base_header buf info (ms_mem s);
            let (s1, a) = ms_kmalloc (s\<lparr>ms_mem := m\<rparr>);
            let s2 = ms_set a \<lparr>md_name = name, md_elf_head = buf, md_address = 0, md_pages = 0,
                       md_def_symtab = [0x2e, 0x73, 0x79, 0x6d, 0x74, 0x61, 0x62], md_depends = dlist_create 0 0,
                       md_links = dlist_create 0 0, md_symcache = hashmap_create 32\<rparr> s1;
            let (s3, t) = ms_kmalloc s2;
            (h, l, _) \<leftarrow> list_add_data (ms_heap s3) t (list_create 0) a;
            Some (s3\<lparr>ms_heap := h, ms_list := Some l, ms_address := 0xcf000000, ms_inited := True\<rparr>)
          }
      | None \<Rightarrow> Some (s\<lparr>ms_inited := True\<rparr>))"

text \<open>\<open>for ( j = 0; modtab[i + j] != newline && j < size; j++ )\<close>: the bound does not take \<open>i\<close> into
  account. \<open>line\<close> is the address of \<open>modtab + i\<close>, \<open>n\<close> what is left of \<open>size\<close>.\<close>

fun copy_line :: "memory \<Rightarrow> nat \<Rightarrow> nat \<Rightarrow> nat \<Rightarrow> nat \<Rightarrow> (memory \<times> nat) option" where
  "copy_line m line namebuf j 0 = do { c \<leftarrow> m (line + j); Some (m, j) }"
| "copy_line m line namebuf j (Suc n) =
     do { c \<leftarrow> m (line + j);
          if c = 10 then Some (m, j)
          else do { m' \<leftarrow> store m (namebuf + j) c; copy_line m' line namebuf (Suc j) n } }"

text \<open>The result of \<open>load_module\<close> is ignored.\<close>

function load_listed ::
  "u32 list \<Rightarrow> (nat \<Rightarrow> u8) \<Rightarrow> (u32 \<Rightarrow> modsys \<Rightarrow> modsys option) \<Rightarrow> initrd \<Rightarrow> nat \<Rightarrow> nat \<Rightarrow> nat \<Rightarrow> nat \<Rightarrow> modsys \<Rightarrow>
   modsys option" where
  "load_listed junk fresh run rd modtab sz namebuf i s =
     (if i < sz
      then do {
        (m, j) \<leftarrow> copy_line (ms_mem s) (modtab + i) namebuf 0 sz;
        m' \<leftarrow> store m (namebuf + j) 0;
        tarhead \<leftarrow> initrd_get_file m' rd namebuf;
        s' \<leftarrow> (case tarhead of
                 Some p \<Rightarrow> map_option fst (load_module junk fresh run (of_nat (p + TAR_HEADER)) (s\<lparr>ms_mem := m'\<rparr>))
               | None \<Rightarrow> Some (s\<lparr>ms_mem := m'\<rparr>));
        load_listed junk fresh run rd modtab sz namebuf (i + j + 1) s'
      }
      else Some s)"
  by pat_completeness auto
termination
  by (relation "measure (\<lambda>(junk, fresh, run, rd, modtab, sz, namebuf, i, s). sz - i)") auto

declare load_listed.simps [simp del]

text \<open>\<open>name\<close> is where the constant \<^verbatim>\<open>kernel/config/modtab\<close> stands, \<open>namebuf\<close> the block for the names.\<close>

definition load_init_modules ::
  "u32 list \<Rightarrow> (nat \<Rightarrow> u8) \<Rightarrow> (u32 \<Rightarrow> modsys \<Rightarrow> modsys option) \<Rightarrow> nat \<Rightarrow> nat \<Rightarrow> initrd option \<Rightarrow> modsys \<Rightarrow>
   modsys option" where
  "load_init_modules junk fresh run name namebuf initmods s =
     (case initmods of
        None \<Rightarrow> Some s
      | Some rd \<Rightarrow> do {
          tarhead \<leftarrow> initrd_get_file (ms_mem s) rd name;
          (case tarhead of
             None \<Rightarrow> Some s
           | Some p \<Rightarrow> do {
               sz \<leftarrow> initrd_get_size (ms_mem s) p;
               load_listed junk fresh run rd (p + TAR_HEADER) (unat sz) namebuf 0 s
             }) })"

end
