(* ===== verification/ModuleProps.thy ===== *)
theory ModuleProps
  imports Module
begin

text \<open>
  What \<^verbatim>\<open>module.c\<close> promises: the cache of symbols is transparent as long as no two of the names
  asked for have the same hash, and a relocation stores what the linker's formula says.
\<close>

section \<open>The cache of symbols\<close>

text \<open>The search without the cache: null for a name the module does not define.\<close>

definition resolve_symbol :: "memory \<Rightarrow> kmodule \<Rightarrow> u8 list \<Rightarrow> u32 option" where
  "resolve_symbol m md name =
     (if md_elf_head md = 0 then Some 0
      else do { p \<leftarrow> get_elf_sym_byname m (md_elf_head md) name (md_def_symtab md);
                if p = 0 then Some 0
                else do { y \<leftarrow> read_sym m p;
                          Some (if st_shndx y = SHN_UNDEF then 0 else md_address md + st_value y) } })"

text \<open>Everything the cache of the module holds is the address of a name with the hash.\<close>

definition cache_ok :: "u8 list set \<Rightarrow> (u8 list \<Rightarrow> u32) \<Rightarrow> modsys \<Rightarrow> kmodule \<Rightarrow> bool" where
  "cache_ok N res s md \<longleftrightarrow> ms_next s \<noteq> 0 \<and> (\<forall>x \<ge> ms_next s. ms_syms s x = None)
     \<and> (\<exists>bs. hm_repr (ms_syms s) (md_symcache md) bs
          \<and> (\<forall>k e. hm_find (md_symcache md) bs k = Some e \<longrightarrow> (\<exists>n \<in> N. hash_string n = k \<and> res n = snd (snd e))))"

lemma cache_symbol_ok:
  assumes a: "ms_modules s a = Some md" and c: "cache_ok N res s md" and n: "name \<in> N"
  shows "\<exists>s' c. cache_symbol a (hash_string name) (res name) s = Some s'
    \<and> ms_modules s' a = Some (md\<lparr>md_symcache := c\<rparr>) \<and> cache_ok N res s' (md\<lparr>md_symcache := c\<rparr>)
    \<and> ms_mem s' = ms_mem s"
proof -
  let ?h = "hash_string name" and ?t = "ms_next s"
  obtain bs where r: "hm_repr (ms_syms s) (md_symcache md) bs"
    and e: "\<forall>k e. hm_find (md_symcache md) bs k = Some e \<longrightarrow> (\<exists>n \<in> N. hash_string n = k \<and> res n = snd (snd e))"
    using c unfolding cache_ok_def by blast
  have t: "ms_syms s ?t = None" "?t \<noteq> 0" and fresh: "\<forall>x \<ge> ?t. ms_syms s x = None" using c by (auto simp: cache_ok_def)
  obtain h' m' where h': "hashmap_add (ms_syms s) ?t (md_symcache md) ?h (res name) = Some (h', m', Some (res name))"
      "hm_repr h' m' (bs[hm_slot (md_symcache md) ?h := bs ! hm_slot (md_symcache md) ?h @ [(?t, sint ?h, res name)]])"
      "hm_nbuckets m' = hm_nbuckets (md_symcache md)"
    using hashmap_add_ok [OF r t] by blast
  have f: "hm_find m' (bs[hm_slot (md_symcache md) ?h := bs ! hm_slot (md_symcache md) ?h @ [(?t, sint ?h, res name)]]) k
      = (if k = ?h \<and> hm_find (md_symcache md) bs ?h = None then Some (?t, sint ?h, res name) else hm_find (md_symcache md) bs k)" for k
    by (rule hm_find_add [OF hm_slot_less [OF r] h'(3)])
  have "\<forall>x > ?t. h' x = None"
    using hashmap_add_frame [OF r t h'(1)] fresh by (metis less_imp_le nat_less_le)
  then have "cache_ok N res (ms_set a (md\<lparr>md_symcache := m'\<rparr>) (s\<lparr>ms_next := Suc ?t, ms_syms := h'\<rparr>)) (md\<lparr>md_symcache := m'\<rparr>)"
    using h'(2) e n by (auto simp: cache_ok_def ms_set_def f intro!: exI [of _ "bs[hm_slot (md_symcache md) ?h := _]"] split: if_splits)
  then show ?thesis
    using a h'(1) by (auto simp: cache_symbol_def ms_kmalloc_def ms_set_def)
qed

lemma get_real_symbol_ok:
  assumes s: "ms_modules s a = Some md" "cache_ok N res s md" and inj: "inj_on hash_string N" and n: "name \<in> N"
    and res: "resolve_symbol (ms_mem s) md name = Some (res name)" and a: "a \<noteq> 0"
  shows "\<exists>s' c. get_real_symbol_address a name s = Some (s', res name)
    \<and> ms_modules s' a = Some (md\<lparr>md_symcache := c\<rparr>) \<and> cache_ok N res s' (md\<lparr>md_symcache := c\<rparr>)
    \<and> ms_mem s' = ms_mem s"
proof -
  have same: "\<exists>c. ms_modules s a = Some (md\<lparr>md_symcache := c\<rparr>) \<and> cache_ok N res s (md\<lparr>md_symcache := c\<rparr>)"
    using s by (intro exI [of _ "md_symcache md"]) simp
  show ?thesis
  proof (cases "md_elf_head md = 0")
    case True
    then show ?thesis using s(1) res a same by (auto simp: get_real_symbol_address_def resolve_symbol_def)
  next
    case head: False
    obtain bs where r: "hm_repr (ms_syms s) (md_symcache md) bs"
      and e: "\<forall>k e. hm_find (md_symcache md) bs k = Some e \<longrightarrow> (\<exists>n \<in> N. hash_string n = k \<and> res n = snd (snd e))"
      using s(2) unfolding cache_ok_def by blast
    show ?thesis
    proof (cases "\<exists>p. hashmap_get (ms_syms s) (md_symcache md) (hash_string name) = Some (Some p) \<and> p \<noteq> 0")
      case True
      then obtain p where p: "hashmap_get (ms_syms s) (md_symcache md) (hash_string name) = Some (Some p)" "p \<noteq> 0" by blast
      then obtain x where x: "hm_find (md_symcache md) bs (hash_string name) = Some x" "p = snd (snd x)"
        by (auto simp: hashmap_get_ok [OF r])
      with e obtain n' where "n' \<in> N" "hash_string n' = hash_string name" "res n' = p" by blast
      with inj n have "p = res name" by (metis inj_onD)
      then show ?thesis using s(1) a head p same by (auto simp: get_real_symbol_address_def)
    next
      case False
      then obtain q where q: "hashmap_get (ms_syms s) (md_symcache md) (hash_string name) = Some q" "q = None \<or> q = Some 0"
        by (cases "hm_find (md_symcache md) bs (hash_string name)") (auto simp: hashmap_get_ok [OF r])
      obtain p where p: "get_elf_sym_byname (ms_mem s) (md_elf_head md) name (md_def_symtab md) = Some p"
        using res head by (auto simp: resolve_symbol_def bind_eq_Some_conv)
      show ?thesis
      proof (cases "p = 0 \<or> (\<exists>y. read_sym (ms_mem s) p = Some y \<and> st_shndx y = SHN_UNDEF)")
        case True
        then have "get_real_symbol_address a name s = Some (s, 0)" "res name = 0"
          using s(1) a head q p res by (auto simp: get_real_symbol_address_def resolve_symbol_def split: if_splits)
        then show ?thesis using same by simp
      next
        case False
        then have "get_real_symbol_address a name s = do { s' \<leftarrow> cache_symbol a (hash_string name) (res name) s; Some (s', res name) }"
          using s(1) a head q p res by (auto simp: get_real_symbol_address_def resolve_symbol_def bind_eq_Some_conv Let_def)
        then show ?thesis using cache_symbol_ok [OF s n] by auto
      qed
    qed
  qed
qed

fun look_up_all :: "nat \<Rightarrow> u8 list list \<Rightarrow> modsys \<Rightarrow> (modsys \<times> u32 list) option" where
  "look_up_all a [] s = Some (s, [])"
| "look_up_all a (n # ns) s =
     do { (s1, p) \<leftarrow> get_real_symbol_address a n s; (s2, ps) \<leftarrow> look_up_all a ns s1; Some (s2, p # ps) }"

lemma resolve_symbol_cache [simp]: "resolve_symbol m (md\<lparr>md_symcache := c\<rparr>) name = resolve_symbol m md name"
  by (simp add: resolve_symbol_def cong: if_cong)

lemma look_up_all_ok:
  "ms_modules s a = Some md \<Longrightarrow> cache_ok N res s md \<Longrightarrow> inj_on hash_string N \<Longrightarrow> set names \<subseteq> N \<Longrightarrow> a \<noteq> 0 \<Longrightarrow>
   (\<And>n. n \<in> N \<Longrightarrow> resolve_symbol (ms_mem s) md n = Some (res n)) \<Longrightarrow>
   \<exists>s'. look_up_all a names s = Some (s', map res names)"
proof (induction names arbitrary: s md)
  case (Cons n ns)
  have n: "n \<in> N" using Cons.prems(4) by simp
  obtain s' c where s': "get_real_symbol_address a n s = Some (s', res n)"
      "ms_modules s' a = Some (md\<lparr>md_symcache := c\<rparr>)" "cache_ok N res s' (md\<lparr>md_symcache := c\<rparr>)" "ms_mem s' = ms_mem s"
    using get_real_symbol_ok [OF Cons.prems(1-3) n Cons.prems(6) [OF n] Cons.prems(5)] by blast
  obtain s'' where "look_up_all a ns s' = Some (s'', map res ns)"
    using Cons.IH [OF s'(2,3) Cons.prems(3) _ Cons.prems(5)] Cons.prems(4,6) s'(4) by auto
  with s'(1) show ?case by simp
qed simp

section \<open>Relocation\<close>

lemma store_bytes_mapped: "store_bytes m a bs = Some m' \<Longrightarrow> mapped m a (length bs)"
proof (induction bs arbitrary: m a)
  case (Cons b bs)
  then obtain m1 where m1: "store m a b = Some m1" "store_bytes m1 (Suc a) bs = Some m'"
    by (auto simp: bind_eq_Some_conv)
  then have "m a \<noteq> None" "m1 = m(a \<mapsto> b)" by (auto simp: store_def split: option.splits)
  with Cons.IH [OF m1(2)] show ?case by (auto simp: mapped_Suc) (auto simp: mapped_def)
qed simp

lemma store32_SomeE:
  assumes "store32 m a w = Some m'"
  obtains "changes_on {a..<a + 4} m m'" "load32 m' a = Some w"
  using assms store_bytes_mapped [of m a "word_bytes w" m'] store32_step [of m a w]
  by (metis option.inject store32_def word_bytes_length)

lemma cache_symbol_frame:
  "cache_symbol a h p s = Some s' \<Longrightarrow> ms_mem s' = ms_mem s \<and>
     (\<forall>b. map_option md_address (ms_modules s' b) = map_option md_address (ms_modules s b))"
  by (auto simp: cache_symbol_def ms_kmalloc_def ms_set_def elim!: bind_SomeE case_prod_SomeE)

lemma get_real_symbol_frame:
  "get_real_symbol_address a name s = Some (s', p) \<Longrightarrow> ms_mem s' = ms_mem s \<and>
     (\<forall>b. map_option md_address (ms_modules s' b) = map_option md_address (ms_modules s b))"
  by (auto simp: get_real_symbol_address_def Let_def cache_symbol_frame elim!: bind_SomeE split: if_splits)

lemma search_depends_frame:
  "search_depends a name is s = Some (s', p) \<Longrightarrow> ms_mem s' = ms_mem s \<and>
     (\<forall>b. map_option md_address (ms_modules s' b) = map_option md_address (ms_modules s b))"
proof (induction "is" arbitrary: s)
  case (Cons i "is")
  then obtain md :: kmodule and d s1 addr where
    d: "dlist_get (md_depends md) (int i) = Some d"
      "(case d of Some dep \<Rightarrow> get_real_symbol_address dep name s | None \<Rightarrow> Some (s, 0)) = Some (s1, addr)"
      "(if addr \<noteq> 0 then Some (s1, addr) else search_depends a name is s1) = Some (s', p)"
    by (auto elim!: bind_SomeE case_prod_SomeE)
  have "ms_mem s1 = ms_mem s \<and> (\<forall>b. map_option md_address (ms_modules s1 b) = map_option md_address (ms_modules s b))"
    using d(2) get_real_symbol_frame by (cases d) auto
  then show ?case using d(3) Cons.IH [of s1] by (auto split: if_splits)
qed simp

text \<open>Where the address of a symbol came from: the module, or the first of its dependencies, in the
  order of the table, that defines it.\<close>

definition symbol_found :: "nat \<Rightarrow> u8 list \<Rightarrow> modsys \<Rightarrow> u32 \<Rightarrow> bool" where
  "symbol_found a name s addr \<longleftrightarrow> addr \<noteq> 0 \<and>
     ((\<exists>s1. get_real_symbol_address a name s = Some (s1, addr))
      \<or> (\<exists>s1 s2 md. get_real_symbol_address a name s = Some (s1, 0) \<and> ms_modules s1 a = Some md
           \<and> search_depends a name [0..<dlist_allocated (md_depends md)] s1 = Some (s2, addr)))"

lemma module_link_symbol_cases:
  assumes "module_link_symbol a name rel s = Some (s', ok)"
  shows "\<exists>s2 addr. ms_mem s2 = ms_mem s
    \<and> (\<forall>b. map_option md_address (ms_modules s2 b) = map_option md_address (ms_modules s b))
    \<and> (if addr = 0 then s' = s2 \<and> \<not> ok
       else symbol_found a name s addr \<and> ok
         \<and> (\<exists>md m. ms_modules s2 a = Some md \<and> relocate (md_address md) rel addr (ms_mem s) = Some m \<and> s' = s2\<lparr>ms_mem := m\<rparr>))"
proof -
  obtain s1 addr1 where s1: "get_real_symbol_address a name s = Some (s1, addr1)"
    using assms by (auto simp: module_link_symbol_def elim!: bind_SomeE)
  then obtain s2 addr where
    s2: "(if addr1 = 0 then do { md \<leftarrow> ms_modules s1 a; search_depends a name [0..<dlist_allocated (md_depends md)] s1 }
          else Some (s1, addr1)) = Some (s2, addr)"
    and r: "(if addr \<noteq> 0
          then do { md \<leftarrow> ms_modules s2 a; m \<leftarrow> relocate (md_address md) rel addr (ms_mem s2); Some (s2\<lparr>ms_mem := m\<rparr>, True) }
          else Some (s2, False)) = Some (s', ok)"
    using assms by (auto simp: module_link_symbol_def elim!: bind_SomeE)
  have f1: "ms_mem s1 = ms_mem s \<and> (\<forall>b. map_option md_address (ms_modules s1 b) = map_option md_address (ms_modules s b))"
    by (rule get_real_symbol_frame [OF s1])
  then have f: "ms_mem s2 = ms_mem s \<and> (\<forall>b. map_option md_address (ms_modules s2 b) = map_option md_address (ms_modules s b))"
    using s2 search_depends_frame by (auto split: if_splits elim!: bind_SomeE)
  have "symbol_found a name s addr" if "addr \<noteq> 0"
    using that s1 s2 by (auto simp: symbol_found_def split: if_splits elim!: bind_SomeE)
  then show ?thesis
    using r f by (intro exI [of _ s2] exI [of _ addr]) (auto split: if_splits elim!: bind_SomeE)
qed

section \<open>Properties\<close>

text \<open>C20. A new module answers any sequence of look ups, repeated names included, as the search of its
  symbol table without the cache does, as long as no two of the names have the same hash.\<close>

theorem symbol_cache_transparent:
  assumes "ms_modules s a = Some md" "a \<noteq> 0" "md_symcache md = hashmap_create 32"
    and "ms_next s \<noteq> 0" "\<forall>x \<ge> ms_next s. ms_syms s x = None"
    and "inj_on hash_string (set names)"
    and "\<forall>n \<in> set names. resolve_symbol (ms_mem s) md n = Some (res n)"
  shows "\<exists>s'. look_up_all a names s = Some (s', map res names)"
proof -
  have r: "hm_repr (ms_syms s) (md_symcache md) (replicate 32 [])"
    using hm_repr_create [of 32 "ms_syms s"] assms(3) by simp
  then have "hm_find (md_symcache md) (replicate 32 [] :: (nat \<times> int \<times> u32) list list) k = None" for k
    using hm_slot_less [OF r] by (simp add: hm_find_def)
  then have "cache_ok (set names) res s md"
    using r assms(4,5) unfolding cache_ok_def by (intro conjI exI [of _ "replicate 32 []"]) simp_all
  then show ?thesis using look_up_all_ok [OF assms(1) _ assms(6) _ assms(2)] assms(7) by blast
qed

text \<open>C21. Linking a symbol finds it in the module or in its dependencies and changes only the four bytes
  at the place \<open>P\<close> of the relocation. They become the address \<open>S\<close> of the symbol for \<^verbatim>\<open>R_386_32\<close>, and
  \<open>S + A - P\<close> for \<^verbatim>\<open>R_386_PC32\<close> where \<open>A\<close> is what was there, so that an access relative to the
  place reaches the symbol.\<close>

theorem module_link_symbol_relocates:
  assumes "module_link_symbol a name rel s = Some (s', True)" "ms_modules s a = Some md"
    and "P = md_address md + r_offset rel"
  shows "\<exists>S. symbol_found a name s S
    \<and> (\<forall>x. x < unat P \<or> unat P + 4 \<le> x \<longrightarrow> ms_mem s' x = ms_mem s x)
    \<and> (ELF32_R_TYPE (r_info rel) = R_386_32 \<longrightarrow> load32 (ms_mem s') (unat P) = Some S)
    \<and> (ELF32_R_TYPE (r_info rel) = R_386_PC32 \<longrightarrow>
         (\<exists>A. load32 (ms_mem s) (unat P) = Some A \<and> load32 (ms_mem s') (unat P) = Some (S + A - P)))"
proof -
  obtain s2 S where c: "ms_mem s2 = ms_mem s" "map_option md_address (ms_modules s2 a) = map_option md_address (ms_modules s a)"
      "if S = 0 then s' = s2 \<and> \<not> True else symbol_found a name s S \<and> True
         \<and> (\<exists>md m. ms_modules s2 a = Some md \<and> relocate (md_address md) rel S (ms_mem s) = Some m \<and> s' = s2\<lparr>ms_mem := m\<rparr>)"
    using module_link_symbol_cases [OF assms(1)] by meson
  then obtain md2 m where s2: "S \<noteq> 0" "symbol_found a name s S" "ms_modules s2 a = Some md2"
      "relocate (md_address md2) rel S (ms_mem s) = Some m" "s' = s2\<lparr>ms_mem := m\<rparr>"
    by (cases "S = 0") auto
  have P: "P = md_address md2 + r_offset rel" using c(2) s2(3) assms(2,3) by simp
  show ?thesis
  proof (intro exI [of _ S] conjI s2(2))
    consider "ELF32_R_TYPE (r_info rel) = R_386_32" "store32 (ms_mem s) (unat P) S = Some m"
      | A where "ELF32_R_TYPE (r_info rel) = R_386_PC32" "load32 (ms_mem s) (unat P) = Some A"
          "store32 (ms_mem s) (unat P) (S + A - P) = Some m"
      | "ELF32_R_TYPE (r_info rel) \<noteq> R_386_32" "ELF32_R_TYPE (r_info rel) \<noteq> R_386_PC32" "m = ms_mem s"
      using s2(4) by (auto simp: relocate_def P Let_def algebra_simps elim!: bind_SomeE split: if_splits)
    note k = this
    show "\<forall>x. x < unat P \<or> unat P + 4 \<le> x \<longrightarrow> ms_mem s' x = ms_mem s x"
      by (cases rule: k) (auto simp: s2(5) changes_on_def elim!: store32_SomeE)
    show "ELF32_R_TYPE (r_info rel) = R_386_32 \<longrightarrow> load32 (ms_mem s') (unat P) = Some S"
      by (cases rule: k) (auto simp: s2(5) R_386_32_def R_386_PC32_def elim!: store32_SomeE)
    show "ELF32_R_TYPE (r_info rel) = R_386_PC32 \<longrightarrow>
         (\<exists>A. load32 (ms_mem s) (unat P) = Some A \<and> load32 (ms_mem s') (unat P) = Some (S + A - P))"
      by (cases rule: k) (auto simp: s2(5) R_386_32_def R_386_PC32_def elim!: store32_SomeE)
  qed
qed

section \<open>A small module\<close>

text \<open>The sample image as a module at its own address: \<^verbatim>\<open>init\<close> is 32 bytes into it.\<close>

definition sample_module :: kmodule where
  "sample_module = \<lparr>md_name = 0, md_elf_head = 4096, md_address = 4096, md_pages = 0, md_def_symtab = dynsym_str,
     md_depends = dlist_create 0 0, md_links = dlist_create 0 0, md_symcache = hashmap_create 32\<rparr>"

definition sample_modsys :: modsys where
  "sample_modsys = \<lparr>ms_mem = sample_elf, ms_paging = small_paging, ms_modules = [1 \<mapsto> sample_module], ms_heap = Map.empty,
     ms_syms = Map.empty, ms_list = None, ms_address = 0xcf000000, ms_inited = True, ms_next = 8\<rparr>"

lemma sample_init_sym:
  "read_sym sample_elf 4316 = Some \<lparr>st_name = 1, st_value = 32, st_size = 0, st_info = 0, st_other = 0, st_shndx = 1\<rparr>"
  by (simp add: read_sym_def decode_sym_def sample_decode)

lemma sample_resolve:
  "resolve_symbol sample_elf sample_module init_str = Some 4128"
  "resolve_symbol sample_elf sample_module [0x78] = Some 0"
  "resolve_symbol sample_elf sample_module [0x79] = Some 0"
  using find_sample [of init_str] find_sample [of "[0x78]"] find_sample [of "[0x79]"] sample_init_sym
  by (simp_all add: resolve_symbol_def sample_module_def SHN_UNDEF_def)

lemma sample_hashes: "hash_string init_str \<noteq> hash_string [0x78]"
  by code_simp

lemma symbol_cache_transparent_witness:
  "\<exists>s'. look_up_all 1 [init_str, [0x78], init_str] sample_modsys = Some (s', [4128, 0, 4128])"
proof -
  let ?res = "\<lambda>n. if n = init_str then 4128 else 0 :: u32"
  have "inj_on hash_string (set [init_str, [0x78], init_str])"
    using sample_hashes by (simp add: inj_on_def)
  moreover have "\<forall>n \<in> set [init_str, [0x78], init_str]. resolve_symbol (ms_mem sample_modsys) sample_module n = Some (?res n)"
    using sample_resolve by (simp add: sample_modsys_def)
  ultimately show ?thesis
    using symbol_cache_transparent [of sample_modsys 1 sample_module "[init_str, [0x78], init_str]" ?res]
    by (simp add: sample_modsys_def) (simp add: sample_module_def)
qed

text \<open>The place is inside the header, in bytes that are zero; the symbol is 24 bytes behind it.\<close>

lemma module_link_symbol_relocates_witness:
  "\<exists>s'. module_link_symbol 1 init_str \<lparr>r_offset = 8, r_info = 0x102\<rparr> sample_modsys = Some (s', True)
    \<and> load32 (ms_mem s') 4104 = Some 24"
proof -
  have c: "cache_ok {init_str} (\<lambda>_. 4128) sample_modsys sample_module"
  proof -
    have r: "hm_repr (ms_syms sample_modsys) (md_symcache sample_module) (replicate 32 [])"
      using hm_repr_create [of 32 "ms_syms sample_modsys"] by (simp add: sample_module_def)
    then have "hm_find (md_symcache sample_module) (replicate 32 [] :: (nat \<times> int \<times> u32) list list) k = None" for k
      using hm_slot_less [OF r] by (simp add: hm_find_def)
    then show ?thesis
      using r unfolding cache_ok_def by (intro conjI exI [of _ "replicate 32 []"]) (simp_all add: sample_modsys_def)
  qed
  have m: "ms_modules sample_modsys 1 = Some sample_module" "ms_mem sample_modsys = sample_elf" by (simp_all add: sample_modsys_def)
  obtain s1 h where s1: "get_real_symbol_address 1 init_str sample_modsys = Some (s1, 4128)"
      "ms_modules s1 1 = Some (sample_module\<lparr>md_symcache := h\<rparr>)" "ms_mem s1 = sample_elf"
    using get_real_symbol_ok [OF m(1) c, of init_str] sample_resolve(1) by (auto simp: m(2))
  have l: "load32 sample_elf 4104 = Some 0" by (simp add: load32_def sample_decode)
  have "mapped sample_elf 4104 4" by (simp add: mapped_def sample_elf_def)
  then obtain x where x: "store32 sample_elf 4104 24 = Some x" by (rule store32_step)
  have run: "module_link_symbol 1 init_str \<lparr>r_offset = 8, r_info = 0x102\<rparr> sample_modsys = Some (s1\<lparr>ms_mem := x\<rparr>, True)"
    using s1 l x by (simp add: module_link_symbol_def relocate_def ELF32_R_TYPE_def R_386_32_def R_386_PC32_def sample_module_def)
  have "\<exists>A. load32 sample_elf 4104 = Some A \<and> (\<exists>S. symbol_found 1 init_str sample_modsys S \<and> load32 x 4104 = Some (S + A - 4104))"
    using module_link_symbol_relocates [OF run m(1), of 4104]
    by (auto simp: m(2) sample_module_def ELF32_R_TYPE_def R_386_32_def R_386_PC32_def)
  moreover have "S = 4128" if "symbol_found 1 init_str sample_modsys S" for S
    using that s1(1) by (auto simp: symbol_found_def)
  ultimately show ?thesis using run l by auto
qed

end
