(* ===== verification/ElfLoad.thy ===== *)
theory ElfLoad
  imports Elf Tasks
begin

text \<open>
  \<^verbatim>\<open>kernel/base/tasking/elfload.c\<close>: starting a program from an ELF image in memory. The arguments
  are copied into kernel memory, the segments of the image are mapped and copied into a new address
  space, and a process is created there. \<open>m\<close> is the memory of the address space in use; \<open>junk\<close> and
  \<open>fresh\<close> are what new page tables and new pages hold.
\<close>

section \<open>Model\<close>

definition MEMMAP_TYPE_IMAGE :: nat where "MEMMAP_TYPE_IMAGE = 2"

text \<open>\<open>MEMMAP_PERM_READ | MEMMAP_PERM_WRITE | MEMMAP_PERM_EXEC | MEMMAP_PERM_USER\<close>.\<close>

definition MEMMAP_PERM_ALL :: u32 where "MEMMAP_PERM_ALL = 1 OR 2 OR 4 OR 8"

text \<open>A block of \<open>n\<close> bytes that \<open>kmalloc\<close> has not returned before, with the contents \<open>c\<close>.\<close>

definition kblock :: "(nat \<Rightarrow> u8) \<Rightarrow> nat \<Rightarrow> memory \<Rightarrow> 'd tasking \<Rightarrow> memory \<times> 'd tasking \<times> nat" where
  "kblock c n m s =
     (let p = tk_next s in
      (\<lambda>a. if p \<le> a \<and> a < p + n then Some (c a) else m a, s\<lparr>tk_next := p + n\<rparr>, p))"

text \<open>\<open>for ( i = 0; i < argc; i++ ) argbuf[i] = strdup( argv[i] )\<close>, for the \<open>n\<close> arguments that are left.\<close>

fun dup_args :: "(nat \<Rightarrow> u8) \<Rightarrow> nat \<Rightarrow> nat \<Rightarrow> nat \<Rightarrow> nat \<Rightarrow> memory \<Rightarrow> 'd tasking \<Rightarrow> (memory \<times> 'd tasking) option" where
  "dup_args fresh argbuf argv i 0 m s = Some (m, s)"
| "dup_args fresh argbuf argv i (Suc n) m s =
     do { p \<leftarrow> load32 m (argv + 4 * i);
          len \<leftarrow> strlen m (unat p);
          let (m1, s1, q) = kblock fresh (len + 1) m s;
          m2 \<leftarrow> strdup m1 q (unat p);
          m3 \<leftarrow> store32 m2 (argbuf + 4 * i) (of_nat q);
          dup_args fresh argbuf argv (Suc i) n m3 s1 }"

text \<open>A null \<open>argv\<close> has no arguments. The table is cleared when it is allocated.\<close>

definition dup_table :: "(nat \<Rightarrow> u8) \<Rightarrow> nat \<Rightarrow> memory \<Rightarrow> 'd tasking \<Rightarrow> (memory \<times> 'd tasking \<times> nat) option" where
  "dup_table fresh argv m s =
     do { argc \<leftarrow> (if argv = 0 then Some 0 else count_args m argv 0);
          let (m1, s1, argbuf) = kblock (\<lambda>_. 0) (4 * (argc + 1)) m s;
          (m2, s2) \<leftarrow> dup_args fresh argbuf argv 0 argc m1 s1;
          m3 \<leftarrow> store32 m2 (argbuf + 4 * argc) 0;
          Some (m3, s2, argbuf) }"

text \<open>\<open>list_add_data( map_list, memmap_create( .. ))\<close>.\<close>

definition add_map :: "nat \<Rightarrow> u32 \<Rightarrow> u32 \<Rightarrow> 'd tasking \<Rightarrow> 'd tasking option" where
  "add_map map_list start end s =
     do { as \<leftarrow> tk_maplists s map_list;
          let (s1, a) = tk_kmalloc s;
          Some (s1\<lparr>tk_maps := (tk_maps s1)(a \<mapsto> memmap_create start end MEMMAP_TYPE_IMAGE MEMMAP_PERM_ALL),
                   tk_maplists := (tk_maplists s1)(map_list \<mapsto> as @ [a])\<rparr>) }"

text \<open>Every program header is treated as a segment, whatever its type.\<close>

definition load_phdr ::
  "u32 list \<Rightarrow> (nat \<Rightarrow> u8) \<Rightarrow> u32 \<Rightarrow> u32 \<Rightarrow> nat \<Rightarrow> elf32_phdr \<Rightarrow> memory \<Rightarrow> 'd tasking \<Rightarrow> (memory \<times> 'd tasking) option" where
  "load_phdr junk fresh newdir header map_list ph m s =
     do { let vend = p_vaddr ph + p_memsz ph;
          (pg, _) \<leftarrow> map_pages junk (tk_paging s) newdir (p_vaddr ph) vend (PAGE_USER OR PAGE_WRITEABLE OR PAGE_PRESENT);
          s1 \<leftarrow> add_map map_list (p_vaddr ph) vend (s\<lparr>tk_paging := pg\<rparr>);
          m1 \<leftarrow> memcpy (fresh_pages fresh (p_vaddr ph) vend m) (unat (p_vaddr ph)) (unat (header + p_offset ph))
                 (unat (p_filesz ph));
          (if p_flags ph AND PF_W = 0
           then do { (pg1, _) \<leftarrow> remap_pages junk (tk_paging s1) newdir (p_vaddr ph) vend (PAGE_USER OR PAGE_PRESENT);
                     Some (m1, s1\<lparr>tk_paging := pg1\<rparr>) }
           else Some (m1, s1)) }"

fun load_phdrs ::
  "u32 list \<Rightarrow> (nat \<Rightarrow> u8) \<Rightarrow> u32 \<Rightarrow> u32 \<Rightarrow> nat \<Rightarrow> u32 \<Rightarrow> nat \<Rightarrow> memory \<Rightarrow> 'd tasking \<Rightarrow> (memory \<times> 'd tasking) option" where
  "load_phdrs junk fresh newdir header map_list i 0 m s = Some (m, s)"
| "load_phdrs junk fresh newdir header map_list i (Suc n) m s =
     do { p \<leftarrow> get_elf_phdr m header i;
          ph \<leftarrow> read_phdr m p;
          (m', s') \<leftarrow> load_phdr junk fresh newdir header map_list ph m s;
          load_phdrs junk fresh newdir header map_list (i + 1) n m' s' }"

text \<open>\<open>dirp\<close> is the page for the new directory. After the process is created the old directory is
  used again; the copies of the arguments are freed.\<close>

definition elfload_from_mem ::
  "'d pobj_ctors \<Rightarrow> u32 list \<Rightarrow> (nat \<Rightarrow> u8) \<Rightarrow> u32 \<Rightarrow> u32 \<Rightarrow> nat \<Rightarrow> nat \<Rightarrow> int list option \<Rightarrow> memory \<Rightarrow> 'd tasking \<Rightarrow>
   ('d tasking \<times> memory \<times> u32) option" where
  "elfload_from_mem ctors junk fresh dirp header argv envp fds m s =
     (let (s0, map_list) = tk_kmalloc s;
          s1 = s0\<lparr>tk_maplists := (tk_maplists s0)(map_list \<mapsto> [])\<rparr>
      in do {
        (m2, s2, argbuf) \<leftarrow> dup_table fresh argv m s1;
        (m3, s3, envbuf) \<leftarrow> dup_table fresh envp m2 s2;
        let olddir = pg_current_dir (tk_paging s3);
        pg1 \<leftarrow> clone_page_dir (tk_paging s3) (pg_kernel_dir (tk_paging s3)) dirp;
        pg2 \<leftarrow> set_page_dir pg1 dirp;
        h \<leftarrow> read_ehdr m3 header;
        (m4, s4) \<leftarrow> load_phdrs junk fresh dirp header map_list 0 (unat (e_phnum h)) m3 (s3\<lparr>tk_paging := pg2\<rparr>);
        (pg3, _) \<leftarrow> map_pages junk (tk_paging s4) dirp 0xb0000000 0xb0001000 (PAGE_USER OR PAGE_WRITEABLE OR PAGE_PRESENT);
        s5 \<leftarrow> add_map map_list 0xb0000000 0xb0000010 (s4\<lparr>tk_paging := pg3\<rparr>);
        let m5 = fresh_pages fresh 0xb0000000 0xb0001000 m4;
        h' \<leftarrow> read_ehdr m5 header;
        (s6, m6, pid) \<leftarrow> create_process ctors junk (e_entry h') argbuf envbuf map_list fds m5 s5;
        pg4 \<leftarrow> set_page_dir (tk_paging s6) olddir;
        Some (s6\<lparr>tk_paging := pg4\<rparr>, m6, pid)
      })"

end
