(* ===== verification/Hal.thy ===== *)
theory Hal
  imports LinkedList Semaphore
begin

text \<open>
  \<^verbatim>\<open>kernel/modules/hal/hal.c\<close>, \<^verbatim>\<open>kernel/include/base/hal.h\<close> and \<^verbatim>\<open>kernel/modules/parts/parts.c\<close>: the list
  of devices and the partitions of disks. A device is known by its address. Its functions are either
  those of a partition or functions of a driver, which are the argument \<open>drv\<close>: they work on the
  state \<open>hl_io\<close> of the drivers and their hardware. A function that reads delivers the bytes that it
  stores from the start of the buffer on.
\<close>

section \<open>Devices\<close>

definition HAL_TYPE_STORAGE :: u32 where "HAL_TYPE_STORAGE = 2"

datatype hal_func = PartitionFunc | DriverFunc nat

record hal_device =
  hd_read :: "hal_func option"
  hd_write :: "hal_func option"
  hd_dev :: nat
  hd_name :: "u8 list"
  hd_type :: u32
  hd_subtype :: u32
  hd_block_size :: u32
  hd_flags :: u32

record mbr_part_entry =
  pe_flags :: u8
  pe_system_id :: u8
  pe_rel_sect :: u32
  pe_total_sect :: u32

record part_dev =
  pd_orig :: nat
  pd_entry :: mbr_part_entry

text \<open>\<open>hl_list\<close> is the protected variable that holds the list; it is null before \<open>init\<close>.\<close>

record 'x hal =
  hl_heap :: "nat lheap"
  hl_list :: "list_head protected_var option"
  hl_devices :: "nat \<Rightarrow> hal_device option"
  hl_parts :: "nat \<Rightarrow> part_dev option"
  hl_next :: nat
  hl_io :: 'x

definition hl_kmalloc :: "'x hal \<Rightarrow> 'x hal \<times> nat" where
  "hl_kmalloc s = (s\<lparr>hl_next := Suc (hl_next s)\<rparr>, hl_next s)"

definition hal_init :: "'x hal \<Rightarrow> 'x hal" where
  "hal_init s = s\<lparr>hl_list := Some (create_protected_var 1 (list_create 0))\<rparr>"

definition hal_register_device :: "nat \<Rightarrow> 'x hal \<Rightarrow> ('x hal \<times> int) option" where
  "hal_register_device device s =
     (if device = 0 then Some (s, - 1)
      else do {
        v \<leftarrow> hl_list s;
        (v1, l) \<leftarrow> access_protected_var v;
        let (s1, t) = hl_kmalloc s;
        (h, l', _) \<leftarrow> list_add_data (hl_heap s1) t l device;
        Some (s1\<lparr>hl_heap := h, hl_list := Some (leave_protected_var (v1\<lparr>pv_var := l'\<rparr>))\<rparr>, 0)
      })"

definition hal_unregister_device :: "nat \<Rightarrow> 'x hal \<Rightarrow> 'x hal \<times> int" where
  "hal_unregister_device device s = (s, if device = 0 then - 1 else 0)"

definition hal_get_device_list :: "'x hal \<Rightarrow> list_head option" where
  "hal_get_device_list s = map_option pv_var (hl_list s)"

text \<open>The variable is left again before the function returns, so the state is as before.\<close>

definition hal_get_device :: "u32 \<Rightarrow> 'x hal \<Rightarrow> nat option" where
  "hal_get_device devnum s =
     do { v \<leftarrow> hl_list s;
          (_, l) \<leftarrow> access_protected_var v;
          devnode \<leftarrow> list_get_index (hl_heap s) l (sint devnum);
          if devnode \<noteq> 0 then map_option ln_data (hl_heap s devnode) else Some 0 }"

section \<open>Reading and writing\<close>

type_synonym 'x read_drv = "nat \<Rightarrow> hal_device \<Rightarrow> u32 \<Rightarrow> u32 \<Rightarrow> 'x \<Rightarrow> ('x \<times> int \<times> u8 list) option"
type_synonym 'x write_drv = "nat \<Rightarrow> hal_device \<Rightarrow> u8 list \<Rightarrow> u32 \<Rightarrow> u32 \<Rightarrow> 'x \<Rightarrow> ('x \<times> int) option"

text \<open>\<open>dev->read( dev, buf, count, offset )\<close>. \<open>partition_read\<close> asks the device the partition is on,
  which may be a partition again; a missing function is a null pointer.\<close>

partial_function (option) hal_read ::
  "'x read_drv \<Rightarrow> nat \<Rightarrow> u32 \<Rightarrow> u32 \<Rightarrow> 'x hal \<Rightarrow> ('x hal \<times> int \<times> u8 list) option" where
  "hal_read drv dev count offset s =
     do { d \<leftarrow> hl_devices s dev;
          f \<leftarrow> hd_read d;
          (case f of
             PartitionFunc \<Rightarrow>
               if hd_dev d = 0 then Some (s, 0, [])
               else do { p \<leftarrow> hl_parts s (hd_dev d);
                         hal_read drv (pd_orig p) count (pe_rel_sect (pd_entry p) + offset) s }
           | DriverFunc k \<Rightarrow> do { (x, r, bs) \<leftarrow> drv k d count offset (hl_io s); Some (s\<lparr>hl_io := x\<rparr>, r, bs) }) }"

partial_function (option) hal_write ::
  "'x write_drv \<Rightarrow> nat \<Rightarrow> u8 list \<Rightarrow> u32 \<Rightarrow> u32 \<Rightarrow> 'x hal \<Rightarrow> ('x hal \<times> int) option" where
  "hal_write drv dev buf count offset s =
     do { d \<leftarrow> hl_devices s dev;
          f \<leftarrow> hd_write d;
          (case f of
             PartitionFunc \<Rightarrow>
               if hd_dev d = 0 then Some (s, 0)
               else do { p \<leftarrow> hl_parts s (hd_dev d);
                         hal_write drv (pd_orig p) buf count (pe_rel_sect (pd_entry p) + offset) s }
           | DriverFunc k \<Rightarrow> do { (x, r) \<leftarrow> drv k d buf count offset (hl_io s); Some (s\<lparr>hl_io := x\<rparr>, r) }) }"

declare hal_read.simps [code] hal_write.simps [code]

section \<open>Partitions\<close>

definition MBR_PARTS :: nat where "MBR_PARTS = 0x1be"

definition mbr_entry :: "u8 list \<Rightarrow> nat \<Rightarrow> mbr_part_entry option" where
  "mbr_entry buf i =
     (let at = MBR_PARTS + 16 * i in
      do { flags \<leftarrow> read_at buf at;
           id \<leftarrow> read_at buf (at + 4);
           rel \<leftarrow> le32 buf (at + 8);
           cnt \<leftarrow> le32 buf (at + 12);
           Some \<lparr>pe_flags = flags, pe_system_id = id, pe_rel_sect = rel, pe_total_sect = cnt\<rparr> })"

text \<open>A device for the partition \<open>i\<close>; its name is that of the disk with \<^verbatim>\<open>p\<close> and the digit behind it.\<close>

definition part_device :: "hal_device \<Rightarrow> nat \<Rightarrow> nat \<Rightarrow> hal_device" where
  "part_device d pdev i =
     \<lparr>hd_read = Some PartitionFunc, hd_write = Some PartitionFunc, hd_dev = pdev,
      hd_name = hd_name d @ [0x70, 0x30 + of_nat i], hd_type = hd_type d, hd_subtype = hd_subtype d,
      hd_block_size = hd_block_size d, hd_flags = 0\<rparr>"

definition add_partition :: "nat \<Rightarrow> hal_device \<Rightarrow> u8 list \<Rightarrow> nat \<Rightarrow> 'x hal \<Rightarrow> 'x hal option" where
  "add_partition dev d buf i s =
     do { e \<leftarrow> mbr_entry buf i;
          if pe_system_id e = 0 then Some s
          else do {
            let (s1, temp) = hl_kmalloc s;
            let (s2, pdev) = hl_kmalloc s1;
            let s3 = s2\<lparr>hl_parts := (hl_parts s2)(pdev \<mapsto> \<lparr>pd_orig = dev, pd_entry = e\<rparr>),
                        hl_devices := (hl_devices s2)(temp \<mapsto> part_device d pdev i)\<rparr>;
            (s4, _) \<leftarrow> hal_register_device temp s3;
            Some s4
          } }"

fun add_partitions :: "nat \<Rightarrow> hal_device \<Rightarrow> u8 list \<Rightarrow> nat list \<Rightarrow> 'x hal \<Rightarrow> 'x hal option" where
  "add_partitions dev d buf [] s = Some s"
| "add_partitions dev d buf (i # is) s =
     do { s' \<leftarrow> add_partition dev d buf i s; add_partitions dev d buf is s' }"

text \<open>The first block of a disk, in a cleared buffer of 512 bytes.\<close>

definition scan_disk :: "'x read_drv \<Rightarrow> nat \<Rightarrow> hal_device \<Rightarrow> 'x hal \<Rightarrow> 'x hal option" where
  "scan_disk drv dev d s =
     (if hd_type d = HAL_TYPE_STORAGE
      then do {
        (s1, r, bs) \<leftarrow> hal_read drv dev 1 0 s;
        if 512 < length bs then None
        else add_partitions dev d (bs @ replicate (512 - length bs) 0) [0, 1, 2, 3] s1
      }
      else Some s)"

text \<open>The devices that were on the list when the scan began; new ones come behind \<open>lst\<close>.\<close>

partial_function (option) scan_from :: "'x read_drv \<Rightarrow> nat \<Rightarrow> nat \<Rightarrow> 'x hal \<Rightarrow> 'x hal option" where
  "scan_from drv lst move s =
     (if move = 0 then Some s
      else do {
        n \<leftarrow> hl_heap s move;
        d \<leftarrow> hl_devices s (ln_data n);
        s' \<leftarrow> scan_disk drv (ln_data n) d s;
        if move = lst then Some s'
        else do { n' \<leftarrow> hl_heap s' move; scan_from drv lst (ln_next n') s' }
      })"

declare scan_from.simps [code]

definition check_for_parts :: "'x read_drv \<Rightarrow> 'x hal \<Rightarrow> 'x hal option" where
  "check_for_parts drv s =
     do { devlist \<leftarrow> hal_get_device_list s;
          scan_from drv (lh_last devlist) (lh_base devlist) s }"

end
