(* ===== verification/HalParts.thy ===== *)
theory HalParts
  imports Hal
begin

text \<open>
  The scan for partitions registers a device for every entry in use of every disk, behind the
  devices that were there, and an access to such a device goes to its disk, displaced by the start
  of the partition.
\<close>

section \<open>The list of devices\<close>

definition hal_repr :: "'x hal \<Rightarrow> (nat \<times> int \<times> nat) list \<Rightarrow> bool" where
  "hal_repr s xs \<longleftrightarrow> (\<exists>v. hl_list s = Some v \<and> 0 < pv_sem v \<and> list_repr (hl_heap s) (pv_var v) xs)
     \<and> 0 < hl_next s \<and> (\<forall>x \<ge> hl_next s. hl_heap s x = None)"

definition node_data :: "(nat \<times> int \<times> nat) list \<Rightarrow> nat list" where
  "node_data xs = map (snd \<circ> snd) xs"

lemma node_data_simps [simp]:
  "node_data [] = []" "node_data (x # xs) = snd (snd x) # node_data xs" "node_data (xs @ ys) = node_data xs @ node_data ys"
  by (simp_all add: node_data_def)

definition hal_list :: "'x hal \<Rightarrow> nat list \<Rightarrow> bool" where
  "hal_list s as \<longleftrightarrow> (\<exists>xs. hal_repr s xs \<and> as = node_data xs)"

text \<open>Nothing that was there changes.\<close>

definition hal_ext :: "'x hal \<Rightarrow> 'x hal \<Rightarrow> bool" where
  "hal_ext s s' \<longleftrightarrow> hl_next s \<le> hl_next s' \<and> hl_io s' = hl_io s
     \<and> (\<forall>x < hl_next s. hl_devices s' x = hl_devices s x \<and> hl_parts s' x = hl_parts s x)"

lemma hal_ext_refl [simp]: "hal_ext s s"
  by (simp add: hal_ext_def)

lemma hal_ext_trans: "hal_ext s s1 \<Longrightarrow> hal_ext s1 s2 \<Longrightarrow> hal_ext s s2"
  by (auto simp: hal_ext_def)

lemma hal_register_ok:
  assumes "hal_repr s xs" "d \<noteq> 0"
  shows "\<exists>s' t. hal_register_device d s = Some (s', 0) \<and> hal_repr s' (xs @ [(t, 0, d)]) \<and> hal_ext s s'
    \<and> hl_devices s' = hl_devices s \<and> hl_parts s' = hl_parts s"
proof -
  obtain v where v: "hl_list s = Some v" "0 < pv_sem v" "list_repr (hl_heap s) (pv_var v) xs"
    and n: "0 < hl_next s" "\<forall>x \<ge> hl_next s. hl_heap s x = None"
    using assms(1) by (auto simp: hal_repr_def)
  let ?t = "hl_next s"
  have nt: "?t \<notin> set (addrs xs)" using v(3) n(2) dseg_in_heap unfolding list_repr_def by (metis order_refl)
  obtain h l where h: "list_add_data (hl_heap s) ?t (pv_var v) d = Some (h, l, ?t)" "list_repr h l (xs @ [(?t, 0, d)])"
      "\<forall>a. a \<noteq> ?t \<and> a \<notin> set (addrs xs) \<longrightarrow> h a = hl_heap s a"
    using list_add_data_ok [OF v(3), of ?t d] n by auto
  have "a \<notin> set (addrs xs)" if "?t \<le> a" for a
    using v(3) n(2) that dseg_in_heap unfolding list_repr_def by metis
  then have "\<forall>x \<ge> Suc ?t. h x = None" using h(3) n(2) by auto
  then show ?thesis
    using v h assms(2) n(1)
    by (auto simp: hal_register_device_def hl_kmalloc_def access_protected_var_def leave_protected_var_def
      hal_repr_def hal_ext_def intro!: exI [of _ ?t])
qed

lemma hal_get_device_ok:
  assumes "hal_repr s xs" "n < length xs" "n < 2 ^ 31"
  shows "hal_get_device (of_nat n) s = Some (snd (snd (xs ! n)))"
proof -
  obtain v where v: "hl_list s = Some v" "0 < pv_sem v" "list_repr (hl_heap s) (pv_var v) xs"
    using assms(1) by (auto simp: hal_repr_def)
  have "sint (of_nat n :: u32) = int n" using assms(3) by (simp add: sint_of_nat_u32)
  then have g: "list_get_index (hl_heap s) (pv_var v) (sint (of_nat n :: u32)) = Some (fst (xs ! n))"
    using list_get_index_ok [OF v(3), of "int n"] assms(2) by simp
  obtain a w d where x: "xs ! n = (a, w, d)" by (cases "xs ! n")
  then have "xs = take n xs @ (a, w, d) # drop (Suc n) xs" using assms(2) by (metis id_take_nth_drop)
  then have "dseg (hl_heap s) (lh_base (pv_var v)) 0 (take n xs @ (a, w, d) # drop (Suc n) xs) 0 (lh_last (pv_var v))"
    using v(3) by (simp add: list_repr_def)
  then obtain k where "hl_heap s a = Some k" "ln_data k = d" "a \<noteq> 0" by (auto simp: dseg_append)
  then show ?thesis using v(1,2) g x by (simp add: hal_get_device_def access_protected_var_def)
qed

lemma hal_get_device_end:
  assumes "hal_repr s xs" "length xs \<le> n" "n < 2 ^ 31"
  shows "hal_get_device (of_nat n) s = Some 0"
proof -
  obtain v where v: "hl_list s = Some v" "0 < pv_sem v" "list_repr (hl_heap s) (pv_var v) xs"
    using assms(1) by (auto simp: hal_repr_def)
  have "sint (of_nat n :: u32) = int n" using assms(3) by (simp add: sint_of_nat_u32)
  then show ?thesis
    using list_get_index_ok [OF v(3), of "int n"] assms(2) v by (simp add: hal_get_device_def access_protected_var_def)
qed

section \<open>Partitions\<close>

text \<open>The device \<open>p\<close> is the partition \<open>i\<close> of the disk \<open>a\<close> with the entry \<open>e\<close>.\<close>

definition is_part :: "'x hal \<Rightarrow> nat \<Rightarrow> nat \<times> nat \<times> mbr_part_entry \<Rightarrow> bool" where
  "is_part s p k \<longleftrightarrow> (case k of (a, i, e) \<Rightarrow>
     \<exists>pdev d. 0 < pdev \<and> pdev < hl_next s \<and> 0 < p \<and> p < hl_next s \<and> hl_devices s a = Some d
       \<and> hl_devices s p = Some (part_device d pdev i) \<and> hl_parts s pdev = Some \<lparr>pd_orig = a, pd_entry = e\<rparr>)"

lemma is_part_ext: "is_part s p (a, i, e) \<Longrightarrow> hal_ext s s' \<Longrightarrow> a < hl_next s \<Longrightarrow> is_part s' p (a, i, e)"
  unfolding is_part_def hal_ext_def by force

text \<open>The entries of a boot sector that are in use.\<close>

definition used_entries :: "u8 list \<Rightarrow> nat list \<Rightarrow> (nat \<times> mbr_part_entry) list" where
  "used_entries buf is = [(i, e). i \<leftarrow> is, e \<leftarrow> (case mbr_entry buf i of Some e \<Rightarrow> if pe_system_id e = 0 then [] else [e] | None \<Rightarrow> [])]"

lemma mbr_entry_some: "length buf = 512 \<Longrightarrow> i < 4 \<Longrightarrow> \<exists>e. mbr_entry buf i = Some e"
  by (simp add: mbr_entry_def MBR_PARTS_def Let_def le32_def le16_def)

lemma add_partition_ok:
  assumes s: "hal_repr s xs" and d: "hl_devices s a = Some d" "a < hl_next s" and e: "mbr_entry buf i = Some e"
  shows "\<exists>s' ys. add_partition a d buf i s = Some s' \<and> hal_repr s' (xs @ ys) \<and> hal_ext s s'
    \<and> list_all2 (is_part s') (node_data ys) (map (Pair a) (used_entries buf [i]))"
proof (cases "pe_system_id e = 0")
  case True
  then have "add_partition a d buf i s = Some s" "used_entries buf [i] = []" using e by (simp_all add: add_partition_def used_entries_def)
  then show ?thesis using s by (intro exI [of _ s] exI [of _ "[]"]) simp
next
  case False
  let ?t = "hl_next s" and ?p = "Suc (hl_next s)"
  let ?s3 = "s\<lparr>hl_next := Suc (Suc ?t), hl_parts := (hl_parts s)(?p \<mapsto> \<lparr>pd_orig = a, pd_entry = e\<rparr>),
                        hl_devices := (hl_devices s)(?t \<mapsto> part_device d ?p i)\<rparr>"
  have "hal_repr ?s3 xs" using s by (auto simp: hal_repr_def)
  moreover have "?t \<noteq> 0" using s by (simp add: hal_repr_def)
  ultimately obtain s' t where s': "hal_register_device ?t ?s3 = Some (s', 0)" "hal_repr s' (xs @ [(t, 0, ?t)])"
      "hal_ext ?s3 s'" "hl_devices s' = hl_devices ?s3" "hl_parts s' = hl_parts ?s3"
    using hal_register_ok by blast
  have "add_partition a d buf i s = Some s'"
    using e False s'(1) by (simp add: add_partition_def hl_kmalloc_def)
  moreover have "hal_ext s s'" using s'(3-5) by (auto simp: hal_ext_def)
  moreover have "is_part s' ?t (a, i, e)"
    using d s'(3-5) \<open>?t \<noteq> 0\<close> by (auto simp: is_part_def hal_ext_def intro!: exI [of _ ?p])
  moreover have "used_entries buf [i] = [(i, e)]" using e False by (simp add: used_entries_def)
  ultimately show ?thesis using s'(2) by (intro exI [of _ s'] exI [of _ "[(t, 0, ?t)]"]) simp
qed

lemma is_parts_ext:
  "list_all2 (is_part s) ps (map (Pair a) ks) \<Longrightarrow> hal_ext s s' \<Longrightarrow> a < hl_next s \<Longrightarrow>
   list_all2 (is_part s') ps (map (Pair a) ks)"
  by (erule list.rel_mono_strong) (auto intro: is_part_ext)

lemma add_partitions_ok:
  "hal_repr s xs \<Longrightarrow> hl_devices s a = Some d \<Longrightarrow> a < hl_next s \<Longrightarrow> (\<And>i. i \<in> set is \<Longrightarrow> \<exists>e. mbr_entry buf i = Some e) \<Longrightarrow>
   \<exists>s' ys. add_partitions a d buf is s = Some s' \<and> hal_repr s' (xs @ ys) \<and> hal_ext s s'
     \<and> list_all2 (is_part s') (node_data ys) (map (Pair a) (used_entries buf is))"
proof (induction "is" arbitrary: s xs)
  case Nil
  then show ?case by (intro exI [of _ s] exI [of _ "[]"]) (simp add: used_entries_def)
next
  case (Cons i "is")
  obtain e where "mbr_entry buf i = Some e" using Cons.prems(4) by auto
  from add_partition_ok [OF Cons.prems(1-3) this] obtain s1 ys where s1: "add_partition a d buf i s = Some s1"
      "hal_repr s1 (xs @ ys)" "hal_ext s s1" "list_all2 (is_part s1) (node_data ys) (map (Pair a) (used_entries buf [i]))"
    by blast
  have d: "hl_devices s1 a = Some d" "a < hl_next s1" using s1(3) Cons.prems(2,3) by (auto simp: hal_ext_def)
  have "\<exists>s2 zs. add_partitions a d buf is s1 = Some s2 \<and> hal_repr s2 ((xs @ ys) @ zs) \<and> hal_ext s1 s2
     \<and> list_all2 (is_part s2) (node_data zs) (map (Pair a) (used_entries buf is))"
    by (rule Cons.IH [OF s1(2) d]) (use Cons.prems(4) in simp)
  then obtain s2 zs where s2: "add_partitions a d buf is s1 = Some s2"
      "hal_repr s2 ((xs @ ys) @ zs)" "hal_ext s1 s2" "list_all2 (is_part s2) (node_data zs) (map (Pair a) (used_entries buf is))"
    by blast
  have "list_all2 (is_part s2) (node_data ys) (map (Pair a) (used_entries buf [i]))"
    using s1(4) s2(3) d(2) by (rule is_parts_ext)
  moreover have "used_entries buf (i # is) = used_entries buf [i] @ used_entries buf is" by (simp add: used_entries_def)
  ultimately have "list_all2 (is_part s2) (node_data (ys @ zs)) (map (Pair a) (used_entries buf (i # is)))"
    using s2(4) by (simp add: list_all2_appendI)
  then show ?case
    using s1(1,3) s2(1-3) hal_ext_trans by (intro exI [of _ s2] exI [of _ "ys @ zs"]) auto
qed

section \<open>The scan\<close>

text \<open>A disk whose driver can deliver its first block, which is \<open>bs\<close>; devices of other types are
  passed over.\<close>

definition disk_ok :: "'x read_drv \<Rightarrow> 'x hal \<Rightarrow> nat \<Rightarrow> u8 list \<Rightarrow> bool" where
  "disk_ok drv s a bs \<longleftrightarrow> a < hl_next s \<and> (\<exists>d. hl_devices s a = Some d
     \<and> (hd_type d = HAL_TYPE_STORAGE \<longrightarrow> length bs = 512
          \<and> (\<exists>k r. hd_read d = Some (DriverFunc k) \<and> drv k d 1 0 (hl_io s) = Some (hl_io s, r, bs))))"

definition disk_parts :: "'x hal \<Rightarrow> nat \<Rightarrow> u8 list \<Rightarrow> (nat \<times> nat \<times> mbr_part_entry) list" where
  "disk_parts s a bs =
     (case hl_devices s a of
        Some d \<Rightarrow> if hd_type d = HAL_TYPE_STORAGE then map (Pair a) (used_entries bs [0, 1, 2, 3]) else []
      | None \<Rightarrow> [])"

lemma disk_ok_ext: "disk_ok drv s a bs \<Longrightarrow> hal_ext s s' \<Longrightarrow> disk_ok drv s' a bs"
  by (auto simp: disk_ok_def hal_ext_def)

lemma disk_parts_cong: "disk_ok drv s a bs \<Longrightarrow> hal_ext s s' \<Longrightarrow> disk_parts s' a bs = disk_parts s a bs"
  by (auto simp: disk_ok_def hal_ext_def disk_parts_def)

lemma scan_disk_ok:
  assumes "hal_repr s xs" "disk_ok drv s a bs"
  shows "\<exists>d s' ys. hl_devices s a = Some d \<and> scan_disk drv a d s = Some s' \<and> hal_repr s' (xs @ ys) \<and> hal_ext s s'
    \<and> list_all2 (is_part s') (node_data ys) (disk_parts s a bs)"
proof -
  obtain d where d: "a < hl_next s" "hl_devices s a = Some d"
    using assms(2) by (auto simp: disk_ok_def)
  show ?thesis
  proof (cases "hd_type d = HAL_TYPE_STORAGE")
    case False
    then show ?thesis
      using assms(1) d by (intro exI [of _ d] exI [of _ s] exI [of _ "[]"]) (simp add: scan_disk_def disk_parts_def)
  next
    case True
    then obtain k r where k: "length bs = 512" "hd_read d = Some (DriverFunc k)" "drv k d 1 0 (hl_io s) = Some (hl_io s, r, bs)"
      using assms(2) d by (auto simp: disk_ok_def)
    then have "hal_read drv a 1 0 s = Some (s, r, bs)" using d by (subst hal_read.simps) simp
    then have "scan_disk drv a d s = add_partitions a d bs [0, 1, 2, 3] s" using True k(1) by (simp add: scan_disk_def)
    moreover have "disk_parts s a bs = map (Pair a) (used_entries bs [0, 1, 2, 3])"
      using True d(2) by (simp add: disk_parts_def)
    ultimately show ?thesis
      using add_partitions_ok [OF assms(1) d(2,1), of "[0, 1, 2, 3]" bs] mbr_entry_some [OF k(1)] d(2) by fastforce
  qed
qed

lemma disk_parts_ext:
  "list_all2 (is_part s1) ps (disk_parts s a bs) \<Longrightarrow> hal_ext s1 s2 \<Longrightarrow> a < hl_next s1 \<Longrightarrow>
   list_all2 (is_part s2) ps (disk_parts s a bs)"
  by (auto simp: disk_parts_def intro: is_parts_ext split: option.splits if_splits)

lemma hal_repr_node:
  assumes "hal_repr s (ps @ (m, v, a) # qs)"
  shows "\<exists>n. m \<noteq> 0 \<and> hl_heap s m = Some n \<and> ln_data n = a \<and> ln_next n = (case qs of [] \<Rightarrow> 0 | q # _ \<Rightarrow> fst q)"
  using assms by (cases qs) (auto simp: hal_repr_def list_repr_def dseg_append)

lemma hal_repr_distinct: "hal_repr s xs \<Longrightarrow> distinct (addrs xs)"
  by (auto simp: hal_repr_def list_repr_def)

lemma scan_from_ok:
  "hal_repr s (ps @ qs @ zs) \<Longrightarrow> qs \<noteq> [] \<Longrightarrow> list_all2 (disk_ok drv s) (node_data qs) bss \<Longrightarrow>
   \<exists>s' ys. scan_from drv (fst (last qs)) (fst (hd qs)) s = Some s' \<and> hal_repr s' (ps @ qs @ zs @ ys) \<and> hal_ext s s'
     \<and> list_all2 (is_part s') (node_data ys) (concat (map2 (disk_parts s) (node_data qs) bss))"
proof (induction qs arbitrary: s ps zs bss)
  case (Cons q qs)
  obtain m v a where q: "q = (m, v, a)" by (cases q)
  obtain bs bss' where b: "bss = bs # bss'" "disk_ok drv s a bs" "list_all2 (disk_ok drv s) (node_data qs) bss'"
    using Cons.prems(3) q by (auto simp: list_all2_Cons1)
  have rep: "hal_repr s (ps @ (m, v, a) # qs @ zs)" using Cons.prems(1) q by simp
  obtain n where n: "m \<noteq> 0" "hl_heap s m = Some n" "ln_data n = a" using hal_repr_node [OF rep] by blast
  obtain d s1 ys where s1: "hl_devices s a = Some d" "scan_disk drv a d s = Some s1"
      "hal_repr s1 ((ps @ (m, v, a) # qs @ zs) @ ys)" "hal_ext s s1" "list_all2 (is_part s1) (node_data ys) (disk_parts s a bs)"
    using scan_disk_ok [OF rep b(2)] by blast
  show ?case
  proof (cases qs)
    case Nil
    then have "scan_from drv m m s = Some s1" using n s1(1,2) by (subst scan_from.simps) simp
    then show ?thesis using Nil q b s1 by (intro exI [of _ s1] exI [of _ ys]) simp
  next
    case (Cons q' qs')
    obtain n1 where n1: "hl_heap s1 m = Some n1" "ln_next n1 = fst q'"
      using hal_repr_node [of s1 ps m v a "qs @ zs @ ys"] s1(3) Cons by auto
    have "m \<notin> set (addrs qs)" using hal_repr_distinct [OF rep] by simp
    moreover have "fst (last qs) \<in> set (addrs qs)" using Cons by (metis last_in_set list.distinct(1) list.set_map rev_image_eqI)
    ultimately have "m \<noteq> fst (last qs)" by metis
    then have step: "scan_from drv (fst (last qs)) m s = scan_from drv (fst (last qs)) (fst (hd qs)) s1"
      using n n1 s1(1,2) Cons by (subst scan_from.simps) simp
    have ok: "list_all2 (disk_ok drv s1) (node_data qs) bss'"
      using b(3) by (rule list.rel_mono_strong) (use disk_ok_ext s1(4) in blast)
    obtain s2 ws where s2: "scan_from drv (fst (last qs)) (fst (hd qs)) s1 = Some s2"
        "hal_repr s2 ((ps @ [(m, v, a)]) @ qs @ (zs @ ys) @ ws)" "hal_ext s1 s2"
        "list_all2 (is_part s2) (node_data ws) (concat (map2 (disk_parts s1) (node_data qs) bss'))"
      using Cons.IH [of s1 "ps @ [(m, v, a)]" "zs @ ys" bss'] s1(3) ok Cons by auto
    have "list_all2 (is_part s2) (node_data ys) (disk_parts s a bs)"
      using s1(5) s2(3) by (rule disk_parts_ext) (use b(2) s1(4) in \<open>auto simp: disk_ok_def hal_ext_def\<close>)
    moreover have eq: "map2 (disk_parts s1) (node_data qs) bss' = map2 (disk_parts s) (node_data qs) bss'"
      using b(3) by (induction rule: list_all2_induct) (simp_all add: disk_parts_cong [OF _ s1(4)])
    ultimately have "list_all2 (is_part s2) (node_data (ys @ ws)) (concat (map2 (disk_parts s) (node_data (q # qs)) bss))"
      using s2(4) [unfolded eq] q b(1) by (simp add: list_all2_appendI)
    moreover have "hal_ext s s2" using s1(4) s2(3) by (rule hal_ext_trans)
    ultimately show ?thesis
      using step s2(1,2) q Cons by (intro exI [of _ s2] exI [of _ "ys @ ws"]) simp
  qed
qed simp

lemma is_part_read:
  assumes "is_part s p (a, i, e)"
  shows "hal_read drv p count offset s = hal_read drv a count (pe_rel_sect e + offset) s"
    and "hal_write wdrv p buf count offset s = hal_write wdrv a buf count (pe_rel_sect e + offset) s"
  using assms by (auto simp: is_part_def part_device_def hal_read.simps [of drv p] hal_write.simps [of wdrv p])

section \<open>Properties\<close>

text \<open>C8. The scan for partitions comes to an end and leaves the devices that were registered as they
  are. Behind them it registers one device for every entry in use of the boot sector of every disk,
  in the order of the disks and entries. Reading or writing at an offset of such a device is reading
  or writing its disk at the offset displaced by the start of the partition; the size of the partition
  plays no part.\<close>

theorem check_for_parts_registers:
  assumes "hal_list s as" "list_all2 (disk_ok drv s) as bss"
  shows "\<exists>s' ps. check_for_parts drv s = Some s' \<and> hal_list s' (as @ ps) \<and> hal_ext s s'
    \<and> list_all2 (is_part s') ps (concat (map2 (disk_parts s) as bss))
    \<and> list_all2 (\<lambda>p (a, i, e). \<forall>count offset. hal_read drv p count offset s' = hal_read drv a count (pe_rel_sect e + offset) s'
         \<and> (\<forall>wdrv buf. hal_write wdrv p buf count offset s' = hal_write wdrv a buf count (pe_rel_sect e + offset) s'))
        ps (concat (map2 (disk_parts s) as bss))"
proof -
  obtain xs where xs: "hal_repr s xs" "as = node_data xs" using assms(1) by (auto simp: hal_list_def node_data_def)
  obtain v where v: "hl_list s = Some v" "list_repr (hl_heap s) (pv_var v) xs" using xs(1) by (auto simp: hal_repr_def)
  have "\<exists>s' ys. check_for_parts drv s = Some s' \<and> hal_repr s' (xs @ ys) \<and> hal_ext s s'
    \<and> list_all2 (is_part s') (node_data ys) (concat (map2 (disk_parts s) as bss))"
  proof (cases "xs = []")
    case True
    then have "check_for_parts drv s = Some s"
      using v by (simp add: check_for_parts_def hal_get_device_list_def list_repr_def scan_from.simps)
    then show ?thesis using True xs by (intro exI [of _ s] exI [of _ "[]"]) simp
  next
    case False
    then have "lh_base (pv_var v) = fst (hd xs)" "lh_last (pv_var v) = fst (last xs)"
      using v(2) dseg_lst [of "hl_heap s" _ 0 xs] by (cases xs; auto simp: list_repr_def last_map)+
    then have "check_for_parts drv s = scan_from drv (fst (last xs)) (fst (hd xs)) s"
      using v(1) by (simp add: check_for_parts_def hal_get_device_list_def)
    then show ?thesis using scan_from_ok [of s "[]" xs "[]" drv bss] xs False assms(2) by simp
  qed
  then obtain s' ys where s': "check_for_parts drv s = Some s'" "hal_repr s' (xs @ ys)" "hal_ext s s'"
      "list_all2 (is_part s') (node_data ys) (concat (map2 (disk_parts s) as bss))"
    by blast
  moreover have "list_all2 (\<lambda>p (a, i, e). \<forall>count offset. hal_read drv p count offset s' = hal_read drv a count (pe_rel_sect e + offset) s'
         \<and> (\<forall>wdrv buf. hal_write wdrv p buf count offset s' = hal_write wdrv a buf count (pe_rel_sect e + offset) s'))
        (node_data ys) (concat (map2 (disk_parts s) as bss))"
    using s'(4) by (rule list.rel_mono_strong) (auto intro: is_part_read)
  moreover have "hal_list s' (as @ node_data ys)"
    using s'(2) xs(2) by (auto simp: hal_list_def node_data_def)
  ultimately show ?thesis by blast
qed

text \<open>One disk with one partition, entry 1, that starts at sector 63.\<close>

definition small_boot_sector :: "u8 list" where
  "small_boot_sector = (replicate 512 0)[466 := 0x83, 470 := 63]"

definition small_disk_drv :: "unit read_drv" where
  "small_disk_drv k d count offset x = Some (x, 0, if offset = 0 then small_boot_sector else [])"

definition small_hal :: "unit hal" where
  "small_hal = \<lparr>hl_heap = [2 \<mapsto> \<lparr>ln_next = 0, ln_prev = 0, ln_val = 0, ln_data = 1\<rparr>],
     hl_list = Some \<lparr>pv_sem = 1, pv_var = \<lparr>lh_base = 2, lh_last = 2, lh_length = 0, lh_flags = 0\<rparr>, pv_flags = 0\<rparr>,
     hl_devices = [1 \<mapsto> \<lparr>hd_read = Some (DriverFunc 0), hd_write = None, hd_dev = 0, hd_name = [0x61], hd_type = 2,
       hd_subtype = 0, hd_block_size = 512, hd_flags = 0\<rparr>],
     hl_parts = Map.empty, hl_next = 3, hl_io = ()\<rparr>"

lemma small_entries:
  "used_entries small_boot_sector [0, 1, 2, 3] = [(1, \<lparr>pe_flags = 0, pe_system_id = 0x83, pe_rel_sect = 63, pe_total_sect = 0\<rparr>)]"
  by (simp add: used_entries_def mbr_entry_def MBR_PARTS_def small_boot_sector_def le32_def le16_def)

lemma check_for_parts_registers_witness:
  "\<exists>s' p. check_for_parts small_disk_drv small_hal = Some s' \<and> hal_list s' [1, p]
     \<and> hal_read small_disk_drv p 1 7 s' = hal_read small_disk_drv 1 1 70 s'"
proof -
  have l: "hal_list small_hal [1]"
    unfolding hal_list_def hal_repr_def
    by (intro exI [of _ "[(2, 0, 1)]"]) (simp add: small_hal_def list_repr_def)
  have d: "list_all2 (disk_ok small_disk_drv small_hal) [1] [small_boot_sector]"
    by (simp add: disk_ok_def small_hal_def small_disk_drv_def) (simp add: small_boot_sector_def)
  have p: "concat (map2 (disk_parts small_hal) [1] [small_boot_sector])
      = [(1, 1, \<lparr>pe_flags = 0, pe_system_id = 0x83, pe_rel_sect = 63, pe_total_sect = 0\<rparr>)]"
    using small_entries by (simp add: disk_parts_def small_hal_def HAL_TYPE_STORAGE_def)
  obtain s' q where "check_for_parts small_disk_drv small_hal = Some s'" "hal_list s' [1, q]"
      "\<forall>count offset. hal_read small_disk_drv q count offset s' = hal_read small_disk_drv 1 count (63 + offset) s'"
    using check_for_parts_registers [OF l d] unfolding p by (auto simp: list_all2_Cons2)
  then show ?thesis by (intro exI [of _ s'] exI [of _ q]) simp
qed

end
