(* ===== verification/DevFS.thy ===== *)
theory DevFS
  imports VFS HalParts
begin

text \<open>
  \<^verbatim>\<open>kernel/modules/devfs/devfs.c\<close>: the devices as files of one directory. The directory has the inode
  0; the device \<open>n\<close> has the inode \<open>128 + n\<close>. \<open>devfs\<close> is the address of the one file system there is.
  \<open>rdrv\<close> and \<open>wdrv\<close> are the functions of the drivers.
\<close>

section \<open>Model\<close>

record 'x devfs_state =
  dv_hal :: "'x hal"
  dv_fs :: nat

type_synonym ('x, 'y) devvfs = "('x, 'y) devfs_state_scheme vfs"

definition dv_string :: "u8 list \<Rightarrow> string" where
  "dv_string bs = map (\<lambda>b. char_of (unat b)) bs"

definition create_devfs :: "('x, 'y) devvfs \<Rightarrow> (('x, 'y) devvfs \<times> nat) option" where
  "create_devfs s =
     (let a = dv_fs (vs_dev s) in
      do { fs \<leftarrow> vs_fss s a;
           Some (s\<lparr>vs_fss := (vs_fss s)(a \<mapsto> fs\<lparr>fs_references := fs_references fs + 1\<rparr>)\<rparr>, a) })"

definition remove_devfs :: "('x, 'y) devvfs \<Rightarrow> nat \<Rightarrow> (('x, 'y) devvfs \<times> int) option" where
  "remove_devfs s a =
     do { fs \<leftarrow> vs_fss s a;
          if fs_references fs \<noteq> 0
          then Some (s\<lparr>vs_fss := (vs_fss s)(a \<mapsto> fs\<lparr>fs_references := fs_references fs - 1\<rparr>)\<rparr>, 0)
          else Some (s, - ERROR_INVALID_ARGUMENT) }"

text \<open>The size is not set: it stays \<open>junk\<close>.\<close>

definition devfs_get_info_node :: "u32 \<Rightarrow> ('x, 'y) devvfs \<Rightarrow> file_node \<Rightarrow> (('x, 'y) devvfs \<times> int \<times> file_info option) option" where
  "devfs_get_info_node junk s node =
     Some (s, 0, Some \<lparr>fi_type = (if fn_inode node < 128 then FILE_TYPE_DIR else FILE_TYPE_REG), fi_mask = 511,
                       fi_inode = fn_inode node, fi_size = junk, fi_links = 1\<rparr>)"

text \<open>The name and the inode of an entry. \<open>strcpy\<close> copies it into 256 bytes.\<close>

definition devfs_readdir_node ::
  "('x, 'y) devvfs \<Rightarrow> file_node \<Rightarrow> int \<Rightarrow> (('x, 'y) devvfs \<times> int \<times> dirent option) option" where
  "devfs_readdir_node s node entry =
     (if fn_inode node < 128
      then do {
        a \<leftarrow> hal_get_device (of_int entry) (dv_hal (vs_dev s));
        if a = 0 then Some (s, 0, None)
        else do { d \<leftarrow> hl_devices (dv_hal (vs_dev s)) a;
                  if 256 \<le> length (hd_name d) then None
                  else Some (s, 1, Some \<lparr>de_inode = 128 + of_int entry, de_offset = 0, de_length = 0,
                                         de_name = dv_string (hd_name d)\<rparr>) }
      }
      else Some (s, - ERROR_NOT_DIRECTORY, None))"

text \<open>\<open>for ( i = 0; devfs_readdir_node( node, dirbuf, i ); i++ )\<close>. An error is a result other than 0,
  with the buffer as it was; it is cleared at first.\<close>

partial_function (option) devfs_lookup_from ::
  "nat \<Rightarrow> ('x, 'y) devvfs \<Rightarrow> file_node \<Rightarrow> file_node \<Rightarrow> string \<Rightarrow> dirent \<Rightarrow> int \<Rightarrow> (('x, 'y) devvfs \<times> int \<times> file_node) option" where
  "devfs_lookup_from devfs s node buf name dirbuf i =
     do { (s1, r, e) \<leftarrow> devfs_readdir_node s node i;
          if r = 0 then Some (s1, - ERROR_NOT_FOUND, buf)
          else do {
            let d = (case e of Some x \<Rightarrow> x | None \<Rightarrow> dirbuf);
            if name = de_name d
            then Some (s1, 0, buf\<lparr>fn_inode := de_inode d, fn_references := 0, fn_flags := 0, fn_fs := devfs, fn_mount := 0\<rparr>)
            else devfs_lookup_from devfs s1 node buf name d (i + 1)
          } }"

declare devfs_lookup_from.simps [code]

definition devfs_lookup_node ::
  "('x, 'y) devvfs \<Rightarrow> file_node \<Rightarrow> file_node \<Rightarrow> string \<Rightarrow> u32 \<Rightarrow> (('x, 'y) devvfs \<times> int \<times> file_node) option" where
  "devfs_lookup_node s node buf name flags =
     devfs_lookup_from (dv_fs (vs_dev s)) s node buf name \<lparr>de_inode = 0, de_offset = 0, de_length = 0, de_name = []\<rparr> 0"

definition dev_put_hal :: "'x hal \<Rightarrow> ('x, 'y) devvfs \<Rightarrow> ('x, 'y) devvfs" where
  "dev_put_hal h s = s\<lparr>vs_dev := (vs_dev s)\<lparr>dv_hal := h\<rparr>\<rparr>"

text \<open>Offsets and lengths are whole blocks of the device.\<close>

definition devfs_read_node ::
  "'x read_drv \<Rightarrow> ('x, 'y) devvfs \<Rightarrow> file_node \<Rightarrow> u32 \<Rightarrow> u32 \<Rightarrow> (('x, 'y) devvfs \<times> int \<times> u8 list) option" where
  "devfs_read_node rdrv s node len offset =
     do { a \<leftarrow> hal_get_device (fn_inode node - 128) (dv_hal (vs_dev s));
          if a = 0 then Some (s, - ERROR_INVALID_PATH, [])
          else do {
            d \<leftarrow> hl_devices (dv_hal (vs_dev s)) a;
            if hd_read d = None then Some (s, - ERROR_NO_FUNC, [])
            else if hd_block_size d = 0 then None
            else do { (h, r, bs) \<leftarrow> hal_read rdrv a (len div hd_block_size d) (offset div hd_block_size d) (dv_hal (vs_dev s));
                      Some (dev_put_hal h s, r, bs) }
          } }"

definition devfs_write_node ::
  "'x write_drv \<Rightarrow> ('x, 'y) devvfs \<Rightarrow> file_node \<Rightarrow> u8 list \<Rightarrow> u32 \<Rightarrow> (('x, 'y) devvfs \<times> int) option" where
  "devfs_write_node wdrv s node buf offset =
     do { a \<leftarrow> hal_get_device (fn_inode node - 128) (dv_hal (vs_dev s));
          if a = 0 then Some (s, - ERROR_INVALID_PATH)
          else do {
            d \<leftarrow> hl_devices (dv_hal (vs_dev s)) a;
            if hd_write d = None then Some (s, - ERROR_NO_FUNC)
            else if hd_block_size d = 0 then None
            else do { (h, r) \<leftarrow> hal_write wdrv a buf (of_nat (length buf) div hd_block_size d) (offset div hd_block_size d)
                                 (dv_hal (vs_dev s));
                      Some (dev_put_hal h s, r) }
          } }"

definition devfs_open_node ::
  "('x, 'y) devfs_state_scheme func_table \<Rightarrow> ('x, 'y) devvfs \<Rightarrow> file_node \<Rightarrow> string \<Rightarrow> u32 \<Rightarrow> (('x, 'y) devvfs \<times> int) option" where
  "devfs_open_node tbl s node path flags =
     do { (s1, r, meh) \<leftarrow> lookup_walk tbl path s node 0;
          Some (s1, if r = 0 then sint (fn_inode meh) else - ERROR_NOT_FOUND) }"

definition devfs_functions ::
  "u32 \<Rightarrow> 'x read_drv \<Rightarrow> 'x write_drv \<Rightarrow> ('x, 'y) devfs_state_scheme func_table \<Rightarrow> ('x, 'y) devfs_state_scheme file_funcs" where
  "devfs_functions junk rdrv wdrv tbl =
     \<lparr>ff_read = Some (devfs_read_node rdrv), ff_write = Some (devfs_write_node wdrv), ff_mkdir = None, ff_mount = None,
      ff_readdir = Some devfs_readdir_node, ff_lookup = Some devfs_lookup_node, ff_open = Some (devfs_open_node tbl),
      ff_close = None, ff_get_info = Some (devfs_get_info_node junk)\<rparr>"

text \<open>\<open>kind\<close> names the table \<open>devfs_functions\<close>.\<close>

definition devfs_init :: "fs_kind \<Rightarrow> ('x, 'y) devvfs \<Rightarrow> (('x, 'y) devvfs \<times> int) option" where
  "devfs_init kind s =
     (let (s1, drv) = vfs_new s;
          (s2, fs) = vfs_new s1;
          (s3, root) = vfs_new s2;
          s4 = s3\<lparr>vs_drivers := (vs_drivers s3)(drv \<mapsto> \<lparr>fd_references = 0, fd_flags = 1, fd_name = ''devfs'', fd_kind = kind\<rparr>),
                  vs_fss := (vs_fss s3)(fs \<mapsto> \<lparr>fs_root = root, fs_functions = kind, fs_references = 0, fs_devstruct = 0\<rparr>),
                  vs_nodes := (vs_nodes s3)(root \<mapsto> null_node\<lparr>fn_references := 1, fn_fs := fs\<rparr>),
                  vs_dev := (vs_dev s3)\<lparr>dv_fs := fs\<rparr>\<rparr>
      in file_register_driver s4 drv)"

text \<open>The file system is mounted; the lookup afterwards is not looked at.\<close>

definition devfs_test ::
  "'d func_table \<Rightarrow> (fs_kind \<Rightarrow> 'd vfs \<Rightarrow> string option \<Rightarrow> u32 \<Rightarrow> ('d vfs \<times> nat) option) \<Rightarrow> 'd vfs \<Rightarrow> ('d vfs \<times> int) option" where
  "devfs_test tbl create s =
     do { (s1, _) \<leftarrow> file_mount_filesystem tbl create s ''/test/devices'' None ''devfs'' 0;
          (s2, _, _) \<leftarrow> file_lookup_absolute tbl s1 ''/test/devices'' 0;
          Some (s2, 0) }"

definition devfs_start ::
  "fs_kind \<Rightarrow> ('x, 'y) devfs_state_scheme func_table \<Rightarrow>
   (fs_kind \<Rightarrow> ('x, 'y) devvfs \<Rightarrow> string option \<Rightarrow> u32 \<Rightarrow> (('x, 'y) devvfs \<times> nat) option) \<Rightarrow>
   ('x, 'y) devvfs \<Rightarrow> (('x, 'y) devvfs \<times> int) option" where
  "devfs_start kind tbl create s =
     do { (s1, _) \<leftarrow> devfs_init kind s;
          (s2, _) \<leftarrow> devfs_test tbl create s1;
          Some (s2, 0) }"

section \<open>Looking up devices\<close>

text \<open>The names of the devices, in the order of the list.\<close>

definition dev_names :: "'x hal \<Rightarrow> nat list \<Rightarrow> string list \<Rightarrow> bool" where
  "dev_names h as ns \<longleftrightarrow> hal_list h as \<and> length as < 2 ^ 31
     \<and> list_all2 (\<lambda>a n. a \<noteq> 0 \<and> (\<exists>d. hl_devices h a = Some d \<and> length (hd_name d) < 256 \<and> n = dv_string (hd_name d))) as ns"

fun index_from :: "nat \<Rightarrow> 'a list \<Rightarrow> 'a \<Rightarrow> nat option" where
  "index_from i [] x = None"
| "index_from i (y # ys) x = (if y = x then Some i else index_from (Suc i) ys x)"

lemma hal_list_get:
  assumes "hal_list h as" "length as < 2 ^ 31" "n < 2 ^ 31"
  shows "hal_get_device (of_nat n) h = Some (if n < length as then as ! n else 0)"
proof -
  obtain xs where xs: "hal_repr h xs" "as = map (snd \<circ> snd) xs" using assms(1) by (auto simp: hal_list_def node_data_def)
  show ?thesis
    using hal_get_device_ok [OF xs(1) _ assms(3)] hal_get_device_end [OF xs(1) _ assms(3)] xs(2) by (cases "n < length xs") auto
qed

lemma readdir_ok:
  assumes n: "dev_names (dv_hal (vs_dev s)) as ns" and dir: "fn_inode node < 128" and i: "i \<le> length ns"
  shows "devfs_readdir_node s node (int i) =
    Some (s, if i < length ns then 1 else 0,
      if i < length ns then Some \<lparr>de_inode = 128 + of_nat i, de_offset = 0, de_length = 0, de_name = ns ! i\<rparr> else None)"
proof -
  have len: "length as = length ns" using n by (auto simp: dev_names_def dest: list_all2_lengthD)
  then have g: "hal_get_device (of_nat i) (dv_hal (vs_dev s)) = Some (if i < length as then as ! i else 0)"
    using n i by (intro hal_list_get) (auto simp: dev_names_def)
  show ?thesis
  proof (cases "i < length ns")
    case True
    then obtain d where "as ! i \<noteq> 0" "hl_devices (dv_hal (vs_dev s)) (as ! i) = Some d" "length (hd_name d) < 256"
        "ns ! i = dv_string (hd_name d)"
      using n len by (force simp: dev_names_def list_all2_conv_all_nth)
    then show ?thesis using True g len dir by (simp add: devfs_readdir_node_def)
  next
    case False
    then show ?thesis using g len dir by (simp add: devfs_readdir_node_def)
  qed
qed

lemma devfs_lookup_from_ok:
  assumes n: "dev_names (dv_hal (vs_dev s)) as ns" and dir: "fn_inode node < 128"
  shows "i \<le> length ns \<Longrightarrow> devfs_lookup_from devfs s node buf name dirbuf (int i) = Some (s,
    (case index_from i (drop i ns) name of
       None \<Rightarrow> (- ERROR_NOT_FOUND, buf)
     | Some k \<Rightarrow> (0, buf\<lparr>fn_inode := 128 + of_nat k, fn_references := 0, fn_flags := 0, fn_fs := devfs, fn_mount := 0\<rparr>)))"
proof (induction "length ns - i" arbitrary: i dirbuf)
  case 0
  then show ?case
    using readdir_ok [OF n dir 0(2)] by (subst devfs_lookup_from.simps) simp
next
  case (Suc k)
  then have lt: "i < length ns" by simp
  then have d: "drop i ns = ns ! i # drop (Suc i) ns" by (simp add: Cons_nth_drop_Suc)
  have ih: "devfs_lookup_from devfs s node buf name dirbuf (int (Suc i)) = Some (s,
    (case index_from (Suc i) (drop (Suc i) ns) name of
       None \<Rightarrow> (- ERROR_NOT_FOUND, buf)
     | Some k \<Rightarrow> (0, buf\<lparr>fn_inode := 128 + of_nat k, fn_references := 0, fn_flags := 0, fn_fs := devfs, fn_mount := 0\<rparr>)))" for dirbuf
    using Suc lt by (intro Suc.hyps(1)) simp_all
  show ?case
    using readdir_ok [OF n dir, of i] lt d ih by (subst devfs_lookup_from.simps) (simp add: add.commute)
qed

text \<open>Below a device the loop gets the error for every entry.\<close>

lemma devfs_lookup_from_device:
  "devfs_lookup_from devfs s node buf name dirbuf i = Some r \<Longrightarrow> \<not> fn_inode node < 128 \<Longrightarrow> name \<noteq> de_name dirbuf \<Longrightarrow> False"
proof (induction rule: devfs_lookup_from.raw_induct [rotated 1, consumes 1, case_names step])
  case (step f devfs s node buf name dirbuf i r)
  have "f devfs s node buf name dirbuf (i + 1) = Some r"
    using step.hyps step.prems by (simp add: devfs_readdir_node_def ERROR_NOT_DIRECTORY_def)
  then show ?case using step.IH step.prems by blast
qed

lemma index_from_bounds: "index_from i xs x = Some k \<Longrightarrow> i \<le> k \<and> k < i + length xs \<and> xs ! (k - i) = x"
  by (induction i xs x rule: index_from.induct) (auto simp: Suc_le_eq nth_Cons' split: if_splits)

section \<open>Properties\<close>

text \<open>C9. In the directory of devices, looking up a name gives the first device of the list that has it,
  or the error for a name no device has. Reading the file found reads that device, in its blocks.\<close>

theorem devfs_lookup_reads:
  assumes "dev_names (dv_hal (vs_dev s)) as ns" "fn_inode node < 128"
  shows "devfs_lookup_node s node buf name flags = Some (s,
      (case index_from 0 ns name of
         None \<Rightarrow> (- ERROR_NOT_FOUND, buf)
       | Some k \<Rightarrow> (0, buf\<lparr>fn_inode := 128 + of_nat k, fn_references := 0, fn_flags := 0, fn_fs := dv_fs (vs_dev s), fn_mount := 0\<rparr>)))
    \<and> (\<forall>k d len offset. index_from 0 ns name = Some k \<and> hl_devices (dv_hal (vs_dev s)) (as ! k) = Some d \<and> hd_read d \<noteq> None
         \<and> hd_block_size d \<noteq> 0 \<longrightarrow>
         devfs_read_node rdrv s (buf\<lparr>fn_inode := 128 + of_nat k\<rparr>) len offset =
           map_option (\<lambda>(h, r, bs). (dev_put_hal h s, r, bs))
             (hal_read rdrv (as ! k) (len div hd_block_size d) (offset div hd_block_size d) (dv_hal (vs_dev s))))"
proof -
  have "devfs_read_node rdrv s (buf\<lparr>fn_inode := 128 + of_nat k\<rparr>) len offset =
      map_option (\<lambda>(h, r, bs). (dev_put_hal h s, r, bs))
        (hal_read rdrv (as ! k) (len div hd_block_size d) (offset div hd_block_size d) (dv_hal (vs_dev s)))"
    if k: "index_from 0 ns name = Some k" "hl_devices (dv_hal (vs_dev s)) (as ! k) = Some d" "hd_read d \<noteq> None" "hd_block_size d \<noteq> 0"
    for k d len offset
  proof -
    have "length as = length ns" using assms(1) by (auto simp: dev_names_def dest: list_all2_lengthD)
    then have lt: "k < length as" using index_from_bounds [OF k(1)] by simp
    moreover have "as ! k \<noteq> 0" using lt assms(1) by (force simp: dev_names_def list_all2_conv_all_nth)
    ultimately have "hal_get_device (of_nat k) (dv_hal (vs_dev s)) = Some (as ! k)" "as ! k \<noteq> 0"
      using hal_list_get [of "dv_hal (vs_dev s)" as k] assms(1) by (auto simp: dev_names_def)
    then show ?thesis
      using k(2-4) by (cases "hal_read rdrv (as ! k) (len div hd_block_size d) (offset div hd_block_size d) (dv_hal (vs_dev s))")
        (auto simp: devfs_read_node_def)
  qed
  then show ?thesis
    using devfs_lookup_from_ok [OF assms, of 0] by (auto simp: devfs_lookup_node_def)
qed

text \<open>C18. Looking up a name below a device never returns: every step of the loop gets the error that the
  node is not a directory, which the loop takes for an entry.\<close>

theorem devfs_lookup_below_device:
  assumes "\<not> fn_inode node < 128" "name \<noteq> []"
  shows "devfs_lookup_node s node buf name flags = None"
  using devfs_lookup_from_device [of "dv_fs (vs_dev s)" s node buf name "\<lparr>de_inode = 0, de_offset = 0, de_length = 0, de_name = []\<rparr>" 0] assms
  by (cases "devfs_lookup_node s node buf name flags") (auto simp: devfs_lookup_node_def)

text \<open>One device, \<^verbatim>\<open>a\<close>.\<close>

definition small_devvfs :: "(unit, unit) devvfs" where
  "small_devvfs = \<lparr>vs_nodes = Map.empty, vs_mounts = Map.empty, vs_fss = Map.empty, vs_drivers = Map.empty, vs_driver_list = [],
     vs_mount_list = [], vs_root = 0, vs_froot = 0, vs_curdir = 0, vs_next = 10, vs_dev = \<lparr>dv_hal = small_hal, dv_fs = 5\<rparr>\<rparr>"

lemma devfs_lookup_reads_witness:
  "devfs_lookup_node small_devvfs null_node null_node ''a'' 0 = Some (small_devvfs, 0, null_node\<lparr>fn_inode := 128, fn_fs := 5\<rparr>)
    \<and> devfs_lookup_node small_devvfs null_node null_node ''b'' 0 = Some (small_devvfs, - ERROR_NOT_FOUND, null_node)
    \<and> devfs_read_node small_disk_drv small_devvfs (null_node\<lparr>fn_inode := 128\<rparr>) 512 0 = Some (small_devvfs, 0, small_boot_sector)"
proof -
  have c: "dv_string [0x61] = ''a''" by code_simp
  have n: "dev_names (dv_hal (vs_dev small_devvfs)) [1] [''a'']"
    unfolding dev_names_def hal_list_def hal_repr_def
    by (intro conjI exI [of _ "[(2, 0, 1)]"])
      (simp_all add: small_devvfs_def small_hal_def list_repr_def c node_data_def)
  have r: "hal_read small_disk_drv 1 1 0 small_hal = Some (small_hal, 0, small_boot_sector)"
    by (subst hal_read.simps) (simp add: small_hal_def small_disk_drv_def)
  have d: "fn_inode null_node < 128" by (simp add: null_node_def)
  note l = devfs_lookup_reads [OF n d, where rdrv = small_disk_drv and buf = null_node and flags = 0]
  have "devfs_lookup_node small_devvfs null_node null_node ''a'' 0 = Some (small_devvfs, 0, null_node\<lparr>fn_inode := 128, fn_fs := 5\<rparr>)"
    using l [of "''a''"] by (simp add: small_devvfs_def) (simp add: null_node_def)
  moreover have "devfs_lookup_node small_devvfs null_node null_node ''b'' 0 = Some (small_devvfs, - ERROR_NOT_FOUND, null_node)"
    using l [of "''b''"] by simp
  moreover have "devfs_read_node small_disk_drv small_devvfs (null_node\<lparr>fn_inode := 128\<rparr>) 512 0 = Some (small_devvfs, 0, small_boot_sector)"
    using l [of "''a''"] r by (simp add: small_devvfs_def dev_put_hal_def) (simp add: small_hal_def)
  ultimately show ?thesis by blast
qed

lemma devfs_lookup_below_device_witness:
  "devfs_lookup_node small_devvfs (null_node\<lparr>fn_inode := 128\<rparr>) null_node ''b'' 0 = None"
  by (rule devfs_lookup_below_device) simp_all

end
