(* ===== verification/Keyboard.thy ===== *)
theory Keyboard
  imports Pipe VFS Semaphore
begin

text \<open>
  \<^verbatim>\<open>kernel/modules/ps2keybd/ps2keybd.c\<close>: the keyboard driver. The interrupt handler turns scancodes
  into characters and writes them to a pipe of 128 bytes, which the device reads from. The last part
  shows which of the two key maps is in force after any run of scancodes, and that the device returns
  the characters of the keys that were hit.
\<close>

section \<open>Key maps\<close>

definition KEYMETA_CTRL :: u8 where "KEYMETA_CTRL = 1"
definition KEYMETA_SHIFT :: u8 where "KEYMETA_SHIFT = 2"
definition KEYMETA_ALT :: u8 where "KEYMETA_ALT = 4"
definition KEYMETA_CAPSLOCK :: u8 where "KEYMETA_CAPSLOCK = 8"
definition KEYMETA_NUMLOCK :: u8 where "KEYMETA_NUMLOCK = 16"
definition KEYMETA_SCROLL_LOCK :: u8 where "KEYMETA_SCROLL_LOCK = 32"

lemmas keymeta_defs = KEYMETA_CTRL_def KEYMETA_SHIFT_def KEYMETA_ALT_def KEYMETA_CAPSLOCK_def
  KEYMETA_NUMLOCK_def KEYMETA_SCROLL_LOCK_def

text \<open>An entry of a key map is the number of a modifier, stored in place of a pointer, or the string
  that the key writes.\<close>

datatype keycode = Meta u8 | Str "u8 list"

definition us_keymap_lower :: "keycode list" where
  "us_keymap_lower = [
    Str [], Str [27, 91], Str [49], Str [50], Str [51], Str [52], Str [53], Str [54], Str [55], Str [56],
    Str [57], Str [48], Str [45], Str [61], Str [8], Str [9], Str [113], Str [119], Str [101], Str [114],
    Str [116], Str [121], Str [117], Str [105], Str [111], Str [112], Str [91], Str [93], Str [10],
    Meta KEYMETA_CTRL, Str [97], Str [115], Str [100], Str [102], Str [103], Str [104], Str [106], Str [107],
    Str [108], Str [59], Str [39], Str [96], Meta KEYMETA_SHIFT, Str [92], Str [122], Str [120], Str [99],
    Str [118], Str [98], Str [110], Str [109], Str [44], Str [46], Str [47], Meta KEYMETA_SHIFT, Str [42],
    Meta KEYMETA_ALT, Str [32], Meta KEYMETA_CAPSLOCK, Str [27, 91, 91, 49, 49, 126],
    Str [27, 91, 91, 49, 50, 126], Str [27, 91, 91, 49, 51, 126], Str [27, 91, 91, 49, 52, 126],
    Str [27, 91, 91, 49, 53, 126], Str [27, 91, 91, 49, 55, 126], Str [27, 91, 91, 49, 56, 126],
    Str [27, 91, 91, 49, 57, 126], Str [27, 91, 91, 50, 48, 126], Str [27, 91, 91, 50, 49, 126],
    Meta KEYMETA_NUMLOCK, Meta KEYMETA_SCROLL_LOCK, Str [55], Str [56], Str [57], Str [45], Str [52],
    Str [53], Str [54], Str [43], Str [49], Str [50], Str [51], Str [48], Str [46], Str [], Str [], Str [],
    Str [27, 91, 91, 50, 51, 126], Str [27, 91, 91, 50, 52, 126], Str [], Str [], Str []]"

definition us_keymap_upper :: "keycode list" where
  "us_keymap_upper = [
    Str [], Str [27, 91], Str [33], Str [64], Str [35], Str [36], Str [37], Str [94], Str [38], Str [42],
    Str [40], Str [41], Str [95], Str [43], Str [8], Str [9], Str [81], Str [87], Str [69], Str [82],
    Str [84], Str [89], Str [85], Str [73], Str [79], Str [80], Str [123], Str [125], Str [10],
    Meta KEYMETA_CTRL, Str [65], Str [83], Str [68], Str [70], Str [71], Str [72], Str [74], Str [75],
    Str [76], Str [58], Str [34], Str [126], Meta KEYMETA_SHIFT, Str [124], Str [90], Str [88], Str [67],
    Str [86], Str [66], Str [78], Str [77], Str [60], Str [62], Str [63], Meta KEYMETA_SHIFT, Str [42],
    Meta KEYMETA_ALT, Str [32], Meta KEYMETA_CAPSLOCK, Str [27, 91, 91, 49, 49, 126],
    Str [27, 91, 91, 49, 50, 126], Str [27, 91, 91, 49, 51, 126], Str [27, 91, 91, 49, 52, 126],
    Str [27, 91, 91, 49, 53, 126], Str [27, 91, 91, 49, 55, 126], Str [27, 91, 91, 49, 56, 126],
    Str [27, 91, 91, 49, 57, 126], Str [27, 91, 91, 50, 48, 126], Str [27, 91, 91, 50, 49, 126],
    Meta KEYMETA_NUMLOCK, Meta KEYMETA_SCROLL_LOCK, Str [55], Str [56], Str [57], Str [45], Str [52],
    Str [53], Str [54], Str [43], Str [49], Str [50], Str [51], Str [48], Str [46], Str [], Str [], Str [],
    Str [27, 91, 91, 50, 51, 126], Str [27, 91, 91, 50, 52, 126], Str [], Str [], Str []]"

section \<open>State and operations\<close>

text \<open>The pipe, the modifiers that are down, the key map in force and the semaphore that readers of
  the pipe enter.\<close>

record keyboard =
  keyboard_pipe :: pipe
  metastatus :: u8
  keymap :: "keycode list"
  keybd_sem :: int

text \<open>Which key map is in force, and what a release and a press of a modifier do to it.\<close>

definition meta_upper :: "u8 \<Rightarrow> bool" where
  "meta_upper m \<longleftrightarrow> (m AND KEYMETA_SHIFT) XOR (m AND KEYMETA_CAPSLOCK) \<noteq> 0"

definition meta_release :: "u8 \<Rightarrow> keyboard \<Rightarrow> keyboard" where
  "meta_release k s =
     (let m = metastatus s AND NOT k in
      s\<lparr>metastatus := m, keymap := if meta_upper m then keymap s else us_keymap_lower\<rparr>)"

definition meta_press :: "u8 \<Rightarrow> keyboard \<Rightarrow> keyboard" where
  "meta_press k s =
     (let m = metastatus s OR k in
      s\<lparr>metastatus := m, keymap := if meta_upper m then us_keymap_upper else keymap s\<rparr>)"

text \<open>The string of a key goes to the pipe, behind an escape while control is down. The semaphore is
  stored to, not entered: the handler runs in an interrupt.\<close>

definition key_emit :: "u8 list \<Rightarrow> keyboard \<Rightarrow> keyboard option" where
  "key_emit str s =
     do { p1 \<leftarrow> if metastatus s AND KEYMETA_CTRL \<noteq> 0
               then map_option fst (pipe_write (keyboard_pipe s) [27]) else Some (keyboard_pipe s);
          (p2, _) \<leftarrow> pipe_write p1 str;
          Some (s\<lparr>keyboard_pipe := p2, keybd_sem := 1\<rparr>) }"

text \<open>The key maps have no entries for all of the 128 keys that a scancode can name.\<close>

definition keyboard_handler :: "u8 \<Rightarrow> keyboard \<Rightarrow> keyboard option" where
  "keyboard_handler scancode s =
     (if scancode AND 0x80 \<noteq> 0
      then do { buf \<leftarrow> read_at (keymap s) (unat (scancode - 0x80));
                (case buf of Meta k \<Rightarrow> Some (meta_release k s) | Str str \<Rightarrow> Some s) }
      else do { buf \<leftarrow> read_at (keymap s) (unat scancode);
                (case buf of Meta k \<Rightarrow> Some (meta_press k s) | Str str \<Rightarrow> key_emit str s) })"

text \<open>The device has the one line of the pipe. An empty pipe is an error that asks to try again.\<close>

definition kbd_hal_read :: "u32 \<Rightarrow> keyboard \<Rightarrow> (keyboard \<times> int \<times> u8 list) option" where
  "kbd_hal_read count s =
     do { sem \<leftarrow> enter_semaphore (keybd_sem s);
          line \<leftarrow> read_at (p_bufs (keyboard_pipe s)) 0;
          (line', bs) \<leftarrow> pipeline_read line count;
          Some (s\<lparr>keyboard_pipe := (keyboard_pipe s)\<lparr>p_bufs := (p_bufs (keyboard_pipe s))[0 := line']\<rparr>,
                  keybd_sem := leave_semaphore sem\<rparr>,
                if bs = [] then - ERROR_TRY_AGAIN else int (length bs), bs) }"

text \<open>The state after \<open>init\<close>; \<open>fresh\<close> and \<open>junk\<close> are what the allocator returned.\<close>

definition keyboard_init :: "pipe \<Rightarrow> (nat \<Rightarrow> nat \<Rightarrow> u8) \<Rightarrow> keyboard option" where
  "keyboard_init fresh junk =
     do { p \<leftarrow> pipe_create fresh junk 1 128 0;
          Some \<lparr>keyboard_pipe = p, metastatus = 0, keymap = us_keymap_lower, keybd_sem = 1\<rparr> }"

section \<open>The characters that a run of scancodes writes\<close>

text \<open>The key map depends on the modifiers alone: upper case while shift or caps lock is down.\<close>

definition shifted :: "u8 \<Rightarrow> bool" where
  "shifted m \<longleftrightarrow> m AND (KEYMETA_SHIFT OR KEYMETA_CAPSLOCK) \<noteq> 0"

definition key_of :: "u8 \<Rightarrow> u8 \<Rightarrow> keycode" where
  "key_of m c = (if shifted m then us_keymap_upper else us_keymap_lower) ! unat (c AND 0x7f)"

definition key_known :: "u8 \<Rightarrow> bool" where
  "key_known c \<longleftrightarrow> unat (c AND 0x7f) < 92"

fun key_chars :: "u8 \<Rightarrow> u8 list \<Rightarrow> u8 list" where
  "key_chars m [] = []"
| "key_chars m (c # cs) =
     (case key_of m c of
        Meta k \<Rightarrow> key_chars (if c AND 0x80 \<noteq> 0 then m AND NOT k else m OR k) cs
      | Str str \<Rightarrow> (if c AND 0x80 \<noteq> 0 then [] else if m AND KEYMETA_CTRL \<noteq> 0 then 27 # str else str) @ key_chars m cs)"

lemma length_keymaps [simp]: "length us_keymap_lower = 92" "length us_keymap_upper = 92"
  by (simp_all add: us_keymap_lower_def us_keymap_upper_def)

lemma word_or_eq_0: "a OR b = 0 \<longleftrightarrow> a = 0 \<and> b = 0" for a b :: "'a::len word"
  by (auto simp: bit_eq_iff bit_simps)

lemma xor_disjoint_masks:
  fixes m :: "'a::len word"
  assumes "a AND b = 0"
  shows "(m AND a) XOR (m AND b) \<noteq> 0 \<longleftrightarrow> m AND (a OR b) \<noteq> 0"
proof -
  have "(m AND a) XOR (m AND b) = 0 \<longleftrightarrow> m AND a = m AND b" by (metis xor.left_neutral xor_self_eq xor.assoc xor.right_neutral)
  also have "\<dots> \<longleftrightarrow> m AND a = 0 \<and> m AND b = 0"
    using assms by (metis and.assoc and.commute and.idem and_zero_eq)
  also have "\<dots> \<longleftrightarrow> m AND (a OR b) = 0" by (simp add: bit.conj_disj_distrib word_or_eq_0)
  finally show ?thesis by blast
qed

lemma meta_upper_shifted: "meta_upper m \<longleftrightarrow> shifted m"
  by (simp add: meta_upper_def shifted_def xor_disjoint_masks KEYMETA_SHIFT_def KEYMETA_CAPSLOCK_def)

lemma split_0x80: "c = (c AND 0x80) + (c AND 0x7f)" for c :: u8
proof -
  have "(c AND 0x80) AND (c AND 0x7f) = c AND (c AND (0x80 AND 0x7f))" by (simp only: ac_simps and.left_idem)
  then have "(c AND 0x80) + (c AND 0x7f) = (c AND 0x80) OR (c AND 0x7f)"
    by (intro disjunctive_add_eq_or) simp
  also have "\<dots> = c AND (0x80 OR 0x7f)" by (rule bit.conj_disj_distrib [symmetric])
  also have "(0x80 OR 0x7f :: u8) = - 1" by simp
  finally show ?thesis by simp
qed

lemma release_code: "c AND 0x80 \<noteq> 0 \<Longrightarrow> c - 0x80 = c AND 0x7f" for c :: u8
  using split_0x80 [of c] and_0x80 [of c] by (metis add_diff_cancel_left')

lemma press_code: "c AND 0x80 = 0 \<Longrightarrow> c AND 0x7f = c" for c :: u8
  using split_0x80 [of c] by simp

text \<open>What holds between two interrupts.\<close>

definition keyboard_ok :: "u8 list \<Rightarrow> keyboard \<Rightarrow> bool" where
  "keyboard_ok cs s \<longleftrightarrow>
     keymap s = (if shifted (metastatus s) then us_keymap_upper else us_keymap_lower) \<and> keybd_sem s = 1
     \<and> p_nbufs (keyboard_pipe s) = 1
     \<and> (\<exists>l. p_bufs (keyboard_pipe s) = [l] \<and> pipeline_wf l \<and> pl_cap l = 127 \<and> pl_contents l = keep_last 127 cs
          \<and> pl_flags l AND PIPE_FLAG_OPEN \<noteq> 0 \<and> pl_flags l AND PIPE_FLAG_BLOCK = 0)"


lemma keyboard_init_ok:
  "\<exists>s. keyboard_init fresh junk = Some s \<and> keyboard_ok [] s \<and> metastatus s = 0"
  using new_pipeline_ok [of 128 0 "junk 0"] open_flag_set [of 0] open_flag_block
  by (simp add: keyboard_init_def pipe_create_def keyboard_ok_def shifted_def new_pipeline_def)

lemma pipe_write_ok:
  assumes "p_nbufs p = 1" "p_bufs p = [l]" "pipeline_wf l" "pl_flags l AND PIPE_FLAG_OPEN \<noteq> 0"
    "pl_flags l AND PIPE_FLAG_BLOCK = 0"
  shows "\<exists>l'. pipe_write p str = Some (p\<lparr>p_bufs := [l']\<rparr>, of_nat (length str)) \<and> pipeline_wf l'
    \<and> pl_cap l' = pl_cap l \<and> pl_flags l' = pl_flags l \<and> pl_contents l' = keep_last (pl_cap l) (pl_contents l @ str)"
  using pipe_write_single [OF assms(1,2,4), of str] pipe_write_line_ok [OF assms(3,5), of str 0]
  by (auto simp: pl_cap_def)

lemma key_emit_ok:
  assumes "keyboard_ok cs s"
  shows "\<exists>s'. key_emit str s = Some s' \<and> metastatus s' = metastatus s
    \<and> keyboard_ok (cs @ (if metastatus s AND KEYMETA_CTRL \<noteq> 0 then 27 # str else str)) s'"
proof -
  obtain l where l: "p_nbufs (keyboard_pipe s) = 1" "p_bufs (keyboard_pipe s) = [l]" "pipeline_wf l" "pl_cap l = 127"
      "pl_contents l = keep_last 127 cs" "pl_flags l AND PIPE_FLAG_OPEN \<noteq> 0" "pl_flags l AND PIPE_FLAG_BLOCK = 0"
    using assms by (auto simp: keyboard_ok_def)
  obtain l1 where l1: "pipe_write (keyboard_pipe s) [27] = Some ((keyboard_pipe s)\<lparr>p_bufs := [l1]\<rparr>, 1)" "pipeline_wf l1"
      "pl_cap l1 = 127" "pl_flags l1 = pl_flags l" "pl_contents l1 = keep_last 127 (cs @ [27])"
    using pipe_write_ok [OF l(1,2,3,6,7), of "[27]"] l(4,5) by (auto simp: keep_last_keep_last)
  have 1: "\<exists>l2. pipe_write ((keyboard_pipe s)\<lparr>p_bufs := [l1]\<rparr>) str
      = Some ((keyboard_pipe s)\<lparr>p_bufs := [l2]\<rparr>, of_nat (length str)) \<and> pipeline_wf l2 \<and> pl_cap l2 = 127
      \<and> pl_flags l2 = pl_flags l \<and> pl_contents l2 = keep_last 127 (cs @ 27 # str)"
    using pipe_write_ok [of "(keyboard_pipe s)\<lparr>p_bufs := [l1]\<rparr>" l1 str] l l1 by (auto simp: keep_last_keep_last)
  have 2: "\<exists>l2. pipe_write (keyboard_pipe s) str
      = Some ((keyboard_pipe s)\<lparr>p_bufs := [l2]\<rparr>, of_nat (length str)) \<and> pipeline_wf l2 \<and> pl_cap l2 = 127
      \<and> pl_flags l2 = pl_flags l \<and> pl_contents l2 = keep_last 127 (cs @ str)"
    using pipe_write_ok [OF l(1,2,3,6,7), of str] l(4,5) by (auto simp: keep_last_keep_last)
  show ?thesis
  proof (cases "metastatus s AND KEYMETA_CTRL = 0")
    case True
    then show ?thesis using 2 assms l by (auto simp: key_emit_def keyboard_ok_def)
  next
    case False
    then show ?thesis using 1 l1(1) assms l by (auto simp: key_emit_def keyboard_ok_def)
  qed
qed

lemma meta_press_shifted: "shifted m \<Longrightarrow> shifted (m OR k)"
  by (auto simp: shifted_def bit.conj_disj_distrib2 word_or_eq_0)

lemma meta_release_shifted: "shifted (m AND NOT k) \<Longrightarrow> shifted m"
proof -
  have "(m AND NOT k) AND b = (m AND b) AND NOT k" for b by (simp only: ac_simps)
  then show "shifted (m AND NOT k) \<Longrightarrow> shifted m" by (auto simp: shifted_def)
qed

lemma keyboard_handler_ok:
  assumes "keyboard_ok cs s" "key_known c"
  shows "\<exists>s'. keyboard_handler c s = Some s' \<and> keyboard_ok (cs @ key_chars (metastatus s) [c]) s'
    \<and> (\<forall>r. key_chars (metastatus s) (c # r) = key_chars (metastatus s) [c] @ key_chars (metastatus s') r)"
proof (cases "c AND 0x80 = 0")
  case True
  have k: "read_at (keymap s) (unat c) = Some (key_of (metastatus s) c)"
    using assms press_code [OF True] by (simp add: keyboard_ok_def key_of_def key_known_def)
  show ?thesis
  proof (cases "key_of (metastatus s) c")
    case (Meta m)
    then show ?thesis
      using assms(1) k True meta_press_shifted [of "metastatus s" m]
      by (auto simp: keyboard_handler_def meta_press_def Let_def meta_upper_shifted keyboard_ok_def)
  next
    case (Str str)
    then show ?thesis
      using key_emit_ok [OF assms(1), of str] k True by (auto simp: keyboard_handler_def)
  qed
next
  case False
  have k: "read_at (keymap s) (unat (c - 0x80)) = Some (key_of (metastatus s) c)"
    using assms release_code [OF False] by (simp add: keyboard_ok_def key_of_def key_known_def)
  show ?thesis
  proof (cases "key_of (metastatus s) c")
    case (Meta m)
    then show ?thesis
      using assms(1) k False meta_release_shifted [of "metastatus s" m]
      by (auto simp: keyboard_handler_def meta_release_def Let_def meta_upper_shifted keyboard_ok_def)
  next
    case (Str str)
    then show ?thesis using assms(1) k False by (auto simp: keyboard_handler_def)
  qed
qed

lemma keyboard_run_ok:
  "keyboard_ok cs s \<Longrightarrow> list_all key_known keys \<Longrightarrow>
   \<exists>s'. bind_fold (\<lambda>s c. keyboard_handler c s) s keys = Some s' \<and> keyboard_ok (cs @ key_chars (metastatus s) keys) s'"
proof (induction keys arbitrary: cs s)
  case (Cons c keys)
  obtain s1 where "keyboard_handler c s = Some s1" "keyboard_ok (cs @ key_chars (metastatus s) [c]) s1"
      "key_chars (metastatus s) (c # keys) = key_chars (metastatus s) [c] @ key_chars (metastatus s1) keys"
    using keyboard_handler_ok [OF Cons.prems(1), of c] Cons.prems(2) by auto
  then show ?case using Cons.IH [of "cs @ key_chars (metastatus s) [c]" s1] Cons.prems(2) by simp
qed simp

text \<open>C10. From the state that \<open>init\<close> leaves, the handler comes through every run of scancodes of keys
  that the key maps have. Then the key map in force is the upper one exactly while shift or caps lock
  is down, and a read returns the characters that the keys write according to the modifiers held, in
  their order: at most the last 127 of them that nobody read, and an error if there are none.\<close>

theorem keyboard_types:
  assumes "keyboard_init fresh junk = Some s0" "list_all key_known keys"
  shows "\<exists>s s'. bind_fold (\<lambda>s c. keyboard_handler c s) s0 keys = Some s
    \<and> keymap s = (if shifted (metastatus s) then us_keymap_upper else us_keymap_lower)
    \<and> kbd_hal_read n s =
        (let bs = take (unat n) (keep_last 127 (key_chars 0 keys)) in
         Some (s', if bs = [] then - ERROR_TRY_AGAIN else int (length bs), bs))"
proof -
  obtain s where s: "bind_fold (\<lambda>s c. keyboard_handler c s) s0 keys = Some s" "keyboard_ok (key_chars 0 keys) s"
    using keyboard_init_ok [of fresh junk] keyboard_run_ok [of "[]" s0 keys] assms by auto
  then obtain l where l: "p_bufs (keyboard_pipe s) = [l]" "pipeline_wf l"
      "pl_contents l = keep_last 127 (key_chars 0 keys)" "keybd_sem s = 1"
      "keymap s = (if shifted (metastatus s) then us_keymap_upper else us_keymap_lower)"
    by (auto simp: keyboard_ok_def)
  then show ?thesis
    using pipeline_read_from_ok [OF l(2), of 0 "unat n"] s(1)
    by (auto simp: kbd_hal_read_def pipeline_read_def Let_def)
qed

text \<open>A capital letter, a small one, and a break with control.\<close>

lemma keyboard_types_witness:
  "\<exists>s s' s0. bind_fold (\<lambda>s c. keyboard_handler c s) s0 [0x2a, 0x23, 0xa3, 0xaa, 0x17, 0x97, 0x1d, 0x2e] = Some s
    \<and> kbd_hal_read 10 s = Some (s', 4, [0x48, 0x69, 27, 0x63])"
proof -
  let ?keys = "[0x2a, 0x23, 0xa3, 0xaa, 0x17, 0x97, 0x1d, 0x2e] :: u8 list"
  let ?p0 = "\<lparr>p_nbufs = 0, p_buf_size = 0, p_used = 0, p_readers = 0, p_writers = 0, p_sem = 0, p_bufs = []\<rparr>"
  obtain s0 where s0: "keyboard_init ?p0 (\<lambda>_ _. 0) = Some s0" using keyboard_init_ok by blast
  have k: "list_all key_known ?keys" by code_simp
  have c: "key_chars 0 ?keys = [0x48, 0x69, 27, 0x63]" by code_simp
  show ?thesis using keyboard_types [OF s0 k, of 10] unfolding c by (auto simp: Let_def)
qed

end
