(* ===== verification/VGA.thy ===== *)
theory VGA
  imports Interfaces
begin

text \<open>
  \<^verbatim>\<open>kernel/modules/vga/vga.c\<close>: the text console. The memory at \<^verbatim>\<open>0xb8000\<close> is a list of cells, the
  screen is its first \<open>max_x * max_y\<close> ones, and an access outside the list is \<open>None\<close>. The bytes that
  go to the ports of the cursor are kept in the order they are written.
\<close>

section \<open>State and operations\<close>

definition VGA_COLOR_GRAY :: u8 where "VGA_COLOR_GRAY = 7"

record vga_char =
  letter :: u8
  color :: u8

record vga_device =
  vga_buffer :: "vga_char list"
  max_x :: u32
  max_y :: u32
  cur_x :: u32
  cur_y :: u32
  vga_out :: "(u16 \<times> u8) list"

text \<open>A cell by the value of a C \<open>int\<close>.\<close>

definition vga_update :: "u32 \<Rightarrow> (vga_char \<Rightarrow> vga_char) \<Rightarrow> vga_char list \<Rightarrow> vga_char list option" where
  "vga_update i f buffer =
     (if sint i < 0 then None
      else do { c \<leftarrow> read_at buffer (unat i); write_at buffer (unat i) (f c) })"

definition set_cursor :: "u32 \<Rightarrow> u32 \<Rightarrow> vga_device \<Rightarrow> vga_device" where
  "set_cursor x y s =
     (let temp = y * 80 + x in
      s\<lparr>vga_out := vga_out s @ [(0x3d4, 14), (0x3d5, ucast (drop_bit 8 temp)), (0x3d4, 15), (0x3d5, ucast temp)]\<rparr>)"

text \<open>The rows below move up, the one behind the screen included.\<close>

definition vga_scroll :: "vga_device \<Rightarrow> vga_device option" where
  "vga_scroll s =
     (if max_y s \<le> cur_y s
      then do { b \<leftarrow> bind_fold (copy_row (unat (max_x s))) (vga_buffer s) [0..<unat (max_y s)];
                Some (s\<lparr>vga_buffer := b, cur_y := max_y s - 1\<rparr>) }
      else Some s)"

definition vga_wrap :: "vga_device \<Rightarrow> vga_device" where
  "vga_wrap s = (if cur_x s = max_x s then s\<lparr>cur_x := 0, cur_y := cur_y s + 1\<rparr> else s)"

text \<open>The letter at the cursor; the cell behind it gets the colour that the cursor shows in.\<close>

definition vga_put :: "u8 \<Rightarrow> vga_device \<Rightarrow> vga_device option" where
  "vga_put ch s =
     (let i = cur_x s + cur_y s * max_x s in
      do { b1 \<leftarrow> vga_update i (\<lambda>c. \<lparr>letter = ch, color = VGA_COLOR_GRAY\<rparr>) (vga_buffer s);
           b2 \<leftarrow> vga_update (i + 1) (\<lambda>c. c\<lparr>color := VGA_COLOR_GRAY\<rparr>) b1;
           Some (set_cursor (cur_x s + 1) (cur_y s) (s\<lparr>vga_buffer := b2, cur_x := cur_x s + 1\<rparr>)) })"

definition vga_backspace :: "vga_device \<Rightarrow> vga_device option" where
  "vga_backspace s =
     (let x = cur_x s - 1 in
      do { b \<leftarrow> vga_update (x + cur_y s * max_x s) (\<lambda>c. c\<lparr>letter := 0\<rparr>) (vga_buffer s);
           Some (set_cursor x (cur_y s) (s\<lparr>vga_buffer := b, cur_x := x\<rparr>)) })"

text \<open>One round of the loop.\<close>

definition vga_write_char :: "vga_device \<Rightarrow> u8 \<Rightarrow> vga_device option" where
  "vga_write_char s ch =
     (if ch = 10 then Some (s\<lparr>cur_y := cur_y s + 1, cur_x := 0\<rparr>)
      else if ch = 13 then Some (s\<lparr>cur_x := 0\<rparr>)
      else if ch = 8 then vga_backspace s
      else do { s1 \<leftarrow> vga_scroll (vga_wrap s); vga_put ch s1 })"

definition vga_hal_write :: "u8 list \<Rightarrow> vga_device \<Rightarrow> (vga_device \<times> int) option" where
  "vga_hal_write str s = map_option (\<lambda>s'. (s', int (length str))) (bind_fold vga_write_char s str)"

text \<open>The device is on a cleared block; the memory keeps what is behind the screen.\<close>

definition vga_clear :: "vga_char list \<Rightarrow> vga_char list option" where
  "vga_clear mem =
     (if 80 * 25 \<le> length mem then Some (replicate (80 * 25) \<lparr>letter = 32, color = 0\<rparr> @ drop (80 * 25) mem) else None)"

definition vga_teststr :: "u8 list" where
  "vga_teststr = map (of_nat \<circ> of_char) ''Cool, VGA text mode is working.'' @ [10]"

definition vga_init :: "vga_char list \<Rightarrow> vga_device option" where
  "vga_init mem =
     do { b \<leftarrow> vga_clear mem;
          (s, _) \<leftarrow> vga_hal_write vga_teststr
            \<lparr>vga_buffer = b, max_x = 80, max_y = 25, cur_x = 0, cur_y = 0, vga_out = []\<rparr>;
          Some s }"

section \<open>The console and its screen\<close>

text \<open>The console as \<open>init\<close> makes it: 80 columns, 25 rows, and memory for at least one row more. The
  row of the cursor is not bounded, because line feeds do not scroll.\<close>

definition vga_ok :: "vga_device \<Rightarrow> bool" where
  "vga_ok s \<longleftrightarrow> max_x s = 80 \<and> max_y s = 25 \<and> cur_x s \<le> 80 \<and> 2080 \<le> length (vga_buffer s)"

definition vga_letters :: "vga_device \<Rightarrow> u8 list" where
  "vga_letters s = map letter (vga_buffer s)"

text \<open>What the memory shows once the cursor is in a row of the screen again.\<close>

definition scrolled_letters :: "vga_device \<Rightarrow> u8 list" where
  "scrolled_letters s =
     (if cur_y s < 25 then vga_letters s
      else take 2000 (drop 80 (vga_letters s)) @ drop 2000 (vga_letters s))"

lemma vga_scroll_ok:
  assumes "vga_ok s"
  shows "\<exists>s'. vga_scroll s = Some s' \<and> vga_ok s' \<and> cur_x s' = cur_x s \<and> cur_y s' = min (cur_y s) 24
    \<and> vga_letters s' = scrolled_letters s \<and> vga_out s' = vga_out s
    \<and> length (vga_buffer s') = length (vga_buffer s) \<and> drop 2000 (vga_buffer s') = drop 2000 (vga_buffer s)"
proof (cases "cur_y s < 25")
  case True
  then have "min (cur_y s) 24 = cur_y s" by (simp add: word_less_nat_alt word_le_nat_alt min_def)
  moreover have "vga_scroll s = Some s" using True assms by (simp add: vga_scroll_def vga_ok_def)
  ultimately show ?thesis using True assms by (simp add: scrolled_letters_def)
next
  case False
  let ?b = "take 2000 (drop 80 (vga_buffer s)) @ drop 2000 (vga_buffer s)"
  have "bind_fold (copy_row 80) (vga_buffer s) [0..<25] = Some ?b"
    using copy_rows [of 25 25 80 "vga_buffer s"] assms by (simp add: vga_ok_def)
  moreover have "min (cur_y s) 24 = 24" using False by (simp add: word_less_nat_alt word_le_nat_alt min_def)
  moreover have "25 \<le> cur_y s" "min (length (vga_buffer s) - 80) 2000 = 2000"
    using False assms by (auto simp: vga_ok_def not_less)
  ultimately show ?thesis
    using False assms by (simp add: vga_scroll_def vga_ok_def scrolled_letters_def vga_letters_def take_map drop_map)
qed

lemma vga_update_ok:
  "unat i < length b \<Longrightarrow> unat i < 2 ^ 31 \<Longrightarrow> vga_update i f b = Some (b[unat i := f (b ! unat i)])"
  using sint_of_nat_u32 [of "unat i"] by (simp add: vga_update_def)

lemma cell_index:
  assumes "x \<le> 79" "y \<le> 24"
  shows "unat (x + y * 80 :: u32) = unat y * 80 + unat x" "unat (x + y * 80 + 1 :: u32) = unat y * 80 + unat x + 1"
    "unat y * 80 + unat x < 2000"
proof -
  have b: "unat x \<le> 79" "unat y \<le> 24" using assms by (simp_all add: word_le_nat_alt)
  then have "unat (y * 80) = unat y * 80" by (simp add: unat_word_ariths)
  then have 1: "unat (x + y * 80) = unat y * 80 + unat x" using b by (simp add: unat_word_ariths)
  then show "unat (x + y * 80 :: u32) = unat y * 80 + unat x" "unat (x + y * 80 + 1 :: u32) = unat y * 80 + unat x + 1"
    using b by (simp_all add: unat_word_ariths)
  show "unat y * 80 + unat x < 2000" using b by simp
qed

lemma vga_put_ok:
  assumes "vga_ok s" "cur_x s < 80" "cur_y s \<le> 24"
  shows "\<exists>s'. vga_put ch s = Some s' \<and> vga_ok s' \<and> cur_x s' = cur_x s + 1 \<and> cur_y s' = cur_y s
    \<and> vga_letters s' = (vga_letters s)[unat (cur_y s) * 80 + unat (cur_x s) := ch]
    \<and> length (vga_buffer s') = length (vga_buffer s) \<and> drop 2001 (vga_buffer s') = drop 2001 (vga_buffer s)"
proof -
  have x: "cur_x s \<le> 79" using assms(2) by (simp add: word_less_nat_alt word_le_nat_alt)
  note i = cell_index [OF x assms(3)]
  have "cur_x s + 1 \<le> 80" using x by (simp add: word_le_nat_alt unat_word_ariths)
  then show ?thesis
    using assms i by (auto simp: vga_put_def Let_def vga_update_ok vga_ok_def set_cursor_def vga_letters_def map_update
      nth_list_update intro!: nth_equalityI)
qed

text \<open>A byte that is no line feed, carriage return or backspace.\<close>

definition printable :: "u8 \<Rightarrow> bool" where
  "printable ch \<longleftrightarrow> ch \<noteq> 10 \<and> ch \<noteq> 13 \<and> ch \<noteq> 8"

lemma vga_wrap_ok:
  assumes "vga_ok s"
  shows "vga_ok (vga_wrap s)" "cur_x (vga_wrap s) < 80" "vga_buffer (vga_wrap s) = vga_buffer s"
    "cur_x s < 80 \<Longrightarrow> vga_wrap s = s"
  using assms by (auto simp: vga_wrap_def vga_ok_def order_less_le)

lemma vga_write_char_printable:
  assumes "vga_ok s" "printable ch"
  shows "\<exists>s'. vga_write_char s ch = Some s' \<and> vga_ok s' \<and> cur_x s' = cur_x (vga_wrap s) + 1
    \<and> cur_y s' = min (cur_y (vga_wrap s)) 24
    \<and> vga_letters s' = (scrolled_letters (vga_wrap s))[unat (cur_y s') * 80 + unat (cur_x (vga_wrap s)) := ch]
    \<and> length (vga_buffer s') = length (vga_buffer s) \<and> drop 2001 (vga_buffer s') = drop 2001 (vga_buffer s)"
proof -
  obtain s1 where s1: "vga_scroll (vga_wrap s) = Some s1" "vga_ok s1" "cur_x s1 = cur_x (vga_wrap s)"
      "cur_y s1 = min (cur_y (vga_wrap s)) 24" "vga_letters s1 = scrolled_letters (vga_wrap s)"
      "length (vga_buffer s1) = length (vga_buffer s)" "drop 2000 (vga_buffer s1) = drop 2000 (vga_buffer s)"
    using vga_scroll_ok [OF vga_wrap_ok(1) [OF assms(1)]] vga_wrap_ok(3) [OF assms(1)] by auto
  have "cur_x s1 < 80" "cur_y s1 \<le> 24" using s1(3,4) vga_wrap_ok(2) [OF assms(1)] by simp_all
  moreover have "drop 2001 (vga_buffer s1) = drop 2001 (vga_buffer s)"
    using arg_cong [OF s1(7), of "drop 1"] by simp
  ultimately show ?thesis
    using vga_put_ok [OF s1(2), of ch] s1 assms(2) by (auto simp: vga_write_char_def printable_def)
qed

lemma vga_write_char_safe:
  assumes "vga_ok s" "ch \<noteq> 8"
  shows "\<exists>s'. vga_write_char s ch = Some s' \<and> vga_ok s' \<and> length (vga_buffer s') = length (vga_buffer s)
    \<and> drop 2001 (vga_buffer s') = drop 2001 (vga_buffer s)"
proof (cases "printable ch")
  case True
  then show ?thesis using vga_write_char_printable [OF assms(1)] by blast
next
  case False
  then show ?thesis using assms by (auto simp: vga_write_char_def printable_def vga_ok_def)
qed

text \<open>The console as a device: nothing behind the cell after the screen changes.\<close>

definition vga_rest :: "vga_device \<Rightarrow> nat \<times> vga_char list" where
  "vga_rest s = (length (vga_buffer s), drop 2001 (vga_buffer s))"

interpretation vga: observed_device vga_ok "\<lambda>ch. ch \<noteq> 8" vga_write_char vga_rest "\<lambda>_ v. v"
proof unfold_locales
  show "\<exists>s'. vga_write_char s ch = Some s' \<and> vga_ok s'" if "vga_ok s" "ch \<noteq> 8" for s ch
    using vga_write_char_safe [OF that] by blast
  show "vga_rest s' = vga_rest s" if "vga_ok s" "ch \<noteq> 8" "vga_write_char s ch = Some s'" for s ch s'
    using vga_write_char_safe [OF that(1,2)] that(3) by (auto simp: vga_rest_def)
qed

lemma fold_const: "fold (\<lambda>_ v. v) xs v = v"
  by (induction xs) simp_all

lemma no_backspace: "8 \<notin> set str \<longleftrightarrow> list_all (\<lambda>ch. ch \<noteq> 8) str"
  by (auto simp: list_all_iff)

text \<open>The letters of a run of text from the cell \<open>k\<close> on.\<close>

definition overwrite :: "nat \<Rightarrow> 'a list \<Rightarrow> 'a list \<Rightarrow> 'a list" where
  "overwrite k str xs = take k xs @ str @ drop (k + length str) xs"

lemma overwrite_Nil [simp]: "overwrite k [] xs = xs"
  by (simp add: overwrite_def)

lemma overwrite_Cons: "k < length xs \<Longrightarrow> overwrite (Suc k) str (xs[k := c]) = overwrite k (c # str) xs"
  by (simp add: overwrite_def take_Suc_conv_app_nth)

lemma scrolled_in_screen: "cur_y s \<le> 24 \<Longrightarrow> scrolled_letters s = vga_letters s"
  by (simp add: scrolled_letters_def word_less_nat_alt word_le_nat_alt)

lemma vga_prints_row:
  "vga_ok s \<Longrightarrow> list_all printable str \<Longrightarrow> cur_y s \<le> 24 \<Longrightarrow> unat (cur_x s) + length str \<le> 80 \<Longrightarrow>
   \<exists>s'. bind_fold vga_write_char s str = Some s' \<and> vga_ok s' \<and> cur_x s' = cur_x s + of_nat (length str)
     \<and> cur_y s' = cur_y s \<and> vga_letters s' = overwrite (unat (cur_y s) * 80 + unat (cur_x s)) str (vga_letters s)"
proof (induction str arbitrary: s)
  case (Cons ch str)
  have x: "cur_x s < 80" using Cons.prems(4) by (simp add: word_less_nat_alt)
  note w = vga_wrap_ok(4) [OF Cons.prems(1) x]
  obtain s1 where s1: "vga_write_char s ch = Some s1" "vga_ok s1" "cur_x s1 = cur_x s + 1" "cur_y s1 = cur_y s"
      "vga_letters s1 = (vga_letters s)[unat (cur_y s) * 80 + unat (cur_x s) := ch]"
    using vga_write_char_printable [OF Cons.prems(1), of ch] Cons.prems(2,3) scrolled_in_screen [OF Cons.prems(3)]
    by (auto simp: w min_def)
  have x1: "unat (cur_x s1) = Suc (unat (cur_x s))" using s1(3) unat_succ [of "cur_x s" 80] x
    by (simp add: word_less_nat_alt)
  have "unat (cur_y s) * 80 + unat (cur_x s) < length (vga_letters s)"
    using cell_index(3) [of "cur_x s" "cur_y s"] Cons.prems(1,3) x
    by (simp add: vga_ok_def vga_letters_def word_less_nat_alt word_le_nat_alt)
  then show ?case
    using Cons.IH [of s1] Cons.prems s1 x1 by (auto simp: overwrite_Cons ac_simps)
qed simp

section \<open>The console\<close>

text \<open>C11. Whatever is written, line feeds, carriage returns and more text than the screen holds
  included, as long as there is no backspace in it: every access is inside the memory of the screen
  and the row behind it, of which only the first cell changes (its colour), all bytes are taken, and
  the console is well formed again.\<close>

theorem vga_write_in_bounds:
  assumes "vga_ok s" "8 \<notin> set str"
  shows "\<exists>s'. vga_hal_write str s = Some (s', int (length str)) \<and> vga_ok s'
    \<and> length (vga_buffer s') = length (vga_buffer s) \<and> drop 2001 (vga_buffer s') = drop 2001 (vga_buffer s)"
  using vga.run_view [OF assms(1), of str] assms(2)
  by (auto simp: vga_hal_write_def vga_rest_def fold_const no_backspace)

text \<open>C12. A line that is printed from the first column on appears in the row of the cursor, and nothing
  else changes, except that a cursor below the screen first moves the rows up by one, whatever
  its distance to the screen is: several line feeds at the bottom scroll by one row.\<close>

theorem vga_prints_line:
  assumes "vga_ok s" "cur_x s = 0" "list_all printable str" "str \<noteq> []" "length str \<le> 80"
  shows "\<exists>s'. vga_hal_write str s = Some (s', int (length str)) \<and> cur_x s' = of_nat (length str)
    \<and> cur_y s' = min (cur_y s) 24
    \<and> vga_letters s' = overwrite (80 * unat (min (cur_y s) 24)) str (scrolled_letters s)"
proof -
  obtain ch r where str: "str = ch # r" using assms(4) by (cases str) auto
  have w: "vga_wrap s = s" using assms(2) vga_wrap_ok(4) [OF assms(1)] by simp
  obtain s1 where s1: "vga_write_char s ch = Some s1" "vga_ok s1" "cur_x s1 = 1" "cur_y s1 = min (cur_y s) 24"
      "vga_letters s1 = (scrolled_letters s)[unat (cur_y s1) * 80 := ch]" "length (vga_buffer s1) = length (vga_buffer s)"
    using vga_write_char_printable [OF assms(1), of ch] assms(2,3) by (auto simp: w str)
  have len: "length (scrolled_letters s) = length (vga_buffer s1)"
    using arg_cong [OF s1(5), of length] by (simp add: vga_letters_def)
  have "unat (cur_y s1) * 80 < length (scrolled_letters s)"
    using cell_index(3) [of 0 "cur_y s1"] s1(2,4) len by (simp add: vga_ok_def)
  then show ?thesis
    using vga_prints_row [OF s1(2), of r] assms(3,5) s1
    by (auto simp: str vga_hal_write_def overwrite_Cons mult.commute)
qed

text \<open>A console with the cursor below its last row.\<close>

definition bottom_vga :: vga_device where
  "bottom_vga = \<lparr>vga_buffer = replicate 2080 \<lparr>letter = 32, color = 7\<rparr>, max_x = 80, max_y = 25, cur_x = 0, cur_y = 25, vga_out = []\<rparr>"

lemma bottom_vga_ok: "vga_ok bottom_vga" "cur_x bottom_vga = 0" "cur_y bottom_vga = 25"
  by (simp_all add: vga_ok_def bottom_vga_def)

lemma bottom_letters: "scrolled_letters bottom_vga = replicate 2080 32"
  by (simp add: scrolled_letters_def bottom_vga_def vga_letters_def flip: replicate_add)

lemma vga_write_in_bounds_witness:
  "\<exists>s'. vga_hal_write [72, 105, 10, 10, 72] bottom_vga = Some (s', 5) \<and> vga_ok s'"
  using vga_write_in_bounds [OF bottom_vga_ok(1), of "[72, 105, 10, 10, 72]"] by auto

lemma vga_prints_line_witness:
  "\<exists>s'. vga_hal_write [72, 105] bottom_vga = Some (s', 2)
    \<and> vga_letters s' = replicate 1920 32 @ [72, 105] @ replicate 158 32"
proof -
  have s: "list_all printable [72, 105]" "[72, 105 :: u8] \<noteq> []" "length [72, 105 :: u8] \<le> 80"
    by (simp_all add: printable_def)
  have m: "min 25 24 = (24 :: u32)" by (simp add: min_def)
  show ?thesis
    using vga_prints_line [OF bottom_vga_ok(1,2) s] unfolding bottom_letters bottom_vga_ok(3) m
    by (auto simp: overwrite_def)
qed

end
