(* ===== verification/Interrupts.thy ===== *)
theory Interrupts
  imports Prelude
begin

text \<open>
  \<^verbatim>\<open>kernel/base/arch/i586/init_tables.c\<close>, \<^verbatim>\<open>isr.c\<close>, \<^verbatim>\<open>syscalls.c\<close> and \<^verbatim>\<open>kernel/base/syscalls.c\<close>: the
  descriptor tables, the dispatch of interrupts and that of system calls. Functions whose address the
  code stores are values of a datatype; the drivers' handlers are \<open>drv\<close> and the functions behind the
  system calls are \<open>kcall\<close>, both arguments. The stubs in \<^verbatim>\<open>idt.s\<close> have the addresses \<open>isr n\<close> and \<open>irq n\<close>. A
  handler that never returns is \<open>None\<close>.
\<close>

section \<open>Descriptor tables\<close>

record gdt_entry =
  ge_limit_low :: u16
  ge_base_low :: u16
  ge_base_middle :: u8
  ge_access :: u8
  ge_granularity :: u8
  ge_base_high :: u8

record idt_entry =
  ie_base_low :: u16
  ie_sel :: u16
  ie_always0 :: u8
  ie_flags :: u8
  ie_base_high :: u16

record tss_entry =
  ts_prev_tss :: u32
  ts_esp0 :: u32
  ts_ss0 :: u32
  ts_esp1 :: u32
  ts_ss1 :: u32
  ts_esp2 :: u32
  ts_ss2 :: u32
  ts_cr3 :: u32
  ts_eip :: u32
  ts_eflags :: u32
  ts_eax :: u32
  ts_ecx :: u32
  ts_edx :: u32
  ts_ebx :: u32
  ts_esp :: u32
  ts_ebp :: u32
  ts_esi :: u32
  ts_edi :: u32
  ts_es :: u32
  ts_cs :: u32
  ts_ss :: u32
  ts_ds :: u32
  ts_fs :: u32
  ts_gs :: u32
  ts_ldt :: u32
  ts_trap :: u16
  ts_iomap_base :: u16

definition gdt_zero :: gdt_entry where
  "gdt_zero = \<lparr>ge_limit_low = 0, ge_base_low = 0, ge_base_middle = 0, ge_access = 0, ge_granularity = 0, ge_base_high = 0\<rparr>"

definition idt_zero :: idt_entry where
  "idt_zero = \<lparr>ie_base_low = 0, ie_sel = 0, ie_always0 = 0, ie_flags = 0, ie_base_high = 0\<rparr>"

definition tss_zero :: tss_entry where
  "tss_zero = \<lparr>ts_prev_tss = 0, ts_esp0 = 0, ts_ss0 = 0, ts_esp1 = 0, ts_ss1 = 0, ts_esp2 = 0,
     ts_ss2 = 0, ts_cr3 = 0, ts_eip = 0, ts_eflags = 0, ts_eax = 0, ts_ecx = 0, ts_edx = 0,
     ts_ebx = 0, ts_esp = 0, ts_ebp = 0, ts_esi = 0, ts_edi = 0, ts_es = 0, ts_cs = 0,
     ts_ss = 0, ts_ds = 0, ts_fs = 0, ts_gs = 0, ts_ldt = 0, ts_trap = 0, ts_iomap_base = 0\<rparr>"

record registers =
  r_ds :: u32
  r_edi :: u32
  r_esi :: u32
  r_ebp :: u32
  r_esp :: u32
  r_ebx :: u32
  r_edx :: u32
  r_ecx :: u32
  r_eax :: u32
  r_int_no :: u32
  r_err_code :: u32
  r_eip :: u32
  r_cs :: u32
  r_eflags :: u32
  r_useresp :: u32
  r_ss :: u32

datatype isr_fun =
    Zero_division_fault | Invalid_op_fault | Double_fault | Gen_protect_fault | Dump_registers
  | Syscall_handler | Other_isr nat

datatype kernel_call =
    Syscall_test | Syscall_tester | Sysinfo | Exit_process | Waitpid | Sbrk
  | Vfs_open | Vfs_close | Vfs_read | Vfs_write | Vfs_spawn | Vfs_readdir | Vfs_chroot | Vfs_chdir
  | Vfs_lseek | Make_pipes | Vfs_fcntl

text \<open>\<open>mc_rest\<close> is what the other parts of the kernel work on. The null pointers of the tables are
  \<open>None\<close>, and what goes out to ports is kept in order.\<close>

record 'x machine =
  mc_gdt :: "gdt_entry list"
  mc_idt :: "idt_entry list"
  mc_tss :: tss_entry
  mc_handlers :: "isr_fun option list"
  mc_syscalls :: "kernel_call option list"
  mc_out :: "(u16 \<times> u8) list"
  mc_rest :: 'x

definition gdt_gate :: "u32 \<Rightarrow> u32 \<Rightarrow> u8 \<Rightarrow> u8 \<Rightarrow> gdt_entry" where
  "gdt_gate base lim access gran =
     \<lparr>ge_limit_low = ucast (lim AND 0xffff), ge_base_low = ucast (base AND 0xffff),
      ge_base_middle = ucast (drop_bit 16 base AND 0xff), ge_access = access,
      ge_granularity = ucast (drop_bit 16 lim AND 0x0f) OR (gran AND 0xf0),
      ge_base_high = ucast (drop_bit 24 base AND 0xff)\<rparr>"

definition gdt_set_gate :: "nat \<Rightarrow> u32 \<Rightarrow> u32 \<Rightarrow> u8 \<Rightarrow> u8 \<Rightarrow> gdt_entry list \<Rightarrow> gdt_entry list option" where
  "gdt_set_gate num base lim access gran t = write_at t num (gdt_gate base lim access gran)"

definition idt_gate :: "u32 \<Rightarrow> u16 \<Rightarrow> u8 \<Rightarrow> idt_entry" where
  "idt_gate base sel flags =
     \<lparr>ie_base_low = ucast (base AND 0xffff), ie_sel = sel, ie_always0 = 0, ie_flags = flags,
      ie_base_high = ucast (drop_bit 16 base AND 0xffff)\<rparr>"

definition idt_set_gate :: "nat \<Rightarrow> u32 \<Rightarrow> u16 \<Rightarrow> u8 \<Rightarrow> idt_entry list \<Rightarrow> idt_entry list option" where
  "idt_set_gate num base sel flags t = write_at t num (idt_gate base sel flags)"

text \<open>\<open>tss\<close> is the address of the task state segment, which is 104 bytes long.\<close>

definition write_tss :: "u32 \<Rightarrow> nat \<Rightarrow> u16 \<Rightarrow> u32 \<Rightarrow> 'x machine \<Rightarrow> 'x machine option" where
  "write_tss tss num ss0 esp0 s =
     do { g \<leftarrow> gdt_set_gate num tss (tss + 104) 0xe9 0 (mc_gdt s);
          Some (s\<lparr>mc_gdt := g,
                  mc_tss := tss_zero\<lparr>ts_ss0 := ucast ss0, ts_esp0 := esp0, ts_cs := 0x0b, ts_ss := 0x13, ts_ds := 0x13,
                                     ts_es := 0x13, ts_fs := 0x13, ts_gs := 0x13\<rparr>\<rparr>) }"

definition init_gdt :: "u32 \<Rightarrow> 'x machine \<Rightarrow> 'x machine option" where
  "init_gdt tss s =
     do { g \<leftarrow> gdt_set_gate 0 0 0 0 0 (mc_gdt s);
          g \<leftarrow> gdt_set_gate 1 0 0xffffffff 0x9a 0xcf g;
          g \<leftarrow> gdt_set_gate 2 0 0xffffffff 0x92 0xcf g;
          g \<leftarrow> gdt_set_gate 3 0 0xffffffff 0xfa 0xcf g;
          g \<leftarrow> gdt_set_gate 4 0 0xffffffff 0xf2 0xcf g;
          write_tss tss 5 0x10 0 (s\<lparr>mc_gdt := g\<rparr>) }"

definition pic_remap :: "(u16 \<times> u8) list" where
  "pic_remap = [(0x20, 0x11), (0xa0, 0x11), (0x21, 0x20), (0xa1, 0x28), (0x21, 0x04), (0xa1, 0x02), (0x21, 0x01),
     (0xa1, 0x01), (0x21, 0), (0xa1, 0)]"

text \<open>The calls of \<open>idt_set_gate\<close>: number, address and flags. The selector is always that of the kernel.\<close>

definition idt_gates :: "(nat \<Rightarrow> u32) \<Rightarrow> (nat \<Rightarrow> u32) \<Rightarrow> (nat \<times> u32 \<times> u8) list" where
  "idt_gates isr irq =
     map (\<lambda>n. (n, isr n, 0x8e)) [0..<32] @ map (\<lambda>n. (n, irq (n - 32), 0x8e)) [32..<48]
     @ [(0x30, isr 48, 0x8e), (0x50, isr 80, 0x8e OR 0x60)]"

definition init_idt :: "(nat \<Rightarrow> u32) \<Rightarrow> (nat \<Rightarrow> u32) \<Rightarrow> 'x machine \<Rightarrow> 'x machine option" where
  "init_idt isr irq s =
     do { t \<leftarrow> bind_fold (\<lambda>t (n, a, flags). idt_set_gate n a 0x08 flags t) (replicate 256 idt_zero) (idt_gates isr irq);
          Some (s\<lparr>mc_idt := t, mc_out := mc_out s @ pic_remap\<rparr>) }"

section \<open>Handlers\<close>

definition register_interrupt_handler :: "u8 \<Rightarrow> isr_fun \<Rightarrow> 'x machine \<Rightarrow> 'x machine option" where
  "register_interrupt_handler n f s =
     map_option (\<lambda>h. s\<lparr>mc_handlers := h\<rparr>) (write_at (mc_handlers s) (unat n) (Some f))"

definition unregister_interrupt_handler :: "u8 \<Rightarrow> 'x machine \<Rightarrow> 'x machine option" where
  "unregister_interrupt_handler n s =
     map_option (\<lambda>h. s\<lparr>mc_handlers := h\<rparr>) (write_at (mc_handlers s) (unat n) None)"

definition init_tables :: "u32 \<Rightarrow> (nat \<Rightarrow> u32) \<Rightarrow> (nat \<Rightarrow> u32) \<Rightarrow> 'x machine \<Rightarrow> 'x machine option" where
  "init_tables tss isr irq s =
     do { s \<leftarrow> init_gdt tss s;
          s \<leftarrow> init_idt isr irq s;
          s \<leftarrow> Some (s\<lparr>mc_handlers := replicate 256 None\<rparr>);
          s \<leftarrow> register_interrupt_handler 0x0 Zero_division_fault s;
          s \<leftarrow> register_interrupt_handler 0x6 Invalid_op_fault s;
          s \<leftarrow> register_interrupt_handler 0x8 Double_fault s;
          s \<leftarrow> register_interrupt_handler 0xd Gen_protect_fault s;
          register_interrupt_handler 0x30 Dump_registers s }"

definition set_kernel_stack :: "u32 \<Rightarrow> 'x machine \<Rightarrow> 'x machine" where
  "set_kernel_stack stack s = s\<lparr>mc_tss := (mc_tss s)\<lparr>ts_esp0 := stack\<rparr>\<rparr>"

section \<open>System calls\<close>

definition MAX_SYSCALLS :: nat where "MAX_SYSCALLS = 64"

definition register_syscall :: "nat \<Rightarrow> kernel_call \<Rightarrow> 'x machine \<Rightarrow> 'x machine option" where
  "register_syscall n f s =
     (if n < MAX_SYSCALLS then map_option (\<lambda>t. s\<lparr>mc_syscalls := t\<rparr>) (write_at (mc_syscalls s) n (Some f)) else Some s)"

type_synonym 'x kcall = "kernel_call \<Rightarrow> u32 list \<Rightarrow> 'x machine \<Rightarrow> ('x machine \<times> u32) option"
type_synonym 'x isr_drv = "nat \<Rightarrow> registers \<Rightarrow> 'x machine \<Rightarrow> ('x machine \<times> registers) option"

text \<open>The registers are pushed from the last argument to the first.\<close>

definition syscall_handler :: "'x kcall \<Rightarrow> registers \<Rightarrow> 'x machine \<Rightarrow> ('x machine \<times> registers) option" where
  "syscall_handler kcall regs s =
     (if MAX_SYSCALLS \<le> unat (r_eax regs) then Some (s, regs)
      else do {
        location \<leftarrow> read_at (mc_syscalls s) (unat (r_eax regs));
        (case location of
           None \<Rightarrow> Some (s, regs)
         | Some f \<Rightarrow>
             do { (s', ret) \<leftarrow> kcall f [r_ebx regs, r_ecx regs, r_edx regs, r_esi regs, r_edi regs] s;
                  Some (s', regs\<lparr>r_eax := ret\<rparr>) })
      })"

text \<open>The faults dump the registers and then stop the machine.\<close>

definition run_isr :: "'x kcall \<Rightarrow> 'x isr_drv \<Rightarrow> isr_fun \<Rightarrow> registers \<Rightarrow> 'x machine \<Rightarrow> ('x machine \<times> registers) option" where
  "run_isr kcall drv f regs s =
     (case f of
        Zero_division_fault \<Rightarrow> None
      | Invalid_op_fault \<Rightarrow> None
      | Double_fault \<Rightarrow> None
      | Gen_protect_fault \<Rightarrow> None
      | Dump_registers \<Rightarrow> Some (s, regs)
      | Syscall_handler \<Rightarrow> syscall_handler kcall regs s
      | Other_isr k \<Rightarrow> drv k regs s)"

definition isr_handler :: "'x kcall \<Rightarrow> 'x isr_drv \<Rightarrow> registers \<Rightarrow> 'x machine \<Rightarrow> ('x machine \<times> registers) option" where
  "isr_handler kcall drv regs s =
     do { h \<leftarrow> read_at (mc_handlers s) (unat (r_int_no regs));
          f \<leftarrow> h;
          run_isr kcall drv f regs s }"

definition irq_handler :: "'x kcall \<Rightarrow> 'x isr_drv \<Rightarrow> registers \<Rightarrow> 'x machine \<Rightarrow> ('x machine \<times> registers) option" where
  "irq_handler kcall drv regs s =
     (let s1 = s\<lparr>mc_out := mc_out s @ (if 40 \<le> r_int_no regs then [(0xa0, 0x20)] else []) @ [(0x20, 0x20)]\<rparr> in
      do { h \<leftarrow> read_at (mc_handlers s1) (unat (r_int_no regs));
           (case h of None \<Rightarrow> Some (s1, regs) | Some f \<Rightarrow> run_isr kcall drv f regs s1) })"

text \<open>The numbers of the calls, in the order of the enumeration, and where each is registered.\<close>

datatype syscall_num =
    SYSCALL_TEST | SYSCALL_EXIT | SYSCALL_OPEN | SYSCALL_CLOSE | SYSCALL_READ | SYSCALL_WRITE | SYSCALL_SPAWN
  | SYSCALL_READDIR | SYSCALL_WAITPID | SYSCALL_SBRK | SYSCALL_CHROOT | SYSCALL_CHDIR | SYSCALL_SYSINFO
  | SYSCALL_LSEEK | SYSCALL_PIPE | SYSCALL_FCNTL

fun syscall_t :: "syscall_num \<Rightarrow> nat" where
  "syscall_t SYSCALL_TEST = 0" | "syscall_t SYSCALL_EXIT = 1" | "syscall_t SYSCALL_OPEN = 2" | "syscall_t SYSCALL_CLOSE = 3"
| "syscall_t SYSCALL_READ = 4" | "syscall_t SYSCALL_WRITE = 5" | "syscall_t SYSCALL_SPAWN = 6"
| "syscall_t SYSCALL_READDIR = 7" | "syscall_t SYSCALL_WAITPID = 8" | "syscall_t SYSCALL_SBRK = 9"
| "syscall_t SYSCALL_CHROOT = 10" | "syscall_t SYSCALL_CHDIR = 11" | "syscall_t SYSCALL_SYSINFO = 12"
| "syscall_t SYSCALL_LSEEK = 13" | "syscall_t SYSCALL_PIPE = 14" | "syscall_t SYSCALL_FCNTL = 15"

lemma syscall_t_inj [simp]: "syscall_t m = syscall_t n \<longleftrightarrow> m = n"
  by (cases m; cases n) simp_all

text \<open>The numbers are ordered as the enumeration is.\<close>

instantiation syscall_num :: linorder
begin

definition less_eq_syscall_num :: "syscall_num \<Rightarrow> syscall_num \<Rightarrow> bool" where
  "less_eq_syscall_num m n \<longleftrightarrow> syscall_t m \<le> syscall_t n"

definition less_syscall_num :: "syscall_num \<Rightarrow> syscall_num \<Rightarrow> bool" where
  "less_syscall_num m n \<longleftrightarrow> syscall_t m < syscall_t n"

instance
  by standard (auto simp: less_eq_syscall_num_def less_syscall_num_def)

end

definition register_all :: "(syscall_num \<times> kernel_call) list \<Rightarrow> 'x machine \<Rightarrow> 'x machine option" where
  "register_all cs s = bind_fold (\<lambda>s (n, f). register_syscall (syscall_t n) f s) s cs"

definition base_calls :: "(syscall_num \<times> kernel_call) list" where
  "base_calls = [(SYSCALL_TEST, Syscall_tester), (SYSCALL_SYSINFO, Sysinfo)]"

definition init_syscalls :: "'x machine \<Rightarrow> 'x machine option" where
  "init_syscalls s =
     do { s' \<leftarrow> register_interrupt_handler 0x50 Syscall_handler s;
          register_all base_calls s' }"

definition task_calls :: "(syscall_num \<times> kernel_call) list" where
  "task_calls = [(SYSCALL_EXIT, Exit_process), (SYSCALL_WAITPID, Waitpid), (SYSCALL_SBRK, Sbrk)]"

definition task_syscalls :: "'x machine \<Rightarrow> 'x machine option" where
  "task_syscalls = register_all task_calls"

definition vfs_calls :: "(syscall_num \<times> kernel_call) list" where
  "vfs_calls = [(SYSCALL_OPEN, Vfs_open), (SYSCALL_CLOSE, Vfs_close), (SYSCALL_READ, Vfs_read),
     (SYSCALL_WRITE, Vfs_write), (SYSCALL_SPAWN, Vfs_spawn), (SYSCALL_READDIR, Vfs_readdir), (SYSCALL_CHROOT, Vfs_chroot),
     (SYSCALL_CHDIR, Vfs_chdir), (SYSCALL_LSEEK, Vfs_lseek), (SYSCALL_PIPE, Make_pipes), (SYSCALL_FCNTL, Vfs_fcntl)]"

definition vfs_register_syscalls :: "'x machine \<Rightarrow> 'x machine option" where
  "vfs_register_syscalls = register_all vfs_calls"

lemmas boot_calls [simp] = base_calls_def task_calls_def vfs_calls_def

text \<open>The stub of a user program: the number and up to four arguments in registers, and the result in
  the first one. A register that the call does not use keeps what it held.\<close>

definition syscall_regs :: "syscall_num \<Rightarrow> u32 list \<Rightarrow> registers \<Rightarrow> registers" where
  "syscall_regs n args r =
     (let r0 = r\<lparr>r_eax := of_nat (syscall_t n), r_int_no := 0x50\<rparr> in
      (case args of
         [a] \<Rightarrow> r0\<lparr>r_ebx := a\<rparr>
       | [a, b] \<Rightarrow> r0\<lparr>r_ebx := a, r_ecx := b\<rparr>
       | [a, b, c] \<Rightarrow> r0\<lparr>r_ebx := a, r_ecx := b, r_edx := c\<rparr>
       | [a, b, c, d] \<Rightarrow> r0\<lparr>r_ebx := a, r_ecx := b, r_edx := c, r_esi := d\<rparr>
       | _ \<Rightarrow> r0))"

definition syscall :: "'x kcall \<Rightarrow> 'x isr_drv \<Rightarrow> syscall_num \<Rightarrow> u32 list \<Rightarrow> registers \<Rightarrow> 'x machine \<Rightarrow> ('x machine \<times> u32) option" where
  "syscall kcall drv n args r s =
     map_option (\<lambda>(s', r'). (s', r_eax r')) (isr_handler kcall drv (syscall_regs n args r) s)"

definition syscall_table :: "kernel_call option list" where
  "syscall_table = Some Syscall_test # replicate 63 None"

text \<open>The order in which \<open>arch_init\<close> and \<open>kmain\<close> fill the tables.\<close>

definition boot_tables :: "u32 \<Rightarrow> (nat \<Rightarrow> u32) \<Rightarrow> (nat \<Rightarrow> u32) \<Rightarrow> 'x machine \<Rightarrow> 'x machine option" where
  "boot_tables tss isr irq s =
     do { s \<leftarrow> init_tables tss isr irq s;
          s \<leftarrow> init_syscalls s;
          s \<leftarrow> task_syscalls s;
          vfs_register_syscalls s }"

text \<open>Every number of the enumeration is registered at the boot, and none twice.\<close>

lemma registered_once:
  "sort (map fst (base_calls @ task_calls @ vfs_calls))
   = [SYSCALL_TEST, SYSCALL_EXIT, SYSCALL_OPEN, SYSCALL_CLOSE, SYSCALL_READ, SYSCALL_WRITE, SYSCALL_SPAWN,
      SYSCALL_READDIR, SYSCALL_WAITPID, SYSCALL_SBRK, SYSCALL_CHROOT, SYSCALL_CHDIR, SYSCALL_SYSINFO,
      SYSCALL_LSEEK, SYSCALL_PIPE, SYSCALL_FCNTL]"
  by (simp add: less_eq_syscall_num_def)

lemma registered_numbers: "n \<in> set (map fst (base_calls @ task_calls @ vfs_calls))"
  by (cases n) simp_all

section \<open>What the processor reads from the tables\<close>

definition gdt_base :: "gdt_entry \<Rightarrow> u32" where
  "gdt_base e = ucast (ge_base_low e) OR push_bit 16 (ucast (ge_base_middle e)) OR push_bit 24 (ucast (ge_base_high e))"

definition gdt_limit :: "gdt_entry \<Rightarrow> u32" where
  "gdt_limit e = ucast (ge_limit_low e) OR push_bit 16 (ucast (ge_granularity e AND 0x0f))"

definition idt_addr :: "idt_entry \<Rightarrow> u32" where
  "idt_addr e = ucast (ie_base_low e) OR push_bit 16 (ucast (ie_base_high e))"

lemma mask_nums: "(0xffff :: 'a::len word) = mask 16" "(0xff :: 'a::len word) = mask 8" "(0x0f :: 'a::len word) = mask 4"
  by (simp_all add: mask_eq_exp_minus_1)

lemma idt_addr_gate: "idt_addr (idt_gate base sel flags) = base"
  unfolding idt_addr_def idt_gate_def idt_entry.simps mask_nums
  by (rule bit_word_eqI) (auto simp: bit_simps)

lemma gdt_base_gate: "gdt_base (gdt_gate base lim access gran) = base"
  unfolding gdt_base_def gdt_gate_def gdt_entry.simps mask_nums
proof (rule bit_word_eqI)
  fix n assume "n < LENGTH(32)"
  moreover have "24 \<le> n \<Longrightarrow> 24 + (n - 24) = n" by simp
  moreover have "n < 24 \<Longrightarrow> n - 16 < 8" "16 \<le> n \<Longrightarrow> 16 + (n - 16) = n" by simp_all
  ultimately show "bit (ucast (ucast (base AND mask 16) :: u16) OR push_bit 16 (ucast (ucast (drop_bit 16 base AND mask 8) :: u8))
      OR push_bit 24 (ucast (ucast (drop_bit 24 base AND mask 8) :: u8)) :: u32) n = bit base n"
    by (cases "n < 24"; cases "n < 16") (auto simp: bit_simps)
qed

lemma gdt_limit_gate: "gdt_limit (gdt_gate base lim access gran) = lim AND mask 20"
proof -
  have g: "(ucast (drop_bit 16 lim AND mask 4) OR (gran AND 0xf0)) AND mask 4 = (ucast (drop_bit 16 lim AND mask 4) :: u8)"
  proof -
    have "(0xf0 :: u8) AND mask 4 = 0" by (simp add: mask_eq_exp_minus_1)
    then have "(gran AND 0xf0) AND mask 4 = 0" by (metis and.assoc and_zero_eq)
    moreover have "ucast (drop_bit 16 lim AND mask 4) AND mask 4 = (ucast (drop_bit 16 lim AND mask 4) :: u8)"
      by (rule bit_word_eqI) (auto simp: bit_simps)
    ultimately show ?thesis by (simp add: bit.conj_disj_distrib2)
  qed
  show ?thesis
    unfolding gdt_limit_def gdt_gate_def gdt_entry.simps mask_nums g
    by (rule bit_word_eqI) (auto simp: bit_simps)
qed

section \<open>The gates\<close>

lemma set_gates:
  "distinct (map fst gs) \<Longrightarrow> \<forall>n \<in> fst ` set gs. n < length t \<Longrightarrow>
   \<exists>t'. bind_fold (\<lambda>t (n, a, flags). idt_set_gate n a sel flags t) t gs = Some t' \<and> length t' = length t
     \<and> (\<forall>(n, a, flags) \<in> set gs. t' ! n = idt_gate a sel flags) \<and> (\<forall>n. n \<notin> fst ` set gs \<longrightarrow> t' ! n = t ! n)"
proof (induction gs arbitrary: t)
  case (Cons g gs)
  obtain n a flags where g: "g = (n, a, flags)" by (cases g)
  obtain t' where t': "bind_fold (\<lambda>t (n, a, flags). idt_set_gate n a sel flags t) (t[n := idt_gate a sel flags]) gs = Some t'"
      "length t' = length t" "\<forall>(n, a, flags) \<in> set gs. t' ! n = idt_gate a sel flags"
      "\<forall>k. k \<notin> fst ` set gs \<longrightarrow> t' ! k = t[n := idt_gate a sel flags] ! k"
    using Cons.IH [of "t[n := idt_gate a sel flags]"] Cons.prems by auto
  have n: "n < length t" "n \<notin> fst ` set gs" using Cons.prems by (simp_all add: g)
  then have "t' ! n = idt_gate a sel flags" using t'(4) by simp
  then show ?case using t' n by (auto simp: g idt_set_gate_def)
qed simp

lemma gates_map:
  "(n, a, flags) \<in> set (map (\<lambda>n. (n, f n, c)) [i..<j]) \<longleftrightarrow> i \<le> n \<and> n < j \<and> a = f n \<and> flags = c"
  "map fst (map (\<lambda>n. (n, f n, c)) [i..<j]) = [i..<j]"
  by (auto simp: comp_def)

lemma idt_gates_set:
  "(n, a, flags) \<in> set (idt_gates isr irq) \<longleftrightarrow>
     (n < 32 \<and> a = isr n \<or> 32 \<le> n \<and> n < 48 \<and> a = irq (n - 32) \<or> n = 48 \<and> a = isr 48) \<and> flags = 0x8e
     \<or> n = 80 \<and> a = isr 80 \<and> flags = 0xee"
proof -
  have "(0x8e OR 0x60 :: u8) = 0xee" by simp
  then show ?thesis unfolding idt_gates_def set_append Un_iff gates_map by (simp only: list.set insert_iff empty_iff prod.inject) blast
qed

lemma idt_gates_fst: "map fst (idt_gates isr irq) = [0..<32] @ [32..<48] @ [48, 80]"
  unfolding idt_gates_def map_append gates_map by simp

lemma init_idt_ok:
  "\<exists>t. init_idt isr irq s = Some (s\<lparr>mc_idt := t, mc_out := mc_out s @ pic_remap\<rparr>) \<and> length t = 256
     \<and> (\<forall>n < 256. t ! n = (if n < 32 then idt_gate (isr n) 8 0x8e else if n < 48 then idt_gate (irq (n - 32)) 8 0x8e
          else if n = 48 then idt_gate (isr 48) 8 0x8e else if n = 80 then idt_gate (isr 80) 8 0xee else idt_zero))"
proof -
  have f: "fst ` set (idt_gates isr irq) = {0..<32} \<union> {32..<48} \<union> {48, 80}"
    using arg_cong [OF idt_gates_fst [of isr irq], of set] by (simp only: set_map set_append atLeastLessThan_upt list.set Un_assoc)
  have d: "distinct (map fst (idt_gates isr irq))" by (simp add: idt_gates_fst)
  have l: "\<forall>n \<in> fst ` set (idt_gates isr irq). n < length (replicate 256 idt_zero)" unfolding f by auto
  obtain t where t: "bind_fold (\<lambda>t (n, a, flags). idt_set_gate n a 8 flags t) (replicate 256 idt_zero) (idt_gates isr irq) = Some t"
      "length t = 256" "\<forall>(n, a, flags) \<in> set (idt_gates isr irq). t ! n = idt_gate a 8 flags"
      "\<forall>n. n \<notin> fst ` set (idt_gates isr irq) \<longrightarrow> t ! n = replicate 256 idt_zero ! n"
    using set_gates [OF d l, of 8] by (simp only: length_replicate) blast
  then have g: "(n, a, flags) \<in> set (idt_gates isr irq) \<Longrightarrow> t ! n = idt_gate a 8 flags" for n a flags by blast
  have "t ! n = (if n < 32 then idt_gate (isr n) 8 0x8e else if n < 48 then idt_gate (irq (n - 32)) 8 0x8e
          else if n = 48 then idt_gate (isr 48) 8 0x8e else if n = 80 then idt_gate (isr 80) 8 0xee else idt_zero)"
    if "n < 256" for n
    using g [of n] t(4) that unfolding f idt_gates_set by auto
  then show ?thesis using t(1,2) by (auto simp: init_idt_def)
qed

text \<open>The tables after \<open>init_gdt\<close>: the entry of the task state segment depends on its address.\<close>

definition gdt_flat :: "u32 \<Rightarrow> gdt_entry list" where
  "gdt_flat tss = [gdt_gate 0 0 0 0, gdt_gate 0 0xffffffff 0x9a 0xcf, gdt_gate 0 0xffffffff 0x92 0xcf,
     gdt_gate 0 0xffffffff 0xfa 0xcf, gdt_gate 0 0xffffffff 0xf2 0xcf, gdt_gate tss (tss + 104) 0xe9 0]"

lemma length_six: "length xs = 6 \<Longrightarrow> \<exists>a b c d e f. xs = [a, b, c, d, e, f]"
  by (auto simp: eval_nat_numeral length_Suc_conv)

lemma init_gdt_ok:
  assumes "length (mc_gdt s) = 6"
  shows "\<exists>t. init_gdt tss s = Some (s\<lparr>mc_gdt := gdt_flat tss, mc_tss := t\<rparr>)"
  using length_six [OF assms] by (auto simp: init_gdt_def gdt_set_gate_def write_tss_def gdt_flat_def write_at_def)

definition boot_handlers :: "isr_fun option list" where
  "boot_handlers = (replicate 256 None)[0 := Some Zero_division_fault, 6 := Some Invalid_op_fault, 8 := Some Double_fault,
     0xd := Some Gen_protect_fault, 0x30 := Some Dump_registers]"

lemma init_tables_ok:
  assumes "length (mc_gdt s) = 6"
  shows "\<exists>t u. init_tables tss isr irq s
      = Some (s\<lparr>mc_gdt := gdt_flat tss, mc_tss := u, mc_idt := t, mc_out := mc_out s @ pic_remap, mc_handlers := boot_handlers\<rparr>)
    \<and> length t = 256
    \<and> (\<forall>n < 256. t ! n = (if n < 32 then idt_gate (isr n) 8 0x8e else if n < 48 then idt_gate (irq (n - 32)) 8 0x8e
          else if n = 48 then idt_gate (isr 48) 8 0x8e else if n = 80 then idt_gate (isr 80) 8 0xee else idt_zero))"
proof -
  obtain u where u: "init_gdt tss s = Some (s\<lparr>mc_gdt := gdt_flat tss, mc_tss := u\<rparr>)"
    using init_gdt_ok [OF assms] by blast
  obtain t where t: "init_idt isr irq (s\<lparr>mc_gdt := gdt_flat tss, mc_tss := u\<rparr>)
      = Some (s\<lparr>mc_gdt := gdt_flat tss, mc_tss := u, mc_idt := t, mc_out := mc_out s @ pic_remap\<rparr>)"
      "length t = 256"
      "\<forall>n < 256. t ! n = (if n < 32 then idt_gate (isr n) 8 0x8e else if n < 48 then idt_gate (irq (n - 32)) 8 0x8e
          else if n = 48 then idt_gate (isr 48) 8 0x8e else if n = 80 then idt_gate (isr 80) 8 0xee else idt_zero)"
    using init_idt_ok [of isr irq "s\<lparr>mc_gdt := gdt_flat tss, mc_tss := u\<rparr>"] by auto
  have "init_tables tss isr irq s
      = Some (s\<lparr>mc_gdt := gdt_flat tss, mc_tss := u, mc_idt := t, mc_out := mc_out s @ pic_remap, mc_handlers := boot_handlers\<rparr>)"
    by (simp add: init_tables_def u t(1) register_interrupt_handler_def boot_handlers_def)
  then show ?thesis using t(2,3) by blast
qed

section \<open>System calls\<close>

text \<open>What each number means.\<close>

fun syscall_target :: "syscall_num \<Rightarrow> kernel_call" where
  "syscall_target SYSCALL_TEST = Syscall_tester" | "syscall_target SYSCALL_EXIT = Exit_process"
| "syscall_target SYSCALL_OPEN = Vfs_open" | "syscall_target SYSCALL_CLOSE = Vfs_close"
| "syscall_target SYSCALL_READ = Vfs_read" | "syscall_target SYSCALL_WRITE = Vfs_write"
| "syscall_target SYSCALL_SPAWN = Vfs_spawn" | "syscall_target SYSCALL_READDIR = Vfs_readdir"
| "syscall_target SYSCALL_WAITPID = Waitpid" | "syscall_target SYSCALL_SBRK = Sbrk"
| "syscall_target SYSCALL_CHROOT = Vfs_chroot" | "syscall_target SYSCALL_CHDIR = Vfs_chdir"
| "syscall_target SYSCALL_SYSINFO = Sysinfo" | "syscall_target SYSCALL_LSEEK = Vfs_lseek"
| "syscall_target SYSCALL_PIPE = Make_pipes" | "syscall_target SYSCALL_FCNTL = Vfs_fcntl"

lemma register_syscall_ok:
  "length (mc_syscalls s) = 64 \<Longrightarrow> register_syscall (syscall_t n) f s = Some (s\<lparr>mc_syscalls := (mc_syscalls s)[syscall_t n := Some f]\<rparr>)"
  by (cases n) (simp_all add: register_syscall_def MAX_SYSCALLS_def)

lemma syscall_t_less: "syscall_t n < 16"
  by (cases n) simp_all

lemma register_all_ok:
  "length (mc_syscalls s) = 64 \<Longrightarrow>
   \<exists>t. register_all cs s = Some (s\<lparr>mc_syscalls := t\<rparr>) \<and> length t = 64
     \<and> (\<forall>n. t ! syscall_t n = (case map_of (rev cs) n of Some f \<Rightarrow> Some f | None \<Rightarrow> mc_syscalls s ! syscall_t n))"
proof (induction cs arbitrary: s)
  case Nil
  then show ?case by (intro exI [of _ "mc_syscalls s"]) (simp add: register_all_def)
next
  case (Cons c cs)
  obtain k f where c: "c = (k, f)" by (cases c)
  let ?s = "s\<lparr>mc_syscalls := (mc_syscalls s)[syscall_t k := Some f]\<rparr>"
  obtain t where t: "register_all cs ?s = Some (?s\<lparr>mc_syscalls := t\<rparr>)" "length t = 64"
     "\<And>n. t ! syscall_t n = (case map_of (rev cs) n of Some f \<Rightarrow> Some f | None \<Rightarrow> mc_syscalls ?s ! syscall_t n)"
    using Cons.IH [of ?s] Cons.prems by auto
  have k: "syscall_t k < length (mc_syscalls s)" using syscall_t_less [of k] Cons.prems by simp
  have "t ! syscall_t n = (case map_of (rev (c # cs)) n of Some f \<Rightarrow> Some f | None \<Rightarrow> mc_syscalls s ! syscall_t n)" for n
    using k by (cases "map_of (rev cs) n") (auto simp: t(3) c nth_list_update syscall_t_inj map_add_def)
  moreover have "register_all (c # cs) s = Some (s\<lparr>mc_syscalls := t\<rparr>)"
    using t(1) register_syscall_ok [OF Cons.prems, of k f] by (simp add: register_all_def c)
  ultimately show ?case using t(2) by blast
qed

lemma register_all_append: "register_all (xs @ ys) s = do { s' \<leftarrow> register_all xs s; register_all ys s' }"
  by (simp add: register_all_def bind_fold_append)

lemma boot_tables_ok:
  assumes "length (mc_gdt s) = 6" "length (mc_syscalls s) = 64"
  shows "\<exists>s'. boot_tables tss isr irq s = Some s' \<and> mc_gdt s' = gdt_flat tss \<and> length (mc_syscalls s') = 64
    \<and> (\<forall>n. mc_syscalls s' ! syscall_t n = Some (syscall_target n))
    \<and> mc_handlers s' = boot_handlers[0x50 := Some Syscall_handler]
    \<and> length (mc_idt s') = 256
    \<and> (\<forall>n < 256. mc_idt s' ! n = (if n < 32 then idt_gate (isr n) 8 0x8e else if n < 48 then idt_gate (irq (n - 32)) 8 0x8e
          else if n = 48 then idt_gate (isr 48) 8 0x8e else if n = 80 then idt_gate (isr 80) 8 0xee else idt_zero))"
proof -
  let ?P = "\<lambda>t. length t = 256 \<and> (\<forall>n < 256. t ! n = (if n < 32 then idt_gate (isr n) 8 0x8e
      else if n < 48 then idt_gate (irq (n - 32)) 8 0x8e
      else if n = 48 then idt_gate (isr 48) 8 0x8e else if n = 80 then idt_gate (isr 80) 8 0xee else idt_zero))"
  obtain t u where 1: "init_tables tss isr irq s
      = Some (s\<lparr>mc_gdt := gdt_flat tss, mc_tss := u, mc_idt := t, mc_out := mc_out s @ pic_remap, mc_handlers := boot_handlers\<rparr>)"
    and P: "?P t"
    using init_tables_ok [OF assms(1), of tss isr irq] by blast
  let ?s1 = "s\<lparr>mc_gdt := gdt_flat tss, mc_tss := u, mc_idt := t, mc_out := mc_out s @ pic_remap,
    mc_handlers := boot_handlers[0x50 := Some Syscall_handler]\<rparr>"
  have h: "length boot_handlers = 256" by (simp add: boot_handlers_def)
  obtain t' where t': "register_all (base_calls @ task_calls @ vfs_calls) ?s1 = Some (?s1\<lparr>mc_syscalls := t'\<rparr>)" "length t' = 64"
      "\<And>n. t' ! syscall_t n = (case map_of (rev (base_calls @ task_calls @ vfs_calls)) n of Some f \<Rightarrow> Some f | None \<Rightarrow> mc_syscalls ?s1 ! syscall_t n)"
    using register_all_ok [of ?s1 "base_calls @ task_calls @ vfs_calls"] assms(2) by auto
  have all: "t' ! syscall_t n = Some (syscall_target n)" for n
    unfolding t'(3) by (cases n) simp_all
  have "boot_tables tss isr irq s = register_all (base_calls @ task_calls @ vfs_calls) ?s1"
    unfolding register_all_append
    by (simp add: boot_tables_def 1 init_syscalls_def task_syscalls_def vfs_register_syscalls_def
      register_interrupt_handler_def h)
  then show ?thesis using t'(1,2) all P by simp
qed


text \<open>C15. A system call of a user program reaches the function of its number with its arguments in order,
  followed by what is in the other registers, and the program gets its result.\<close>

theorem syscall_reaches_kernel:
  assumes "boot_tables tss isr irq s = Some s'" "length (mc_gdt s) = 6" "length (mc_syscalls s) = 64" "length args \<le> 4"
  shows "syscall kcall drv n args r s'
    = kcall (syscall_target n) (args @ drop (length args) [r_ebx r, r_ecx r, r_edx r, r_esi r, r_edi r]) s'"
proof -
  have b: "length (mc_syscalls s') = 64" "mc_syscalls s' ! syscall_t n = Some (syscall_target n)"
      "mc_handlers s' = boot_handlers[0x50 := Some Syscall_handler]"
    using boot_tables_ok [OF assms(2,3), of tss isr irq] assms(1) by auto
  let ?r = "syscall_regs n args r"
  have l: "length args = 0 \<or> length args = 1 \<or> length args = 2 \<or> length args = 3 \<or> length args = 4" using assms(4) by linarith
  have r: "r_int_no ?r = 0x50" "r_eax ?r = of_nat (syscall_t n)"
      "[r_ebx ?r, r_ecx ?r, r_edx ?r, r_esi ?r, r_edi ?r] = args @ drop (length args) [r_ebx r, r_ecx r, r_edx r, r_esi r, r_edi r]"
    using l by (auto simp: syscall_regs_def Let_def eval_nat_numeral length_Suc_conv)
  have h: "isr_handler kcall drv ?r s' = syscall_handler kcall ?r s'"
    by (simp add: isr_handler_def r(1) b(3) boot_handlers_def run_isr_def)
  have e: "unat (r_eax ?r) = syscall_t n" using syscall_t_less [of n] by (simp add: r(2) unat_of_nat_small)
  have t: "read_at (mc_syscalls s') (syscall_t n) = Some (Some (syscall_target n))" "\<not> MAX_SYSCALLS \<le> syscall_t n"
    using b(1,2) syscall_t_less [of n] by (simp_all add: MAX_SYSCALLS_def)
  show ?thesis
    by (cases "kcall (syscall_target n) (args @ drop (length args) [r_ebx r, r_ecx r, r_edx r, r_esi r, r_edi r]) s'")
      (auto simp: syscall_def h syscall_handler_def e t r(3))
qed

definition reset_machine :: "unit machine" where
  "reset_machine = \<lparr>mc_gdt = replicate 6 gdt_zero, mc_idt = [], mc_tss = tss_zero, mc_handlers = [], mc_syscalls = syscall_table,
     mc_out = [], mc_rest = ()\<rparr>"

lemma reset_machine_tables: "length (mc_gdt reset_machine) = 6" "length (mc_syscalls reset_machine) = 64"
  by (simp_all add: reset_machine_def syscall_table_def)


lemma syscall_reaches_kernel_witness:
  "\<exists>s'. boot_tables 0 (\<lambda>n. 0) (\<lambda>n. 0) reset_machine = Some s'
    \<and> syscall (\<lambda>f args s. if f = Vfs_read then Some (s, sum_list args) else None) (\<lambda>k r s. None) SYSCALL_READ [3, 0x1000, 16]
        \<lparr>r_ds = 0, r_edi = 5, r_esi = 0, r_ebp = 0, r_esp = 0, r_ebx = 0, r_edx = 0, r_ecx = 0, r_eax = 0,
         r_int_no = 0, r_err_code = 0, r_eip = 0, r_cs = 0, r_eflags = 0, r_useresp = 0, r_ss = 0\<rparr> s' = Some (s', 0x1018)"
proof -
  obtain s' where s': "boot_tables 0 (\<lambda>n. 0) (\<lambda>n. 0) reset_machine = Some s'"
    using boot_tables_ok [OF reset_machine_tables] by blast
  have "length [3, 0x1000, 16 :: u32] \<le> 4" by simp
  then show ?thesis using s' by (auto simp: syscall_reaches_kernel [OF s' reset_machine_tables])
qed

end
