(* ===== verification/PCI.thy ===== *)
theory PCI
  imports Prelude
begin

text \<open>
  \<^verbatim>\<open>kernel/modules/pci/pci.c\<close>: access to the configuration space and the list of devices. Ports are
  the argument \<open>io\<close>, functions on the state \<open>'h\<close> of the hardware. The last part shows that the scan
  lists the devices that answer, for hardware that reads the configuration space as it is documented.
\<close>

section \<open>Ports\<close>

record 'h ports =
  io_inb :: "u16 \<Rightarrow> 'h \<Rightarrow> u8 \<times> 'h"
  io_outb :: "u16 \<Rightarrow> u8 \<Rightarrow> 'h \<Rightarrow> 'h"
  io_inw :: "u16 \<Rightarrow> 'h \<Rightarrow> u16 \<times> 'h"
  io_outw :: "u16 \<Rightarrow> u16 \<Rightarrow> 'h \<Rightarrow> 'h"
  io_inl :: "u16 \<Rightarrow> 'h \<Rightarrow> u32 \<times> 'h"
  io_outl :: "u16 \<Rightarrow> u32 \<Rightarrow> 'h \<Rightarrow> 'h"

definition PCI_CONFIG_ADDRESS :: u16 where "PCI_CONFIG_ADDRESS = 0xcf8"
definition PCI_CONFIG_DATA :: u16 where "PCI_CONFIG_DATA = 0xcfc"
definition PCI_CONFIG_SUBCLASS :: u8 where "PCI_CONFIG_SUBCLASS = 0xa"
definition PCI_CONFIG_CLASS :: u8 where "PCI_CONFIG_CLASS = 0xb"

section \<open>Configuration space\<close>

text \<open>The arguments are of type \<^verbatim>\<open>char\<close>, which has a sign.\<close>

definition pci_address :: "u8 \<Rightarrow> u8 \<Rightarrow> u8 \<Rightarrow> u8 \<Rightarrow> u32" where
  "pci_address bus slot func offset =
     push_bit 16 (scast bus) OR push_bit 11 (scast slot) OR push_bit 8 (scast func) OR (scast offset AND 0xfc) OR 0x80000000"

definition pci_conf_read_dword :: "'h ports \<Rightarrow> u8 \<Rightarrow> u8 \<Rightarrow> u8 \<Rightarrow> u8 \<Rightarrow> 'h \<Rightarrow> u32 \<times> 'h" where
  "pci_conf_read_dword io bus slot func offset h =
     io_inl io PCI_CONFIG_DATA (io_outl io PCI_CONFIG_ADDRESS (pci_address bus slot func offset) h)"

definition pci_conf_read_word :: "'h ports \<Rightarrow> u8 \<Rightarrow> u8 \<Rightarrow> u8 \<Rightarrow> u8 \<Rightarrow> 'h \<Rightarrow> u16 \<times> 'h" where
  "pci_conf_read_word io bus slot func offset h =
     (let (temp, h') = pci_conf_read_dword io bus slot func offset h in
      (ucast (drop_bit (unat (offset AND 2) * 8) temp AND 0xffff), h'))"

text \<open>The shift \<open>offset % 4 * 8\<close> is negative, so undefined, for a negative offset that is no multiple of 4.\<close>

definition pci_byte_shift :: "u8 \<Rightarrow> nat option" where
  "pci_byte_shift offset = (if sint offset < 0 \<and> offset AND 3 \<noteq> 0 then None else Some (unat (offset AND 3) * 8))"

definition pci_conf_read_byte :: "'h ports \<Rightarrow> u8 \<Rightarrow> u8 \<Rightarrow> u8 \<Rightarrow> u8 \<Rightarrow> 'h \<Rightarrow> (u8 \<times> 'h) option" where
  "pci_conf_read_byte io bus slot func offset h =
     do { let (temp, h') = pci_conf_read_dword io bus slot func offset h;
          k \<leftarrow> pci_byte_shift offset;
          Some (ucast (drop_bit k temp), h') }"

definition pci_conf_write_dword :: "'h ports \<Rightarrow> u8 \<Rightarrow> u8 \<Rightarrow> u8 \<Rightarrow> u8 \<Rightarrow> u32 \<Rightarrow> 'h \<Rightarrow> 'h" where
  "pci_conf_write_dword io bus slot func offset data h =
     io_outl io PCI_CONFIG_DATA data (io_outl io PCI_CONFIG_ADDRESS (pci_address bus slot func offset) h)"

definition pci_conf_write_byte :: "'h ports \<Rightarrow> u8 \<Rightarrow> u8 \<Rightarrow> u8 \<Rightarrow> u8 \<Rightarrow> u8 \<Rightarrow> 'h \<Rightarrow> 'h option" where
  "pci_conf_write_byte io bus slot func offset data h =
     do { k \<leftarrow> pci_byte_shift offset;
          let datal = push_bit k (ucast data);
          let (temp, h') = pci_conf_read_dword io bus slot func offset h;
          let temp' = (temp AND NOT (push_bit k 0xff)) OR datal;
          Some (pci_conf_write_dword io bus slot func offset temp' h') }"

section \<open>Devices\<close>

record pci_device =
  pci_bus :: u8
  pci_dev :: u8
  pci_func :: u8
  pci_vendor_id :: u16
  pci_dev_id :: u16
  pci_class_id :: u8
  pci_next :: nat

text \<open>The list, the heap it is in and the next address of the allocator. \<open>last_dev\<close> is the local variable
  of the scan; it is \<open>None\<close> as long as nothing was assigned to it.\<close>

record pci_state =
  pci_list :: nat
  pci_heap :: "nat \<Rightarrow> pci_device option"
  pci_fresh :: nat
  last_dev :: "nat option"

text \<open>The functions that other modules call; a null device reads 0 and ignores writes.\<close>

definition pci_dev_conf_read_dword :: "'h ports \<Rightarrow> pci_device option \<Rightarrow> u8 \<Rightarrow> 'h \<Rightarrow> u32 \<times> 'h" where
  "pci_dev_conf_read_dword io dev offset h =
     (case dev of None \<Rightarrow> (0, h) | Some d \<Rightarrow> pci_conf_read_dword io (pci_bus d) (pci_dev d) (pci_func d) offset h)"

definition pci_dev_conf_read_word :: "'h ports \<Rightarrow> pci_device option \<Rightarrow> u8 \<Rightarrow> 'h \<Rightarrow> u16 \<times> 'h" where
  "pci_dev_conf_read_word io dev offset h =
     (case dev of None \<Rightarrow> (0, h) | Some d \<Rightarrow> pci_conf_read_word io (pci_bus d) (pci_dev d) (pci_func d) offset h)"

definition pci_dev_conf_read_byte :: "'h ports \<Rightarrow> pci_device option \<Rightarrow> u8 \<Rightarrow> 'h \<Rightarrow> (u8 \<times> 'h) option" where
  "pci_dev_conf_read_byte io dev offset h =
     (case dev of None \<Rightarrow> Some (0, h) | Some d \<Rightarrow> pci_conf_read_byte io (pci_bus d) (pci_dev d) (pci_func d) offset h)"

definition pci_dev_conf_write_dword :: "'h ports \<Rightarrow> pci_device option \<Rightarrow> u8 \<Rightarrow> u32 \<Rightarrow> 'h \<Rightarrow> 'h" where
  "pci_dev_conf_write_dword io dev offset data h =
     (case dev of None \<Rightarrow> h | Some d \<Rightarrow> pci_conf_write_dword io (pci_bus d) (pci_dev d) (pci_func d) offset data h)"

definition pci_dev_conf_write_byte :: "'h ports \<Rightarrow> pci_device option \<Rightarrow> u8 \<Rightarrow> u8 \<Rightarrow> 'h \<Rightarrow> 'h option" where
  "pci_dev_conf_write_byte io dev offset data h =
     (case dev of None \<Rightarrow> Some h | Some d \<Rightarrow> pci_conf_write_byte io (pci_bus d) (pci_dev d) (pci_func d) offset data h)"

definition pci_get_class_id :: "'h ports \<Rightarrow> pci_device \<Rightarrow> 'h \<Rightarrow> (u8 \<times> 'h) option" where
  "pci_get_class_id io d h = pci_conf_read_byte io (pci_bus d) (pci_dev d) (pci_func d) PCI_CONFIG_CLASS h"

definition pci_get_subclass_id :: "'h ports \<Rightarrow> pci_device \<Rightarrow> 'h \<Rightarrow> (u8 \<times> 'h) option" where
  "pci_get_subclass_id io d h = pci_conf_read_byte io (pci_bus d) (pci_dev d) (pci_func d) PCI_CONFIG_SUBCLASS h"

definition pci_get_device_list :: "pci_state \<Rightarrow> nat" where
  "pci_get_device_list s = pci_list s"

partial_function (option) pci_get_device_by_class :: "(nat \<Rightarrow> pci_device option) \<Rightarrow> nat \<Rightarrow> u8 \<Rightarrow> nat option" where
  "pci_get_device_by_class heap lst cl =
     (if lst = 0 then Some 0
      else do { d \<leftarrow> heap lst;
                if pci_class_id d = cl then Some lst else pci_get_device_by_class heap (pci_next d) cl })"

text \<open>A new device goes behind the last one.\<close>

definition pci_append :: "pci_device \<Rightarrow> pci_state \<Rightarrow> pci_state option" where
  "pci_append d s =
     (let t = pci_fresh s; s1 = s\<lparr>pci_heap := (pci_heap s)(t \<mapsto> d), pci_fresh := Suc t\<rparr> in
      if pci_list s \<noteq> 0
      then do { l \<leftarrow> last_dev s;
                p \<leftarrow> pci_heap s1 l;
                Some (s1\<lparr>pci_heap := (pci_heap s1)(l \<mapsto> p\<lparr>pci_next := t\<rparr>), last_dev := Some t\<rparr>) }
      else Some (s1\<lparr>pci_list := t, last_dev := Some t\<rparr>))"

fun scan_functions :: "'h ports \<Rightarrow> nat \<Rightarrow> nat \<Rightarrow> nat list \<Rightarrow> pci_state \<times> 'h \<Rightarrow> (pci_state \<times> 'h) option" where
  "scan_functions io bus device [] (s, h) = Some (s, h)"
| "scan_functions io bus device (function # fs) (s, h) =
     (let (vendor, h1) = pci_conf_read_word io (of_nat bus) (of_nat device) (of_nat function) 0 h in
      if vendor \<noteq> 0xffff
      then let (dev_id, h2) = pci_conf_read_word io (of_nat bus) (of_nat device) (of_nat function) 2 h1;
               (cl, h3) = pci_conf_read_dword io (of_nat bus) (of_nat device) (of_nat function) 0x0b h2
           in do { s' \<leftarrow> pci_append \<lparr>pci_bus = of_nat bus, pci_dev = of_nat device, pci_func = of_nat function,
                     pci_vendor_id = vendor, pci_dev_id = dev_id, pci_class_id = ucast (drop_bit 24 cl), pci_next = 0\<rparr> s;
                   scan_functions io bus device fs (s', h3) }
      else if function = 0 then Some (s, h1)
      else scan_functions io bus device fs (s, h1))"

text \<open>An older list is freed, but stays in \<open>pci_list\<close>.\<close>

partial_function (option) free_pci_from :: "nat \<Rightarrow> (nat \<Rightarrow> pci_device option) \<Rightarrow> (nat \<Rightarrow> pci_device option) option" where
  "free_pci_from move heap =
     (if move = 0 then Some heap
      else do { d \<leftarrow> heap move; free_pci_from (pci_next d) (heap(move := None)) })"

definition scan_bus :: "'h ports \<Rightarrow> pci_state \<times> 'h \<Rightarrow> nat \<Rightarrow> (pci_state \<times> 'h) option" where
  "scan_bus io sh bus = bind_fold (\<lambda>sh device. scan_functions io bus device [0..<7] sh) sh [0..<32]"

definition pci_enumerate_devices :: "'h ports \<Rightarrow> pci_state \<times> 'h \<Rightarrow> (pci_state \<times> 'h) option" where
  "pci_enumerate_devices io sh =
     (let (s, h) = sh in
      do { heap \<leftarrow> free_pci_from (pci_list s) (pci_heap s);
           bind_fold (scan_bus io) (s\<lparr>pci_heap := heap, last_dev := None\<rparr>, h) [0..<256] })"

declare pci_get_device_by_class.simps [code] free_pci_from.simps [code]

section \<open>What the scan finds\<close>

text \<open>The configuration mechanism: a read of the data port delivers the register that the last address
  names, whose bits 24 to 30 are reserved.\<close>

definition config_hw :: "'h ports \<Rightarrow> (u32 \<Rightarrow> u32 \<Rightarrow> u32 \<Rightarrow> u32 \<Rightarrow> u32) \<Rightarrow> bool" where
  "config_hw io cfg \<longleftrightarrow> (\<forall>h a. bit a 31 \<longrightarrow> fst (io_inl io 0xcfc (io_outl io 0xcf8 a h))
     = cfg (drop_bit 16 a AND 0xff) (drop_bit 11 a AND 0x1f) (drop_bit 8 a AND 7) (a AND 0xfc))"

lemma scast_small: "n < 128 \<Longrightarrow> scast (of_nat n :: u8) = (of_nat n :: u32)"
proof -
  assume n: "n < 128"
  then have "sint (of_nat n :: u8) = int n"
    by (simp add: sint_uint uint_nat unat_of_nat take_bit_nat_eq_self signed_take_bit_int_eq_self)
  then show ?thesis by (metis of_int_of_nat_eq of_int_sint)
qed

lemma small_nat_bits: "bit m n \<Longrightarrow> m < 2 ^ k \<Longrightarrow> n < k" for m n k :: nat
proof (rule ccontr)
  assume "bit m n" "m < 2 ^ k" "\<not> n < k"
  then have "m < 2 ^ n" by (meson le_less_trans less_le_trans not_less one_le_numeral power_increasing)
  then show False using \<open>bit m n\<close> by (simp add: bit_iff_odd)
qed

lemma pci_masks: "(0xff :: u32) = mask 8" "(0x1f :: u32) = mask 5" "(7 :: u32) = mask 3" "(0xfc :: u32) = push_bit 2 (mask 6)"
    "(0x80000000 :: u32) = push_bit 31 1"
  by (simp_all add: mask_eq_exp_minus_1)

lemma pci_address_fields:
  assumes "b < 256" "d < 32" "f < 8" "r < 128"
  shows "bit (pci_address (of_nat b) (of_nat d) (of_nat f) (of_nat r)) 31"
    "drop_bit 16 (pci_address (of_nat b) (of_nat d) (of_nat f) (of_nat r)) AND 0xff = of_nat b"
    "drop_bit 11 (pci_address (of_nat b) (of_nat d) (of_nat f) (of_nat r)) AND 0x1f = of_nat d"
    "drop_bit 8 (pci_address (of_nat b) (of_nat d) (of_nat f) (of_nat r)) AND 7 = of_nat f"
    "pci_address (of_nat b) (of_nat d) (of_nat f) (of_nat r) AND 0xfc = of_nat r AND 0xfc"
proof -
  have d: "scast (of_nat d :: u8) = (of_nat d :: u32)" using assms by (simp add: scast_small)
  have f: "scast (of_nat f :: u8) = (of_nat f :: u32)" using assms by (simp add: scast_small)
  have dn: "bit d n \<Longrightarrow> n < 5" and fn: "bit f n \<Longrightarrow> n < 3" for n
    using small_nat_bits [of d n 5] small_nat_bits [of f n 3] assms by simp_all
  have r: "scast (of_nat r :: u8) = (of_nat r :: u32)" using assms by (simp add: scast_small)
  have b: "(of_nat b :: u32) = ucast (of_nat b :: u8)" using assms by (simp add: unsigned_of_nat take_bit_nat_eq_self)
  have bb: "bit (scast (w :: u8) :: u32) n \<longleftrightarrow> n < 32 \<and> bit w (min n 7)" for w n
    by (auto simp: bit_signed_iff min_def)
  note a = pci_address_def d f r pci_masks
  show "bit (pci_address (of_nat b) (of_nat d) (of_nat f) (of_nat r)) 31"
    unfolding a by (simp add: bit_simps del: push_bit_of_1)
  show "drop_bit 16 (pci_address (of_nat b) (of_nat d) (of_nat f) (of_nat r)) AND 0xff = of_nat b"
  proof (rule bit_word_eqI)
    fix n assume "n < LENGTH(32)"
    then show "bit (drop_bit 16 (pci_address (of_nat b) (of_nat d) (of_nat f) (of_nat r)) AND 0xff) n = bit (of_nat b :: u32) n"
      unfolding a b by (cases "n = 7") (auto simp: bit_simps bb min_def dest: dn fn simp del: push_bit_of_1)
  qed
  show "drop_bit 11 (pci_address (of_nat b) (of_nat d) (of_nat f) (of_nat r)) AND 0x1f = of_nat d"
    unfolding a by (rule bit_word_eqI) (auto simp: bit_simps bb dest: dn fn simp del: push_bit_of_1)
  show "drop_bit 8 (pci_address (of_nat b) (of_nat d) (of_nat f) (of_nat r)) AND 7 = of_nat f"
    unfolding a by (rule bit_word_eqI) (auto simp: bit_simps bb dest: dn fn simp del: push_bit_of_1)
  show "pci_address (of_nat b) (of_nat d) (of_nat f) (of_nat r) AND 0xfc = of_nat r AND 0xfc"
    unfolding a by (rule bit_word_eqI) (auto simp: bit_simps bb dest: dn fn simp del: push_bit_of_1)
qed

lemma config_read_dword:
  assumes "config_hw io cfg" "b < 256" "d < 32" "f < 8" "r < 128"
  shows "fst (pci_conf_read_dword io (of_nat b) (of_nat d) (of_nat f) (of_nat r) h)
    = cfg (of_nat b) (of_nat d) (of_nat f) (of_nat r AND 0xfc)"
  using assms(1) pci_address_fields [OF assms(2-5)]
  by (simp add: config_hw_def pci_conf_read_dword_def PCI_CONFIG_ADDRESS_def PCI_CONFIG_DATA_def)

text \<open>A device as the registers describe it, and the devices that the scan looks for: functions 0 to 6 of
  every slot whose function 0 is there.\<close>

definition pci_present :: "(u32 \<Rightarrow> u32 \<Rightarrow> u32 \<Rightarrow> u32 \<Rightarrow> u32) \<Rightarrow> nat \<Rightarrow> nat \<Rightarrow> nat \<Rightarrow> bool" where
  "pci_present cfg b d f \<longleftrightarrow> (ucast (cfg (of_nat b) (of_nat d) (of_nat f) 0) :: u16) \<noteq> 0xffff"

definition pci_info :: "(u32 \<Rightarrow> u32 \<Rightarrow> u32 \<Rightarrow> u32 \<Rightarrow> u32) \<Rightarrow> nat \<Rightarrow> nat \<Rightarrow> nat \<Rightarrow> pci_device" where
  "pci_info cfg b d f =
     \<lparr>pci_bus = of_nat b, pci_dev = of_nat d, pci_func = of_nat f,
      pci_vendor_id = ucast (cfg (of_nat b) (of_nat d) (of_nat f) 0),
      pci_dev_id = ucast (drop_bit 16 (cfg (of_nat b) (of_nat d) (of_nat f) 0)),
      pci_class_id = ucast (drop_bit 24 (cfg (of_nat b) (of_nat d) (of_nat f) 8)), pci_next = 0\<rparr>"

definition slot_devices :: "(u32 \<Rightarrow> u32 \<Rightarrow> u32 \<Rightarrow> u32 \<Rightarrow> u32) \<Rightarrow> nat \<Rightarrow> nat \<Rightarrow> pci_device list" where
  "slot_devices cfg b d =
     (if pci_present cfg b d 0 then map (pci_info cfg b d) (filter (pci_present cfg b d) [0..<7]) else [])"

definition pci_devices :: "(u32 \<Rightarrow> u32 \<Rightarrow> u32 \<Rightarrow> u32 \<Rightarrow> u32) \<Rightarrow> pci_device list" where
  "pci_devices cfg = concat (map (\<lambda>b. concat (map (slot_devices cfg b) [0..<32])) [0..<256])"

text \<open>The list in the heap.\<close>

fun pci_seg :: "(nat \<Rightarrow> pci_device option) \<Rightarrow> nat \<Rightarrow> (nat \<times> pci_device) list \<Rightarrow> nat \<Rightarrow> bool" where
  "pci_seg heap p [] q \<longleftrightarrow> p = q"
| "pci_seg heap p ((a, d) # xs) q \<longleftrightarrow>
     p = a \<and> a \<noteq> 0 \<and> (\<exists>n. heap a = Some (d\<lparr>pci_next := n\<rparr>) \<and> pci_seg heap n xs q)"

lemma pci_next_inj [simp]: "(d :: pci_device)\<lparr>pci_next := n\<rparr> = d\<lparr>pci_next := m\<rparr> \<longleftrightarrow> n = m"
  by (cases d) simp

lemma pci_seg_append: "pci_seg heap p (xs @ ys) q \<longleftrightarrow> (\<exists>r. pci_seg heap p xs r \<and> pci_seg heap r ys q)"
  by (induction xs arbitrary: p) (simp, fastforce)

lemma pci_seg_cong: "(\<And>a. a \<in> fst ` set xs \<Longrightarrow> h a = h' a) \<Longrightarrow> pci_seg h p xs q = pci_seg h' p xs q"
  by (induction xs arbitrary: p) auto

definition pci_repr :: "pci_state \<Rightarrow> (nat \<times> pci_device) list \<Rightarrow> bool" where
  "pci_repr s xs \<longleftrightarrow> pci_seg (pci_heap s) (pci_list s) xs 0 \<and> distinct (map fst xs)
     \<and> (\<forall>a \<in> fst ` set xs. a < pci_fresh s) \<and> 0 < pci_fresh s \<and> (xs \<noteq> [] \<longrightarrow> last_dev s = Some (fst (last xs)))"

lemma pci_append_ok:
  assumes "pci_repr s xs" "pci_next d = 0"
  shows "\<exists>s' a. pci_append d s = Some s' \<and> pci_repr s' (xs @ [(a, d)])"
proof (cases xs rule: rev_cases)
  case Nil
  then show ?thesis using assms
    by (intro exI [of _ "s\<lparr>pci_heap := (pci_heap s)(pci_fresh s \<mapsto> d), pci_fresh := Suc (pci_fresh s), pci_list := pci_fresh s,
        last_dev := Some (pci_fresh s)\<rparr>"] exI [of _ "pci_fresh s"])
      (auto simp: pci_append_def pci_repr_def Let_def intro!: exI [of _ 0])
next
  case (snoc ys x)
  obtain l c where x: "x = (l, c)" by (cases x)
  let ?t = "pci_fresh s" and ?h = "pci_heap s"
  have seg: "pci_seg ?h (pci_list s) ys l" "l \<noteq> 0" "?h l = Some (c\<lparr>pci_next := 0\<rparr>)"
    using assms(1) by (auto simp: pci_repr_def snoc x pci_seg_append)
  have fr: "l \<noteq> ?t" "l \<notin> fst ` set ys" "?t \<notin> fst ` set ys" "0 < ?t" "last_dev s = Some l"
    using assms(1) by (auto simp: pci_repr_def snoc x)
  let ?h' = "?h(?t \<mapsto> d, l \<mapsto> c\<lparr>pci_next := ?t\<rparr>)"
  have "?h' a = ?h a" if "a \<in> fst ` set ys" for a using that fr(2,3) by (metis fun_upd_other)
  then have "pci_seg ?h' (pci_list s) ys l" using seg(1) pci_seg_cong [of ys ?h' ?h] by blast
  then have seg': "pci_seg ?h' (pci_list s) (ys @ [(l, c), (?t, d)]) 0"
    using seg(2) fr assms(2) by (auto simp: pci_seg_append intro!: exI [of _ 0])
  have "pci_list s \<noteq> 0" using seg(1,2) by (cases ys) auto
  then have "pci_append d s = Some (s\<lparr>pci_heap := ?h', pci_fresh := Suc ?t, last_dev := Some ?t\<rparr>)"
    using fr seg(3) by (simp add: pci_append_def Let_def)
  moreover have "pci_repr (s\<lparr>pci_heap := ?h', pci_fresh := Suc ?t, last_dev := Some ?t\<rparr>) (xs @ [(?t, d)])"
    using seg' assms(1) fr by (auto simp: pci_repr_def snoc x)
  ultimately show ?thesis by blast
qed

lemma find_by_class:
  "pci_seg heap p xs 0 \<Longrightarrow>
   pci_get_device_by_class heap p c = Some (case find (\<lambda>x. pci_class_id (snd x) = c) xs of None \<Rightarrow> 0 | Some x \<Rightarrow> fst x)"
  by (induction xs arbitrary: p) (auto simp: pci_get_device_by_class.simps)

section \<open>The scan\<close>

lemma config_read_word:
  assumes "config_hw io cfg" "b < 256" "d < 32" "f < 8"
  shows "fst (pci_conf_read_word io (of_nat b) (of_nat d) (of_nat f) 0 h) = ucast (cfg (of_nat b) (of_nat d) (of_nat f) 0)"
    "fst (pci_conf_read_word io (of_nat b) (of_nat d) (of_nat f) 2 h) = ucast (drop_bit 16 (cfg (of_nat b) (of_nat d) (of_nat f) 0))"
    "fst (pci_conf_read_dword io (of_nat b) (of_nat d) (of_nat f) 0x0b h) = cfg (of_nat b) (of_nat d) (of_nat f) 8"
proof -
  have m: "ucast (w AND 0xffff) = (ucast w :: u16)" for w :: u32
  proof -
    have "(0xffff :: u32) = mask 16" by (simp add: mask_eq_exp_minus_1)
    then have "ucast (w AND 0xffff) = (ucast (w AND mask 16) :: u16)" by simp
    also have "\<dots> = ucast w" by (rule bit_word_eqI) (auto simp: bit_simps)
    finally show ?thesis .
  qed
  show "fst (pci_conf_read_word io (of_nat b) (of_nat d) (of_nat f) 0 h) = ucast (cfg (of_nat b) (of_nat d) (of_nat f) 0)"
    using config_read_dword [OF assms, of 0 h] by (simp add: pci_conf_read_word_def split_beta m)
  show "fst (pci_conf_read_word io (of_nat b) (of_nat d) (of_nat f) 2 h) = ucast (drop_bit 16 (cfg (of_nat b) (of_nat d) (of_nat f) 0))"
    using config_read_dword [OF assms, of 2 h] by (simp add: pci_conf_read_word_def split_beta m)
  show "fst (pci_conf_read_dword io (of_nat b) (of_nat d) (of_nat f) 0x0b h) = cfg (of_nat b) (of_nat d) (of_nat f) 8"
    using config_read_dword [OF assms, of "0x0b" h] by simp
qed

lemma scan_functions_ok:
  assumes "config_hw io cfg" "b < 256" "d < 32"
  shows "\<lbrakk>\<forall>f \<in> set fs. f < 8; 0 \<in> set fs \<longrightarrow> pci_present cfg b d 0; pci_repr s xs\<rbrakk> \<Longrightarrow>
    \<exists>s' h' ys. scan_functions io b d fs (s, h) = Some (s', h') \<and> pci_repr s' (xs @ ys)
      \<and> map snd ys = map (pci_info cfg b d) (filter (pci_present cfg b d) fs)"
proof (induction fs arbitrary: s h xs)
  case Nil
  then show ?case by (intro exI [of _ s] exI [of _ h] exI [of _ "[]"]) simp
next
  case (Cons f fs)
  note w = config_read_word [OF assms, of f]
  obtain h1 where h1: "pci_conf_read_word io (of_nat b) (of_nat d) (of_nat f) 0 h = (ucast (cfg (of_nat b) (of_nat d) (of_nat f) 0), h1)"
    using w(1) [of h] Cons.prems(1) by (metis fst_conv list.set_intros(1) prod.collapse)
  obtain h2 where h2: "pci_conf_read_word io (of_nat b) (of_nat d) (of_nat f) 2 h1
      = (ucast (drop_bit 16 (cfg (of_nat b) (of_nat d) (of_nat f) 0)), h2)"
    using w(2) [of h1] Cons.prems(1) by (metis fst_conv list.set_intros(1) prod.collapse)
  obtain h3 where h3: "pci_conf_read_dword io (of_nat b) (of_nat d) (of_nat f) 0x0b h2 = (cfg (of_nat b) (of_nat d) (of_nat f) 8, h3)"
    using w(3) [of h2] Cons.prems(1) by (metis fst_conv list.set_intros(1) prod.collapse)
  show ?case
  proof (cases "pci_present cfg b d f")
    case True
    obtain s1 a where s1: "pci_append (pci_info cfg b d f) s = Some s1" "pci_repr s1 (xs @ [(a, pci_info cfg b d f)])"
      using pci_append_ok [OF Cons.prems(3), of "pci_info cfg b d f"] by (auto simp: pci_info_def)
    obtain s' h' ys where r: "scan_functions io b d fs (s1, h3) = Some (s', h')"
        "pci_repr s' ((xs @ [(a, pci_info cfg b d f)]) @ ys)"
        "map snd ys = map (pci_info cfg b d) (filter (pci_present cfg b d) fs)"
      using Cons.IH [OF _ _ s1(2), of h3] Cons.prems(1,2) by auto
    have "scan_functions io b d (f # fs) (s, h) = Some (s', h')"
      using True s1(1) r(1) by (simp add: h1 h2 h3 pci_info_def pci_present_def)
    then show ?thesis using r True by (intro exI [of _ s'] exI [of _ h'] exI [of _ "(a, pci_info cfg b d f) # ys"]) simp
  next
    case False
    then have "f \<noteq> 0" using Cons.prems(2) by (cases "f = 0") auto
    then have "scan_functions io b d (f # fs) (s, h) = scan_functions io b d fs (s, h1)"
      using False by (simp add: h1 pci_present_def)
    then show ?thesis using Cons.IH [OF _ _ Cons.prems(3), of h1] Cons.prems(1,2) False by simp
  qed
qed

lemma bind_fold_scan:
  assumes "\<And>x s h xs. x \<in> set l \<Longrightarrow> pci_repr s xs \<Longrightarrow>
    \<exists>s' h' ys. f (s, h) x = Some (s', h') \<and> pci_repr s' (xs @ ys) \<and> map snd ys = g x"
  shows "pci_repr s xs \<Longrightarrow>
    \<exists>s' h' ys. bind_fold f (s, h) l = Some (s', h') \<and> pci_repr s' (xs @ ys) \<and> map snd ys = concat (map g l)"
  using assms
proof (induction l arbitrary: s h xs)
  case Nil
  then show ?case by (intro exI [of _ s] exI [of _ h] exI [of _ "[]"]) simp
next
  case (Cons x l)
  obtain s1 h1 ys where 1: "f (s, h) x = Some (s1, h1)" "pci_repr s1 (xs @ ys)" "map snd ys = g x"
    using Cons.prems(2) [of x s xs h] Cons.prems(1) by auto
  obtain s2 h2 zs where 2: "bind_fold f (s1, h1) l = Some (s2, h2)" "pci_repr s2 ((xs @ ys) @ zs)" "map snd zs = concat (map g l)"
    using Cons.IH [OF 1(2), of h1] Cons.prems(2) by auto
  show ?case using 1 2 by (intro exI [of _ s2] exI [of _ h2] exI [of _ "ys @ zs"]) simp
qed

lemma scan_slot_ok:
  assumes "config_hw io cfg" "b < 256" "d < 32" "pci_repr s xs"
  shows "\<exists>s' h' ys. scan_functions io b d [0..<7] (s, h) = Some (s', h') \<and> pci_repr s' (xs @ ys)
      \<and> map snd ys = slot_devices cfg b d"
proof (cases "pci_present cfg b d 0")
  case True
  then show ?thesis using scan_functions_ok [OF assms(1-3) _ _ assms(4), of "[0..<7]" h] by (simp add: slot_devices_def)
next
  case False
  obtain h1 where h1: "pci_conf_read_word io (of_nat b) (of_nat d) 0 0 h = (ucast (cfg (of_nat b) (of_nat d) 0 0), h1)"
    using config_read_word(1) [OF assms(1-3), of 0 h] by (cases "pci_conf_read_word io (of_nat b) (of_nat d) 0 0 h") simp
  have "[0..<7] = 0 # [1..<7]" using upt_conv_Cons [of 0 7] by simp
  then have "scan_functions io b d [0..<7] (s, h) = Some (s, h1)"
    using False by (simp add: h1 pci_present_def)
  then show ?thesis
    using False assms(4) by (intro exI [of _ s] exI [of _ h1] exI [of _ "[]"]) (simp add: slot_devices_def)
qed

lemma scan_bus_ok:
  assumes "config_hw io cfg" "b < 256" "pci_repr s xs"
  shows "\<exists>s' h' ys. scan_bus io (s, h) b = Some (s', h') \<and> pci_repr s' (xs @ ys)
      \<and> map snd ys = concat (map (slot_devices cfg b) [0..<32])"
  unfolding scan_bus_def
  by (rule bind_fold_scan [OF _ assms(3)]) (rule scan_slot_ok [OF assms(1,2)], simp_all)

lemma scan_buses_ok:
  assumes "config_hw io cfg" "pci_repr s xs"
  shows "\<exists>s' h' ys. bind_fold (scan_bus io) (s, h) [0..<256] = Some (s', h') \<and> pci_repr s' (xs @ ys) \<and> map snd ys = pci_devices cfg"
  unfolding pci_devices_def
  by (rule bind_fold_scan [OF _ assms(2)]) (rule scan_bus_ok [OF assms(1)], simp_all)

text \<open>C16. On hardware with the documented access to the configuration space, the first scan returns, and the
  list it leaves has the devices that answer, in the order of their addresses and with what their
  registers say: of every slot whose function 0 answers, those among the functions 0 to 6. The search
  for a class then returns the first of them that has it, or null.\<close>

theorem pci_enumerate_lists:
  assumes "config_hw io cfg" "pci_list s = 0" "0 < pci_fresh s"
  shows "\<exists>s' h' xs. pci_enumerate_devices io (s, h) = Some (s', h')
    \<and> pci_seg (pci_heap s') (pci_get_device_list s') xs 0 \<and> map snd xs = pci_devices cfg
    \<and> (\<forall>c. pci_get_device_by_class (pci_heap s') (pci_get_device_list s') c
          = Some (case find (\<lambda>x. pci_class_id (snd x) = c) xs of None \<Rightarrow> 0 | Some x \<Rightarrow> fst x))"
proof -
  have f: "free_pci_from (pci_list s) (pci_heap s) = Some (pci_heap s)" using assms(2) by (simp add: free_pci_from.simps)
  have "pci_repr (s\<lparr>last_dev := None\<rparr>) []" using assms(2,3) by (simp add: pci_repr_def)
  then obtain s' h' xs where "bind_fold (scan_bus io) (s\<lparr>last_dev := None\<rparr>, h) [0..<256] = Some (s', h')" "pci_repr s' xs"
      "map snd xs = pci_devices cfg"
    using scan_buses_ok [OF assms(1), of "s\<lparr>last_dev := None\<rparr>" "[]" h] by auto
  then show ?thesis using find_by_class
    by (intro exI [of _ s'] exI [of _ h'] exI [of _ xs]) (auto simp: pci_enumerate_devices_def f pci_repr_def pci_get_device_list_def)
qed

text \<open>A machine with a host bridge and a disk controller.\<close>

definition two_cfg :: "u32 \<Rightarrow> u32 \<Rightarrow> u32 \<Rightarrow> u32 \<Rightarrow> u32" where
  "two_cfg b d f r = (if b = 0 \<and> d \<le> 1 \<and> f = 0 then (if r = 8 then (if d = 0 then 0x06000000 else 0x01018000) else 0x12378086)
     else 0xffffffff)"

definition two_ports :: "u32 ports" where
  "two_ports = \<lparr>io_inb = (\<lambda>p h. (0, h)), io_outb = (\<lambda>p v h. h), io_inw = (\<lambda>p h. (0, h)), io_outw = (\<lambda>p v h. h),
     io_inl = (\<lambda>p a. (two_cfg (drop_bit 16 a AND 0xff) (drop_bit 11 a AND 0x1f) (drop_bit 8 a AND 7) (a AND 0xfc), a)),
     io_outl = (\<lambda>p v h. if p = 0xcf8 then v else h)\<rparr>"

lemma pci_enumerate_lists_witness:
  "\<exists>s' h' xs. pci_enumerate_devices two_ports (\<lparr>pci_list = 0, pci_heap = \<lambda>_. None, pci_fresh = 0x1000, last_dev = None\<rparr>, 0)
      = Some (s', h') \<and> pci_seg (pci_heap s') (pci_list s') xs 0 \<and> map snd xs = pci_devices two_cfg"
proof -
  let ?s = "\<lparr>pci_list = 0, pci_heap = \<lambda>_. None, pci_fresh = 0x1000, last_dev = None\<rparr>"
  have 1: "config_hw two_ports two_cfg" by (simp add: config_hw_def two_ports_def)
  have 2: "pci_list ?s = 0" "0 < pci_fresh ?s" by simp_all
  show ?thesis using pci_enumerate_lists [OF 1 2, of 0] unfolding pci_get_device_list_def by blast
qed

end
