(* ===== verification/ATA.thy ===== *)
theory ATA
  imports PCI
begin

text \<open>
  \<^verbatim>\<open>kernel/modules/ata/ata_ide.c\<close>: IDE disks through the ports of the controller. Ports are the
  argument \<open>io\<close>, functions on the state \<open>'h\<close> of the hardware. Waiting for a device that stays busy
  is \<open>None\<close>. Segments are flat, so the selectors are left out, and so are the delays.
\<close>

section \<open>State\<close>

definition ATA_TYPE_IDE :: u16 where "ATA_TYPE_IDE = 1"
definition ATA_STATUS_ERROR :: u8 where "ATA_STATUS_ERROR = 0x01"
definition ATA_STATUS_DRQ :: u8 where "ATA_STATUS_DRQ = 0x08"
definition ATA_STATUS_BUSY :: u8 where "ATA_STATUS_BUSY = 0x80"
definition ATA_CMD_READ_PIO :: u8 where "ATA_CMD_READ_PIO = 0x20"
definition ATA_CMD_READ_PIO_EXT :: u8 where "ATA_CMD_READ_PIO_EXT = 0x24"
definition ATA_CMD_WRITE_PIO :: u8 where "ATA_CMD_WRITE_PIO = 0x30"
definition ATA_CMD_WRITE_PIO_EXT :: u8 where "ATA_CMD_WRITE_PIO_EXT = 0x34"
definition ATA_CMD_CACHE_FLUSH :: u8 where "ATA_CMD_CACHE_FLUSH = 0xe7"
definition ATA_CMD_CACHE_FLUSH_EXT :: u8 where "ATA_CMD_CACHE_FLUSH_EXT = 0xea"
definition ATA_CMD_IDENT :: u8 where "ATA_CMD_IDENT = 0xec"

lemmas ata_commands = ATA_CMD_READ_PIO_def ATA_CMD_READ_PIO_EXT_def ATA_CMD_WRITE_PIO_def ATA_CMD_WRITE_PIO_EXT_def
  ATA_CMD_CACHE_FLUSH_def ATA_CMD_CACHE_FLUSH_EXT_def ATA_CMD_IDENT_def

text \<open>The registers of a device, by their numbers.\<close>

definition ATA_REG_DATA :: u8 where "ATA_REG_DATA = 0"
definition ATA_REG_SEC_COUNT0 :: u8 where "ATA_REG_SEC_COUNT0 = 2"
definition ATA_REG_LBA0 :: u8 where "ATA_REG_LBA0 = 3"
definition ATA_REG_LBA1 :: u8 where "ATA_REG_LBA1 = 4"
definition ATA_REG_LBA2 :: u8 where "ATA_REG_LBA2 = 5"
definition ATA_REG_HD_DEV_SELECT :: u8 where "ATA_REG_HD_DEV_SELECT = 6"
definition ATA_REG_COMMAND :: u8 where "ATA_REG_COMMAND = 7"
definition ATA_REG_STATUS :: u8 where "ATA_REG_STATUS = 7"
definition ATA_REG_SEC_COUNT1 :: u8 where "ATA_REG_SEC_COUNT1 = 8"
definition ATA_REG_LBA3 :: u8 where "ATA_REG_LBA3 = 9"
definition ATA_REG_LBA4 :: u8 where "ATA_REG_LBA4 = 0xa"
definition ATA_REG_LBA5 :: u8 where "ATA_REG_LBA5 = 0xb"
definition ATA_REG_CONTROL :: u8 where "ATA_REG_CONTROL = 0xc"
definition ATA_REG_ALT_STATUS :: u8 where "ATA_REG_ALT_STATUS = 0xc"

lemmas ata_regs = ATA_REG_DATA_def ATA_REG_SEC_COUNT0_def ATA_REG_LBA0_def ATA_REG_LBA1_def ATA_REG_LBA2_def
  ATA_REG_HD_DEV_SELECT_def ATA_REG_COMMAND_def ATA_REG_STATUS_def ATA_REG_SEC_COUNT1_def ATA_REG_LBA3_def
  ATA_REG_LBA4_def ATA_REG_LBA5_def ATA_REG_CONTROL_def ATA_REG_ALT_STATUS_def

record ide_channel =
  ch_base :: u16
  ch_ctrl :: u16
  ch_busmaster :: u16
  ch_no_int :: u8

record ide_device =
  id_reserved :: u8
  id_channel :: u8
  id_drive :: u8
  id_type :: u16
  id_sign :: u16
  id_capabilities :: u16
  id_commands :: u32
  id_size :: u32
  id_model :: "u8 list"

record ide_control =
  ic_channels :: "ide_channel list"
  ic_devices :: "ide_device list"

definition ide_device_zero :: ide_device where
  "ide_device_zero = \<lparr>id_reserved = 0, id_channel = 0, id_drive = 0, id_type = 0, id_sign = 0, id_capabilities = 0,
     id_commands = 0, id_size = 0, id_model = replicate 41 0\<rparr>"

section \<open>Registers\<close>

text \<open>The port of a register; there is none from \<^verbatim>\<open>0x16\<close> on.\<close>

definition ide_port :: "ide_channel \<Rightarrow> u8 \<Rightarrow> u16 option" where
  "ide_port ch reg =
     (if reg < 0x08 then Some (ch_base ch + ucast reg)
      else if reg < 0x0c then Some (ch_base ch + ucast reg - 0x06)
      else if reg < 0x0e then Some (ch_ctrl ch + ucast reg - 0x0a)
      else if reg < 0x16 then Some (ch_busmaster ch + ucast reg - 0x0e)
      else None)"

definition reg_out :: "'h ports \<Rightarrow> ide_channel \<Rightarrow> u8 \<Rightarrow> u8 \<Rightarrow> 'h \<Rightarrow> 'h" where
  "reg_out io ch reg data h = (case ide_port ch reg of None \<Rightarrow> h | Some p \<Rightarrow> io_outb io p data h)"

text \<open>The registers 8 to 11 are reached through bit 7 of the control register.\<close>

definition high_order :: "'h ports \<Rightarrow> ide_channel \<Rightarrow> u8 \<Rightarrow> u8 \<Rightarrow> 'h \<Rightarrow> 'h" where
  "high_order io ch reg bits h =
     (if 0x7 < reg \<and> reg < 0xc then reg_out io ch ATA_REG_CONTROL (bits OR ch_no_int ch) h else h)"

definition ide_reg_write :: "'h ports \<Rightarrow> ide_channel \<Rightarrow> u8 \<Rightarrow> u8 \<Rightarrow> 'h \<Rightarrow> 'h" where
  "ide_reg_write io ch reg data h = high_order io ch reg 0 (reg_out io ch reg data (high_order io ch reg 0x80 h))"

definition ide_reg_read :: "'h ports \<Rightarrow> ide_channel \<Rightarrow> u8 \<Rightarrow> 'h \<Rightarrow> u8 \<times> 'h" where
  "ide_reg_read io ch reg h =
     (let h1 = high_order io ch reg 0x80 h;
          (ret, h2) = (case ide_port ch reg of None \<Rightarrow> (0, h1) | Some p \<Rightarrow> io_inb io p h1)
      in (ret, high_order io ch reg 0 h2))"

fun port_reads :: "('h \<Rightarrow> 'w \<times> 'h) \<Rightarrow> nat \<Rightarrow> 'h \<Rightarrow> 'w list \<times> 'h" where
  "port_reads f 0 h = ([], h)"
| "port_reads f (Suc n) h = (let (w, h1) = f h; (ws, h2) = port_reads f n h1 in (w # ws, h2))"

definition ide_read_buffer :: "'h ports \<Rightarrow> ide_channel \<Rightarrow> u8 \<Rightarrow> nat \<Rightarrow> 'h \<Rightarrow> u8 list \<times> 'h" where
  "ide_read_buffer io ch reg quads h =
     (let h1 = high_order io ch reg 0x80 h;
          (ws, h2) = (case ide_port ch reg of None \<Rightarrow> ([], h1) | Some p \<Rightarrow> port_reads (io_inl io p) quads h1)
      in (concat (map bytes_of_u32 ws), high_order io ch reg 0 h2))"

partial_function (option) wait_ready :: "'h ports \<Rightarrow> ide_channel \<Rightarrow> 'h \<Rightarrow> 'h option" where
  "wait_ready io ch h =
     (let (st, h') = ide_reg_read io ch ATA_REG_STATUS h in
      if st AND ATA_STATUS_BUSY \<noteq> 0 then wait_ready io ch h' else Some h')"

text \<open>The result is always 0: \<open>advanced_check\<close> is not used.\<close>

definition ide_polling :: "'h ports \<Rightarrow> ide_channel \<Rightarrow> 'h \<Rightarrow> 'h option" where
  "ide_polling io ch h = wait_ready io ch (snd (port_reads (ide_reg_read io ch ATA_REG_ALT_STATUS) 4 h))"

declare wait_ready.simps [code]

section \<open>Sectors\<close>

text \<open>The task file for an access: \<open>mode\<close> 1 has 28 bits of the address, mode 2 has 48.\<close>

definition lba_mode :: "u32 \<Rightarrow> nat" where
  "lba_mode lba = (if 0x10000000 < lba then 2 else 1)"

definition ata_setup :: "'h ports \<Rightarrow> ide_channel \<Rightarrow> u8 \<Rightarrow> u32 \<Rightarrow> u8 \<Rightarrow> 'h \<Rightarrow> 'h" where
  "ata_setup io ch slavebit lba numsects h0 =
     (let h1 = ide_reg_write io ch ATA_REG_HD_DEV_SELECT (0xe0 OR push_bit 4 slavebit OR 0) h0;
          h2 = (if lba_mode lba = 2
                then ide_reg_write io ch ATA_REG_LBA5 0 (ide_reg_write io ch ATA_REG_LBA4 0
                       (ide_reg_write io ch ATA_REG_LBA3 (ucast (drop_bit 24 (lba AND 0xff000000)))
                         (ide_reg_write io ch ATA_REG_SEC_COUNT1 0 h1)))
                else h1);
          h3 = ide_reg_write io ch ATA_REG_SEC_COUNT0 numsects h2;
          h4 = ide_reg_write io ch ATA_REG_LBA0 (ucast (lba AND 0xff)) h3;
          h5 = ide_reg_write io ch ATA_REG_LBA1 (ucast (drop_bit 8 (lba AND 0xff00))) h4
      in ide_reg_write io ch ATA_REG_LBA2 (ucast (drop_bit 16 (lba AND 0xff0000))) h5)"

fun pio_read_loop :: "'h ports \<Rightarrow> ide_channel \<Rightarrow> nat \<Rightarrow> 'h \<Rightarrow> (u16 list \<times> 'h) option" where
  "pio_read_loop io ch 0 h = Some ([], h)"
| "pio_read_loop io ch (Suc n) h =
     do { h1 \<leftarrow> ide_polling io ch h;
          let (ws, h2) = port_reads (io_inw io (ch_base ch)) 256 h1;
          (vs, h3) \<leftarrow> pio_read_loop io ch n h2;
          Some (ws @ vs, h3) }"

text \<open>\<^verbatim>\<open>rep outsw\<close> takes its words from \<open>esi\<close>, but the code loads \<open>edi\<close>: what is written is what \<open>esi\<close>
  happens to point to, the argument \<open>esi\<close>, by the number of the sector.\<close>

fun pio_write_loop :: "'h ports \<Rightarrow> ide_channel \<Rightarrow> (nat \<Rightarrow> u16 list) \<Rightarrow> nat \<Rightarrow> nat \<Rightarrow> 'h \<Rightarrow> 'h option" where
  "pio_write_loop io ch esi i 0 h = Some h"
| "pio_write_loop io ch esi i (Suc n) h =
     do { h1 \<leftarrow> ide_polling io ch h;
          pio_write_loop io ch esi (Suc i) n (fold (io_outw io (ch_base ch)) (take 256 (esi i)) h1) }"

definition pio_start :: "'h ports \<Rightarrow> ide_control \<Rightarrow> u8 \<Rightarrow> u32 \<Rightarrow> u8 \<Rightarrow> 'h \<Rightarrow> (ide_control \<times> ide_channel \<times> 'h) option" where
  "pio_start io ctrl drive lba numsects h =
     do { d \<leftarrow> read_at (ic_devices ctrl) (unat drive);
          ch0 \<leftarrow> read_at (ic_channels ctrl) (unat (id_channel d));
          let ch = ch0\<lparr>ch_no_int := 2\<rparr>;
          let ctrl' = ctrl\<lparr>ic_channels := (ic_channels ctrl)[unat (id_channel d) := ch]\<rparr>;
          h1 \<leftarrow> wait_ready io ch (ide_reg_write io ch ATA_REG_CONTROL 2 h);
          Some (ctrl', ch, ata_setup io ch (id_drive d) lba numsects h1) }"

definition ata_pio_read :: "'h ports \<Rightarrow> ide_control \<Rightarrow> u8 \<Rightarrow> u32 \<Rightarrow> u8 \<Rightarrow> 'h \<Rightarrow> (ide_control \<times> u16 list \<times> 'h) option" where
  "ata_pio_read io ctrl drive lba numsects h =
     do { (ctrl', ch, h1) \<leftarrow> pio_start io ctrl drive lba numsects h;
          let cmd = (if lba_mode lba = 1 then ATA_CMD_READ_PIO else ATA_CMD_READ_PIO_EXT);
          (ws, h2) \<leftarrow> pio_read_loop io ch (unat numsects) (ide_reg_write io ch ATA_REG_COMMAND cmd h1);
          Some (ctrl', ws, h2) }"

definition ata_pio_write ::
    "'h ports \<Rightarrow> (nat \<Rightarrow> u16 list) \<Rightarrow> ide_control \<Rightarrow> u8 \<Rightarrow> u32 \<Rightarrow> u8 \<Rightarrow> 'h \<Rightarrow> (ide_control \<times> 'h) option" where
  "ata_pio_write io esi ctrl drive lba numsects h =
     do { (ctrl', ch, h1) \<leftarrow> pio_start io ctrl drive lba numsects h;
          let cmd = (if lba_mode lba = 1 then ATA_CMD_WRITE_PIO else ATA_CMD_WRITE_PIO_EXT);
          h2 \<leftarrow> pio_write_loop io ch esi 0 (unat numsects) (ide_reg_write io ch ATA_REG_COMMAND cmd h1);
          let flush = (if lba_mode lba = 1 then ATA_CMD_CACHE_FLUSH else ATA_CMD_CACHE_FLUSH_EXT);
          h3 \<leftarrow> ide_polling io ch (ide_reg_write io ch ATA_REG_COMMAND flush h2);
          Some (ctrl', h3) }"

text \<open>The checks in front of both; the sum is a 32-bit one.\<close>

definition ata_check :: "ide_control \<Rightarrow> u8 \<Rightarrow> u8 \<Rightarrow> u32 \<Rightarrow> int option" where
  "ata_check ctrl drive numsects lba =
     (if 3 < drive then Some 1
      else do { d \<leftarrow> read_at (ic_devices ctrl) (unat drive);
                Some (if id_reserved d = 0 then 1 else if id_size d < lba + ucast numsects then 2 else 0) })"

definition ata_ide_read_sectors ::
    "'h ports \<Rightarrow> ide_control \<Rightarrow> u8 \<Rightarrow> u8 \<Rightarrow> u32 \<Rightarrow> 'h \<Rightarrow> (ide_control \<times> int \<times> u16 list \<times> 'h) option" where
  "ata_ide_read_sectors io ctrl drive numsects lba h =
     do { e \<leftarrow> ata_check ctrl drive numsects lba;
          if e \<noteq> 0 then Some (ctrl, e, [], h)
          else do { d \<leftarrow> read_at (ic_devices ctrl) (unat drive);
                    if id_type d = ATA_TYPE_IDE
                    then do { (ctrl', ws, h') \<leftarrow> ata_pio_read io ctrl drive lba numsects h; Some (ctrl', 0, ws, h') }
                    else Some (ctrl, 0, [], h) } }"

text \<open>\<open>error\<close> is not set for a device of another type.\<close>

definition ata_ide_write_sectors ::
    "'h ports \<Rightarrow> (nat \<Rightarrow> u16 list) \<Rightarrow> ide_control \<Rightarrow> u8 \<Rightarrow> u8 \<Rightarrow> u32 \<Rightarrow> 'h \<Rightarrow> (ide_control \<times> int \<times> 'h) option" where
  "ata_ide_write_sectors io esi ctrl drive numsects lba h =
     do { e \<leftarrow> ata_check ctrl drive numsects lba;
          if e \<noteq> 0 then Some (ctrl, e, h)
          else do { d \<leftarrow> read_at (ic_devices ctrl) (unat drive);
                    if id_type d = ATA_TYPE_IDE
                    then do { (ctrl', h') \<leftarrow> ata_pio_write io esi ctrl drive lba numsects h; Some (ctrl', 0, h') }
                    else None } }"

text \<open>The functions of the device \<open>ide_dev\<close>. Arguments are narrowed as the calls do it.\<close>

definition ata_ide_hal_read ::
    "'h ports \<Rightarrow> ide_control \<Rightarrow> ide_device \<Rightarrow> u32 \<Rightarrow> u32 \<Rightarrow> 'h \<Rightarrow> (ide_control \<times> int \<times> u16 list \<times> 'h) option" where
  "ata_ide_hal_read io ctrl ide_dev cnt offset h =
     ata_ide_read_sectors io ctrl (id_drive ide_dev + id_channel ide_dev * 2) (ucast cnt) offset h"

definition ata_ide_hal_write ::
    "'h ports \<Rightarrow> (nat \<Rightarrow> u16 list) \<Rightarrow> ide_control \<Rightarrow> ide_device \<Rightarrow> u32 \<Rightarrow> u32 \<Rightarrow> 'h \<Rightarrow> (ide_control \<times> int \<times> 'h) option" where
  "ata_ide_hal_write io esi ctrl ide_dev cnt offset h =
     do { (ctrl', _, h') \<leftarrow> ata_ide_write_sectors io esi ctrl (id_drive ide_dev) (ucast offset) cnt h;
          Some (ctrl', sint cnt, h') }"

section \<open>Finding disks\<close>

text \<open>The wait for the answer to the identification: whether it was an error.\<close>

partial_function (option) ident_wait :: "'h ports \<Rightarrow> ide_channel \<Rightarrow> 'h \<Rightarrow> (bool \<times> 'h) option" where
  "ident_wait io ch h =
     (let (st, h') = ide_reg_read io ch ATA_REG_STATUS h in
      if st AND ATA_STATUS_ERROR \<noteq> 0 then Some (True, h')
      else if st AND ATA_STATUS_BUSY = 0 \<and> st AND ATA_STATUS_DRQ \<noteq> 0 then Some (False, h')
      else ident_wait io ch h')"

declare ident_wait.simps [code]

definition ATA_IDENT_MODEL :: nat where "ATA_IDENT_MODEL = 0x36"

definition ident_model :: "u8 list \<Rightarrow> u8 list option" where
  "ident_model buf =
     do { m \<leftarrow> bind_fold (\<lambda>m k. do { a \<leftarrow> read_at buf (k + 1 + ATA_IDENT_MODEL); b \<leftarrow> read_at buf (k + ATA_IDENT_MODEL); Some (m @ [a, b]) })
            [] (map ((*) 2) [0..<20]);
          Some (m @ [0]) }"

definition ident_device :: "u8 \<Rightarrow> u8 \<Rightarrow> u8 list \<Rightarrow> ide_device option" where
  "ident_device i j buf =
     do { sign \<leftarrow> le16 buf 0x00;
          capabilities \<leftarrow> le16 buf 0x62;
          commands \<leftarrow> le32 buf 0xa4;
          size \<leftarrow> if commands AND 0x4000000 \<noteq> 0 then le32 buf 0xc8 else le32 buf 0x80;
          model \<leftarrow> ident_model buf;
          Some \<lparr>id_reserved = 1, id_channel = i, id_drive = j, id_type = ATA_TYPE_IDE, id_sign = sign,
                id_capabilities = capabilities, id_commands = commands, id_size = size, id_model = model\<rparr> }"

text \<open>The local variables of the loops: the controller, \<open>count\<close> and the devices registered so far, each
  by its name and its place in the table of the controller.\<close>

record ide_probe =
  ip_ctrl :: ide_control
  ip_count :: nat
  ip_registered :: "(u8 list \<times> nat) list"

definition ide_probe_slot :: "'h ports \<Rightarrow> ide_probe \<times> 'h \<Rightarrow> u8 \<times> u8 \<Rightarrow> (ide_probe \<times> 'h) option" where
  "ide_probe_slot io sh ij =
     (let (s, h) = sh; (i, j) = ij in
      do { ch \<leftarrow> read_at (ic_channels (ip_ctrl s)) (unat i);
           d0 \<leftarrow> read_at (ic_devices (ip_ctrl s)) (ip_count s);
           let ctrl = (ip_ctrl s)\<lparr>ic_devices := (ic_devices (ip_ctrl s))[ip_count s := d0\<lparr>id_reserved := 0\<rparr>]\<rparr>;
           let h1 = ide_reg_write io ch ATA_REG_HD_DEV_SELECT (0xa0 OR push_bit 4 j) h;
           let h2 = ide_reg_write io ch ATA_REG_COMMAND ATA_CMD_IDENT h1;
           let (st, h3) = ide_reg_read io ch ATA_REG_STATUS h2;
           if st = 0 then Some (s\<lparr>ip_ctrl := ctrl\<rparr>, h3)
           else do {
             (error, h4) \<leftarrow> ident_wait io ch h3;
             if error then Some (s\<lparr>ip_ctrl := ctrl, ip_count := ip_count s + 1\<rparr>, h4)
             else do {
               let (buf, h5) = ide_read_buffer io ch ATA_REG_DATA 128 h4;
               d \<leftarrow> ident_device i j buf;
               Some (s\<lparr>ip_ctrl := ctrl\<lparr>ic_devices := (ic_devices ctrl)[ip_count s := d]\<rparr>,
                       ip_count := ip_count s + 1,
                       ip_registered := ip_registered s @ [([0x61, 0x74, 0x61, of_nat (ip_count s) + 0x30], ip_count s)]\<rparr>, h5)
             }
           } })"

text \<open>The base addresses are fixed; only the address of the bus master is taken from the device.\<close>

definition ide_channels :: "u32 \<Rightarrow> ide_channel list" where
  "ide_channels bar4 =
     [\<lparr>ch_base = 0x1f0, ch_ctrl = 0x3f4, ch_busmaster = ucast (bar4 AND NOT 3), ch_no_int = 0\<rparr>,
      \<lparr>ch_base = 0x170, ch_ctrl = 0x374, ch_busmaster = ucast ((bar4 AND NOT 3) + 8), ch_no_int = 0\<rparr>]"

definition read_bars :: "'h ports \<Rightarrow> pci_device \<Rightarrow> 'h \<Rightarrow> u32 \<times> 'h" where
  "read_bars io dev h =
     (let (_, h0) = pci_dev_conf_read_dword io (Some dev) 0x10 h;
          (_, h1) = pci_dev_conf_read_dword io (Some dev) 0x14 h0;
          (_, h2) = pci_dev_conf_read_dword io (Some dev) 0x18 h1;
          (_, h3) = pci_dev_conf_read_dword io (Some dev) 0x1c h2
      in pci_dev_conf_read_dword io (Some dev) 0x20 h3)"

definition ata_initialize_ide :: "'h ports \<Rightarrow> pci_device \<Rightarrow> 'h \<Rightarrow> (ide_probe \<times> 'h) option" where
  "ata_initialize_ide io dev h =
     (let (bar4, h0) = read_bars io dev h;
          cs = ide_channels bar4;
          (_, h1) = ide_reg_read io (cs ! 0) ATA_REG_STATUS h0;
          (_, h2) = ide_reg_read io (cs ! 1) ATA_REG_STATUS h1;
          h3 = ide_reg_write io (cs ! 1) ATA_REG_CONTROL 2 (ide_reg_write io (cs ! 0) ATA_REG_CONTROL 2 h2)
      in bind_fold (ide_probe_slot io)
           (\<lparr>ip_ctrl = \<lparr>ic_channels = cs, ic_devices = replicate 4 ide_device_zero\<rparr>, ip_count = 0, ip_registered = []\<rparr>, h3)
           [(0, 0), (0, 1), (1, 0), (1, 1)])"

section \<open>Controllers\<close>

record ata_device =
  ad_type :: u8
  ad_mode :: u8
  ad_pci :: pci_device
  ad_next :: nat

text \<open>\<open>ata_last\<close> is the local variable \<open>last\<close>, which is set for the first controller only.\<close>

record ata_state =
  ata_list :: nat
  ata_last :: nat
  ata_heap :: "nat \<Rightarrow> ata_device option"
  ata_fresh :: nat

definition ata_add :: "pci_device \<Rightarrow> ata_state \<Rightarrow> ata_state option" where
  "ata_add dev s =
     (let t = ata_fresh s;
          s1 = s\<lparr>ata_heap := (ata_heap s)(t \<mapsto> \<lparr>ad_type = 1, ad_mode = 1, ad_pci = dev, ad_next = 0\<rparr>), ata_fresh := Suc t\<rparr> in
      if ata_last s \<noteq> 0
      then do { l \<leftarrow> ata_heap s1 (ata_last s);
                Some (s1\<lparr>ata_heap := (ata_heap s1)(ata_last s \<mapsto> l\<lparr>ad_next := t\<rparr>)\<rparr>) }
      else Some (s1\<lparr>ata_list := t, ata_last := t\<rparr>))"

partial_function (option) ata_enumerate_from ::
    "'h ports \<Rightarrow> (nat \<Rightarrow> pci_device option) \<Rightarrow> nat \<Rightarrow> ata_state \<Rightarrow> 'h \<Rightarrow> (ata_state \<times> 'h) option" where
  "ata_enumerate_from io heap temp s h =
     (if temp = 0 then Some (s, h)
      else do {
        t \<leftarrow> pci_get_device_by_class heap temp 1;
        if t = 0 then Some (s, h)
        else do {
          d \<leftarrow> heap t;
          (sub, h1) \<leftarrow> pci_get_subclass_id io d h;
          s1 \<leftarrow> (if sub = 1 then ata_add d s else Some s);
          ata_enumerate_from io heap (pci_next d) s1 h1
        }
      })"

definition ata_enumerate_devices :: "'h ports \<Rightarrow> pci_state \<Rightarrow> ata_state \<Rightarrow> 'h \<Rightarrow> (ata_state \<times> 'h) option" where
  "ata_enumerate_devices io pci s h =
     ata_enumerate_from io (pci_heap pci) (pci_get_device_list pci) (s\<lparr>ata_list := 0, ata_last := 0\<rparr>) h"

partial_function (option) ata_initialize_from ::
    "'h ports \<Rightarrow> ata_state \<Rightarrow> nat \<Rightarrow> ide_probe list \<Rightarrow> 'h \<Rightarrow> (ide_probe list \<times> 'h) option" where
  "ata_initialize_from io s move ps h =
     (if move = 0 then Some (ps, h)
      else do {
        d \<leftarrow> ata_heap s move;
        (ps1, h1) \<leftarrow> (if ad_type d = 1
                       then map_option (\<lambda>(p, h1). (ps @ [p], h1)) (ata_initialize_ide io (ad_pci d) h)
                       else Some (ps, h));
        ata_initialize_from io s (ad_next d) ps1 h1
      })"

definition ata_initialize_devices :: "'h ports \<Rightarrow> ata_state \<Rightarrow> 'h \<Rightarrow> (ide_probe list \<times> 'h) option" where
  "ata_initialize_devices io s h = ata_initialize_from io s (ata_list s) [] h"

declare ata_enumerate_from.simps [code] ata_initialize_from.simps [code]

end
