(* ===== verification/ATARead.thy ===== *)
theory ATARead
  imports ATA
begin

text \<open>
  Reading sectors through \<^verbatim>\<open>ata_ide_read_sectors\<close>, for a disk that behaves as the ATA standard documents
  it: what the task file registers hold, the words that wait to be read, and how often the disk will
  still say that it is busy are observed by three functions on the state of the hardware.
\<close>

section \<open>The contract of the disk\<close>

record 'h disk_view =
  dv_regs :: "'h \<Rightarrow> u8 \<Rightarrow> u8"
  dv_queue :: "'h \<Rightarrow> u16 list"
  dv_busy :: "'h \<Rightarrow> nat"

definition task_lba :: "(u8 \<Rightarrow> u8) \<Rightarrow> nat" where
  "task_lba r = unat (r ATA_REG_LBA0) + 256 * unat (r ATA_REG_LBA1) + 65536 * unat (r ATA_REG_LBA2)
     + 16777216 * unat (r ATA_REG_HD_DEV_SELECT AND 0xf)"

text \<open>A count of 0 stands for 256 sectors.\<close>

definition task_count :: "(u8 \<Rightarrow> u8) \<Rightarrow> nat" where
  "task_count r = (if r ATA_REG_SEC_COUNT0 = 0 then 256 else unat (r ATA_REG_SEC_COUNT0))"

definition same_task :: "'h disk_view \<Rightarrow> 'h \<Rightarrow> 'h \<Rightarrow> bool" where
  "same_task view h h' \<longleftrightarrow> dv_regs view h' = dv_regs view h \<and> dv_queue view h' = dv_queue view h"

definition read_range :: "(nat \<Rightarrow> u16 list) \<Rightarrow> nat \<Rightarrow> nat \<Rightarrow> u16 list" where
  "read_range disk lba n = concat (map disk [lba..<lba + n])"

text \<open>Writes to the registers 2 to 6, the read command, the control register, the two status registers,
  and the data register. The disk is that of the drive bit of the register 6.\<close>

definition disk_hw :: "'h ports \<Rightarrow> u16 \<Rightarrow> u16 \<Rightarrow> 'h disk_view \<Rightarrow> (bool \<Rightarrow> nat \<Rightarrow> u16 list) \<Rightarrow> bool" where
  "disk_hw io base ctl view disk \<longleftrightarrow>
     (\<forall>h r v. 2 \<le> r \<and> r \<le> 6 \<longrightarrow> dv_regs view (io_outb io (base + ucast r) v h) = (dv_regs view h)(r := v))
   \<and> (\<forall>h. dv_regs view (io_outb io (base + 7) 0x20 h) = dv_regs view h
        \<and> dv_queue view (io_outb io (base + 7) 0x20 h)
          = read_range (disk (bit (dv_regs view h 6) 4)) (task_lba (dv_regs view h)) (task_count (dv_regs view h)))
   \<and> (\<forall>h v. same_task view h (io_outb io (ctl + 2) v h))
   \<and> (\<forall>h p. p = base + 7 \<or> p = ctl + 2 \<longrightarrow> same_task view h (snd (io_inb io p h))
        \<and> (bit (fst (io_inb io p h)) 7 \<longleftrightarrow> 0 < dv_busy view h) \<and> dv_busy view (snd (io_inb io p h)) = dv_busy view h - 1)
   \<and> (\<forall>h w q. dv_queue view h = w # q \<longrightarrow> fst (io_inw io base h) = w \<and> dv_queue view (snd (io_inw io base h)) = q)"

lemma disk_hwD:
  assumes "disk_hw io base ctl view disk"
  shows "2 \<le> r \<Longrightarrow> r \<le> 6 \<Longrightarrow> dv_regs view (io_outb io (base + ucast r) v h) = (dv_regs view h)(r := v)"
    "dv_queue view (io_outb io (base + 7) 0x20 h)
      = read_range (disk (bit (dv_regs view h 6) 4)) (task_lba (dv_regs view h)) (task_count (dv_regs view h))"
    "same_task view h (io_outb io (ctl + 2) v h)"
    "p = base + 7 \<or> p = ctl + 2 \<Longrightarrow> same_task view h (snd (io_inb io p h))"
    "p = base + 7 \<or> p = ctl + 2 \<Longrightarrow> bit (fst (io_inb io p h)) 7 \<longleftrightarrow> 0 < dv_busy view h"
    "p = base + 7 \<or> p = ctl + 2 \<Longrightarrow> dv_busy view (snd (io_inb io p h)) = dv_busy view h - 1"
    "dv_queue view h = w # q \<Longrightarrow> fst (io_inw io base h) = w \<and> dv_queue view (snd (io_inw io base h)) = q"
proof -
  note c1 = assms [unfolded disk_hw_def, THEN conjunct1]
  note r1 = assms [unfolded disk_hw_def, THEN conjunct2]
  note c2 = r1 [THEN conjunct1] and r2 = r1 [THEN conjunct2]
  note c3 = r2 [THEN conjunct1] and r3 = r2 [THEN conjunct2]
  note c4 = r3 [THEN conjunct1] and c5 = r3 [THEN conjunct2]
  show "2 \<le> r \<Longrightarrow> r \<le> 6 \<Longrightarrow> dv_regs view (io_outb io (base + ucast r) v h) = (dv_regs view h)(r := v)" using c1 by blast
  show "dv_queue view (io_outb io (base + 7) 0x20 h)
      = read_range (disk (bit (dv_regs view h 6) 4)) (task_lba (dv_regs view h)) (task_count (dv_regs view h))" using c2 by blast
  show "same_task view h (io_outb io (ctl + 2) v h)" using c3 by blast
  show "p = base + 7 \<or> p = ctl + 2 \<Longrightarrow> same_task view h (snd (io_inb io p h))"
    "p = base + 7 \<or> p = ctl + 2 \<Longrightarrow> bit (fst (io_inb io p h)) 7 \<longleftrightarrow> 0 < dv_busy view h"
    "p = base + 7 \<or> p = ctl + 2 \<Longrightarrow> dv_busy view (snd (io_inb io p h)) = dv_busy view h - 1"
    using c4 [THEN spec [of _ h], THEN spec [of _ p]] by blast+
  show "dv_queue view h = w # q \<Longrightarrow> fst (io_inw io base h) = w \<and> dv_queue view (snd (io_inw io base h)) = q" using c5 by blast
qed

lemma same_task_trans: "same_task view a b \<Longrightarrow> same_task view b c \<Longrightarrow> same_task view a c"
  by (simp add: same_task_def)

lemma same_task_refl [simp]: "same_task view a a"
  by (simp add: same_task_def)

section \<open>Waiting\<close>

lemma ide_port_simps [simp]:
  "ide_port ch ATA_REG_STATUS = Some (ch_base ch + 7)" "ide_port ch ATA_REG_ALT_STATUS = Some (ch_ctrl ch + 2)"
  "ide_port ch ATA_REG_CONTROL = Some (ch_ctrl ch + 2)" "ide_port ch ATA_REG_COMMAND = Some (ch_base ch + 7)"
  by (simp_all add: ide_port_def ata_regs)

lemma low_reg_write: "r < 8 \<Longrightarrow> ide_reg_write io ch r v h = io_outb io (ch_base ch + ucast r) v h"
proof -
  assume "r < 8"
  moreover from this have "\<not> 7 < r" by (simp add: word_less_nat_alt)
  ultimately show ?thesis by (simp add: ide_reg_write_def high_order_def reg_out_def ide_port_def)
qed

lemma high_order_none [simp]:
  "high_order io ch ATA_REG_CONTROL b h = h" "high_order io ch ATA_REG_COMMAND b h = h"
  "high_order io ch ATA_REG_STATUS b h = h" "high_order io ch ATA_REG_ALT_STATUS b h = h"
  by (simp_all add: high_order_def ata_regs)

lemma reg_write_simps:
  "ide_reg_write io ch ATA_REG_CONTROL v h = io_outb io (ch_ctrl ch + 2) v h"
  "ide_reg_write io ch ATA_REG_COMMAND v h = io_outb io (ch_base ch + 7) v h"
  by (simp_all add: ide_reg_write_def reg_out_def)

lemma status_read: "ide_reg_read io ch ATA_REG_STATUS h = io_inb io (ch_base ch + 7) h"
    "ide_reg_read io ch ATA_REG_ALT_STATUS h = io_inb io (ch_ctrl ch + 2) h"
  by (simp_all add: ide_reg_read_def)

lemma busy_bit: "st AND ATA_STATUS_BUSY \<noteq> 0 \<longleftrightarrow> bit st 7"
  by (simp add: ATA_STATUS_BUSY_def and_0x80)

text \<open>The wait ends, because the disk is busy only for so long.\<close>

lemma wait_ready_ok:
  assumes "disk_hw io (ch_base ch) (ch_ctrl ch) view disk"
  shows "\<exists>h'. wait_ready io ch h = Some h' \<and> same_task view h h'"
proof (induction "dv_busy view h" arbitrary: h)
  case 0
  obtain st h1 where r: "io_inb io (ch_base ch + 7) h = (st, h1)" by fastforce
  then show ?case using disk_hwD(4,5) [OF assms, of "ch_base ch + 7" h] 0
    by (subst wait_ready.simps) (simp add: status_read busy_bit)
next
  case (Suc n)
  obtain st h1 where r: "io_inb io (ch_base ch + 7) h = (st, h1)" by fastforce
  have s: "same_task view h h1" "bit st 7" "dv_busy view h1 = n"
    using disk_hwD(4,5,6) [OF assms, of "ch_base ch + 7" h] r Suc.hyps(2) by auto
  obtain h' where "wait_ready io ch h1 = Some h'" "same_task view h1 h'" using Suc.hyps(1) [of h1] s(3) by auto
  then show ?case using s same_task_trans by (subst wait_ready.simps) (auto simp: status_read busy_bit r)
qed

lemma alt_reads:
  assumes "disk_hw io (ch_base ch) (ch_ctrl ch) view disk"
  shows "same_task view h (snd (port_reads (ide_reg_read io ch ATA_REG_ALT_STATUS) n h))"
proof (induction n arbitrary: h)
  case (Suc n)
  obtain st h1 where r: "io_inb io (ch_ctrl ch + 2) h = (st, h1)" by fastforce
  then have "same_task view h h1" using disk_hwD(4) [OF assms, of "ch_ctrl ch + 2" h] by simp
  then show ?case using Suc.IH [of h1] same_task_trans by (auto simp: status_read r split: prod.splits)
qed simp

lemma ide_polling_ok:
  assumes "disk_hw io (ch_base ch) (ch_ctrl ch) view disk"
  shows "\<exists>h'. ide_polling io ch h = Some h' \<and> same_task view h h'"
  using wait_ready_ok [OF assms] alt_reads [OF assms, of h 4] same_task_trans
  unfolding ide_polling_def by metis

section \<open>The task file\<close>

lemma lba_byte:
  "unat (ucast (lba AND 0xff) :: u8) = unat lba mod 256"
  "unat (ucast (drop_bit 8 (lba AND 0xff00)) :: u8) = unat lba div 256 mod 256"
  "unat (ucast (drop_bit 16 (lba AND 0xff0000)) :: u8) = unat lba div 65536 mod 256" for lba :: u32
proof -
  have u: "unat (ucast (drop_bit k lba) :: u8) = unat lba div 2 ^ k mod 256" for k
  proof -
    have "unat (drop_bit k lba) = drop_bit k (unat lba)"
      by (simp add: unsigned_drop_bit_eq take_bit_nat_eq_self)
    then have "unat (drop_bit k lba) = unat lba div 2 ^ k" by (simp only: drop_bit_eq_div)
    then show ?thesis by (simp add: unsigned_ucast_eq take_bit_eq_mod)
  qed
  have m: "ucast (drop_bit k (lba AND push_bit k (mask 8))) = (ucast (drop_bit k lba) :: u8)" for k
    by (rule bit_word_eqI) (auto simp: bit_simps dest: bit_imp_le_length)
  have n: "(0xff :: u32) = mask 8" "(0xff00 :: u32) = push_bit 8 (mask 8)" "(0xff0000 :: u32) = push_bit 16 (mask 8)"
    by (simp_all add: mask_eq_exp_minus_1)
  show "unat (ucast (lba AND 0xff) :: u8) = unat lba mod 256" using u [of 0] m [of 0] by (simp add: n(1))
  show "unat (ucast (drop_bit 8 (lba AND 0xff00)) :: u8) = unat lba div 256 mod 256" using u [of 8] unfolding n m by simp
  show "unat (ucast (drop_bit 16 (lba AND 0xff0000)) :: u8) = unat lba div 65536 mod 256" using u [of 16] unfolding n m by simp
qed

lemma low_24_bits: "x mod 256 + 256 * (x div 256 mod 256) + 65536 * (x div 65536 mod 256) = x mod 16777216" for x :: nat
proof -
  have "x mod (256 * 256) = 256 * (x div 256 mod 256) + x mod 256" by (rule mod_mult2_eq)
  moreover have "x mod (65536 * 256) = 65536 * (x div 65536 mod 256) + x mod 65536" by (rule mod_mult2_eq)
  ultimately show ?thesis by simp
qed

lemma reg_write_regs:
  assumes "disk_hw io (ch_base ch) (ch_ctrl ch) view disk" "2 \<le> r" "r \<le> 6"
  shows "dv_regs view (ide_reg_write io ch r v h) = (dv_regs view h)(r := v)"
proof -
  have "r < 8" using assms(3) by (simp add: word_less_nat_alt word_le_nat_alt)
  then show ?thesis using disk_hwD(1) [OF assms] by (simp add: low_reg_write)
qed

lemma ata_setup_regs:
  assumes hw: "disk_hw io (ch_base ch) (ch_ctrl ch) view disk" and lba: "lba_mode lba = 1" and s: "slave = 0 \<or> slave = 1"
    and n: "0 < n"
  shows "task_lba (dv_regs view (ata_setup io ch slave lba n h)) = unat lba mod 16777216"
    "task_count (dv_regs view (ata_setup io ch slave lba n h)) = unat n"
    "bit (dv_regs view (ata_setup io ch slave lba n h) 6) 4 \<longleftrightarrow> slave = 1"
proof -
  let ?r = "(dv_regs view h)(6 := 0xe0 OR push_bit 4 slave, 2 := n, 3 := ucast (lba AND 0xff),
      4 := ucast (drop_bit 8 (lba AND 0xff00)), 5 := ucast (drop_bit 16 (lba AND 0xff0000)))"
  have r: "dv_regs view (ata_setup io ch slave lba n h) = ?r"
    using lba by (simp add: ata_setup_def ata_regs reg_write_regs [OF hw])
  have t: "task_lba (f(6 := x, 2 := n, 3 := a, 4 := b, 5 := c)) = unat a + 256 * unat b + 65536 * unat c + 16777216 * unat (x AND 0xf)"
    for f x a b c by (simp add: task_lba_def ata_regs)
  have "(0xe0 OR push_bit 4 slave) AND 0xf = 0" using s by auto
  then show "task_lba (dv_regs view (ata_setup io ch slave lba n h)) = unat lba mod 16777216"
    unfolding r by (simp only: t lba_byte low_24_bits) simp
  show "task_count (dv_regs view (ata_setup io ch slave lba n h)) = unat n"
    using n unfolding r by (simp add: task_count_def ata_regs)
  show "bit (dv_regs view (ata_setup io ch slave lba n h) 6) 4 \<longleftrightarrow> slave = 1"
    using s unfolding r by (auto simp: bit_iff_odd)
qed

section \<open>Sectors\<close>

lemma port_reads_queue:
  assumes "disk_hw io base ctl view disk"
  shows "dv_queue view h = ws @ q \<Longrightarrow>
    \<exists>h'. port_reads (io_inw io base) (length ws) h = (ws, h') \<and> dv_queue view h' = q"
proof (induction ws arbitrary: h)
  case (Cons w ws)
  obtain h1 where 1: "io_inw io base h = (w, h1)" "dv_queue view h1 = ws @ q"
    using disk_hwD(7) [OF assms, of h w "ws @ q"] Cons.prems by (cases "io_inw io base h") auto
  then obtain h' where "port_reads (io_inw io base) (length ws) h1 = (ws, h')" "dv_queue view h' = q"
    using Cons.IH by blast
  then show ?case using 1 by simp
qed simp

lemma pio_read_loop_ok:
  assumes hw: "disk_hw io (ch_base ch) (ch_ctrl ch) view disk" and len: "\<And>k. length (d k) = 256"
  shows "dv_queue view h = concat (map d [lba..<lba + n]) \<Longrightarrow>
    \<exists>h'. pio_read_loop io ch n h = Some (concat (map d [lba..<lba + n]), h')"
proof (induction n arbitrary: h lba)
  case (Suc n)
  have u: "[lba..<lba + Suc n] = lba # [Suc lba..<Suc lba + n]" using upt_conv_Cons [of lba "lba + Suc n"] by simp
  obtain h1 where 1: "ide_polling io ch h = Some h1" "same_task view h h1" using ide_polling_ok [OF hw] by blast
  then have "dv_queue view h1 = d lba @ concat (map d [Suc lba..<Suc lba + n])"
    using Suc.prems unfolding u by (simp add: same_task_def)
  then obtain h2 where 2: "port_reads (io_inw io (ch_base ch)) 256 h1 = (d lba, h2)"
      "dv_queue view h2 = concat (map d [Suc lba..<Suc lba + n])"
    using port_reads_queue [OF hw] len [of lba] by metis
  obtain h3 where 3: "pio_read_loop io ch n h2 = Some (concat (map d [Suc lba..<Suc lba + n]), h3)"
    using Suc.IH [OF 2(2)] by blast
  have "pio_read_loop io ch (Suc n) h = Some (d lba @ concat (map d [Suc lba..<Suc lba + n]), h3)" by (simp add: 1(1) 2(1) 3)
  then show ?case unfolding u by simp
qed simp

lemma pio_start_ok:
  assumes "unat drive < length (ic_devices ctrl)" "ic_devices ctrl ! unat drive = d"
    "unat (id_channel d) < length (ic_channels ctrl)" "ic_channels ctrl ! unat (id_channel d) = ch"
    and hw: "disk_hw io (ch_base ch) (ch_ctrl ch) view disk"
  shows "\<exists>ctrl' h1. pio_start io ctrl drive lba n h
    = Some (ctrl', ch\<lparr>ch_no_int := 2\<rparr>, ata_setup io (ch\<lparr>ch_no_int := 2\<rparr>) (id_drive d) lba n h1)"
  using wait_ready_ok [of io "ch\<lparr>ch_no_int := 2\<rparr>" view disk "ide_reg_write io (ch\<lparr>ch_no_int := 2\<rparr>) ATA_REG_CONTROL 2 h"] assms
  by (auto simp: pio_start_def Let_def)


text \<open>A disk that is never busy and whose sector \<open>k\<close> is full of \<open>k\<close>.\<close>

definition toy_disk :: "bool \<Rightarrow> nat \<Rightarrow> u16 list" where
  "toy_disk b k = replicate 256 (of_nat k)"

definition toy_ports :: "((u8 \<Rightarrow> u8) \<times> u16 list) ports" where
  "toy_ports =
     \<lparr>io_inb = (\<lambda>p h. (0, h)),
      io_outb = (\<lambda>p v h. if p = 0x1f7
                   then (if v = 0x20 then (fst h, read_range (toy_disk (bit (fst h 6) 4)) (task_lba (fst h)) (task_count (fst h))) else h)
                   else if p = 0x3f6 then h else ((fst h)(ucast (p - 0x1f0) := v), snd h)),
      io_inw = (\<lambda>p h. (hd (snd h), (fst h, tl (snd h)))),
      io_outw = (\<lambda>p v h. h), io_inl = (\<lambda>p h. (0, h)), io_outl = (\<lambda>p v h. h)\<rparr>"

definition toy_view :: "((u8 \<Rightarrow> u8) \<times> u16 list) disk_view" where
  "toy_view = \<lparr>dv_regs = fst, dv_queue = snd, dv_busy = (\<lambda>_. 0)\<rparr>"

lemma toy_reg: "2 \<le> r \<Longrightarrow> r \<le> 6 \<Longrightarrow> io_outb toy_ports (0x1f0 + ucast r) v h = ((fst h)(r := v), snd h)" for r :: u8
proof -
  assume r: "2 \<le> r" "r \<le> 6"
  then have u: "unat r \<le> 6" by (simp add: word_le_nat_alt)
  have "unat (ucast r :: u16) = unat r" using u by (simp add: unsigned_ucast_eq take_bit_nat_eq_self)
  then have "unat (0x1f0 + ucast r :: u16) = 0x1f0 + unat r" using u by (simp add: unat_word_ariths)
  then have "0x1f0 + ucast r \<noteq> (0x1f7 :: u16)" "0x1f0 + ucast r \<noteq> (0x3f6 :: u16)" using u by auto
  moreover have "ucast (ucast r :: u16) = r" by (rule bit_word_eqI) (auto simp: bit_simps)
  ultimately show ?thesis by (simp add: toy_ports_def)
qed

lemma toy_hw: "disk_hw toy_ports 0x1f0 0x3f4 toy_view toy_disk"
  unfolding disk_hw_def
proof (intro conjI allI impI)
  fix h :: "(u8 \<Rightarrow> u8) \<times> u16 list" and r v :: u8
  assume "2 \<le> r \<and> r \<le> 6"
  then show "dv_regs toy_view (io_outb toy_ports (0x1f0 + ucast r) v h) = (dv_regs toy_view h)(r := v)"
    by (simp add: toy_reg toy_view_def)
qed (auto simp: toy_ports_def toy_view_def same_task_def)


end
