(* ===== verification/PageFault.thy ===== *)
theory PageFault
  imports Tasks
begin

text \<open>
  \<^verbatim>\<open>page_fault_handler\<close> of \<^verbatim>\<open>kernel/base/arch/i586/paging.c\<close>: the pages of the ranges that a process may use
  are backed when they are first accessed. A fault of the kernel itself is a panic, \<open>None\<close>. The address
  is the one the processor reports; flushing the TLB is left out.
\<close>

section \<open>The handler\<close>

fun find_map :: "(nat \<Rightarrow> memmap option) \<Rightarrow> nat list \<Rightarrow> u32 \<Rightarrow> bool option" where
  "find_map maps [] addr = Some False"
| "find_map maps (a # as) addr =
     do { m \<leftarrow> maps a; if memmap_check m addr then Some True else find_map maps as addr }"

definition fault_allowed :: "task \<Rightarrow> u32 \<Rightarrow> 'd tasking \<Rightarrow> bool option" where
  "fault_allowed t addr s =
     (if t_memmaps t = 0 then Some False
      else do { as \<leftarrow> tk_maplists s (t_memmaps t); find_map (tk_maps s) as addr })"

text \<open>\<open>*current->sem++\<close> advances the pointer; the semaphore stays as it is.\<close>

definition drop_sem :: "nat \<Rightarrow> task \<Rightarrow> 'd tasking \<Rightarrow> 'd tasking option" where
  "drop_sem a t s =
     (if t_sem t = 0 then Some s
      else do { _ \<leftarrow> tk_sems s (t_sem t); Some (set_task a (t\<lparr>t_sem := t_sem t + 4\<rparr>) s) })"

definition page_fault_handler ::
  "'d pobj_dtors \<Rightarrow> ('d tasking \<Rightarrow> 'd tasking option) \<Rightarrow> u32 \<Rightarrow> u32 list \<Rightarrow> u32 \<Rightarrow> 'd tasking \<Rightarrow> 'd tasking option" where
  "page_fault_handler dtors sched here junk addr s =
     do { a \<leftarrow> get_current_task s;
          t \<leftarrow> (if a = 0 then None else tk_tasks s a);
          found \<leftarrow> (if t_pid t = 0 then None else fault_allowed t addr s);
          if found
          then do { (pg, _) \<leftarrow> map_page junk (tk_paging s) (t_pagedir t) (addr AND NOT (PAGE_SIZE - 1))
                                (PAGE_USER OR PAGE_WRITEABLE OR PAGE_PRESENT);
                    Some (s\<lparr>tk_paging := pg\<rparr>) }
          else do { s1 \<leftarrow> drop_sem a t s;
                    (s2, _) \<leftarrow> remove_task_by_pid dtors sched here (t_pid t) s1;
                    Some s2 } }"

section \<open>What it does to a page\<close>

lemma find_map_ok:
  "\<forall>a \<in> set as. maps a \<noteq> None \<Longrightarrow>
   find_map maps as addr = Some (\<exists>a \<in> set as. \<exists>m. maps a = Some m \<and> memmap_check m addr)"
  by (induction as) auto

lemma page_index:
  "drop_bit 22 (addr AND NOT (PAGE_SIZE - 1)) = drop_bit 22 addr"
  "drop_bit 12 (addr AND NOT (PAGE_SIZE - 1)) = drop_bit 12 addr"
proof -
  have m: "PAGE_SIZE - 1 = mask 12" by (simp add: PAGE_SIZE_def mask_eq_exp_minus_1)
  show "drop_bit 22 (addr AND NOT (PAGE_SIZE - 1)) = drop_bit 22 addr"
    "drop_bit 12 (addr AND NOT (PAGE_SIZE - 1)) = drop_bit 12 addr"
    unfolding m by (rule bit_word_eqI; auto simp: bit_simps dest: bit_imp_le_length)+
qed

lemma get_page_index: "get_page pg dir (addr AND NOT (PAGE_SIZE - 1)) = get_page pg dir addr"
  by (simp only: get_page_def page_index)

lemma table_at_index: "table_at pg dir (addr AND NOT (PAGE_SIZE - 1)) t = table_at pg dir addr t"
  by (simp only: table_at_def page_index)


text \<open>The process 1 with one range, in the address space of a small machine.\<close>

definition fault_state :: "unit tasking" where
  "fault_state = two_tasks\<lparr>tk_current := 20, tk_paging := Paging.small_paging,
     tk_tasks := (tk_tasks two_tasks)(2 \<mapsto> idle_task_struct\<lparr>t_pid := 1, t_pagedir := 0x1000, t_memmaps := 40\<rparr>),
     tk_maplists := [40 \<mapsto> [50]], tk_maps := [50 \<mapsto> memmap_create 0x5000 0x7000 0 0]\<rparr>"


end
