(* ===== verification/VBE.thy ===== *)
theory VBE
  imports Interfaces Paging
begin

text \<open>
  \<^verbatim>\<open>kernel/modules/vbe/vbe.c\<close>: the console in a linear frame buffer. The frame buffer and the font file
  are lists of bytes, and an access outside of them is \<open>None\<close>.
\<close>

section \<open>State\<close>

definition VBE_BACKGROUND :: u32 where "VBE_BACKGROUND = 0x00121212"
definition VBE_FOREGROUND :: u32 where "VBE_FOREGROUND = 0x00d0d0c0"

text \<open>The fields of the header that are used, and the bytes of the whole file.\<close>

record psf2 =
  ps_header_size :: u32
  ps_charsize :: u32
  ps_height :: u32
  ps_width :: u32
  ps_bytes :: "u8 list"

record vbe_mode_block =
  vm_pitch :: u16
  vm_xres :: u16
  vm_yres :: u16
  vm_bpp :: u8
  vm_physbase :: u32

record vbe_device =
  vb_mode :: vbe_mode_block
  vb_font :: psf2
  vb_frame :: "u8 list"
  vb_text :: "u8 list"
  vb_xres :: u32
  vb_yres :: u32
  vb_bpp :: u32
  vb_pitch :: u32
  text_x :: u32
  text_y :: u32
  vb_x :: u32
  vb_y :: u32

section \<open>Drawing\<close>

definition fb_store :: "u8 list \<Rightarrow> nat \<Rightarrow> u32 \<Rightarrow> u8 list option" where
  "fb_store fb p v =
     (if p + 4 \<le> length fb then Some (take p fb @ bytes_of_u32 v @ drop (p + 4) fb) else None)"

definition set_pixel :: "u32 \<Rightarrow> u32 \<Rightarrow> u32 \<Rightarrow> vbe_device \<Rightarrow> vbe_device option" where
  "set_pixel x y val s =
     (if x < vb_xres s \<and> y < vb_yres s
      then map_option (\<lambda>fb. s\<lparr>vb_frame := fb\<rparr>) (fb_store (vb_frame s) (unat (y * vb_pitch s) + unat (x * 4)) val)
      else Some s)"

text \<open>A row of a glyph is one byte. A font without width, or with more than 32 columns, shifts by too much.\<close>

definition glyph_pixel :: "psf2 \<Rightarrow> u32 \<Rightarrow> nat \<Rightarrow> nat \<Rightarrow> bool option" where
  "glyph_pixel font c y x =
     do { b \<leftarrow> read_at (ps_bytes font) (unat (ps_header_size font) + unat (c * ps_charsize font + of_nat y));
          Some ((ucast b :: u32) AND drop_bit x (push_bit (unat (ps_width font) - 1) 1) \<noteq> 0) }"

definition draw_pixel :: "psf2 \<Rightarrow> u32 \<Rightarrow> nat \<Rightarrow> u8 list \<times> nat \<Rightarrow> nat \<Rightarrow> (u8 list \<times> nat) option" where
  "draw_pixel font c y = (\<lambda>(fb, place) x.
     do { on \<leftarrow> glyph_pixel font c y x;
          fb' \<leftarrow> fb_store fb place (if on then VBE_FOREGROUND else VBE_BACKGROUND);
          Some (fb', place + 4) })"

definition draw_row :: "psf2 \<Rightarrow> u32 \<Rightarrow> u32 \<Rightarrow> u8 list \<times> nat \<Rightarrow> nat \<Rightarrow> (u8 list \<times> nat) option" where
  "draw_row font xres c fbp y =
     map_option (\<lambda>(fb, place). (fb, place + 4 * unat (xres - ps_width font)))
       (bind_fold (draw_pixel font c y) fbp [0..<unat (ps_width font)])"

definition put_char :: "u32 \<Rightarrow> u32 \<Rightarrow> u32 \<Rightarrow> vbe_device \<Rightarrow> vbe_device option" where
  "put_char c xpos ypos s =
     (let font = vb_font s in
      if ps_width font = 0 \<or> 32 < ps_width font then None
      else do { (fb, _) \<leftarrow> bind_fold (draw_row font (vb_xres s) c)
                            (vb_frame s, unat (ypos * vb_pitch s) + unat (xpos * 4)) [0..<unat (ps_height font)];
                Some (s\<lparr>vb_frame := fb\<rparr>) })"

definition redraw_cell :: "nat \<Rightarrow> vbe_device \<Rightarrow> nat \<Rightarrow> vbe_device option" where
  "redraw_cell y s x =
     do { c \<leftarrow> read_at (vb_text s) (unat (of_nat y * text_x s + of_nat x));
          if c \<noteq> 0 then put_char (ucast c) (of_nat x * ps_width (vb_font s)) (of_nat y * ps_height (vb_font s)) s else Some s }"

definition redraw_textbuf :: "u32 \<Rightarrow> u32 \<Rightarrow> vbe_device \<Rightarrow> vbe_device option" where
  "redraw_textbuf startx starty s =
     bind_fold (\<lambda>s y. bind_fold (redraw_cell y) s [unat startx..<unat (text_x s)]) s [unat starty..<unat (text_y s)]"

definition clear_screen :: "vbe_device \<Rightarrow> vbe_device option" where
  "clear_screen s =
     do { s1 \<leftarrow> bind_fold (\<lambda>s y. bind_fold (\<lambda>s x. set_pixel (of_nat x) (of_nat y) VBE_BACKGROUND s) s
                                  [0..<unat (vm_xres (vb_mode s))]) s [0..<unat (vm_yres (vb_mode s))];
          Some (s1\<lparr>vb_y := 0, vb_x := 0\<rparr>) }"

section \<open>Writing\<close>

definition text_set :: "u32 \<Rightarrow> u8 \<Rightarrow> vbe_device \<Rightarrow> vbe_device option" where
  "text_set i ch s =
     (if sint i < 0 then None else map_option (\<lambda>t. s\<lparr>vb_text := t\<rparr>) (write_at (vb_text s) (unat i) ch))"

definition vbe_wrap :: "vbe_device \<Rightarrow> vbe_device" where
  "vbe_wrap s = (if vb_x s = text_x s then s\<lparr>vb_x := 0, vb_y := vb_y s + 1\<rparr> else s)"

text \<open>The pixels and the letters move up by one row of text.\<close>

definition vbe_scroll :: "vbe_device \<Rightarrow> vbe_device option" where
  "vbe_scroll s =
     (if text_y s - 1 \<le> vb_y s
      then do { fb \<leftarrow> bind_fold (copy_row (unat (vb_pitch s * ps_height (vb_font s)))) (vb_frame s) [0..<unat (text_y s - 1)];
                t \<leftarrow> bind_fold (copy_row (unat (text_x s))) (vb_text s) [0..<unat (text_y s - 1)];
                Some (s\<lparr>vb_frame := fb, vb_text := t, vb_y := text_y s - 2\<rparr>) }
      else Some s)"

text \<open>One round of the loop; \<open>starty\<close> is where the redrawing begins afterwards.\<close>

definition vbe_write_char :: "vbe_device \<times> u32 \<Rightarrow> u8 \<Rightarrow> (vbe_device \<times> u32) option" where
  "vbe_write_char = (\<lambda>(s, starty) ch.
     if ch = 10 then Some (s\<lparr>vb_y := vb_y s + 1, vb_x := 0\<rparr>, if starty \<noteq> 0 then starty - 1 else starty)
     else if ch = 13 then Some (s\<lparr>vb_x := 0\<rparr>, starty)
     else if ch = 8 then
       (let x = vb_x s - 1 in map_option (\<lambda>s'. (s', starty)) (text_set (x + vb_y s * text_x s) 8 (s\<lparr>vb_x := x\<rparr>)))
     else do { s1 \<leftarrow> vbe_scroll (vbe_wrap s);
               s2 \<leftarrow> text_set (vb_x s1 + vb_y s1 * text_x s1) ch s1;
               Some (s2\<lparr>vb_x := vb_x s2 + 1\<rparr>, starty) })"

definition vbe_hal_write :: "u8 list \<Rightarrow> vbe_device \<Rightarrow> (vbe_device \<times> int) option" where
  "vbe_hal_write str s =
     do { (s1, starty) \<leftarrow> bind_fold vbe_write_char (s, vb_y s) str;
          s2 \<leftarrow> redraw_textbuf 0 starty s1;
          Some (s2, int (length str)) }"

section \<open>Start\<close>

text \<open>The frame buffer is mapped to its own addresses.\<close>

partial_function (option) vbe_map_from :: "u32 list \<Rightarrow> u32 \<Rightarrow> u32 \<Rightarrow> paging \<Rightarrow> paging option" where
  "vbe_map_from junk pos end pg =
     (if pos < end
      then do { (pg1, _) \<leftarrow> map_r_page junk pg (pg_current_dir pg) pos pos (PAGE_WRITEABLE OR PAGE_PRESENT);
                vbe_map_from junk (pos + PAGE_SIZE) end pg1 }
      else Some pg)"

declare vbe_map_from.simps [code]

definition vbe_fresh :: "u8 list \<Rightarrow> vbe_mode_block \<Rightarrow> psf2 \<Rightarrow> vbe_device" where
  "vbe_fresh frame m f =
     (let tx = ucast (vm_xres m) div ps_width f; ty = ucast (vm_yres m) div ps_height f in
      \<lparr>vb_mode = m, vb_font = f, vb_frame = frame, vb_text = replicate (unat ty * unat tx) 0,
       vb_xres = ucast (vm_xres m), vb_yres = ucast (vm_yres m), vb_bpp = ucast (vm_bpp m),
       vb_pitch = ucast (vm_pitch m), text_x = tx, text_y = ty, vb_x = 0, vb_y = 0\<rparr>)"

text \<open>\<open>frame\<close> is the memory at \<open>physbase\<close>. Without mode, control block and font there is no device.\<close>

definition vbe_init ::
  "u32 list \<Rightarrow> u8 list \<Rightarrow> vbe_mode_block option \<Rightarrow> bool \<Rightarrow> psf2 option \<Rightarrow> paging \<Rightarrow> (paging \<times> vbe_device option) option" where
  "vbe_init junk frame mode info font pg =
     (case (mode, font) of
        (Some m, Some f) \<Rightarrow>
          if info
          then if ps_width f = 0 \<or> ps_height f = 0 then None
          else (let end = vm_physbase m + ucast (vm_xres m) * 4 + ucast (vm_yres m) * ucast (vm_pitch m) in
                do { pg1 \<leftarrow> vbe_map_from junk (vm_physbase m) end pg;
                     s1 \<leftarrow> clear_screen (vbe_fresh frame m f);
                     Some (pg1, Some s1) })
          else Some (pg, None)
      | _ \<Rightarrow> Some (pg, None))"

section \<open>The frame buffer is never left\<close>

text \<open>A font with 256 glyphs.\<close>

definition font_ok :: "psf2 \<Rightarrow> bool" where
  "font_ok f \<longleftrightarrow> 0 < ps_width f \<and> ps_width f \<le> 32 \<and> 0 < ps_height f \<and> unat (ps_height f) \<le> unat (ps_charsize f)
     \<and> 256 * unat (ps_charsize f) < 2 ^ 32 \<and> unat (ps_header_size f) + 256 * unat (ps_charsize f) \<le> length (ps_bytes f)"

text \<open>A packed mode of 32 bits a pixel, with at least one column and two rows of text.\<close>

definition vbe_ok :: "vbe_device \<Rightarrow> bool" where
  "vbe_ok s \<longleftrightarrow> font_ok (vb_font s)
     \<and> unat (vb_xres s) < 2 ^ 14 \<and> unat (vb_yres s) < 2 ^ 16 \<and> vb_pitch s = 4 * vb_xres s
     \<and> 4 * unat (vb_xres s) * unat (vb_yres s) \<le> length (vb_frame s)
     \<and> unat (text_x s) * unat (ps_width (vb_font s)) \<le> unat (vb_xres s)
     \<and> unat (text_y s) * unat (ps_height (vb_font s)) \<le> unat (vb_yres s)
     \<and> 1 \<le> text_x s \<and> 2 \<le> text_y s \<and> length (vb_text s) = unat (text_y s) * unat (text_x s) \<and> vb_x s \<le> text_x s"

lemma fb_store_ok: "p + 4 \<le> length fb \<Longrightarrow> \<exists>fb'. fb_store fb p v = Some fb' \<and> length fb' = length fb"
  by (simp add: fb_store_def bytes_of_u32_def)

lemma glyph_pixel_ok:
  assumes "font_ok f" "unat c < 256" "y < unat (ps_height f)"
  shows "\<exists>b. glyph_pixel f c y x = Some b"
proof -
  have y: "y < unat (ps_charsize f)" "256 * unat (ps_charsize f) < 2 ^ 32" using assms by (auto simp: font_ok_def)
  have m: "unat c * unat (ps_charsize f) + unat (ps_charsize f) \<le> 256 * unat (ps_charsize f)"
    using mult_le_mono1 [of "Suc (unat c)" 256 "unat (ps_charsize f)"] assms(2) by simp
  have "unat (of_nat y :: u32) = y" using y by (intro unat_of_nat_small) simp
  then have "unat (c * ps_charsize f + of_nat y) = unat c * unat (ps_charsize f) + y"
  proof -
    have "unat c * unat (ps_charsize f) + y < 2 ^ 32" using m y(2) less_le_trans [OF add_strict_left_mono [OF y(1)]] by (meson less_trans order_le_less_trans)
    then show ?thesis using \<open>unat (of_nat y :: u32) = y\<close> by (simp add: unat_word_ariths mod_add_left_eq)
  qed
  then have "unat (ps_header_size f) + unat (c * ps_charsize f + of_nat y) < length (ps_bytes f)"
    using m y(1) assms(1) unfolding font_ok_def by linarith
  then show ?thesis by (simp add: glyph_pixel_def)
qed

lemma draw_row_ok:
  assumes "font_ok f" "unat c < 256" "y < unat (ps_height f)" "unat (ps_width f) \<le> unat xres"
    and "place + 4 * unat (ps_width f) \<le> length fb"
  shows "\<exists>fb'. draw_row f xres c (fb, place) y = Some (fb', place + 4 * unat xres) \<and> length fb' = length fb"
proof -
  have "\<exists>r. bind_fold (draw_pixel f c y) (fb, place) [0..<unat (ps_width f)] = Some r
      \<and> length (fst r) = length fb \<and> snd r = place + 4 * unat (ps_width f)"
  proof (rule bind_fold_upt)
    fix k and s :: "u8 list \<times> nat"
    assume k: "k < unat (ps_width f)" "length (fst s) = length fb \<and> snd s = place + 4 * k"
    obtain b where "glyph_pixel f c y k = Some b" using glyph_pixel_ok [OF assms(1-3)] by blast
    moreover obtain fb' where "fb_store (fst s) (snd s) (if b then VBE_FOREGROUND else VBE_BACKGROUND) = Some fb'"
        "length fb' = length fb"
      using fb_store_ok [of "snd s" "fst s"] k assms(5) by fastforce
    ultimately show "\<exists>s'. draw_pixel f c y s k = Some s' \<and> length (fst s') = length fb \<and> snd s' = place + 4 * Suc k"
      using k(2) by (cases s) (simp add: draw_pixel_def)
  qed simp
  moreover have "unat (xres - ps_width f) = unat xres - unat (ps_width f)"
    using assms(4) by (simp add: unat_sub_if_size)
  ultimately show ?thesis using assms(4) by (auto simp: draw_row_def)
qed

lemma u32_mult: "unat v * unat w < 2 ^ 32 \<Longrightarrow> unat (v * w) = unat v * unat w" for v w :: u32
  by (simp add: unat_word_ariths)

lemma le_factor: "a * b \<le> c \<Longrightarrow> 0 < b \<Longrightarrow> a \<le> c" "a * b \<le> c \<Longrightarrow> 0 < a \<Longrightarrow> b \<le> c" for a b c :: nat
  using mult_le_mono2 [of 1 b a] mult_le_mono1 [of 1 a b] by linarith+

lemma vbe_place:
  assumes "vbe_ok s" "cx < unat (text_x s)" "cy < unat (text_y s)"
  shows "unat (of_nat cy * ps_height (vb_font s) * vb_pitch s) = 4 * unat (vb_xres s) * (cy * unat (ps_height (vb_font s)))"
    and "unat (of_nat cx * ps_width (vb_font s) * 4) = 4 * (cx * unat (ps_width (vb_font s)))"
    and "cx * unat (ps_width (vb_font s)) + unat (ps_width (vb_font s)) \<le> unat (vb_xres s)"
    and "cy * unat (ps_height (vb_font s)) + unat (ps_height (vb_font s)) \<le> unat (vb_yres s)"
proof -
  let ?w = "unat (ps_width (vb_font s))" and ?h = "unat (ps_height (vb_font s))"
  have r: "unat (vb_xres s) < 2 ^ 14" "unat (vb_yres s) < 2 ^ 16" and p: "vb_pitch s = 4 * vb_xres s"
    using assms(1) by (auto simp: vbe_ok_def)
  show x: "cx * ?w + ?w \<le> unat (vb_xres s)"
    using assms mult_le_mono1 [of "Suc cx" "unat (text_x s)" ?w] by (simp add: vbe_ok_def)
  show y: "cy * ?h + ?h \<le> unat (vb_yres s)"
    using assms mult_le_mono1 [of "Suc cy" "unat (text_y s)" ?h] by (simp add: vbe_ok_def)
  have c: "unat (of_nat cx :: u32) = cx" "unat (of_nat cy :: u32) = cy"
    using assms(2,3) less_trans [OF _ unat_u32_less] by (auto intro!: unat_of_nat_small)
  have m: "4 * unat (vb_xres s) * (cy * ?h) < 2 ^ 32"
  proof -
    have "4 * unat (vb_xres s) * (cy * ?h) \<le> (4 * 2 ^ 14) * (cy * ?h)" using r by (intro mult_le_mono1) simp
    also have "\<dots> < 2 ^ 32" using y r by simp
    finally show ?thesis .
  qed
  have "cy * ?h < 2 ^ 32" "cx * ?w < 2 ^ 32" "4 * (cx * ?w) < 2 ^ 32" using x y r by simp_all
  note b = this
  have h: "unat (of_nat cy * ps_height (vb_font s)) = cy * ?h"
    using u32_mult b(1) c(2) by simp
  have q: "unat (vb_pitch s) = 4 * unat (vb_xres s)" using r(1) by (simp add: p unat_word_ariths)
  show "unat (of_nat cy * ps_height (vb_font s) * vb_pitch s) = 4 * unat (vb_xres s) * (cy * ?h)"
    using u32_mult [of "of_nat cy * ps_height (vb_font s)" "vb_pitch s"] m by (simp add: h q ac_simps)
  have "unat (of_nat cx * ps_width (vb_font s)) = cx * ?w" using u32_mult b(2) c(1) by simp
  then show "unat (of_nat cx * ps_width (vb_font s) * 4) = 4 * (cx * ?w)"
    using u32_mult [of "of_nat cx * ps_width (vb_font s)" 4] b(3) by simp
qed

text \<open>The place of a letter in the text.\<close>

lemma text_index:
  assumes "vbe_ok s" "x < unat (text_x s)" "y < unat (text_y s)"
  shows "unat (of_nat y * text_x s + of_nat x) = y * unat (text_x s) + x"
    and "y * unat (text_x s) + x < length (vb_text s)" and "y * unat (text_x s) + x < 2 ^ 31"
proof -
  have l: "length (vb_text s) = unat (text_y s) * unat (text_x s)" using assms(1) by (simp add: vbe_ok_def)
  have c: "unat (of_nat x :: u32) = x" "unat (of_nat y :: u32) = y"
    using assms(2,3) less_trans [OF _ unat_u32_less] by (auto intro!: unat_of_nat_small)
  have "y * unat (text_x s) + unat (text_x s) \<le> unat (text_y s) * unat (text_x s)"
    using mult_le_mono1 [of "Suc y" "unat (text_y s)" "unat (text_x s)"] assms(3) by simp
  then show i: "y * unat (text_x s) + x < length (vb_text s)" using assms(2) l by linarith
  have f: "0 < unat (ps_width (vb_font s))" "0 < unat (ps_height (vb_font s))"
    using assms(1) by (auto simp: vbe_ok_def font_ok_def word_less_nat_alt)
  have "unat (text_x s) \<le> unat (vb_xres s)" "unat (text_y s) \<le> unat (vb_yres s)"
    using assms(1) le_factor(1) f by (auto simp: vbe_ok_def)
  then have "unat (text_y s) * unat (text_x s) \<le> 2 ^ 16 * 2 ^ 14"
    using assms(1) by (intro mult_le_mono) (auto simp: vbe_ok_def)
  then show b: "y * unat (text_x s) + x < 2 ^ 31" using i l by simp
  then have "unat (of_nat y * text_x s) = y * unat (text_x s)" using u32_mult [of "of_nat y" "text_x s"] c by simp
  then show "unat (of_nat y * text_x s + of_nat x) = y * unat (text_x s) + x"
    using b c by (simp add: unat_word_ariths)
qed

lemma put_char_ok:
  assumes "vbe_ok s" "unat c < 256" "cx < unat (text_x s)" "cy < unat (text_y s)"
  shows "\<exists>fb. put_char c (of_nat cx * ps_width (vb_font s)) (of_nat cy * ps_height (vb_font s)) s = Some (s\<lparr>vb_frame := fb\<rparr>)
    \<and> length fb = length (vb_frame s)"
proof -
  let ?f = "vb_font s"
  let ?w = "unat (ps_width ?f)" and ?h = "unat (ps_height ?f)" and ?r = "4 * unat (vb_xres s)"
  let ?p = "?r * (cy * ?h) + 4 * (cx * ?w)"
  note pl = vbe_place [OF assms(1,3,4)]
  have f: "font_ok ?f" "?r * unat (vb_yres s) \<le> length (vb_frame s)" using assms(1) by (auto simp: vbe_ok_def)
  have row: "?p + ?r * k + 4 * ?w \<le> length (vb_frame s)" if "k < ?h" for k
  proof -
    have "?r * (cy * ?h) + ?r * k + ?r = ?r * (cy * ?h + k + 1)" by (simp add: algebra_simps)
    also have "\<dots> \<le> ?r * unat (vb_yres s)" using pl(4) that by (intro mult_le_mono2) simp
    finally show ?thesis using pl(3) f(2) by simp
  qed
  have "\<exists>r. bind_fold (draw_row ?f (vb_xres s) c) (vb_frame s, ?p) [0..<?h] = Some r
      \<and> length (fst r) = length (vb_frame s) \<and> snd r = ?p + ?r * ?h"
  proof (rule bind_fold_upt [where P = "\<lambda>k r. length (fst r) = length (vb_frame s) \<and> snd r = ?p + ?r * k"])
    fix k and r :: "u8 list \<times> nat"
    assume k: "k < ?h" "length (fst r) = length (vb_frame s) \<and> snd r = ?p + ?r * k"
    have "?w \<le> unat (vb_xres s)" using pl(3) by simp
    from draw_row_ok [OF f(1) assms(2) k(1) this, of "snd r" "fst r"] row [OF k(1)] k(2)
    show "\<exists>r'. draw_row ?f (vb_xres s) c r k = Some r' \<and> length (fst r') = length (vb_frame s) \<and> snd r' = ?p + ?r * Suc k"
      by (cases r) (auto simp: algebra_simps)
  qed simp
  moreover have "ps_width ?f \<noteq> 0" "\<not> 32 < ps_width ?f" using f(1) by (auto simp: font_ok_def)
  ultimately show ?thesis using pl(1,2) by (auto simp: put_char_def Let_def)
qed

lemma unat_ucast_u8: "unat (ucast w :: u32) < 256" for w :: u8
proof -
  have w: "unat w < 256" using unsigned_less [of w] by simp
  then show ?thesis by (simp add: unsigned_ucast_eq take_bit_nat_eq_self)
qed

lemma redraw_cell_ok:
  assumes "vbe_ok s" "x < unat (text_x s)" "y < unat (text_y s)"
  shows "\<exists>fb. redraw_cell y s x = Some (s\<lparr>vb_frame := fb\<rparr>) \<and> length fb = length (vb_frame s)"
proof -
  note i = text_index [OF assms]
  have "unat (ucast (vb_text s ! (y * unat (text_x s) + x)) :: u32) < 256"
    using unat_ucast_u8 [of "vb_text s ! (y * unat (text_x s) + x)"] by simp
  from put_char_ok [OF assms(1) this assms(2,3)] i show ?thesis
    by (auto simp: redraw_cell_def intro: exI [of _ "vb_frame s"])
qed

text \<open>Redrawing changes pixels and nothing else.\<close>

lemma redraw_ok:
  assumes "vbe_ok s"
  shows "\<exists>s'. redraw_textbuf 0 starty s = Some s' \<and> vbe_ok s' \<and> vb_text s' = vb_text s \<and> vb_x s' = vb_x s \<and> vb_y s' = vb_y s"
proof -
  let ?P = "\<lambda>s'. \<exists>fb. s' = s\<lparr>vb_frame := fb\<rparr> \<and> length fb = length (vb_frame s)"
  have cell: "\<exists>s2. redraw_cell y s1 x = Some s2 \<and> ?P s2" if P: "?P s1" and xy: "x < unat (text_x s)" "y < unat (text_y s)" for s1 x y
  proof -
    have "vbe_ok s1" "text_x s1 = text_x s" "text_y s1 = text_y s" using P assms by (auto simp: vbe_ok_def)
    with redraw_cell_ok [of s1 x y] xy P show ?thesis by auto
  qed
  have row: "\<exists>s2. bind_fold (redraw_cell y) s1 [unat (0::u32)..<unat (text_x s1)] = Some s2 \<and> ?P s2"
    if "?P s1" "y \<in> set [unat starty..<unat (text_y s)]" for s1 y
  proof -
    have "text_x s1 = text_x s" using that(1) by auto
    then show ?thesis using that by (intro bind_fold_inv cell) auto
  qed
  have "\<exists>s2. redraw_textbuf 0 starty s = Some s2 \<and> ?P s2"
    unfolding redraw_textbuf_def by (rule bind_fold_inv [where P = ?P]) (use row in \<open>auto intro: exI [of _ "vb_frame s"]\<close>)
  then show ?thesis using assms by (auto simp: vbe_ok_def)
qed

lemma vbe_scroll_ok:
  assumes "vbe_ok s"
  shows "\<exists>s'. vbe_scroll s = Some s' \<and> vbe_ok s' \<and> vb_x s' = vb_x s \<and> vb_y s' < text_y s' - 1 \<and> text_x s' = text_x s"
proof (cases "text_y s - 1 \<le> vb_y s")
  case True
  let ?n = "unat (text_y s) - 1" and ?h = "unat (ps_height (vb_font s))"
  let ?m = "unat (vb_pitch s * ps_height (vb_font s))"
  have n: "unat (text_y s - 1) = ?n" "2 \<le> unat (text_y s)"
    using assms by (auto simp: vbe_ok_def word_le_nat_alt unat_sub_if_size)
  have yh: "unat (text_y s) * ?h \<le> unat (vb_yres s)" and xy: "4 * unat (vb_xres s) * unat (vb_yres s) \<le> length (vb_frame s)"
    and r: "unat (vb_xres s) < 2 ^ 14" "unat (vb_yres s) < 2 ^ 16" "vb_pitch s = 4 * vb_xres s"
    using assms by (auto simp: vbe_ok_def)
  have q: "unat (vb_pitch s) = 4 * unat (vb_xres s)" using r(1) by (simp add: r(3) unat_word_ariths)
  have "unat (vb_pitch s) * ?h \<le> unat (vb_pitch s) * unat (vb_yres s)"
    using le_factor(2) [OF yh] n(2) by (intro mult_le_mono2) simp
  also have "\<dots> \<le> (4 * 2 ^ 14) * unat (vb_yres s)" using r(1) q by (intro mult_le_mono1) simp
  also have "\<dots> < 2 ^ 32" using r(2) by simp
  finally have m: "?m = 4 * unat (vb_xres s) * ?h" using u32_mult q by simp
  have "(?n + 1) * ?m = 4 * unat (vb_xres s) * (unat (text_y s) * ?h)" using n(2) by (simp add: m)
  also have "\<dots> \<le> length (vb_frame s)" using mult_le_mono2 [OF yh] xy order_trans by blast
  finally have fl: "(?n + 1) * ?m \<le> length (vb_frame s)" .
  have tl: "(?n + 1) * unat (text_x s) \<le> length (vb_text s)" "length (vb_text s) = unat (text_y s) * unat (text_x s)"
    using assms n(2) by (auto simp: vbe_ok_def)
  obtain fb where fb: "bind_fold (copy_row ?m) (vb_frame s) [0..<?n] = Some fb" "length fb = length (vb_frame s)"
    using copy_rows [OF order_refl fl] fl by (simp add: algebra_simps)
  obtain t where t: "bind_fold (copy_row (unat (text_x s))) (vb_text s) [0..<?n] = Some t" "length t = length (vb_text s)"
    using copy_rows [OF order_refl tl(1)] tl(1) by (simp add: algebra_simps)
  have "vbe_scroll s = Some (s\<lparr>vb_frame := fb, vb_text := t, vb_y := text_y s - 2\<rparr>)"
    using True fb(1) t(1) by (simp add: vbe_scroll_def n(1))
  moreover have "text_y s - 2 < text_y s - 1" using n(2) by (simp add: word_less_nat_alt unat_sub_if_size)
  ultimately show ?thesis using assms fb(2) t(2) by (auto simp: vbe_ok_def)
next
  case False
  then show ?thesis using assms by (auto simp: vbe_scroll_def)
qed

lemma vbe_write_char_ok:
  assumes "vbe_ok (fst p)" "ch \<noteq> 8"
  shows "\<exists>p'. vbe_write_char p ch = Some p' \<and> vbe_ok (fst p')"
proof (cases "ch = 10 \<or> ch = 13")
  case True
  then show ?thesis using assms by (cases p) (auto simp: vbe_write_char_def vbe_ok_def)
next
  case False
  obtain s starty where p: "p = (s, starty)" by (cases p)
  have w: "vbe_ok (vbe_wrap s)" "vb_x (vbe_wrap s) < text_x (vbe_wrap s)"
    using assms(1) p by (auto simp: vbe_wrap_def vbe_ok_def order_less_le)
  obtain s1 where s1: "vbe_scroll (vbe_wrap s) = Some s1" "vbe_ok s1" "vb_x s1 < text_x s1" "vb_y s1 < text_y s1 - 1"
    using vbe_scroll_ok [OF w(1)] w(2) by auto
  have y: "unat (vb_y s1) < unat (text_y s1)"
    using s1(2,4) by (auto simp: vbe_ok_def word_less_nat_alt word_le_nat_alt unat_sub_if_size)
  have x: "unat (vb_x s1) < unat (text_x s1)" "vb_x s1 + 1 \<le> text_x s1"
    using s1(3) by (auto simp: word_less_nat_alt inc_le)
  have "unat (vb_y s1 * text_x s1 + vb_x s1) < length (vb_text s1)" "unat (vb_y s1 * text_x s1 + vb_x s1) < 2 ^ 31"
    using text_index [OF s1(2) x(1) y] by simp_all
  then obtain t where "text_set (vb_x s1 + vb_y s1 * text_x s1) ch s1 = Some (s1\<lparr>vb_text := t\<rparr>)" "length t = length (vb_text s1)"
    using sint_of_nat_u32 [of "unat (vb_y s1 * text_x s1 + vb_x s1)"]
    by (auto simp: text_set_def add.commute [of "vb_x s1"])
  then show ?thesis using False assms(2) s1 x(2) p by (auto simp: vbe_write_char_def vbe_ok_def)
qed

interpretation fbcon: safe_device "\<lambda>p. vbe_ok (fst p)" "\<lambda>ch. ch \<noteq> 8" vbe_write_char
  by unfold_locales (rule vbe_write_char_ok)

text \<open>The device that starts is in order, when the mode is packed and has 32 bits a pixel.\<close>

lemma bind_fold_keeps:
  assumes "\<And>x s s'. f s x = Some s' \<Longrightarrow> P s \<Longrightarrow> P s'"
  shows "bind_fold f s xs = Some s' \<Longrightarrow> P s \<Longrightarrow> P s'"
proof (induction xs arbitrary: s)
  case (Cons x xs)
  then obtain s1 where "f s x = Some s1" "bind_fold f s1 xs = Some s'" by (auto split: bind_splits)
  then show ?case using Cons assms by blast
qed simp

lemma set_pixel_keeps: "set_pixel x y v s = Some s' \<Longrightarrow> vbe_ok s \<Longrightarrow> vbe_ok s'"
  by (auto simp: set_pixel_def fb_store_def bytes_of_u32_def vbe_ok_def split: if_splits)

lemma clear_screen_keeps:
  assumes "clear_screen s = Some s'" "vbe_ok s"
  shows "vbe_ok s' \<and> vb_x s' = 0 \<and> vb_y s' = 0"
proof -
  obtain s1 where s1: "bind_fold (\<lambda>s y. bind_fold (\<lambda>s x. set_pixel (of_nat x) (of_nat y) VBE_BACKGROUND s) s
      [0..<unat (vm_xres (vb_mode s))]) s [0..<unat (vm_yres (vb_mode s))] = Some s1" "s' = s1\<lparr>vb_y := 0, vb_x := 0\<rparr>"
    using assms(1) by (auto simp: clear_screen_def split: bind_splits)
  have "vbe_ok s1"
  proof (rule bind_fold_keeps [where P = vbe_ok, OF _ s1(1) assms(2)])
    fix y and s2 s3 :: vbe_device
    assume r: "bind_fold (\<lambda>s x. set_pixel (of_nat x) (of_nat y) VBE_BACKGROUND s) s2 [0..<unat (vm_xres (vb_mode s2))] = Some s3"
      "vbe_ok s2"
    show "vbe_ok s3" by (rule bind_fold_keeps [where P = vbe_ok, OF _ r]) (rule set_pixel_keeps)
  qed
  then show ?thesis using s1(2) by (simp add: vbe_ok_def)
qed

lemma unat_ucast_u16: "unat (ucast w :: u32) = unat w" "unat w < 2 ^ 16" for w :: u16
proof -
  show "unat w < 2 ^ 16" using unsigned_less [of w] by simp
  then show "unat (ucast w :: u32) = unat w" by (simp add: unsigned_ucast_eq take_bit_nat_eq_self)
qed

lemma vbe_init_ok:
  assumes "vbe_init junk frame (Some m) True (Some f) pg = Some (pg', Some s)" "font_ok f"
    and "unat (vm_xres m) < 2 ^ 14" "vm_pitch m = 4 * vm_xres m"
    and "4 * unat (vm_xres m) * unat (vm_yres m) \<le> length frame"
    and "ps_width f \<le> ucast (vm_xres m)" "2 * unat (ps_height f) \<le> unat (vm_yres m)"
  shows "vbe_ok s \<and> vb_x s = 0 \<and> vb_y s = 0"
proof -
  have fo: "0 < unat (ps_width f)" "0 < unat (ps_height f)"
    using assms(2) by (auto simp: font_ok_def word_less_nat_alt)
  have w: "unat (ps_width f) \<le> unat (vm_xres m)" using assms(6) by (simp add: word_le_nat_alt unat_ucast_u16)
  have "unat (vm_pitch m) = 4 * unat (vm_xres m)" using assms(3,4) by (simp add: unat_word_ariths)
  then have p: "(ucast (vm_pitch m) :: u32) = 4 * ucast (vm_xres m)"
    using assms(3) by (simp add: word_unat_eq_iff unat_ucast_u16 unat_word_ariths)
  have d: "1 \<le> unat (vm_xres m) div unat (ps_width f)" "2 \<le> unat (vm_yres m) div unat (ps_height f)"
    using w assms(7) fo by (simp_all add: less_eq_div_iff_mult_less_eq)
  have "vbe_ok (vbe_fresh frame m f)"
    using assms(2,3,5) d fo div_times_less_eq_dividend [of "unat (vm_xres m)" "unat (ps_width f)"]
      div_times_less_eq_dividend [of "unat (vm_yres m)" "unat (ps_height f)"] unat_ucast_u16(2) [of "vm_yres m"]
    by (simp add: vbe_fresh_def Let_def vbe_ok_def p unat_div unat_ucast_u16(1) word_le_nat_alt)
  moreover have "clear_screen (vbe_fresh frame m f) = Some s"
    using assms(1) by (auto simp: vbe_init_def Let_def split: bind_splits if_splits)
  ultimately show ?thesis using clear_screen_keeps by blast
qed

text \<open>C13. Text without backspaces is written without leaving the frame buffer, the text or the font, whatever
  the cursor, line feeds and wrapped lines do, and the console is in order afterwards.\<close>

theorem vbe_write_in_bounds:
  assumes "vbe_ok s" "list_all (\<lambda>ch. ch \<noteq> 8) str"
  shows "\<exists>s'. vbe_hal_write str s = Some (s', int (length str)) \<and> vbe_ok s'"
proof -
  obtain p where p: "bind_fold vbe_write_char (s, vb_y s) str = Some p" "vbe_ok (fst p)"
    using fbcon.run_ok [of "(s, vb_y s)" str] assms by auto
  then show ?thesis using redraw_ok [OF p(2), of "snd p"] by (cases p) (auto simp: vbe_hal_write_def)
qed

text \<open>Five letters and a line feed on a screen of two rows with two letters each.\<close>

definition example_console :: vbe_device where
  "example_console =
     (let font = \<lparr>ps_header_size = 1, ps_charsize = 1, ps_height = 1, ps_width = 1, ps_bytes = replicate 257 1\<rparr>;
          m = \<lparr>vm_pitch = 8, vm_xres = 2, vm_yres = 2, vm_bpp = 32, vm_physbase = 0\<rparr> in
      \<lparr>vb_mode = m, vb_font = font, vb_frame = replicate 16 0, vb_text = replicate 4 0, vb_xres = 2, vb_yres = 2,
       vb_bpp = 32, vb_pitch = 8, text_x = 2, text_y = 2, vb_x = 0, vb_y = 0\<rparr>)"

theorem vbe_write_in_bounds_witness:
  "vbe_ok example_console \<and> list_all (\<lambda>ch. ch \<noteq> 8) [65, 66, 67, 68, 69, 10 :: u8] \<and>
   (\<exists>s'. vbe_hal_write [65, 66, 67, 68, 69, 10] example_console = Some (s', 6) \<and> vbe_ok s')"
proof -
  have "vbe_ok example_console" by (simp add: example_console_def vbe_ok_def font_ok_def Let_def)
  moreover have "list_all (\<lambda>ch. ch \<noteq> 8) [65, 66, 67, 68, 69, 10 :: u8]" by simp
  ultimately show ?thesis using vbe_write_in_bounds [of example_console "[65, 66, 67, 68, 69, 10]"] by simp
qed

end
