(* ===== verification/VfsInit.thy ===== *)
theory VfsInit
  imports RamFS
begin

text \<open>
  \<open>init_vfs\<close> of \<^verbatim>\<open>kernel/base/vfs/vfs.c\<close>: the tree of directories that the kernel starts with. The
  system calls it registers are those of the theory \<open>Interrupts\<close>; what it prints is left out.
\<close>

text \<open>Two lists with their dummy nodes; nothing is registered, no address is in use.\<close>

definition vfs_blank :: "ramdev vfs" where
  "vfs_blank =
     \<lparr>vs_nodes = Map.empty, vs_mounts = Map.empty, vs_fss = Map.empty, vs_drivers = Map.empty,
      vs_driver_list = [0], vs_mount_list = [0], vs_root = 0, vs_froot = 0, vs_curdir = 0, vs_next = 1,
      vs_dev = \<lparr>rd_heads = Map.empty\<rparr>\<rparr>"

definition ramfs_tbl :: "(nat \<Rightarrow> u8) \<Rightarrow> 'x ramdev_scheme func_table" where
  "ramfs_tbl junk k = (if k = RamfsFuncs then Some (ramfs_functions junk) else None)"

definition ramfs_create :: "fs_kind \<Rightarrow> 'x ramvfs \<Rightarrow> string option \<Rightarrow> u32 \<Rightarrow> ('x ramvfs \<times> nat) option" where
  "ramfs_create k s device flags = (if k = RamfsFuncs then create_ramfs s else None)"

text \<open>The call \<open>VFS_FUNCTION(( &filebuf ), mkdir, name, 0 )\<close>, whose result is not looked at.\<close>

definition make_dir :: "'d func_table \<Rightarrow> file_node \<Rightarrow> 'd vfs \<Rightarrow> string \<Rightarrow> 'd vfs option" where
  "make_dir tbl filebuf s name =
     do { fn \<leftarrow> VFS_FUNCTION tbl ff_mkdir s filebuf;
          case fn of None \<Rightarrow> Some s | Some f \<Rightarrow> map_option fst (f s filebuf name 0) }"

text \<open>The names of the drivers are read for a message. A lookup that fails leaves \<open>filebuf\<close> undefined.\<close>

definition init_vfs ::
  "'x ramdev_scheme func_table \<Rightarrow> (fs_kind \<Rightarrow> 'x ramvfs \<Rightarrow> string option \<Rightarrow> u32 \<Rightarrow> ('x ramvfs \<times> nat) option) \<Rightarrow>
   'x ramvfs \<Rightarrow> ('x ramvfs \<times> int) option" where
  "init_vfs tbl create s =
     do { (s1, _) \<leftarrow> init_ramfs (s\<lparr>vs_driver_list := [0], vs_mount_list := [0]\<rparr>);
          _ \<leftarrow> bind_fold (\<lambda>_ d. map_option (\<lambda>_. ()) (vs_drivers s1 d)) () (vs_driver_list s1);
          (s2, stuff) \<leftarrow> file_mount_filesystem tbl create s1 ''/'' None ''ramfs'' 0;
          if stuff < 0 then Some (s2, 0)
          else do {
            (s3, _, buf) \<leftarrow> file_lookup_absolute tbl s2 ''/test'' 0;
            filebuf \<leftarrow> buf;
            s4 \<leftarrow> bind_fold (make_dir tbl filebuf) s3 [''devices'', ''somedir'', ''fatdir'', ''boot'', ''userroot''];
            (s5, foobar) \<leftarrow> file_mount_filesystem tbl create s4 ''/test/somedir'' None ''ramfs'' 0;
            if 0 \<le> foobar
            then do { (s6, _, buf') \<leftarrow> file_lookup_absolute tbl s5 ''/test/somedir'' 0;
                      filebuf' \<leftarrow> buf';
                      s7 \<leftarrow> make_dir tbl filebuf' s6 ''wut'';
                      Some (s7, 0) }
            else Some (s5, 0)
          } }"

text \<open>What a path leads to: the result of the lookup, and the kind of the node found.\<close>

definition path_kind :: "(nat \<Rightarrow> u8) \<Rightarrow> ramdev vfs \<Rightarrow> string \<Rightarrow> (int \<times> file_type option) option" where
  "path_kind junk s path =
     do { (s1, r, buf) \<leftarrow> file_lookup_absolute (ramfs_tbl junk) s path 0;
          case buf of
            None \<Rightarrow> Some (r, None)
          | Some n \<Rightarrow> do { (s2, r2, info) \<leftarrow> ramfs_node_get_info s1 n; Some (r, map_option fi_type info) } }"

definition boot_paths :: "string list" where
  "boot_paths = [''/'', ''/test'', ''/test/devices'', ''/test/fatdir'', ''/test/boot'', ''/test/userroot'',
     ''/test/somedir'', ''/test/somedir/test'', ''/test/somedir/wut'', ''/test/./somedir/wut/'']"


end
