(* ===== verification/Serial.thy ===== *)
theory Serial
  imports PCI
begin

text \<open>
  \<^verbatim>\<open>kernel/base/arch/i586/serial.c\<close>: the serial line under the kernel log. It is written byte by byte,
  with waiting in between; a line that never gets ready is \<open>None\<close>. The theorem at the end is what the
  theory \<open>Logger\<close> builds on: the bytes that are written appear on the line, in order.
\<close>

definition SERIAL_PORT :: u16 where "SERIAL_PORT = 0x3f8"

definition init_serial :: "'h ports \<Rightarrow> 'h \<Rightarrow> 'h" where
  "init_serial io h =
     fold (\<lambda>(p, v). io_outb io (SERIAL_PORT + p) v)
       [(1, 0x00), (3, 0x80), (0, 0x01), (1, 0x00), (3, 0x03), (2, 0xc7), (4, 0x0b)] h"

definition serial_recieved :: "'h ports \<Rightarrow> 'h \<Rightarrow> bool \<times> 'h" where
  "serial_recieved io h = (let (st, h') = io_inb io (SERIAL_PORT + 5) h in (st AND 1 \<noteq> 0, h'))"

definition transmit_empty :: "'h ports \<Rightarrow> 'h \<Rightarrow> bool \<times> 'h" where
  "transmit_empty io h = (let (st, h') = io_inb io (SERIAL_PORT + 5) h in (st AND 0x20 \<noteq> 0, h'))"

partial_function (option) wait_until :: "('h \<Rightarrow> bool \<times> 'h) \<Rightarrow> 'h \<Rightarrow> 'h option" where
  "wait_until ready h = (let (b, h') = ready h in if b then Some h' else wait_until ready h')"

declare wait_until.simps [code]

fun read_serial :: "'h ports \<Rightarrow> nat \<Rightarrow> 'h \<Rightarrow> ('h \<times> u8 list) option" where
  "read_serial io 0 h = Some (h, [])"
| "read_serial io (Suc n) h =
     do { h1 \<leftarrow> wait_until (serial_recieved io) h;
          let (b, h2) = io_inb io SERIAL_PORT h1;
          (h3, bs) \<leftarrow> read_serial io n h2;
          Some (h3, b # bs) }"

definition send_byte :: "'h ports \<Rightarrow> 'h \<Rightarrow> u8 \<Rightarrow> 'h option" where
  "send_byte io h b = map_option (io_outb io SERIAL_PORT b) (wait_until (transmit_empty io) h)"

definition write_serial :: "'h ports \<Rightarrow> u8 list \<Rightarrow> 'h \<Rightarrow> ('h \<times> u32) option" where
  "write_serial io buf h = map_option (\<lambda>h'. (h', of_nat (length buf))) (bind_fold (send_byte io) h buf)"

section \<open>What arrives\<close>

text \<open>What is known of the hardware: how often the status will still be busy, and the bytes on the line. The
  sixth bit of the status says that a byte can be sent.\<close>

record 'h uart_view =
  uv_busy :: "'h \<Rightarrow> nat"
  uv_wire :: "'h \<Rightarrow> u8 list"

definition uart_hw :: "'h ports \<Rightarrow> 'h uart_view \<Rightarrow> bool" where
  "uart_hw io view \<longleftrightarrow>
     (\<forall>h. (bit (fst (io_inb io 0x3fd h)) 5 \<longleftrightarrow> uv_busy view h = 0)
        \<and> uv_busy view (snd (io_inb io 0x3fd h)) = uv_busy view h - 1
        \<and> uv_wire view (snd (io_inb io 0x3fd h)) = uv_wire view h)
   \<and> (\<forall>h b. uv_wire view (io_outb io 0x3f8 b h) = uv_wire view h @ [b])"

lemma and_0x20: "c AND 0x20 \<noteq> 0 \<longleftrightarrow> bit c 5" for c :: u8
proof -
  have "c AND push_bit 5 1 = (if bit c 5 then push_bit 5 1 else 0)"
    by (rule bit_word_eqI) (auto simp del: push_bit_of_1 simp: bit_simps less_Suc_eq)
  then show ?thesis by simp
qed

lemma wait_transmit:
  assumes "uart_hw io view"
  shows "\<exists>h'. wait_until (transmit_empty io) h = Some h' \<and> uv_wire view h' = uv_wire view h"
proof (induction "uv_busy view h" arbitrary: h)
  case 0
  then have "bit (fst (io_inb io 0x3fd h)) 5" "uv_wire view (snd (io_inb io 0x3fd h)) = uv_wire view h"
    using assms by (auto simp: uart_hw_def)
  then show ?case
    by (subst wait_until.simps) (auto simp: transmit_empty_def SERIAL_PORT_def and_0x20 split: prod.splits)
next
  case (Suc n)
  obtain st h1 where r: "io_inb io 0x3fd h = (st, h1)" by fastforce
  have "bit (fst (io_inb io 0x3fd h)) 5 \<longleftrightarrow> uv_busy view h = 0"
       "uv_busy view (snd (io_inb io 0x3fd h)) = uv_busy view h - 1"
       "uv_wire view (snd (io_inb io 0x3fd h)) = uv_wire view h"
    using assms by (auto simp: uart_hw_def)
  then have "\<not> bit st 5" "n = uv_busy view h1" and w: "uv_wire view h1 = uv_wire view h"
    using r Suc.hyps(2) by simp_all
  moreover obtain h' where "wait_until (transmit_empty io) h1 = Some h'" "uv_wire view h' = uv_wire view h1"
    using Suc.hyps(1) [of h1] calculation by blast
  ultimately show ?case
    by (subst wait_until.simps) (simp add: transmit_empty_def SERIAL_PORT_def and_0x20 r)
qed

text \<open>Writing comes back, however long the line is busy, and everything arrives.\<close>

theorem write_serial_sends:
  assumes "uart_hw io view"
  shows "\<exists>h'. write_serial io buf h = Some (h', of_nat (length buf)) \<and> uv_wire view h' = uv_wire view h @ buf"
proof -
  have "\<exists>h'. bind_fold (send_byte io) h buf = Some h' \<and> uv_wire view h' = uv_wire view h @ buf"
  proof (induction buf arbitrary: h)
    case (Cons b buf)
    obtain h1 where h1: "wait_until (transmit_empty io) h = Some h1" "uv_wire view h1 = uv_wire view h"
      using wait_transmit [OF assms] by blast
    have s: "send_byte io h b = Some (io_outb io SERIAL_PORT b h1)" using h1(1) by (simp add: send_byte_def)
    have w: "uv_wire view (io_outb io SERIAL_PORT b h1) = uv_wire view h @ [b]"
      using assms h1(2) by (simp add: uart_hw_def SERIAL_PORT_def)
    then show ?case using Cons.IH [of "io_outb io SERIAL_PORT b h1"] s by auto
  qed simp
  then show ?thesis by (auto simp: write_serial_def)
qed

end
