(* ===== verification/Shell.thy ===== *)
theory Shell
  imports CStrings
begin

text \<open>
  \<^verbatim>\<open>userland/ports/test_progs/sh.c\<close>: the shell. A line is in memory and is cut there; the words are
  pointers into it. The C library and the kernel are behind the functions of \<open>shell_sys\<close>.
\<close>

section \<open>Cutting a line\<close>

partial_function (option) count_splits :: "memory \<Rightarrow> nat \<Rightarrow> u8 \<Rightarrow> nat \<Rightarrow> nat \<Rightarrow> nat option" where
  "count_splits m s c i nchars =
     do { b \<leftarrow> m (s + i);
          if b = 0 then Some nchars else count_splits m s c (Suc i) (if b = c then nchars + 1 else nchars) }"

partial_function (option) split_from ::
  "memory \<Rightarrow> nat \<Rightarrow> u8 \<Rightarrow> nat \<Rightarrow> nat \<Rightarrow> nat list \<Rightarrow> (memory \<times> nat \<times> nat list) option" where
  "split_from m s c i j ret =
     do { b \<leftarrow> m (s + i);
          if b = 0 then Some (m, j, ret)
          else if i = 0 then do { ret1 \<leftarrow> write_at ret j s; split_from m s c (Suc i) (Suc j) ret1 }
          else if b = c
          then do { m1 \<leftarrow> store m (s + i) 0;
                    ret1 \<leftarrow> write_at ret j (s + i + 1);
                    split_from m1 s c (Suc i) (Suc j) ret1 }
          else split_from m s c (Suc i) j ret }"

declare count_splits.simps [code] split_from.simps [code]

text \<open>\<open>malloc\<close> does not clear the array.\<close>

definition split_str :: "(nat \<Rightarrow> nat) \<Rightarrow> memory \<Rightarrow> nat \<Rightarrow> u8 \<Rightarrow> (memory \<times> nat list) option" where
  "split_str junk m s c =
     do { nchars \<leftarrow> count_splits m s c 0 0;
          if nchars \<noteq> 0
          then do { (m1, j, ret) \<leftarrow> split_from m s c 0 0 (map junk [0..<nchars + 2]);
                    ret1 \<leftarrow> write_at ret j 0;
                    Some (m1, ret1) }
          else Some (m, [s, 0]) }"

section \<open>Running a command\<close>

record 'k shell_sys =
  sys_chdir :: "'k \<Rightarrow> u8 list \<Rightarrow> 'k \<times> int"
  sys_spawn :: "'k \<Rightarrow> u8 list \<Rightarrow> u8 list list \<Rightarrow> 'k \<times> int"
  sys_waitpid :: "'k \<Rightarrow> int \<Rightarrow> 'k \<times> int"

datatype shell_output = NoSuchDirectory "u8 list" | ToRoot | HelpText | NotFound "u8 list"

record 'k shell =
  sh_kernel :: 'k
  sh_running :: bool
  sh_out :: "shell_output list"

definition CD :: "u8 list" where "CD = [0x63, 0x64]"
definition EXIT :: "u8 list" where "EXIT = [0x65, 0x78, 0x69, 0x74]"
definition HELP :: "u8 list" where "HELP = [0x68, 0x65, 0x6c, 0x70]"
definition shell_path :: "u8 list" where "shell_path = [0x2f, 0x62, 0x69, 0x6e, 0x2f]"

definition say :: "shell_output \<Rightarrow> 'k shell \<Rightarrow> 'k shell" where
  "say t sh = sh\<lparr>sh_out := sh_out sh @ [t]\<rparr>"

text \<open>The block of 32 bytes for the name of the program.\<close>

definition cmdbuf :: "u8 list \<Rightarrow> u8 list" where
  "cmdbuf arg0 = shell_path @ take (32 - length shell_path - 1) arg0"

definition exec_program :: "'k shell_sys \<Rightarrow> 'k shell \<Rightarrow> u8 list list \<Rightarrow> 'k shell \<times> int" where
  "exec_program sys sh args =
     (let (k, pid) = sys_spawn sys (sh_kernel sh) (cmdbuf (hd args)) args in
      if 0 < pid then (let (k2, ret) = sys_waitpid sys k pid in (sh\<lparr>sh_kernel := k2\<rparr>, ret))
      else (say (NotFound (cmdbuf (hd args))) (sh\<lparr>sh_kernel := k\<rparr>), 0))"

definition change_dir :: "'k shell_sys \<Rightarrow> 'k shell \<Rightarrow> u8 list list \<Rightarrow> 'k shell" where
  "change_dir sys sh rest =
     (case rest of
        [] \<Rightarrow> (let s1 = say ToRoot sh; (k, r) = sys_chdir sys (sh_kernel s1) [0x2f] in s1\<lparr>sh_kernel := k\<rparr>)
      | dir # _ \<Rightarrow> (let (k, r) = sys_chdir sys (sh_kernel sh) dir; s1 = sh\<lparr>sh_kernel := k\<rparr> in
                  if r < 0 then say (NoSuchDirectory dir) s1 else s1))"

text \<open>\<open>args\<close> are the strings before the null pointer; without any the first access is to the null pointer.\<close>

definition exec_cmd :: "'k shell_sys \<Rightarrow> 'k shell \<Rightarrow> u8 list list \<Rightarrow> ('k shell \<times> int) option" where
  "exec_cmd sys sh args =
     (case args of
        [] \<Rightarrow> None
      | a # rest \<Rightarrow>
          if a = [] then Some (sh, 0)
          else if a = CD then Some (change_dir sys sh rest, 0)
          else if a = EXIT then Some (sh\<lparr>sh_running := False\<rparr>, 0)
          else if a = HELP then Some (say HelpText sh, 0)
          else Some (exec_program sys sh args))"

section \<open>The main loop\<close>

partial_function (option) strip_newline :: "memory \<Rightarrow> nat \<Rightarrow> nat \<Rightarrow> memory option" where
  "strip_newline m buf i =
     do { b \<leftarrow> m (buf + i);
          if b = 0 then Some m
          else if b = 10 then store m (buf + i) 0
          else strip_newline m buf (Suc i) }"

declare strip_newline.simps [code]

fun read_args :: "memory \<Rightarrow> nat list \<Rightarrow> u8 list list option" where
  "read_args m [] = None"
| "read_args m (p # ps) =
     (if p = 0 then Some []
      else do { n \<leftarrow> strlen m p; w \<leftarrow> load_bytes m p n; ws \<leftarrow> read_args m ps; Some (w # ws) })"

text \<open>One round, after \<open>fgets\<close> has put a line into \<open>buf\<close>.\<close>

definition sh_round :: "(nat \<Rightarrow> nat) \<Rightarrow> 'k shell_sys \<Rightarrow> memory \<Rightarrow> nat \<Rightarrow> 'k shell \<Rightarrow> (memory \<times> 'k shell \<times> int) option" where
  "sh_round junk sys m buf sh =
     do { m1 \<leftarrow> strip_newline m buf 0;
          (m2, splitbuf) \<leftarrow> split_str junk m1 buf 0x20;
          args \<leftarrow> read_args m2 splitbuf;
          (sh1, ret) \<leftarrow> exec_cmd sys sh args;
          Some (m2, sh1, ret) }"

section \<open>The words of a line\<close>

text \<open>The words between the separators; a separator in front stays at the first word.\<close>

definition shell_words :: "u8 \<Rightarrow> u8 list \<Rightarrow> u8 list list" where
  "shell_words c line =
     (case line of [] \<Rightarrow> [[]] | x # xs \<Rightarrow> (x # hd (splits (\<lambda>y. y = c) xs)) # tl (splits (\<lambda>y. y = c) xs))"

lemma shell_words_splits: "line = [] \<or> hd line \<noteq> c \<Longrightarrow> shell_words c line = splits (\<lambda>y. y = c) line"
  by (cases line) (simp_all add: shell_words_def)

definition cut_at :: "u8 \<Rightarrow> u8 list \<Rightarrow> u8 list" where
  "cut_at c xs = map (\<lambda>x. if x = c then 0 else x) xs"

fun word_starts :: "u8 \<Rightarrow> nat \<Rightarrow> u8 list \<Rightarrow> nat list" where
  "word_starts c p [] = []"
| "word_starts c p (x # xs) = (if x = c then [Suc p] else []) @ word_starts c (Suc p) xs"

lemma cut_simps [simp]: "cut_at c [] = []" "cut_at c (x # xs) = (if x = c then 0 else x) # cut_at c xs" "length (cut_at c xs) = length xs"
  by (simp_all add: cut_at_def)

lemma length_word_starts [simp]: "length (word_starts c p xs) = count_list xs c"
  by (induction xs arbitrary: p) auto

lemma count_splits_ok: "cstr m (s + i) xs \<Longrightarrow> count_splits m s c i n = Some (n + count_list xs c)"
proof (induction xs arbitrary: i n)
  case Nil
  then show ?case by (subst count_splits.simps) simp
next
  case (Cons x xs)
  then show ?case by (subst count_splits.simps) simp
qed

lemma split_from_ok:
  assumes "cstr m (s + i) xs" "0 < i" "j + count_list xs c \<le> length ret"
  shows "split_from m s c i j ret = Some (upd_bytes m (s + i) (cut_at c xs), j + count_list xs c,
      take j ret @ word_starts c (s + i) xs @ drop (j + count_list xs c) ret)"
  using assms
proof (induction xs arbitrary: m i j ret)
  case Nil
  then show ?case by (subst split_from.simps) simp
next
  case (Cons x xs)
  have x: "m (s + i) = Some x" "x \<noteq> 0" "cstr m (s + Suc i) xs" using Cons.prems(1) by simp_all
  show ?case
  proof (cases "x = c")
    case True
    let ?m = "m(s + i \<mapsto> 0)"
    have j: "j < length ret" "Suc j + count_list xs c \<le> length (ret[j := Suc (s + i)])" using Cons.prems(3) True by auto
    have "cstr ?m (s + Suc i) xs" using x(3) by (auto simp: cstr_def intro!: bytes_at_upd)
    note IH = Cons.IH [of ?m "Suc i" "Suc j" "ret[j := Suc (s + i)]", OF this zero_less_Suc j(2)]
    have t: "take (Suc j) (ret[j := Suc (s + i)]) = take j ret @ [Suc (s + i)]"
      using j(1) by (simp add: take_Suc_conv_app_nth)
    have "split_from m s c i j ret = split_from ?m s c (Suc i) (Suc j) (ret[j := Suc (s + i)])"
      using True x Cons.prems(2) j(1) by (subst split_from.simps) (simp add: store_ok)
    also note IH
    finally show ?thesis using True t by (simp add: upd_bytes_Cons del: fun_upd_apply)
  next
    case False
    have "m(s + i \<mapsto> x) = m" using x(1) by auto
    then show ?thesis
      using False x Cons.IH [OF x(3), of j ret] Cons.prems(2,3) by (subst split_from.simps) (simp add: upd_bytes_Cons)
  qed
qed

lemma words_at:
  assumes "bytes_at m p (w @ cut_at c xs @ [0])" "0 \<notin> set w" "0 \<notin> set xs"
  shows "list_all2 (cstr m) (p # word_starts c (p + length w) xs)
    ((w @ hd (splits (\<lambda>y. y = c) xs)) # tl (splits (\<lambda>y. y = c) xs))"
  using assms
proof (induction xs arbitrary: p w)
  case Nil
  then show ?case by (simp add: cstr_def)
next
  case (Cons x xs)
  show ?case
  proof (cases "x = c")
    case True
    have "cstr m p w" using Cons.prems True by (simp add: cstr_def)
    moreover have "list_all2 (cstr m) (Suc (p + length w) # word_starts c (Suc (p + length w)) xs) (splits (\<lambda>y. y = c) xs)"
      using Cons.IH [of "Suc (p + length w)" "[]"] Cons.prems True by simp
    ultimately show ?thesis using True by simp
  next
    case False
    then show ?thesis using Cons.IH [of p "w @ [x]"] Cons.prems by simp
  qed
qed

text \<open>The words of the line are where the pointers point, and the array of the pointers is large enough.\<close>

lemma split_str_words:
  assumes "cstr m s line"
  shows "\<exists>m' ps rest. split_str junk m s c = Some (m', ps @ 0 # rest) \<and> list_all2 (cstr m') ps (shell_words c line)
    \<and> 0 \<notin> set (tl ps) \<and> hd ps = s \<and> ps \<noteq> [] \<and> (\<forall>a. a < s \<or> s + length line < a \<longrightarrow> m' a = m a)"
proof (cases "count_list line c = 0")
  case True
  have "list_all2 (cstr m) [s] (shell_words c line)"
  proof (cases line)
    case (Cons x xs)
    then have "splits (\<lambda>y. y = c) xs = [xs]" using True by (intro splits_end) (auto simp: count_list_0_iff split: if_splits)
    then show ?thesis using assms Cons by (simp add: shell_words_def)
  qed (use assms in \<open>simp add: shell_words_def\<close>)
  moreover have "split_str junk m s c = Some (m, [s] @ 0 # [])"
    using count_splits_ok [of m s 0 line c 0] assms True by (simp add: split_str_def)
  ultimately show ?thesis by (metis list.sel(1,3) list.simps(3) empty_iff list.set(1))
next
  case False
  then obtain x xs where line: "line = x # xs" by (cases line) auto
  define n where "n = count_list line c"
  let ?r = "(map junk [0..<n + 2])[0 := s]"
  have x: "m s = Some x" "x \<noteq> 0" "cstr m (s + 1) xs" using assms line by simp_all
  have le: "1 + count_list xs c \<le> length ?r" using line by (simp add: n_def)
  let ?m = "upd_bytes m (s + 1) (cut_at c xs)" and ?ps = "s # word_starts c (s + 1) xs"
  have "split_from m s c 0 0 (map junk [0..<n + 2]) = split_from m s c 1 1 ?r"
    by (subst split_from.simps) (simp add: x(1,2))
  also have "\<dots> = Some (?m, 1 + count_list xs c, take 1 ?r @ word_starts c (s + 1) xs @ drop (1 + count_list xs c) ?r)"
    using split_from_ok [OF x(3) _ le] by simp
  also have "take 1 ?r = [s]" by (cases "map junk [0..<n + 2]") auto
  finally have sf: "split_from m s c 0 0 (map junk [0..<n + 2])
      = Some (?m, 1 + count_list xs c, ?ps @ drop (1 + count_list xs c) ?r)" by simp
  obtain y ys where d: "drop (1 + count_list xs c) ?r = y # ys"
    using line by (cases "drop (1 + count_list xs c) ?r") (auto simp: n_def split: if_splits)
  have "split_str junk m s c = Some (?m, ?ps @ 0 # ys)"
    using count_splits_ok [of m s 0 line c 0] assms False sf d
    by (simp add: split_str_def n_def list_update_append write_at_in)
  moreover have "list_all2 (cstr ?m) ?ps (shell_words c line)"
  proof -
    have "bytes_at m s ((x # xs) @ [0])" "0 \<notin> set (x # xs)" using assms line by (auto simp: cstr_def)
    then have "bytes_at ?m s ([x] @ cut_at c xs @ [0])" by (auto simp: bytes_at_def upd_bytes_def nth_append nth_Cons')
    from words_at [OF this] show ?thesis using \<open>0 \<notin> set (x # xs)\<close> by (simp add: line shell_words_def)
  qed
  moreover have "0 \<notin> set (word_starts c (s + 1) xs)"
  proof -
    have "0 \<notin> set (word_starts c p xs)" for p by (induction xs arbitrary: p) auto
    then show ?thesis .
  qed
  moreover have "\<forall>a. a < s \<or> s + length line < a \<longrightarrow> ?m a = m a" using line by (auto simp: upd_bytes_def)
  ultimately show ?thesis by (intro exI [of _ ?m] exI [of _ ?ps] exI [of _ ys]) simp
qed

lemma read_args_ok: "list_all2 (cstr m) ps ws \<Longrightarrow> 0 \<notin> set ps \<Longrightarrow> read_args m (ps @ 0 # rest) = Some ws"
proof (induction ps ws rule: list_all2_induct)
  case (Cons p ps w ws)
  have "bytes_at m p w" using Cons.hyps(1) by (simp add: cstr_def)
  then show ?case using Cons load_bytes_ok [of m p w] strlen_ok [OF Cons.hyps(1)] by simp
qed simp

lemma strip_newline_ok:
  assumes "cstr m (buf + i) (xs @ 10 # rest)" "10 \<notin> set xs"
  shows "strip_newline m buf i = Some (m(buf + i + length xs \<mapsto> 0))"
  using assms
proof (induction xs arbitrary: i)
  case Nil
  then show ?case by (subst strip_newline.simps) (simp add: store_ok)
next
  case (Cons x xs)
  then show ?case by (subst strip_newline.simps) (simp add: fun_upd_def)
qed

text \<open>A line that is typed runs the command of its words: the shell goes on with what the command leaves,
  and the memory outside of the line is as before.\<close>

theorem sh_round_runs_words:
  assumes "cstr m buf (line @ 10 # rest)" "10 \<notin> set line" "0 < buf" "exec_cmd sys sh (shell_words 0x20 line) = Some (sh', ret)"
  shows "\<exists>m'. sh_round junk sys m buf sh = Some (m', sh', ret)
    \<and> (\<forall>a. a < buf \<or> buf + length line < a \<longrightarrow> m' a = m a)"
proof -
  let ?m = "m(buf + length line \<mapsto> 0)"
  have strip: "strip_newline m buf 0 = Some ?m" using strip_newline_ok [of m buf 0 line rest] assms by simp
  have "bytes_at m buf line" "0 \<notin> set line" using assms(1) by (auto simp: cstr_def)
  then have "cstr ?m buf line" by (auto simp: cstr_def intro!: bytes_at_upd)
  from split_str_words [OF this, of junk "0x20"] obtain m' ps r where
    sp: "split_str junk ?m buf 0x20 = Some (m', ps @ 0 # r)" "list_all2 (cstr m') ps (shell_words 0x20 line)"
      "0 \<notin> set (tl ps)" "hd ps = buf" "ps \<noteq> []" "\<forall>a. a < buf \<or> buf + length line < a \<longrightarrow> m' a = ?m a"
    by blast
  have "0 \<notin> set ps" using sp(3-5) assms(3) by (cases ps) auto
  then show ?thesis using strip sp(1,6) read_args_ok [OF sp(2)] assms(4) by (simp add: sh_round_def)
qed

end
